(* ===== verification/Prelude.thy ===== *)
theory Prelude
  imports Complex_Main "HOL-Library.List_Lexorder" "HOL-Library.Char_ord"
    "HOL-Library.Product_Lexorder" "HOL-Library.Multiset"
begin

text \<open>
  Shared vocabulary of the development: the byte strings and error values of the Go code,
  the fact collections, and the contract of Go's comparison functions (\<open>sort.Slice\<close>,
  \<open>sort.SliceStable\<close>, \<open>sort.Strings\<close>) with the sorting lemmas that every component
  that returns an ordered result rests on.
\<close>

section \<open>Values\<close>

text \<open>A Go string is a sequence of bytes; \<open>len\<close> counts bytes and \<open><\<close> compares them.\<close>

type_synonym bytes = string

text \<open>
  An error is the message of \<open>errors.New\<close>, the format of \<open>fmt.Errorf\<close> with the strings and
  numbers it prints, a \<open>%w\<close> wrapper around another error, or the \<open>errors.Join\<close> of two.
\<close>

datatype go_error =
    Msg bytes
  | MsgStr bytes bytes
  | MsgNum bytes "int list"
  | Wrapped bytes "int list" go_error
  | Joined go_error go_error

type_synonym 'a res = "go_error + 'a"

definition is_ok :: "'a res \<Rightarrow> bool" where
  "is_ok r \<longleftrightarrow> (case r of Inl _ \<Rightarrow> False | Inr _ \<Rightarrow> True)"

lemma is_ok_simps [simp]: "is_ok (Inr x)" "\<not> is_ok (Inl e)"
  by (simp_all add: is_ok_def)

lemma is_ok_iff: "is_ok r \<longleftrightarrow> (\<exists>x. r = Inr x)"
  by (cases r) simp_all

named_theorems go_simps \<open>defining equations the component proofs unfold\<close>

text \<open>Two's complement wrap-around of Go's 64-bit \<open>int\<close> and \<open>int64\<close>.\<close>

definition wrap64 :: "int \<Rightarrow> int" where
  "wrap64 n = (n + 2 ^ 63) mod 2 ^ 64 - 2 ^ 63"

lemma wrap64_small: "- (2 ^ 63) \<le> n \<Longrightarrow> n < 2 ^ 63 \<Longrightarrow> wrap64 n = n"
  by (simp add: wrap64_def)

lemma wrap64_range: "- (2 ^ 63) \<le> wrap64 n \<and> wrap64 n < 2 ^ 63"
  using pos_mod_bound [of "2 ^ 64" "n + 2 ^ 63"] pos_mod_sign [of "2 ^ 64" "n + 2 ^ 63"]
  by (simp add: wrap64_def)

section \<open>Sorting under a Go comparison function\<close>

text \<open>
  Insertion under \<open>lt\<close>, before the first element that is not smaller: the result of
  sorting keeps the input order of elements the comparison does not separate, which is what
  \<open>sort.SliceStable\<close> promises. \<open>sort.Slice\<close> leaves the order of such elements open, so a
  statement about a result of \<open>sort.Slice\<close> in this development never depends on it.
\<close>

fun insert_by :: "('a \<Rightarrow> 'a \<Rightarrow> bool) \<Rightarrow> 'a \<Rightarrow> 'a list \<Rightarrow> 'a list" where
  "insert_by lt x [] = [x]"
| "insert_by lt x (y # ys) =
     (if lt y x then y # insert_by lt x ys else x # y # ys)"

definition sort_by :: "('a \<Rightarrow> 'a \<Rightarrow> bool) \<Rightarrow> 'a list \<Rightarrow> 'a list" where
  "sort_by lt xs = foldr (insert_by lt) xs []"

lemma mset_insert_by [simp]: "mset (insert_by lt x ys) = add_mset x (mset ys)"
  by (induction ys) auto

lemma sort_by_Nil [simp]: "sort_by lt [] = []"
  and sort_by_Cons [simp]: "sort_by lt (x # xs) = insert_by lt x (sort_by lt xs)"
  by (simp_all add: sort_by_def)

lemma mset_sort_by [simp]: "mset (sort_by lt xs) = mset xs"
  by (induction xs) auto

lemma set_sort_by [simp]: "set (sort_by lt xs) = set xs"
  using mset_eq_setD [OF mset_sort_by] .

lemma length_sort_by [simp]: "length (sort_by lt xs) = length xs"
  using mset_eq_length [OF mset_sort_by] .

lemma distinct_sort_by [simp]: "distinct (sort_by lt xs) = distinct xs"
  using mset_eq_imp_distinct_iff [OF mset_sort_by] .

lemma sort_by_empty_iff [simp]: "sort_by lt xs = [] \<longleftrightarrow> xs = []"
  by (metis length_0_conv length_sort_by)

lemma set_insert_by [simp]: "set (insert_by lt x ys) = insert x (set ys)"
  by (induction ys) auto

text \<open>
  The contract of a comparison function: a strict weak order. \<open>ordered\<close> is the result it
  promises: no later element is smaller than an earlier one.
\<close>

definition ordered :: "('a \<Rightarrow> 'a \<Rightarrow> bool) \<Rightarrow> 'a list \<Rightarrow> bool" where
  "ordered lt xs \<longleftrightarrow> sorted_wrt (\<lambda>x y. \<not> lt y x) xs"

locale weak_order =
  fixes lt :: "'a \<Rightarrow> 'a \<Rightarrow> bool"
  assumes asym: "lt x y \<Longrightarrow> \<not> lt y x"
    and split: "lt x z \<Longrightarrow> lt x y \<or> lt y z"
begin

lemma irrefl [simp]: "\<not> lt x x"
  using asym by blast

lemma less_trans: "lt x y \<Longrightarrow> lt y z \<Longrightarrow> lt x z"
  using asym split by blast

lemma not_less_trans: "\<not> lt y x \<Longrightarrow> \<not> lt z y \<Longrightarrow> \<not> lt z x"
  using split by blast

lemma ordered_insert_by: "ordered lt ys \<Longrightarrow> ordered lt (insert_by lt x ys)"
proof (induction ys)
  case Nil
  then show ?case by (simp add: ordered_def)
next
  case (Cons y ys)
  show ?case
  proof (cases "lt y x")
    case True
    then have "\<not> lt x y" by (rule asym)
    with True Cons show ?thesis by (simp add: ordered_def)
  next
    case False
    then have "\<not> lt z x" if "z \<in> set ys" for z
      using that Cons.prems not_less_trans by (fastforce simp: ordered_def)
    with False Cons.prems show ?thesis by (simp add: ordered_def)
  qed
qed

lemma ordered_sort_by: "ordered lt (sort_by lt xs)"
  by (induction xs) (simp_all add: ordered_insert_by, simp add: ordered_def)

lemma filter_insert_by:
  assumes "\<And>y. y \<in> set ys \<Longrightarrow> P y \<Longrightarrow> P x \<Longrightarrow> \<not> lt y x"
  shows "filter P (insert_by lt x ys) = (if P x then x # filter P ys else filter P ys)"
  using assms by (induction ys) auto

text \<open>Stability: a class of elements the comparison does not separate keeps its order.\<close>

lemma sort_by_stable:
  assumes "\<And>x y. P x \<Longrightarrow> P y \<Longrightarrow> \<not> lt x y"
  shows "filter P (sort_by lt xs) = filter P xs"
  by (induction xs) (simp_all add: filter_insert_by assms)

lemma ordered_unique:
  assumes "ordered lt xs" and "ordered lt ys" and "mset xs = mset ys"
    and "\<And>x y. x \<in> set xs \<Longrightarrow> y \<in> set xs \<Longrightarrow> x \<noteq> y \<Longrightarrow> lt x y \<or> lt y x"
  shows "xs = ys"
  using assms
proof (induction xs arbitrary: ys)
  case Nil
  then show ?case by simp
next
  case (Cons x xs)
  then obtain y ys' where ys: "ys = y # ys'" by (cases ys) auto
  have "x \<in> set ys" and "y \<in> set (x # xs)"
    using mset_eq_setD [OF Cons.prems(3)] ys by auto
  then have "x = y"
    using Cons.prems ys by (auto simp: ordered_def)
  then show ?case
    using Cons.prems Cons.IH [of ys'] ys by (auto simp: ordered_def)
qed

text \<open>The result is a function of the elements alone when the comparison separates them.\<close>

lemma sort_by_determined:
  assumes "mset xs = mset ys"
    and "\<And>x y. x \<in> set xs \<Longrightarrow> y \<in> set xs \<Longrightarrow> x \<noteq> y \<Longrightarrow> lt x y \<or> lt y x"
  shows "sort_by lt xs = sort_by lt ys"
  by (rule ordered_unique) (use assms ordered_sort_by in auto)

end

text \<open>Every comparison of the code compares a key drawn from a linear order.\<close>

lemma weak_order_key:
  fixes k :: "'a \<Rightarrow> 'b::linorder"
  shows "weak_order (\<lambda>x y. k x < k y)"
  by unfold_locales auto

interpretation linear: weak_order "(<) :: 'a::linorder \<Rightarrow> 'a \<Rightarrow> bool"
  using weak_order_key [of "\<lambda>x. x"] .

lemma ordered_linear_iff: "ordered (<) (xs :: 'a::linorder list) \<longleftrightarrow> sorted xs"
  by (simp add: ordered_def sorted_wrt_iff_nth_less sorted_iff_nth_mono_less linorder_not_less)

text \<open>\<open>sort.Strings\<close> and its kin are the library's \<open>sort\<close>.\<close>

lemma sort_by_linear: "sort_by (<) (xs :: 'a::linorder list) = sort xs"
  by (rule properties_for_sort [symmetric]) (simp_all add: linear.ordered_sort_by flip: ordered_linear_iff)

section \<open>Lists and association lists\<close>

text \<open>First-occurrence order without duplicates: a Go loop guarded by a \<open>seen\<close> set.\<close>

fun dedup_on :: "('a \<Rightarrow> 'b) \<Rightarrow> 'b set \<Rightarrow> 'a list \<Rightarrow> 'a list" where
  "dedup_on k seen [] = []"
| "dedup_on k seen (x # xs) =
     (if k x \<in> seen then dedup_on k seen xs else x # dedup_on k (insert (k x) seen) xs)"

lemma dedup_on_keys:
  "distinct (map k (dedup_on k seen xs))"
  "k ` set (dedup_on k seen xs) = k ` set xs - seen"
  by (induction xs arbitrary: seen) auto

lemma dedup_on_subset: "set (dedup_on k seen xs) \<subseteq> set xs"
proof (induction xs arbitrary: seen)
  case Nil
  then show ?case by simp
next
  case (Cons x xs)
  from Cons.IH [of seen] Cons.IH [of "insert (k x) seen"] show ?case by auto
qed

lemma list_all2_eq_length: "list_all2 P xs ys \<Longrightarrow> length xs = length ys"
  by (rule list_all2_lengthD)

lemma map_of_eq_Some_iff_distinct:
  "distinct (map fst xs) \<Longrightarrow> map_of xs k = Some v \<longleftrightarrow> (k, v) \<in> set xs"
  by (rule map_of_eq_Some_iff)

end
