(* ===== verification/GoStd.thy ===== *)
theory GoStd
  imports Prelude
begin

text \<open>
  The part of Go's standard library that the modelled code calls on strings and paths:
  \<open>strings\<close> (Split, Join, HasPrefix, TrimPrefix, TrimSuffix, TrimSpace, ToLower on ASCII),
  \<open>path\<close>/\<open>path/filepath\<close> on Unix (Clean, IsAbs, Ext, Dir, Base, Join) and decimal
  formatting. The lemmas say what the callers rely on: splitting and joining are inverse,
  Clean is idempotent, and a path the code accepts as repository-relative names nothing above
  the repository root.
\<close>

section \<open>Strings\<close>

definition has_prefix :: "bytes \<Rightarrow> bytes \<Rightarrow> bool" where
  "has_prefix p s \<longleftrightarrow> take (length p) s = p"

definition has_suffix :: "bytes \<Rightarrow> bytes \<Rightarrow> bool" where
  "has_suffix p s \<longleftrightarrow> has_prefix (rev p) (rev s)"

definition trim_prefix :: "bytes \<Rightarrow> bytes \<Rightarrow> bytes" where
  "trim_prefix p s = (if has_prefix p s then drop (length p) s else s)"

definition trim_suffix :: "bytes \<Rightarrow> bytes \<Rightarrow> bytes" where
  "trim_suffix p s = (if has_suffix p s then take (length s - length p) s else s)"

lemma has_prefix_append [simp]: "has_prefix p (p @ s)"
  by (simp add: has_prefix_def)

lemma has_prefix_iff: "has_prefix p s \<longleftrightarrow> (\<exists>t. s = p @ t)"
  unfolding has_prefix_def by (metis append_eq_conv_conj append_take_drop_id)

fun split_on :: "char \<Rightarrow> bytes \<Rightarrow> bytes list" where
  "split_on c [] = [[]]"
| "split_on c (x # xs) =
     (if x = c then [] # split_on c xs
      else (case split_on c xs of [] \<Rightarrow> [[x]] | w # ws \<Rightarrow> (x # w) # ws))"

fun join_with :: "bytes \<Rightarrow> bytes list \<Rightarrow> bytes" where
  "join_with sep [] = []"
| "join_with sep [w] = w"
| "join_with sep (w # v # ws) = w @ sep @ join_with sep (v # ws)"

lemma split_on_nonempty [simp]: "split_on c s \<noteq> []"
  by (induction s) (auto split: list.splits)

lemma join_split [simp]: "join_with [c] (split_on c s) = s"
proof (induction s)
  case Nil
  then show ?case by simp
next
  case (Cons x s)
  obtain w ws where "split_on c s = w # ws"
    by (cases "split_on c s") auto
  with Cons show ?case by (cases ws) auto
qed

lemma split_on_sepfree: "c \<notin> set w \<Longrightarrow> split_on c w = [w]"
  by (induction w) auto

lemma split_on_append: "c \<notin> set w \<Longrightarrow> split_on c (w @ c # s) = w # split_on c s"
  by (induction w) auto

lemma split_join:
  "ws \<noteq> [] \<Longrightarrow> \<forall>w \<in> set ws. c \<notin> set w \<Longrightarrow> split_on c (join_with [c] ws) = ws"
  by (induction "[c]" ws rule: join_with.induct) (auto simp: split_on_sepfree split_on_append)

lemma split_on_no_sep: "w \<in> set (split_on c s) \<Longrightarrow> c \<notin> set w"
  by (induction s arbitrary: w) (auto split: if_splits list.splits)

lemma join_with_snoc: "ws \<noteq> [] \<Longrightarrow> join_with sep (ws @ [w]) = join_with sep ws @ sep @ w"
  by (induction sep ws rule: join_with.induct) auto

text \<open>
  The UTF-8 encodings of the code points of \<open>unicode.IsSpace\<close>. An encoding at the end of a
  string is what \<open>DecodeLastRune\<close> finds there, so trimming both ends of the byte string by
  these encodings is \<open>strings.TrimSpace\<close>, on valid UTF-8 and on any other bytes.
\<close>

definition space_encodings :: "bytes list" where
  "space_encodings =
     [[CHR 0x09], [CHR 0x0A], [CHR 0x0B], [CHR 0x0C], [CHR 0x0D], [CHR 0x20],
      [CHR 0xC2, CHR 0x85], [CHR 0xC2, CHR 0xA0], [CHR 0xE1, CHR 0x9A, CHR 0x80],
      [CHR 0xE2, CHR 0x80, CHR 0x80], [CHR 0xE2, CHR 0x80, CHR 0x81],
      [CHR 0xE2, CHR 0x80, CHR 0x82], [CHR 0xE2, CHR 0x80, CHR 0x83],
      [CHR 0xE2, CHR 0x80, CHR 0x84], [CHR 0xE2, CHR 0x80, CHR 0x85],
      [CHR 0xE2, CHR 0x80, CHR 0x86], [CHR 0xE2, CHR 0x80, CHR 0x87],
      [CHR 0xE2, CHR 0x80, CHR 0x88], [CHR 0xE2, CHR 0x80, CHR 0x89],
      [CHR 0xE2, CHR 0x80, CHR 0x8A], [CHR 0xE2, CHR 0x80, CHR 0xA8],
      [CHR 0xE2, CHR 0x80, CHR 0xA9], [CHR 0xE2, CHR 0x80, CHR 0xAF],
      [CHR 0xE2, CHR 0x81, CHR 0x9F], [CHR 0xE3, CHR 0x80, CHR 0x80]]"

definition strip_width :: "bytes list \<Rightarrow> bytes \<Rightarrow> nat" where
  "strip_width encs s =
     (case find (\<lambda>e. has_prefix e s) encs of None \<Rightarrow> 0 | Some e \<Rightarrow> length e)"

lemma strip_width_le: "strip_width encs s \<le> length s"
proof (cases "find (\<lambda>e. has_prefix e s) encs")
  case None
  then show ?thesis by (simp add: strip_width_def)
next
  case (Some e)
  then have "has_prefix e s" by (auto simp: find_Some_iff)
  with Some show ?thesis by (auto simp: strip_width_def has_prefix_iff)
qed

function strip_front :: "bytes list \<Rightarrow> bytes \<Rightarrow> bytes" where
  "strip_front encs s =
     (if strip_width encs s = 0 then s else strip_front encs (drop (strip_width encs s) s))"
  by pat_completeness auto
termination
proof (relation "measure (\<lambda>(encs, s). length s)", goal_cases)
  case 1
  then show ?case by simp
next
  case (2 encs s)
  then show ?case using strip_width_le [of encs s] by simp
qed

declare strip_front.simps [simp del]

definition trim_space :: "bytes \<Rightarrow> bytes" where
  "trim_space s =
     rev (strip_front (map rev space_encodings) (rev (strip_front space_encodings s)))"

abbreviation blank :: "bytes \<Rightarrow> bool" where
  "blank s \<equiv> trim_space s = []"

text \<open>A string that ends in a printable ASCII character is not blank.\<close>

lemma strip_front_last:
  "s \<noteq> [] \<Longrightarrow> \<forall>e \<in> set encs. e = [] \<or> last e \<noteq> last s \<Longrightarrow>
   strip_front encs s \<noteq> [] \<and> last (strip_front encs s) = last s"
proof (induction encs s rule: strip_front.induct)
  case (1 encs s)
  show ?case
  proof (cases "strip_width encs s = 0")
    case True
    then show ?thesis using "1.prems" by (simp add: strip_front.simps [of encs s])
  next
    case False
    then obtain e where e: "find (\<lambda>e. has_prefix e s) encs = Some e" "strip_width encs s = length e" "e \<noteq> []"
      by (auto simp: strip_width_def split: option.splits)
    then have mem: "e \<in> set encs" "has_prefix e s" by (auto simp: find_Some_iff)
    have "drop (strip_width encs s) s \<noteq> []"
    proof
      assume "drop (strip_width encs s) s = []"
      then have "s = e" using mem(2) e(2) by (auto simp: has_prefix_iff)
      then show False using "1.prems"(2) mem(1) e(3) by auto
    qed
    then show ?thesis
      using "1.IH" [OF False] "1.prems"(2) False by (simp add: strip_front.simps [of encs s] last_drop)
  qed
qed

lemma strip_front_noop:
  "\<forall>e \<in> set encs. e = [] \<or> s = [] \<or> hd e \<noteq> hd s \<Longrightarrow> strip_front encs s = s"
proof -
  assume h: "\<forall>e \<in> set encs. e = [] \<or> s = [] \<or> hd e \<noteq> hd s"
  have "length e = 0" if "find (\<lambda>e. has_prefix e s) encs = Some e" for e
  proof -
    from that have "e \<in> set encs" "has_prefix e s" by (auto simp: find_Some_iff)
    with h show ?thesis by (cases e) (auto simp: has_prefix_iff)
  qed
  then have "strip_width encs s = 0" by (auto simp: strip_width_def split: option.splits)
  then show ?thesis by (simp add: strip_front.simps)
qed

lemma nonblank_last:
  assumes "s \<noteq> []" and "33 \<le> (of_char (last s) :: nat)" and "(of_char (last s) :: nat) \<le> 126"
  shows "\<not> blank s"
proof -
  have enc: "\<forall>e \<in> set space_encodings. e \<noteq> [] \<and> ((of_char (last e) :: nat) < 33 \<or> 126 < (of_char (last e) :: nat))"
    by (simp add: space_encodings_def)
  then have "\<forall>e \<in> set space_encodings. e = [] \<or> last e \<noteq> last s" using assms by fastforce
  from strip_front_last [OF assms(1) this]
  have t: "strip_front space_encodings s \<noteq> []" "last (strip_front space_encodings s) = last s" by simp_all
  have "\<forall>e \<in> set (map rev space_encodings). e = [] \<or> rev (strip_front space_encodings s) = []
      \<or> hd e \<noteq> hd (rev (strip_front space_encodings s))"
    using enc assms t by (fastforce simp: hd_rev)
  from strip_front_noop [OF this] show ?thesis using t(1) by (simp add: trim_space_def)
qed

definition visible :: "char \<Rightarrow> bool" where
  "visible c \<longleftrightarrow> 33 \<le> (of_char c :: nat) \<and> (of_char c :: nat) \<le> 126"

lemma trim_space_visible:
  assumes "s = [] \<or> visible (hd s) \<and> visible (last s)"
  shows "trim_space s = s"
proof -
  have enc: "\<forall>e \<in> set space_encodings. e = [] \<or> \<not> visible (hd e) \<and> \<not> visible (last e)"
    by (simp add: space_encodings_def visible_def)
  then have "\<forall>e \<in> set space_encodings. e = [] \<or> s = [] \<or> hd e \<noteq> hd s" using assms by auto
  from strip_front_noop [OF this] have front: "strip_front space_encodings s = s" .
  have "\<forall>e \<in> set (map rev space_encodings). e = [] \<or> rev s = [] \<or> hd e \<noteq> hd (rev s)"
    using enc assms by (auto simp: hd_rev)
  from strip_front_noop [OF this] show ?thesis by (simp add: trim_space_def front)
qed

text \<open>\<open>strings.ToLower\<close> on the ASCII letters; every other byte is kept.\<close>

definition ascii_upper :: "char \<Rightarrow> bool" where
  "ascii_upper c \<longleftrightarrow> CHR ''A'' \<le> c \<and> c \<le> CHR ''Z''"

definition ascii_lower :: "char \<Rightarrow> bool" where
  "ascii_lower c \<longleftrightarrow> CHR ''a'' \<le> c \<and> c \<le> CHR ''z''"

definition ascii_digit :: "char \<Rightarrow> bool" where
  "ascii_digit c \<longleftrightarrow> CHR ''0'' \<le> c \<and> c \<le> CHR ''9''"

definition lower_char :: "char \<Rightarrow> char" where
  "lower_char c = (if ascii_upper c then char_of (of_char c + 32 :: nat) else c)"

definition ascii_lowercase :: "bytes \<Rightarrow> bytes" where
  "ascii_lowercase s = map lower_char s"

text \<open>\<open>strconv.Itoa\<close> and the verb \<open>%d\<close>.\<close>

fun dec_nat :: "nat \<Rightarrow> bytes" where
  "dec_nat n =
     (if n < 10 then [char_of (48 + n)] else dec_nat (n div 10) @ [char_of (48 + n mod 10)])"

declare dec_nat.simps [simp del]

definition dec_int :: "int \<Rightarrow> bytes" where
  "dec_int n = (if n < 0 then CHR ''-'' # dec_nat (nat (- n)) else dec_nat (nat n))"

lemma dec_nat_nonempty [simp]: "dec_nat n \<noteq> []"
  by (subst dec_nat.simps) simp

lemma length_dec_nat: "n < 10 ^ Suc k \<Longrightarrow> length (dec_nat n) \<le> Suc k"
proof (induction k arbitrary: n)
  case 0
  then show ?case by (subst dec_nat.simps) simp
next
  case (Suc k)
  show ?case
  proof (cases "n < 10")
    case True
    then show ?thesis by (subst dec_nat.simps) simp
  next
    case False
    have "n div 10 < 10 ^ Suc k"
      using Suc.prems by (simp add: less_mult_imp_div_less)
    from Suc.IH [OF this] False show ?thesis by (subst dec_nat.simps) simp
  qed
qed

text \<open>Decimal formatting determines the number, and its digits are never a separator.\<close>

lemma dec_nat_value: "foldl (\<lambda>n c. 10 * n + (of_char c - 48)) 0 (dec_nat n) = (n :: nat)"
proof (induction n rule: dec_nat.induct)
  case (1 n)
  show ?case
  proof (cases "n < 10")
    case True
    then show ?thesis by (subst dec_nat.simps) simp
  next
    case False
    then show ?thesis using "1.IH" by (subst dec_nat.simps) simp
  qed
qed

lemma dec_nat_inj: "dec_nat m = dec_nat n \<Longrightarrow> m = n"
  by (metis dec_nat_value)

lemma dec_nat_digits: "c \<in> set (dec_nat n) \<Longrightarrow> 48 \<le> (of_char c :: nat) \<and> (of_char c :: nat) \<le> 57"
proof (induction n rule: dec_nat.induct)
  case (1 n)
  show ?case
  proof (cases "n < 10")
    case True
    then show ?thesis using "1.prems" by (subst (asm) dec_nat.simps) simp
  next
    case False
    then have "c \<in> set (dec_nat (n div 10)) \<or> c = char_of (48 + n mod 10)"
      using "1.prems" by (subst (asm) dec_nat.simps) auto
    moreover have "48 + n mod 10 < 58" by simp
    ultimately show ?thesis using "1.IH" [OF False] by auto
  qed
qed

lemma dec_int_inj: "dec_int m = dec_int n \<Longrightarrow> m = n"
proof -
  assume eq: "dec_int m = dec_int n"
  have no_minus: "CHR ''-'' # s \<noteq> dec_nat k" for s k
  proof
    assume "CHR ''-'' # s = dec_nat k"
    then have "CHR ''-'' \<in> set (dec_nat k)" by (metis list.set_intros(1))
    from dec_nat_digits [OF this] show False by simp
  qed
  show ?thesis
  proof (cases "m < 0"; cases "n < 0")
    assume "m < 0" "n < 0"
    then have "nat (- m) = nat (- n)" using eq by (auto simp: dec_int_def dest: dec_nat_inj)
    then show ?thesis using \<open>m < 0\<close> \<open>n < 0\<close> by simp
  next
    assume "m < 0" "\<not> n < 0"
    then show ?thesis using eq no_minus by (simp add: dec_int_def)
  next
    assume "\<not> m < 0" "n < 0"
    then show ?thesis using eq no_minus by (simp add: dec_int_def) metis
  next
    assume "\<not> m < 0" "\<not> n < 0"
    then have "nat m = nat n" using eq by (auto simp: dec_int_def dest: dec_nat_inj)
    then show ?thesis using \<open>\<not> m < 0\<close> \<open>\<not> n < 0\<close> by simp
  qed
qed

section \<open>Cutting and parsing\<close>

text \<open>\<open>strings.Cut\<close> at one byte.\<close>

definition cut_at :: "char \<Rightarrow> bytes \<Rightarrow> (bytes \<times> bytes) option" where
  "cut_at c s =
     (if c \<in> set s then Some (takeWhile (\<lambda>x. x \<noteq> c) s, tl (dropWhile (\<lambda>x. x \<noteq> c) s)) else None)"

text \<open>\<open>strconv.ParseInt\<close> in base 10 for 64 bits.\<close>

definition digits_value :: "bytes \<Rightarrow> int option" where
  "digits_value s =
     (if s = [] \<or> \<not> list_all ascii_digit s then None
      else Some (foldl (\<lambda>n c. 10 * n + (of_char c - 48)) 0 s))"

definition parse_int64 :: "bytes \<Rightarrow> int option" where
  "parse_int64 s =
     (let neg = (s \<noteq> [] \<and> hd s = CHR ''-'');
          rest = (if s \<noteq> [] \<and> (hd s = CHR ''-'' \<or> hd s = CHR ''+'') then tl s else s)
      in case digits_value rest of
           None \<Rightarrow> None
         | Some n \<Rightarrow> let v = (if neg then - n else n) in
             if - (2 ^ 63) \<le> v \<and> v < 2 ^ 63 then Some v else None)"

lemma digits_value_nat:
  assumes "\<forall>c \<in> set s. 48 \<le> (of_char c :: nat)"
  shows "foldl (\<lambda>n c. 10 * n + (of_char c - 48)) (int a) s = int (foldl (\<lambda>n c. 10 * n + (of_char c - 48)) a s)"
  using assms
proof (induction s arbitrary: a)
  case (Cons c s)
  have "10 * int a + (of_char c - 48) = int (10 * a + (of_char c - 48))"
    using Cons.prems by (simp add: of_nat_diff of_nat_of_char)
  then show ?case by (simp only: foldl.simps) (rule Cons.IH, use Cons.prems in simp)
qed simp

text \<open>Parsing recovers what \<open>%d\<close> wrote.\<close>

lemma digits_value_dec_nat: "digits_value (dec_nat n) = Some (int n)"
proof -
  have digits: "\<forall>c \<in> set (dec_nat n). 48 \<le> (of_char c :: nat) \<and> (of_char c :: nat) \<le> 57"
    using dec_nat_digits by blast
  then have "list_all ascii_digit (dec_nat n)"
    by (auto simp: list_all_iff ascii_digit_def less_eq_char_def)
  moreover have "foldl (\<lambda>n c. 10 * n + (of_char c - 48)) (int 0) (dec_nat n) = int n"
    using digits by (subst digits_value_nat) (auto simp: dec_nat_value)
  ultimately show ?thesis by (simp add: digits_value_def)
qed

section \<open>Lines and substrings\<close>

definition newline :: bytes where "newline = [CHR 0x0A]"

definition unlines :: "bytes list \<Rightarrow> bytes" where
  "unlines ls = concat (map (\<lambda>l. l @ newline) ls)"

lemma unlines_simps [simp]:
  "unlines [] = []" "unlines (l # ls) = l @ newline @ unlines ls" "unlines (ks @ ls) = unlines ks @ unlines ls"
  by (simp_all add: unlines_def)

lemma unlines_join: "ls \<noteq> [] \<Longrightarrow> unlines ls = join_with newline ls @ newline"
proof (induction ls)
  case (Cons l ls)
  then show ?case by (cases ls) simp_all
qed simp

text \<open>\<open>strings.Contains\<close>.\<close>

fun contains :: "bytes \<Rightarrow> bytes \<Rightarrow> bool" where
  "contains sub [] \<longleftrightarrow> sub = []"
| "contains sub (c # s) \<longleftrightarrow> has_prefix sub (c # s) \<or> contains sub s"

lemma contains_iff: "contains sub s \<longleftrightarrow> (\<exists>u v. s = u @ sub @ v)"
proof (induction s)
  case (Cons c s)
  have "(\<exists>u v. c # s = u @ sub @ v) \<longleftrightarrow> (\<exists>v. c # s = sub @ v) \<or> (\<exists>u v. s = u @ sub @ v)"
    by (metis Cons_eq_append_conv append_Cons append_Nil list.inject)
  then show ?case using Cons.IH by (simp add: has_prefix_iff)
qed simp

lemma contains_set: "contains sub s \<Longrightarrow> set sub \<subseteq> set s"
  by (auto simp: contains_iff)

text \<open>A separator that does not occur in a substring splits the search.\<close>

lemma contains_split:
  assumes "c \<notin> set sub" and "sub \<noteq> []"
  shows "contains sub (l @ c # s) \<longleftrightarrow> contains sub l \<or> contains sub s"
proof
  assume "contains sub (l @ c # s)"
  then obtain u v where eq: "l @ c # s = u @ sub @ v" by (auto simp: contains_iff)
  from eq obtain w where "l = u @ w \<and> w @ c # s = sub @ v \<or> l @ w = u \<and> c # s = w @ sub @ v"
    using append_eq_append_conv2 [of l "c # s" u "sub @ v"] by auto
  then show "contains sub l \<or> contains sub s"
  proof
    assume w: "l = u @ w \<and> w @ c # s = sub @ v"
    then obtain t where "w = sub @ t \<and> t @ c # s = v \<or> w @ t = sub \<and> c # s = t @ v"
      using append_eq_append_conv2 [of w "c # s" sub v] by auto
    then show ?thesis
    proof
      assume "w = sub @ t \<and> t @ c # s = v"
      then show ?thesis using w by (auto simp: contains_iff)
    next
      assume t: "w @ t = sub \<and> c # s = t @ v"
      then have "t = []" using assms(1) by (cases t) auto
      then have "l = u @ sub @ []" using w t by simp
      then show ?thesis unfolding contains_iff by blast
    qed
  next
    assume w: "l @ w = u \<and> c # s = w @ sub @ v"
    show ?thesis
    proof (cases w)
      case Nil
      then have "c = hd sub" using w assms(2) by (cases sub) auto
      then show ?thesis using assms by simp
    next
      case (Cons d t)
      then have "s = t @ sub @ v" using w by simp
      then show ?thesis unfolding contains_iff by blast
    qed
  qed
next
  assume "contains sub l \<or> contains sub s"
  then show "contains sub (l @ c # s)"
  proof
    assume "contains sub l"
    then obtain u v where "l = u @ sub @ v" by (auto simp: contains_iff)
    then have "l @ c # s = u @ sub @ (v @ c # s)" by simp
    then show ?thesis unfolding contains_iff by blast
  next
    assume "contains sub s"
    then obtain u v where "s = u @ sub @ v" by (auto simp: contains_iff)
    then have "l @ c # s = (l @ c # u) @ sub @ v" by simp
    then show ?thesis unfolding contains_iff by blast
  qed
qed

lemma contains_unlines:
  assumes "CHR 0x0A \<notin> set sub" and "sub \<noteq> []"
  shows "contains sub (unlines ls) \<longleftrightarrow> (\<exists>l \<in> set ls. contains sub l)"
  by (induction ls) (use assms contains_split [OF assms] in \<open>simp_all add: newline_def\<close>)

text \<open>\<open>strings.ReplaceAll\<close> for a non-empty old string, and \<open>strings.ContainsAny\<close>.\<close>

function replace_all :: "bytes \<Rightarrow> bytes \<Rightarrow> bytes \<Rightarrow> bytes" where
  "replace_all old new [] = []"
| "replace_all old new (c # s) =
     (if old \<noteq> [] \<and> has_prefix old (c # s) then new @ replace_all old new (drop (length old) (c # s))
      else c # replace_all old new s)"
  by pat_completeness auto
termination
  by (relation "measure (\<lambda>(old, new, s). length s)") (auto simp: neq_Nil_conv)

definition contains_any :: "bytes \<Rightarrow> bytes \<Rightarrow> bool" where
  "contains_any chars s \<longleftrightarrow> list_ex (\<lambda>c. c \<in> set chars) s"

end
