(* ===== verification/GoPath.thy ===== *)
theory GoPath
  imports GoStd
begin

text \<open>
  Slash-separated paths: \<open>path.Clean\<close> and the functions built on it, as Go's standard
  library defines them on Unix (\<open>filepath\<close> and \<open>path\<close> agree there and \<open>ToSlash\<close> is
  the identity), and the test the hosted code repeats before it trusts a path.
\<close>

section \<open>Clean\<close>

text \<open>
  Clean keeps a stack of path elements (innermost first): empty and \<open>.\<close> elements vanish,
  \<open>..\<close> removes the element before it, and a \<open>..\<close> with nothing to remove stays at the
  front of a relative path and vanishes at the root.
\<close>

definition clean_elem :: "bool \<Rightarrow> bytes \<Rightarrow> bytes list \<Rightarrow> bytes list" where
  "clean_elem rooted w stack =
     (if w = [] \<or> w = ''.'' then stack
      else if w = ''..'' then
        (case stack of
           [] \<Rightarrow> (if rooted then [] else [''..''])
         | x # xs \<Rightarrow> (if x = ''..'' then ''..'' # stack else xs))
      else w # stack)"

definition clean_elems :: "bool \<Rightarrow> bytes list \<Rightarrow> bytes list" where
  "clean_elems rooted ws = rev (fold (clean_elem rooted) ws [])"

definition is_abs :: "bytes \<Rightarrow> bool" where
  "is_abs p \<longleftrightarrow> has_prefix ''/'' p"

definition clean :: "bytes \<Rightarrow> bytes" where
  "clean p =
     (let ws = clean_elems (is_abs p) (split_on CHR ''/'' p)
      in if is_abs p then CHR ''/'' # join_with ''/'' ws
         else if ws = [] then ''.'' else join_with ''/'' ws)"

text \<open>
  The shape of a cleaned stack: proper names, below them (in a relative path only) the
  leading \<open>..\<close> elements.
\<close>

definition proper :: "bytes \<Rightarrow> bool" where
  "proper w \<longleftrightarrow> w \<noteq> [] \<and> w \<noteq> ''.'' \<and> w \<noteq> ''..'' \<and> CHR ''/'' \<notin> set w"

definition clean_stack :: "bool \<Rightarrow> bytes list \<Rightarrow> bool" where
  "clean_stack rooted stack \<longleftrightarrow>
     (\<exists>names k. stack = names @ replicate k ''..'' \<and> list_all proper names \<and> (rooted \<longrightarrow> k = 0))"

lemma clean_stack_Nil [simp]: "clean_stack rooted []"
  by (auto simp: clean_stack_def)

lemma clean_stack_elem:
  assumes "clean_stack rooted stack" and "CHR ''/'' \<notin> set w"
  shows "clean_stack rooted (clean_elem rooted w stack)"
proof -
  obtain names k where s: "stack = names @ replicate k ''..''" "list_all proper names"
      "rooted \<longrightarrow> k = 0"
    using assms(1) by (auto simp: clean_stack_def)
  consider "w = [] \<or> w = ''.''" | "w = ''..''" "names = []" | n ns where "w = ''..''" "names = n # ns"
    | "proper w"
    using assms(2) by (cases names) (auto simp: proper_def)
  then show ?thesis
  proof cases
    case 1
    then show ?thesis using assms(1) by (simp add: clean_elem_def)
  next
    case 2
    show ?thesis
    proof (cases k)
      case 0
      then have "clean_elem rooted w stack = [] @ replicate (if rooted then 0 else 1) ''..''"
        using 2 s by (simp add: clean_elem_def)
      then show ?thesis unfolding clean_stack_def by (metis list.pred_inject(1))
    next
      case (Suc m)
      then have "clean_elem rooted w stack = [] @ replicate (Suc k) ''..''" and "\<not> rooted"
        using 2 s by (auto simp: clean_elem_def)
      then show ?thesis unfolding clean_stack_def by (metis list.pred_inject(1))
    qed
  next
    case 3
    then have "clean_elem rooted w stack = ns @ replicate k ''..''" "list_all proper ns"
      using s by (auto simp: clean_elem_def proper_def)
    then show ?thesis using s(3) unfolding clean_stack_def by blast
  next
    case 4
    then have "clean_elem rooted w stack = (w # names) @ replicate k ''..''" "list_all proper (w # names)"
      using s by (auto simp: clean_elem_def proper_def)
    then show ?thesis using s(3) unfolding clean_stack_def by blast
  qed
qed

lemma clean_stack_fold:
  "clean_stack rooted stack \<Longrightarrow> \<forall>w \<in> set ws. CHR ''/'' \<notin> set w \<Longrightarrow>
   clean_stack rooted (fold (clean_elem rooted) ws stack)"
  by (induction ws arbitrary: stack) (auto simp: clean_stack_elem)

lemma clean_elems_stack: "clean_stack rooted (rev (clean_elems rooted (split_on CHR ''/'' p)))"
  by (simp add: clean_elems_def clean_stack_fold split_on_no_sep)

text \<open>Cleaning a cleaned list of elements changes nothing.\<close>

lemma fold_clean_names:
  "list_all proper names \<Longrightarrow> fold (clean_elem rooted) names stack = rev names @ stack"
  by (induction names arbitrary: stack) (auto simp: clean_elem_def proper_def)

lemma fold_clean_dots:
  "fold (clean_elem False) (replicate k ''..'') (replicate m ''..'') = replicate (k + m) ''..''"
proof (induction k arbitrary: m)
  case 0
  then show ?case by simp
next
  case (Suc k)
  have "clean_elem False ''..'' (replicate m ''..'') = replicate (Suc m) ''..''"
    by (cases m) (auto simp: clean_elem_def)
  then show ?case using Suc [of "Suc m"] by simp
qed

lemma clean_elems_fixed: "clean_stack rooted (rev ws) \<Longrightarrow> clean_elems rooted ws = ws"
proof -
  assume "clean_stack rooted (rev ws)"
  then obtain names k where s: "rev ws = names @ replicate k ''..''" "list_all proper names"
      "rooted \<longrightarrow> k = 0"
    by (auto simp: clean_stack_def)
  then have ws: "ws = replicate k ''..'' @ rev names"
    using s(1) by (simp add: rev_swap)
  have "fold (clean_elem rooted) (replicate k ''..'') [] = replicate k ''..''"
    using s(3) fold_clean_dots [of k 0] by (cases rooted) auto
  then show ?thesis
    using s(2) fold_clean_names [of "rev names" rooted]
    by (simp add: clean_elems_def ws list.pred_set del: fold_append) (simp add: fold_append)
qed

lemma clean_stack_sepfree:
  assumes "clean_stack rooted stack" and "w \<in> set stack"
  shows "CHR ''/'' \<notin> set w \<and> w \<noteq> []"
proof -
  obtain names k where s: "stack = names @ replicate k ''..''" "list_all proper names"
    using assms(1) unfolding clean_stack_def by blast
  then have "proper w \<or> w = ''..''"
    using assms(2) by (auto simp: list.pred_set)
  then show ?thesis by (auto simp: proper_def)
qed

lemma hd_join: "ws \<noteq> [] \<Longrightarrow> hd ws \<noteq> [] \<Longrightarrow> join_with sep ws \<noteq> [] \<and> hd (join_with sep ws) = hd (hd ws)"
  by (cases "(sep, ws)" rule: join_with.cases) auto

lemma is_abs_iff: "is_abs p \<longleftrightarrow> p \<noteq> [] \<and> hd p = CHR ''/''"
  by (cases p) (auto simp: is_abs_def has_prefix_def)

lemma not_abs_join:
  assumes "clean_stack rooted (rev ws)" and "ws \<noteq> []"
  shows "\<not> is_abs (join_with ''/'' ws)"
proof -
  have "hd ws \<in> set (rev ws)" using assms(2) by simp
  then have h: "CHR ''/'' \<notin> set (hd ws)" "hd ws \<noteq> []"
    using clean_stack_sepfree [OF assms(1)] by auto
  then have "hd (hd ws) \<noteq> CHR ''/''" by (metis list.set_sel(1))
  then show ?thesis using hd_join [OF assms(2) h(2)] by (simp add: is_abs_iff)
qed

lemma is_abs_clean [simp]: "is_abs (clean p) = is_abs p"
  using clean_elems_stack [of False p]
  by (auto simp: clean_def Let_def not_abs_join)
     (simp_all add: is_abs_iff)

text \<open>The elements of a cleaned path are the cleaned elements, but for \<open>/\<close> and \<open>.\<close>.\<close>

lemma split_clean:
  assumes "clean_elems (is_abs p) (split_on CHR ''/'' p) \<noteq> []"
  shows "split_on CHR ''/'' (clean p) =
    (if is_abs p then [[]] else []) @ clean_elems (is_abs p) (split_on CHR ''/'' p)"
proof -
  let ?ws = "clean_elems (is_abs p) (split_on CHR ''/'' p)"
  have "split_on CHR ''/'' (join_with ''/'' ?ws) = ?ws"
    using clean_stack_sepfree [OF clean_elems_stack [of "is_abs p" p]] assms
    by (intro split_join) auto
  then show ?thesis
    using assms by (cases "is_abs p") (simp_all add: clean_def Let_def)
qed

lemma clean_elems_skip [simp]: "clean_elems rooted ([] # ws) = clean_elems rooted ws"
  by (simp add: clean_elems_def clean_elem_def)

lemma clean_idem [simp]: "clean (clean p) = clean p"
proof (cases "clean_elems (is_abs p) (split_on CHR ''/'' p) = []")
  case True
  then have "clean p = (if is_abs p then ''/'' else ''.'')"
    by (simp add: clean_def)
  then show ?thesis
    by (simp add: clean_def is_abs_iff clean_elems_def clean_elem_def)
next
  case False
  have "clean_elems (is_abs p) (clean_elems (is_abs p) (split_on CHR ''/'' p)) =
      clean_elems (is_abs p) (split_on CHR ''/'' p)"
    by (rule clean_elems_fixed [OF clean_elems_stack])
  then have "clean_elems (is_abs (clean p)) (split_on CHR ''/'' (clean p)) =
      clean_elems (is_abs p) (split_on CHR ''/'' p)"
    using split_clean [OF False] by (cases "is_abs p") simp_all
  then show ?thesis by (simp only: clean_def [of "clean p"] is_abs_clean) (simp add: clean_def)
qed

section \<open>Repository-relative paths\<close>

text \<open>
  The test that \<open>Finding.Validate\<close>, \<open>MapFindingsToDiff\<close>, \<open>DetectAddressed\<close> and
  \<open>RetrieveMemories\<close> spell out: the path is empty or absolute, or cleans to something above
  the root.
\<close>

definition outside_repo :: "bytes \<Rightarrow> bool" where
  "outside_repo p \<longleftrightarrow> p = [] \<or> is_abs p \<or> clean p = ''..'' \<or> has_prefix ''../'' (clean p)"

lemma join_dots_prefix:
  "clean_stack False (rev ws) \<Longrightarrow> ''..'' \<in> set ws \<Longrightarrow> hd ws = ''..''"
proof -
  assume "clean_stack False (rev ws)" and m: "''..'' \<in> set ws"
  then obtain names k where s: "rev ws = names @ replicate k ''..''" "list_all proper names"
    by (auto simp: clean_stack_def)
  then have ws: "ws = replicate k ''..'' @ rev names"
    using s(1) by (simp add: rev_swap)
  with m s(2) have "k \<noteq> 0" by (auto simp: list.pred_set proper_def)
  with ws show ?thesis by (cases k) auto
qed

text \<open>A path the test lets through has no \<open>..\<close> element left once it is cleaned.\<close>

lemma inside_repo_no_dotdot:
  assumes "\<not> outside_repo p"
  shows "''..'' \<notin> set (split_on CHR ''/'' (clean p)) \<and> \<not> is_abs (clean p)"
proof (cases "clean_elems False (split_on CHR ''/'' p) = []")
  case True
  then have "clean p = ''.''" using assms by (simp add: outside_repo_def clean_def)
  then show ?thesis by (simp add: is_abs_iff)
next
  case False
  have rel: "\<not> is_abs p" using assms by (simp add: outside_repo_def)
  let ?ws = "clean_elems False (split_on CHR ''/'' p)"
  have cl: "clean p = join_with ''/'' ?ws" using rel False by (simp add: clean_def)
  have "hd ?ws \<noteq> ''..''"
  proof
    assume h: "hd ?ws = ''..''"
    obtain ws where ws: "?ws = ''..'' # ws" using False h by (cases ?ws) auto
    then have "clean p = ''..'' \<or> has_prefix ''../'' (clean p)"
      unfolding cl by (cases ws) (auto simp: has_prefix_def)
    then show False using assms by (simp add: outside_repo_def)
  qed
  then have "''..'' \<notin> set ?ws"
    using join_dots_prefix [OF clean_elems_stack] by blast
  then show ?thesis using split_clean [of p] rel False by simp
qed

lemma outside_repo_clean: "p \<noteq> [] \<Longrightarrow> outside_repo (clean p) = outside_repo p"
proof -
  assume "p \<noteq> []"
  moreover have "clean p \<noteq> []"
    using clean_elems_stack [of "is_abs p" p] hd_join clean_stack_sepfree
    by (auto simp: clean_def Let_def)
  ultimately show ?thesis by (simp add: outside_repo_def)
qed

section \<open>Ext, Dir, Base and Join\<close>

definition ext :: "bytes \<Rightarrow> bytes" where
  "ext p = (let tail = takeWhile (\<lambda>c. c \<noteq> CHR ''/'') (rev p)
            in if CHR ''.'' \<in> set tail
               then CHR ''.'' # rev (takeWhile (\<lambda>c. c \<noteq> CHR ''.'') tail) else [])"

definition dir :: "bytes \<Rightarrow> bytes" where
  "dir p = clean (rev (dropWhile (\<lambda>c. c \<noteq> CHR ''/'') (rev p)))"

definition base :: "bytes \<Rightarrow> bytes" where
  "base p =
     (if p = [] then ''.''
      else let r = dropWhile (\<lambda>c. c = CHR ''/'') (rev p)
           in if r = [] then ''/'' else rev (takeWhile (\<lambda>c. c \<noteq> CHR ''/'') r))"

definition path_join :: "bytes \<Rightarrow> bytes \<Rightarrow> bytes" where
  "path_join a b =
     (let ws = filter (\<lambda>w. w \<noteq> []) [a, b] in if ws = [] then [] else clean (join_with ''/'' ws))"

end
