(* ===== verification/Findings.thy ===== *)
theory Findings
  imports GoPath
begin

text \<open>
  \<open>internal/hosted/review/finding.go\<close>: the finding a model proposes, its validation and the
  strict decoding of a finding list. The JSON decoder is a parameter: it turns the bytes into
  the decoded list and the bytes it did not read, or an error.
\<close>

section \<open>The record and its validation\<close>

text \<open>
  \<open>float64\<close> confidences are rationals: a finite float is one, every comparison the code makes
  on it is exact, and a decoded JSON number is finite.
\<close>

record finding =
  f_path :: bytes
  f_start :: int
  f_end :: int
  f_severity :: bytes
  f_type :: bytes
  f_title :: bytes
  f_body :: bytes
  f_evidence :: bytes
  f_suggestion :: bytes
  f_confidence :: rat
  f_rule_id :: bytes

definition validate :: "finding \<Rightarrow> unit res" where
  "validate f =
     (if f_path f = [] \<or> is_abs (f_path f) \<or> clean (f_path f) = ''..''
         \<or> has_prefix ''../'' (clean (f_path f))
      then Inl (Msg ''path must be repository-relative'')
      else if f_start f \<le> 0 \<or> f_end f < f_start f then Inl (Msg ''line range is invalid'')
      else if f_severity f \<noteq> ''P0'' \<and> f_severity f \<noteq> ''P1'' \<and> f_severity f \<noteq> ''P2''
      then Inl (Msg ''severity must be P0, P1, or P2'')
      else if f_type f \<notin> {''logic'', ''syntax'', ''style'', ''security''}
      then Inl (Msg ''unsupported finding type'')
      else if blank (f_title f) \<or> blank (f_body f) \<or> blank (f_evidence f)
      then Inl (Msg ''title, body, and evidence are required'')
      else if length (f_title f) > 200 \<or> length (f_body f) > 16000
         \<or> length (f_evidence f) > 8000 \<or> length (f_suggestion f) > 16000
      then Inl (Msg ''finding text exceeds its limit'')
      else if f_confidence f < 0 \<or> f_confidence f > 1
      then Inl (Msg ''confidence must be between 0 and 1'')
      else Inr ())"

definition json_space :: "char \<Rightarrow> bool" where
  "json_space c \<longleftrightarrow> c \<in> {CHR '' '', CHR 0x09, CHR 0x0A, CHR 0x0D}"

definition ensure_eof :: "bytes \<Rightarrow> unit res" where
  "ensure_eof rest =
     (if list_all json_space rest then Inr ()
      else Inl (Msg ''findings JSON contains trailing data''))"

fun validate_all :: "nat \<Rightarrow> finding list \<Rightarrow> unit res" where
  "validate_all i [] = Inr ()"
| "validate_all i (f # fs) =
     (case validate f of
        Inl e \<Rightarrow> Inl (Wrapped ''finding %d: %w'' [int i] e)
      | Inr _ \<Rightarrow> validate_all (Suc i) fs)"

definition finding_limit :: "int \<Rightarrow> int" where
  "finding_limit max_findings = (if max_findings \<le> 0 then 100 else max_findings)"

definition decode_findings ::
    "(bytes \<Rightarrow> (finding list \<times> bytes) res) \<Rightarrow> bytes \<Rightarrow> int \<Rightarrow> finding list res" where
  "decode_findings decode data max_findings =
     (case decode data of
        Inl e \<Rightarrow> Inl (Wrapped ''decode findings: %w'' [] e)
      | Inr (findings, rest) \<Rightarrow>
          (case ensure_eof rest of
             Inl e \<Rightarrow> Inl e
           | Inr _ \<Rightarrow>
               if int (length findings) > finding_limit max_findings
               then Inl (MsgNum ''finding count %d exceeds limit %d''
                           [int (length findings), finding_limit max_findings])
               else (case validate_all 0 findings of
                       Inl e \<Rightarrow> Inl e
                     | Inr _ \<Rightarrow> Inr findings)))"

section \<open>What a decoded list guarantees\<close>

lemma validate_ok_iff:
  "validate f = Inr () \<longleftrightarrow>
     \<not> outside_repo (f_path f) \<and> 1 \<le> f_start f \<and> f_start f \<le> f_end f
     \<and> f_severity f \<in> {''P0'', ''P1'', ''P2''}
     \<and> f_type f \<in> {''logic'', ''syntax'', ''style'', ''security''}
     \<and> \<not> blank (f_title f) \<and> \<not> blank (f_body f) \<and> \<not> blank (f_evidence f)
     \<and> length (f_title f) \<le> 200 \<and> length (f_body f) \<le> 16000
     \<and> length (f_evidence f) \<le> 8000 \<and> length (f_suggestion f) \<le> 16000
     \<and> 0 \<le> f_confidence f \<and> f_confidence f \<le> 1"
  by (auto simp: validate_def outside_repo_def)

lemma validate_all_ok_iff: "validate_all i fs = Inr () \<longleftrightarrow> (\<forall>f \<in> set fs. validate f = Inr ())"
  by (induction i fs rule: validate_all.induct) (auto split: sum.splits)

text \<open>The reported index is that of the first finding that does not validate.\<close>

lemma validate_all_error:
  "validate_all i fs = Inl e \<Longrightarrow>
     \<exists>pre f post e'. fs = pre @ f # post \<and> (\<forall>g \<in> set pre. validate g = Inr ())
       \<and> validate f = Inl e' \<and> e = Wrapped ''finding %d: %w'' [int (i + length pre)] e'"
proof (induction i fs rule: validate_all.induct)
  case (1 i)
  then show ?case by simp
next
  case (2 i f fs)
  show ?case
  proof (cases "validate f")
    case (Inl e')
    then have "f # fs = [] @ f # fs" and "e = Wrapped ''finding %d: %w'' [int (i + length ([] :: finding list))] e'"
      using "2.prems" by simp_all
    with Inl show ?thesis by (metis empty_iff list.set(1))
  next
    case (Inr u)
    then have "validate_all (Suc i) fs = Inl e" using "2.prems" by simp
    from "2.IH" [OF Inr this] obtain pre g post e' where fs: "fs = pre @ g # post"
        "\<forall>h \<in> set pre. validate h = Inr ()" "validate g = Inl e'"
        "e = Wrapped ''finding %d: %w'' [int (Suc i + length pre)] e'"
      by blast
    have "f # fs = (f # pre) @ g # post" "\<forall>h \<in> set (f # pre). validate h = Inr ()"
        "e = Wrapped ''finding %d: %w'' [int (i + length (f # pre))] e'"
      using fs Inr by simp_all
    with fs(3) show ?thesis by blast
  qed
qed

definition sample_finding :: finding where
  "sample_finding =
     \<lparr>f_path = ''src/./app.go'', f_start = 3, f_end = 5, f_severity = ''P1'', f_type = ''logic'',
      f_title = ''Unchecked error'', f_body = ''The error is dropped'', f_evidence = ''line 3'',
      f_suggestion = [], f_confidence = 4/5, f_rule_id = []\<rparr>"

lemma validate_sample [simp]: "validate sample_finding = Inr ()"
  by code_simp

text \<open>
  What a finding has to be: a path below the repository, a range of lines, one of three severities and
  four types, texts that say something within their limits, and a confidence between 0 and 1.
\<close>

definition valid_finding :: "finding \<Rightarrow> bool" where
  "valid_finding f \<longleftrightarrow>
     f_path f \<noteq> [] \<and> \<not> is_abs (f_path f) \<and> ''..'' \<notin> set (split_on CHR ''/'' (clean (f_path f)))
     \<and> 1 \<le> f_start f \<and> f_start f \<le> f_end f
     \<and> f_severity f \<in> {''P0'', ''P1'', ''P2''} \<and> f_type f \<in> {''logic'', ''syntax'', ''style'', ''security''}
     \<and> list_all (\<lambda>t. \<not> blank t) [f_title f, f_body f, f_evidence f]
     \<and> length (f_title f) \<le> 200 \<and> length (f_body f) \<le> 16000 \<and> length (f_evidence f) \<le> 8000
     \<and> length (f_suggestion f) \<le> 16000
     \<and> f_confidence f \<in> {0..1}"

lemma outside_repo_dotdot:
  assumes "outside_repo p" "p \<noteq> []" "\<not> is_abs p"
  shows "''..'' \<in> set (split_on CHR ''/'' (clean p))"
proof (cases "clean p = ''..''")
  case True
  then show ?thesis by (simp add: split_on_sepfree)
next
  case False
  then obtain r where "clean p = ''..'' @ CHR ''/'' # r" using assms by (auto simp: outside_repo_def has_prefix_iff)
  then show ?thesis using split_on_append [of "CHR ''/''" "''..''" r] by simp
qed

lemma validate_iff_valid: "validate f = Inr () \<longleftrightarrow> valid_finding f"
proof -
  have "\<not> outside_repo p \<longleftrightarrow> p \<noteq> [] \<and> \<not> is_abs p \<and> ''..'' \<notin> set (split_on CHR ''/'' (clean p))" for p
    using inside_repo_no_dotdot [of p] outside_repo_dotdot [of p] by (auto simp: outside_repo_def)
  then show ?thesis unfolding validate_ok_iff valid_finding_def by auto
qed

text \<open>
  C35: A list of findings is decoded exactly when it is what the decoder read, nothing but white space
  follows it, it respects the limit in force and each finding is valid: a path below the repository,
  positive ordered lines, a known severity and type, a title, body and evidence that say something,
  texts within their limits and a confidence between 0 and 1. When only the last condition fails, the
  error names the first finding that is not valid.
\<close>

theorem decode_findings_ok_iff:
  "(decode_findings decode data max_findings = Inr fs \<longleftrightarrow>
      (\<exists>rest. decode data = Inr (fs, rest) \<and> list_all json_space rest)
      \<and> int (length fs) \<le> (if max_findings \<le> 0 then 100 else max_findings)
      \<and> (\<forall>f \<in> set fs. valid_finding f))
   \<and> (decode_findings decode data max_findings = Inl e \<and> decode data = Inr (fs, rest) \<and> list_all json_space rest
      \<and> int (length fs) \<le> (if max_findings \<le> 0 then 100 else max_findings) \<longrightarrow>
      (\<exists>before f after reason. fs = before @ f # after \<and> list_all valid_finding before \<and> \<not> valid_finding f
         \<and> e = Wrapped ''finding %d: %w'' [int (length before)] reason))"
proof (intro conjI impI)
  show "decode_findings decode data max_findings = Inr fs \<longleftrightarrow>
      (\<exists>rest. decode data = Inr (fs, rest) \<and> list_all json_space rest)
      \<and> int (length fs) \<le> (if max_findings \<le> 0 then 100 else max_findings) \<and> (\<forall>f \<in> set fs. valid_finding f)"
    using validate_all_ok_iff [of 0 fs]
    by (auto simp: decode_findings_def ensure_eof_def finding_limit_def validate_iff_valid split: sum.splits)
next
  assume failed: "decode_findings decode data max_findings = Inl e \<and> decode data = Inr (fs, rest) \<and> list_all json_space rest
      \<and> int (length fs) \<le> (if max_findings \<le> 0 then 100 else max_findings)"
  then have "validate_all 0 fs = Inl e"
    by (auto simp: decode_findings_def ensure_eof_def finding_limit_def split: sum.splits if_splits)
  from validate_all_error [OF this] show
    "\<exists>before f after reason. fs = before @ f # after \<and> list_all valid_finding before \<and> \<not> valid_finding f
       \<and> e = Wrapped ''finding %d: %w'' [int (length before)] reason"
    by (fastforce simp: list_all_iff validate_iff_valid [symmetric])
qed

theorem decode_findings_ok_iff_witness:
  "decode_findings (\<lambda>data. Inr ([sample_finding], data)) '' '' 0 = Inr [sample_finding]"
proof -
  have "valid_finding sample_finding" using validate_sample validate_iff_valid by blast
  then show ?thesis by (subst conjunct1 [OF decode_findings_ok_iff]) (simp add: json_space_def)
qed

text \<open>
  Every finding of a decoded list points inside the repository: its cleaned path has no
  \<open>..\<close> element and is not absolute, and its line range is a non-empty range of positive lines.
\<close>

theorem decode_findings_inside_repo:
  assumes "decode_findings decode data max_findings = Inr fs" and "f \<in> set fs"
  shows "''..'' \<notin> set (split_on CHR ''/'' (clean (f_path f))) \<and> \<not> is_abs (clean (f_path f))
    \<and> 1 \<le> f_start f \<and> f_start f \<le> f_end f"
proof -
  have "validate f = Inr ()"
    using assms validate_all_ok_iff [of 0 fs]
    by (auto simp: decode_findings_def split: sum.splits if_splits)
  then show ?thesis using inside_repo_no_dotdot by (simp add: validate_ok_iff)
qed

theorem decode_findings_inside_repo_witness:
  "''..'' \<notin> set (split_on CHR ''/'' (clean (f_path sample_finding)))
   \<and> \<not> is_abs (clean (f_path sample_finding)) \<and> 1 \<le> f_start sample_finding
   \<and> f_start sample_finding \<le> f_end sample_finding"
proof (rule decode_findings_inside_repo
    [where decode = "\<lambda>data. Inr ([sample_finding], data)" and data = "'' ''" and max_findings = 0
       and fs = "[sample_finding]"])
  show "decode_findings (\<lambda>data. Inr ([sample_finding], data)) '' '' 0 = Inr [sample_finding]"
    by (simp add: decode_findings_def ensure_eof_def json_space_def finding_limit_def)
qed simp

end
