(* ===== verification/Utf8.thy ===== *)
theory Utf8
  imports GoStd
begin

text \<open>
  UTF-8 decoding as \<open>utf8.DecodeRune\<close> does it (an invalid byte is the replacement rune, one
  byte wide), \<open>range\<close> over a string, \<open>utf8.Valid\<close>, \<open>utf8.RuneStart\<close>, and
  \<open>strings.FieldsFunc\<close>. The Unicode tables (case mapping and character classes) are generated
  data of the Go distribution: a record of functions that the users of this theory take as a
  parameter, with the ASCII restriction of Go's tables as the instance for evaluation.
\<close>

section \<open>Runes\<close>

abbreviation byte :: "char \<Rightarrow> nat" where
  "byte c \<equiv> of_char c"

definition rune_start :: "char \<Rightarrow> bool" where
  "rune_start c \<longleftrightarrow> \<not> (128 \<le> byte c \<and> byte c < 192)"

definition cont_in :: "nat \<Rightarrow> nat \<Rightarrow> char \<Rightarrow> bool" where
  "cont_in lo hi c \<longleftrightarrow> lo \<le> byte c \<and> byte c \<le> hi"

abbreviation cont :: "char \<Rightarrow> bool" where
  "cont c \<equiv> cont_in 128 191 c"

definition bad_rune :: "nat \<times> nat" where
  "bad_rune = (65533, 1)"

definition second_range :: "nat \<Rightarrow> nat \<times> nat" where
  "second_range b = (if b = 224 then (160, 191) else if b = 237 then (128, 159)
     else if b = 240 then (144, 191) else if b = 244 then (128, 143) else (128, 191))"

definition decode_tail :: "nat \<Rightarrow> bytes \<Rightarrow> nat \<times> nat" where
  "decode_tail b cs =
     (let (lo, hi) = second_range b in
      if 194 \<le> b \<and> b \<le> 223 then
        (case cs of c1 # _ \<Rightarrow>
           if cont c1 then ((b - 192) * 64 + (byte c1 - 128), 2) else bad_rune
         | [] \<Rightarrow> bad_rune)
      else if 224 \<le> b \<and> b \<le> 239 then
        (case cs of c1 # c2 # _ \<Rightarrow>
           if cont_in lo hi c1 \<and> cont c2
           then ((b - 224) * 4096 + (byte c1 - 128) * 64 + (byte c2 - 128), 3) else bad_rune
         | _ \<Rightarrow> bad_rune)
      else if 240 \<le> b \<and> b \<le> 244 then
        (case cs of c1 # c2 # c3 # _ \<Rightarrow>
           if cont_in lo hi c1 \<and> cont c2 \<and> cont c3
           then ((b - 240) * 262144 + (byte c1 - 128) * 4096 + (byte c2 - 128) * 64 + (byte c3 - 128), 4)
           else bad_rune
         | _ \<Rightarrow> bad_rune)
      else bad_rune)"

fun decode_rune :: "bytes \<Rightarrow> nat \<times> nat" where
  "decode_rune [] = (65533, 0)"
| "decode_rune (c # cs) = (if byte c < 128 then (byte c, 1) else decode_tail (byte c) cs)"

lemma decode_tail_width:
  "1 \<le> snd (decode_tail b cs) \<and> snd (decode_tail b cs) \<le> Suc (length cs)"
  by (auto simp: decode_tail_def bad_rune_def Let_def split: prod.splits list.splits)

lemma decode_rune_width:
  "s \<noteq> [] \<Longrightarrow> 1 \<le> snd (decode_rune s) \<and> snd (decode_rune s) \<le> length s"
  using decode_tail_width by (cases s) auto

lemma rune_progress: "s \<noteq> [] \<Longrightarrow> length s - snd (decode_rune s) < length s"
  using decode_rune_width [of s] by (cases s) (simp_all del: decode_rune.simps)

lemma decode_rune_ascii: "byte c < 128 \<Longrightarrow> decode_rune (c # cs) = (byte c, 1)"
  by simp

function runes :: "bytes \<Rightarrow> nat list" where
  "runes s = (if s = [] then [] else fst (decode_rune s) # runes (drop (snd (decode_rune s)) s))"
  by pat_completeness auto
termination
  by (relation "measure length") (simp, simp add: rune_progress)

declare runes.simps [simp del]

function utf8_valid :: "bytes \<Rightarrow> bool" where
  "utf8_valid s = (if s = [] then True else if decode_rune s = bad_rune then False
     else utf8_valid (drop (snd (decode_rune s)) s))"
  by pat_completeness auto
termination
  by (relation "measure length") (simp, simp add: rune_progress)

declare utf8_valid.simps [simp del]

lemma runes_Nil [simp]: "runes [] = []"
  by (subst runes.simps) simp

lemma runes_ascii: "list_all (\<lambda>c. byte c < 128) s \<Longrightarrow> runes s = map byte s"
proof (induction s)
  case Nil
  then show ?case by simp
next
  case (Cons c s)
  then show ?case by (subst runes.simps) simp
qed

lemma utf8_valid_ascii: "list_all (\<lambda>c. byte c < 128) s \<Longrightarrow> utf8_valid s"
proof (induction s)
  case Nil
  then show ?case by (subst utf8_valid.simps) simp
next
  case (Cons c s)
  then show ?case by (subst utf8_valid.simps) (auto simp: bad_rune_def)
qed

section \<open>Fields\<close>

text \<open>\<open>strings.FieldsFunc\<close> on the runes: the maximal runs between separators.\<close>

fun fields_acc :: "('a \<Rightarrow> bool) \<Rightarrow> 'a list \<Rightarrow> 'a list \<Rightarrow> 'a list list" where
  "fields_acc sep cur [] = (if cur = [] then [] else [rev cur])"
| "fields_acc sep cur (x # xs) =
     (if sep x then (if cur = [] then [] else [rev cur]) @ fields_acc sep [] xs
      else fields_acc sep (x # cur) xs)"

definition fields_func :: "('a \<Rightarrow> bool) \<Rightarrow> 'a list \<Rightarrow> 'a list list" where
  "fields_func sep xs = fields_acc sep [] xs"

lemma fields_acc_words:
  "w \<in> set (fields_acc sep cur xs) \<Longrightarrow> \<forall>x \<in> set cur. \<not> sep x \<Longrightarrow>
   w \<noteq> [] \<and> (\<forall>x \<in> set w. \<not> sep x)"
  by (induction sep cur xs rule: fields_acc.induct) (auto split: if_splits)

lemma fields_words: "w \<in> set (fields_func sep xs) \<Longrightarrow> w \<noteq> [] \<and> (\<forall>x \<in> set w. \<not> sep x)"
  unfolding fields_func_def by (erule fields_acc_words) simp

text \<open>The number of fields grows by at most the fields of what is appended.\<close>

lemma length_fields_acc_nonempty:
  "length (fields_acc sep (x # cur) xs) = length (fields_acc sep [y] xs)"
proof (induction xs arbitrary: x cur y)
  case Nil
  then show ?case by simp
next
  case (Cons z zs)
  from Cons.IH [of z "x # cur" z] Cons.IH [of z "[y]" z] show ?case by simp
qed

lemma length_fields_acc_cur:
  "length (fields_acc sep cur xs) \<le> Suc (length (fields_acc sep [] xs))
   \<and> length (fields_acc sep [] xs) \<le> length (fields_acc sep cur xs)"
proof (induction xs arbitrary: cur)
  case Nil
  then show ?case by simp
next
  case (Cons x xs)
  show ?case
  proof (cases "sep x")
    case True
    then show ?thesis by simp
  next
    case False
    from length_fields_acc_nonempty [of sep x cur xs x] show ?thesis using False by simp
  qed
qed

lemma fields_acc_append:
  "length (fields_acc sep cur (xs @ ys)) \<le> length (fields_acc sep cur xs) + length (fields_acc sep [] ys)"
proof (induction sep cur xs rule: fields_acc.induct)
  case (1 sep cur)
  then show ?case using length_fields_acc_cur [of sep cur ys] by simp
next
  case (2 sep cur x xs)
  then show ?case by simp
qed

lemma fields_acc_prefix:
  "length (fields_acc sep cur xs) \<le> length (fields_acc sep cur (xs @ ys))"
proof (induction sep cur xs rule: fields_acc.induct)
  case (1 sep cur)
  have "cur \<noteq> [] \<Longrightarrow> 1 \<le> length (fields_acc sep cur ys)" for cur
    by (induction ys arbitrary: cur) auto
  then show ?case by simp
next
  case (2 sep cur x xs)
  then show ?case by simp
qed

lemma length_fields_append: "length (fields_func sep (xs @ ys)) \<le> length (fields_func sep xs) + length (fields_func sep ys)"
  by (simp add: fields_func_def fields_acc_append)

lemma length_fields_prefix: "length (fields_func sep xs) \<le> length (fields_func sep (xs @ ys))"
  by (simp add: fields_func_def fields_acc_prefix)

section \<open>Unicode tables\<close>

record unicode =
  u_lower :: "nat \<Rightarrow> nat"
  u_letter :: "nat \<Rightarrow> bool"
  u_number :: "nat \<Rightarrow> bool"
  u_space :: "nat \<Rightarrow> bool"
  u_punct :: "nat \<Rightarrow> bool"

text \<open>Go's tables below 128; code points above have no class here.\<close>

definition ascii_tables :: unicode where
  "ascii_tables =
     \<lparr>u_lower = (\<lambda>r. if 65 \<le> r \<and> r \<le> 90 then r + 32 else r),
      u_letter = (\<lambda>r. (65 \<le> r \<and> r \<le> 90) \<or> (97 \<le> r \<and> r \<le> 122)),
      u_number = (\<lambda>r. 48 \<le> r \<and> r \<le> 57),
      u_space = (\<lambda>r. (9 \<le> r \<and> r \<le> 13) \<or> r = 32),
      u_punct = (\<lambda>r. r \<in> {33, 34, 35, 37, 38, 39, 40, 41, 42, 44, 45, 46, 47, 58, 59, 63, 64,
                           91, 92, 93, 95, 123, 125})\<rparr>"

section \<open>Encoding runes\<close>

definition encode_rune :: "nat \<Rightarrow> bytes" where
  "encode_rune r =
     (let r = (if r > 1114111 \<or> (55296 \<le> r \<and> r < 57344) then 65533 else r) in
      map char_of
        (if r < 128 then [r]
         else if r < 2048 then [192 + r div 64, 128 + r mod 64]
         else if r < 65536 then [224 + r div 4096, 128 + r div 64 mod 64, 128 + r mod 64]
         else [240 + r div 262144, 128 + r div 4096 mod 64, 128 + r div 64 mod 64, 128 + r mod 64]))"

fun join_runes :: "nat list list \<Rightarrow> nat list" where
  "join_runes [] = []"
| "join_runes [w] = w"
| "join_runes (w # v # ws) = w @ 32 # join_runes (v # ws)"

text \<open>\<open>strings.ToLower\<close>: every rune is mapped and encoded again.\<close>

definition to_lower :: "unicode \<Rightarrow> bytes \<Rightarrow> bytes" where
  "to_lower u s = concat (map (\<lambda>r. encode_rune (u_lower u r)) (runes s))"

end
