(* ===== verification/Ranking.thy ===== *)
theory Ranking
  imports Findings Utf8
begin

text \<open>
  \<open>internal/hosted/review/rank.go\<close>: ordering the findings by strength, dropping findings that
  repeat a stronger one at an overlapping place, and capping what is delivered inline. The
  Unicode tables behind \<open>strings.ToLower\<close>, \<open>unicode.IsLetter\<close> and \<open>unicode.IsNumber\<close> are the
  parameter \<open>U\<close>. Title similarity is a quotient of two small counts; the code computes it in
  \<open>float64\<close>, where the comparison with 0.6 has the same outcome because correct rounding is
  monotone and distinct quotients of such counts are far apart.
\<close>

section \<open>Comparison\<close>

definition severity_rank :: "bytes \<Rightarrow> int" where
  "severity_rank s = (if s = ''P1'' then 1 else if s = ''P2'' then 2 else 0)"

definition stronger :: "finding \<Rightarrow> finding \<Rightarrow> bool" where
  "stronger a b =
     (if severity_rank (f_severity a) \<noteq> severity_rank (f_severity b)
      then severity_rank (f_severity a) < severity_rank (f_severity b)
      else if f_confidence a \<noteq> f_confidence b then f_confidence a > f_confidence b
      else let ap = clean (f_path a); bp = clean (f_path b) in
        if ap \<noteq> bp then ap < bp
        else if f_start a \<noteq> f_start b then f_start a < f_start b
        else if f_end a \<noteq> f_end b then f_end a < f_end b
        else f_title a < f_title b)"

text \<open>The comparison is lexicographic on a key, hence a strict weak order.\<close>

definition strength_key :: "finding \<Rightarrow> int \<times> rat \<times> bytes \<times> int \<times> int \<times> bytes" where
  "strength_key f =
     (severity_rank (f_severity f), - f_confidence f, clean (f_path f), f_start f, f_end f, f_title f)"

lemma stronger_key: "stronger a b \<longleftrightarrow> strength_key a < strength_key b"
  by (auto simp: stronger_def strength_key_def Let_def)

interpretation strength: weak_order stronger
  unfolding stronger_key by (rule weak_order_key)

section \<open>Duplicates\<close>

definition title_words :: "unicode \<Rightarrow> bytes \<Rightarrow> nat list list" where
  "title_words U value =
     fields_func (\<lambda>r. \<not> u_letter U r \<and> \<not> u_number U r) (map (u_lower U) (runes value))"

definition title_similarity :: "unicode \<Rightarrow> bytes \<Rightarrow> bytes \<Rightarrow> rat" where
  "title_similarity U a b =
     (let left = title_words U a; right = title_words U b in
      if left = [] \<or> right = [] then 0
      else of_nat (card (set left \<inter> set right)) / of_nat (card (set left \<union> set right)))"

definition same_finding :: "unicode \<Rightarrow> finding \<Rightarrow> finding \<Rightarrow> bool" where
  "same_finding U a b =
     (if clean (f_path a) \<noteq> clean (f_path b) then False
      else if f_end a < f_start b \<or> f_end b < f_start a then False
      else title_similarity U (f_title a) (f_title b) \<ge> 3 / 5)"

lemma title_similarity_commute: "title_similarity U a b = title_similarity U b a"
  by (auto simp: title_similarity_def Let_def Int_commute Un_commute)

lemma title_similarity_bounds: "0 \<le> title_similarity U a b \<and> title_similarity U a b \<le> 1"
proof -
  have "card (set l \<inter> set r) \<le> card (set l \<union> set r)" for l r :: "nat list list"
    by (rule card_mono) auto
  then show ?thesis by (auto simp: title_similarity_def Let_def divide_le_eq_1 card_gt_0_iff)
qed

lemma title_similarity_self: "title_words U a \<noteq> [] \<Longrightarrow> title_similarity U a a = 1"
  by (simp add: title_similarity_def Let_def)

lemma same_finding_commute: "same_finding U a b = same_finding U b a"
  by (auto simp: same_finding_def title_similarity_commute)

text \<open>
  A title without letters and digits resembles no title, itself included: two copies of such a
  finding are both kept.
\<close>

lemma wordless_title_not_same: "title_words U (f_title f) = [] \<Longrightarrow> \<not> same_finding U f f"
  by (simp add: same_finding_def title_similarity_def)

section \<open>The greedy selection\<close>

definition default_max_inline_comments :: int where
  "default_max_inline_comments = 15"

definition inline_cap :: "int \<Rightarrow> int" where
  "inline_cap max_inline = (if max_inline \<le> 0 then default_max_inline_comments else max_inline)"

fun keep_loop :: "unicode \<Rightarrow> int \<Rightarrow> finding list \<Rightarrow> finding list \<Rightarrow> finding list" where
  "keep_loop U cap kept [] = kept"
| "keep_loop U cap kept (c # cs) =
     (if list_ex (\<lambda>e. same_finding U e c) kept then keep_loop U cap kept cs
      else let kept' = kept @ [c] in
        if int (length kept') = cap then kept' else keep_loop U cap kept' cs)"

definition rank_and_cap_findings :: "unicode \<Rightarrow> finding list \<Rightarrow> int \<Rightarrow> finding list" where
  "rank_and_cap_findings U findings max_inline =
     keep_loop U (inline_cap max_inline) [] (sort_by stronger findings)"

lemma inline_cap_pos: "0 < inline_cap max_inline"
  by (simp add: inline_cap_def default_max_inline_comments_def)

lemma keep_loop_length: "int (length kept) < cap \<Longrightarrow> int (length (keep_loop U cap kept cs)) \<le> cap"
  by (induction U cap kept cs rule: keep_loop.induct) (auto simp: Let_def)

lemma keep_loop_set: "set kept \<subseteq> set (keep_loop U cap kept cs)
    \<and> set (keep_loop U cap kept cs) \<subseteq> set kept \<union> set cs"
  by (induction U cap kept cs rule: keep_loop.induct) (auto simp: Let_def)

lemma keep_loop_sorted_wrt: "sorted_wrt R (kept @ cs) \<Longrightarrow> sorted_wrt R (keep_loop U cap kept cs)"
  by (induction U cap kept cs rule: keep_loop.induct) (auto simp: Let_def sorted_wrt_append)

lemma keep_loop_pairwise:
  "sorted_wrt (\<lambda>a b. \<not> same_finding U a b) kept \<Longrightarrow>
   sorted_wrt (\<lambda>a b. \<not> same_finding U a b) (keep_loop U cap kept cs)"
  by (induction U cap kept cs rule: keep_loop.induct) (auto simp: Let_def sorted_wrt_append list_ex_iff)

text \<open>A candidate that is not kept repeats a kept one before it, or the cap was reached first.\<close>

lemma keep_loop_dropped:
  assumes "sorted_wrt R (kept @ cs)" and "c \<in> set cs" and "c \<notin> set (keep_loop U cap kept cs)"
  shows "(\<exists>e \<in> set (keep_loop U cap kept cs). same_finding U e c \<and> R e c)
    \<or> (int (length (keep_loop U cap kept cs)) = cap \<and> (\<forall>e \<in> set (keep_loop U cap kept cs). R e c))"
  using assms
proof (induction U cap kept cs rule: keep_loop.induct)
  case (1 U cap kept)
  then show ?case by simp
next
  case (2 U cap kept d ds)
  show ?case
  proof (cases "list_ex (\<lambda>e. same_finding U e d) kept")
    case True
    then obtain e where e: "e \<in> set kept" "same_finding U e d" by (auto simp: list_ex_iff)
    have step: "keep_loop U cap kept (d # ds) = keep_loop U cap kept ds" using True by simp
    have "sorted_wrt R (kept @ ds)" using "2.prems"(1) by (auto simp: sorted_wrt_append)
    moreover have "R e d" using "2.prems"(1) e(1) by (auto simp: sorted_wrt_append)
    ultimately show ?thesis
      using "2.IH"(1) [OF True] "2.prems" e keep_loop_set [of kept U cap ds] unfolding step by auto
  next
    case new: False
    show ?thesis
    proof (cases "int (length (kept @ [d])) = cap")
      case True
      then have "keep_loop U cap kept (d # ds) = kept @ [d]" using new by simp
      then show ?thesis using "2.prems" True by (auto simp: sorted_wrt_append)
    next
      case False
      then have step: "keep_loop U cap kept (d # ds) = keep_loop U cap (kept @ [d]) ds"
        using new by simp
      have "c \<noteq> d" using "2.prems"(3) keep_loop_set [of "kept @ [d]" U cap ds] unfolding step by auto
      then show ?thesis
        using "2.IH"(2) [OF new refl False] "2.prems" unfolding step by simp
    qed
  qed
qed

text \<open>
  C24: The delivered findings come from the input, at most the cap of them, strongest first, no
  two of them duplicates; and a finding that is left out either repeats a delivered finding
  that is no weaker, or the cap is used up by findings none of which is weaker.
\<close>

theorem rank_and_cap_spec:
  "let out = rank_and_cap_findings U findings max_inline;
       cap = (if max_inline \<le> 0 then 15 else max_inline)
   in set out \<subseteq> set findings
    \<and> int (length out) \<le> cap
    \<and> sorted_wrt (\<lambda>a b. \<not> stronger b a) out
    \<and> sorted_wrt (\<lambda>a b. \<not> same_finding U a b) out
    \<and> (\<forall>c \<in> set findings - set out.
         (\<exists>e \<in> set out. same_finding U e c \<and> \<not> stronger c e)
         \<or> (int (length out) = cap
             \<and> (\<forall>e \<in> set out. \<not> stronger c e)))"
proof -
  let ?cap = "inline_cap max_inline"
  let ?out = "keep_loop U ?cap [] (sort_by stronger findings)"
  have srt: "sorted_wrt (\<lambda>a b. \<not> stronger b a) ([] @ sort_by stronger findings)"
    using strength.ordered_sort_by by (simp add: ordered_def)
  have cap: "(if max_inline \<le> 0 then 15 else max_inline) = ?cap"
    by (simp add: inline_cap_def default_max_inline_comments_def)
  have out: "rank_and_cap_findings U findings max_inline = ?out"
    by (simp add: rank_and_cap_findings_def)
  have "set ?out \<subseteq> set findings" using keep_loop_set [of "[]" U ?cap "sort_by stronger findings"] by simp
  moreover have "int (length ?out) \<le> ?cap" using keep_loop_length inline_cap_pos by simp
  moreover have "sorted_wrt (\<lambda>a b. \<not> stronger b a) ?out" using keep_loop_sorted_wrt [OF srt] .
  moreover have "sorted_wrt (\<lambda>a b. \<not> same_finding U a b) ?out" by (simp add: keep_loop_pairwise)
  moreover have "\<forall>c \<in> set findings - set ?out.
      (\<exists>e \<in> set ?out. same_finding U e c \<and> \<not> stronger c e)
      \<or> (int (length ?out) = ?cap \<and> (\<forall>e \<in> set ?out. \<not> stronger c e))"
    using keep_loop_dropped [OF srt] by simp
  ultimately show ?thesis unfolding Let_def cap out by blast
qed

theorem rank_and_cap_spec_witness:
  "length (rank_and_cap_findings ascii_tables [sample_finding, sample_finding\<lparr>f_start := 4\<rparr>] 1) \<le> 1
   \<and> set (rank_and_cap_findings ascii_tables [sample_finding, sample_finding\<lparr>f_start := 4\<rparr>] 1)
       \<subseteq> {sample_finding, sample_finding\<lparr>f_start := 4\<rparr>}"
  using rank_and_cap_spec [of ascii_tables "[sample_finding, sample_finding\<lparr>f_start := 4\<rparr>]" 1]
  by (simp add: Let_def)

text \<open>
  The delivered list does not depend on the order in which the findings arrive, as long as
  the comparison separates them.
\<close>

theorem rank_and_cap_order_independent:
  assumes "mset xs = mset ys"
    and "\<And>a b. a \<in> set xs \<Longrightarrow> b \<in> set xs \<Longrightarrow> a \<noteq> b \<Longrightarrow> stronger a b \<or> stronger b a"
  shows "rank_and_cap_findings U xs max_inline = rank_and_cap_findings U ys max_inline"
proof -
  have "sort_by stronger xs = sort_by stronger ys"
    by (rule strength.sort_by_determined) (use assms in auto)
  then show ?thesis by (simp add: rank_and_cap_findings_def)
qed

theorem rank_and_cap_order_independent_witness:
  "rank_and_cap_findings ascii_tables [sample_finding, sample_finding\<lparr>f_severity := ''P0''\<rparr>] 3
   = rank_and_cap_findings ascii_tables [sample_finding\<lparr>f_severity := ''P0''\<rparr>, sample_finding] 3"
proof (rule rank_and_cap_order_independent)
  show "mset [sample_finding, sample_finding\<lparr>f_severity := ''P0''\<rparr>]
      = mset [sample_finding\<lparr>f_severity := ''P0''\<rparr>, sample_finding]" by simp
qed (auto simp: stronger_def severity_rank_def sample_finding_def)

text \<open>A repeated weaker finding is dropped, an overlapping unrelated one is not.\<close>

lemma rank_and_cap_example:
  "rank_and_cap_findings ascii_tables
     [sample_finding, sample_finding\<lparr>f_severity := ''P0'', f_path := ''src/app.go'', f_start := 4\<rparr>] 0
   = [sample_finding\<lparr>f_severity := ''P0'', f_path := ''src/app.go'', f_start := 4\<rparr>]"
  by code_simp

end
