(* ===== verification/Delivery.thy ===== *)
theory Delivery
  imports Findings
begin

text \<open>
  Where findings go. \<open>internal/hosted/review/line_map.go\<close> separates the findings GitHub can
  anchor on the current diff from those that stay in the summary;
  \<open>internal/hosted/review/rereview.go\<close> plans the next review of a pull request from the
  findings of the last one.
\<close>

section \<open>Mapping findings to the diff\<close>

record diff_range =
  d_path :: bytes
  d_start :: int
  d_end :: int

record summary_finding =
  sf_finding :: finding
  sf_reason :: bytes

text \<open>The map from cleaned paths to their ranges; a missing key reads as the empty slice.\<close>

type_synonym span_map = "bytes \<Rightarrow> diff_range list"

definition range_invalid :: "diff_range \<Rightarrow> bool" where
  "range_invalid s \<longleftrightarrow>
     d_path s = [] \<or> is_abs (d_path s) \<or> clean (d_path s) = ''..''
     \<or> has_prefix ''../'' (clean (d_path s)) \<or> d_start s \<le> 0 \<or> d_end s < d_start s"

definition add_range :: "span_map \<Rightarrow> diff_range \<Rightarrow> span_map" where
  "add_range m s =
     (let path = clean (d_path s) in m(path := m path @ [s\<lparr>d_path := path\<rparr>]))"

fun index_ranges :: "span_map \<Rightarrow> diff_range list \<Rightarrow> span_map res" where
  "index_ranges m [] = Inr m"
| "index_ranges m (s # ss) =
     (if range_invalid s then Inl (Msg ''diff range is invalid'')
      else index_ranges (add_range m s) ss)"

definition anchored_in :: "finding \<Rightarrow> diff_range list \<Rightarrow> bool" where
  "anchored_in f ranges \<longleftrightarrow> list_ex (\<lambda>s. f_start f \<ge> d_start s \<and> f_end f \<le> d_end s) ranges"

fun place_findings ::
    "span_map \<Rightarrow> finding list \<Rightarrow> summary_finding list \<Rightarrow> finding list
     \<Rightarrow> finding list \<times> summary_finding list" where
  "place_findings m inline summary [] = (inline, summary)"
| "place_findings m inline summary (f # fs) =
     (let ranges = m (clean (f_path f)) in
      if anchored_in f ranges then place_findings m (inline @ [f]) summary fs
      else place_findings m inline
        (summary @ [\<lparr>sf_finding = f,
           sf_reason = (if ranges = [] then ''file has no commentable lines in the current diff''
                        else ''line range is not part of the current diff'')\<rparr>]) fs)"

definition map_findings_to_diff ::
    "finding list \<Rightarrow> diff_range list \<Rightarrow> (finding list \<times> summary_finding list) res" where
  "map_findings_to_diff findings changed =
     (case index_ranges (\<lambda>_. []) changed of
        Inl e \<Rightarrow> Inl e
      | Inr m \<Rightarrow> Inr (place_findings m [] [] findings))"

text \<open>
  What the contract says without the map: a finding is anchored when one changed range of its
  file covers its whole line range.
\<close>

definition ranges_of :: "diff_range list \<Rightarrow> finding \<Rightarrow> diff_range list" where
  "ranges_of changed f = filter (\<lambda>s. clean (d_path s) = clean (f_path f)) changed"

definition anchorable :: "diff_range list \<Rightarrow> finding \<Rightarrow> bool" where
  "anchorable changed f \<longleftrightarrow>
     (\<exists>s \<in> set (ranges_of changed f). d_start s \<le> f_start f \<and> f_end f \<le> d_end s)"

definition summary_of :: "diff_range list \<Rightarrow> finding \<Rightarrow> summary_finding" where
  "summary_of changed f =
     \<lparr>sf_finding = f,
      sf_reason = (if ranges_of changed f = [] then ''file has no commentable lines in the current diff''
                   else ''line range is not part of the current diff'')\<rparr>"

lemma index_ranges_ok:
  "index_ranges m changed = Inr m' \<longleftrightarrow>
     (\<forall>s \<in> set changed. \<not> range_invalid s)
     \<and> m' = (\<lambda>p. m p @ map (\<lambda>s. s\<lparr>d_path := p\<rparr>) (filter (\<lambda>s. clean (d_path s) = p) changed))"
proof (induction m changed rule: index_ranges.induct)
  case (1 m)
  then show ?case by auto
next
  case (2 m s ss)
  show ?case
  proof (cases "range_invalid s")
    case True
    then show ?thesis by simp
  next
    case False
    have "(\<lambda>p. add_range m s p @ map (\<lambda>s. s\<lparr>d_path := p\<rparr>) (filter (\<lambda>s. clean (d_path s) = p) ss))
        = (\<lambda>p. m p @ map (\<lambda>s. s\<lparr>d_path := p\<rparr>) (filter (\<lambda>s. clean (d_path s) = p) (s # ss)))"
      by (simp add: fun_eq_iff add_range_def Let_def)
    with "2.IH" [OF False] False show ?thesis by simp
  qed
qed

lemma index_ranges_error:
  "index_ranges m changed = Inl e \<longleftrightarrow>
     (\<exists>s \<in> set changed. range_invalid s) \<and> e = Msg ''diff range is invalid''"
  by (induction m changed rule: index_ranges.induct) auto

lemma place_findings_eq:
  "place_findings m inline summary fs =
     (inline @ filter (\<lambda>f. anchored_in f (m (clean (f_path f)))) fs,
      summary @ map (\<lambda>f. \<lparr>sf_finding = f,
          sf_reason = (if m (clean (f_path f)) = []
             then ''file has no commentable lines in the current diff''
             else ''line range is not part of the current diff'')\<rparr>)
        (filter (\<lambda>f. \<not> anchored_in f (m (clean (f_path f)))) fs))"
  by (induction m inline summary fs rule: place_findings.induct) (auto simp: Let_def)

text \<open>
  C40: Mapping findings to a diff succeeds exactly when every changed range is valid, and then
  it splits the findings, in their order, into the anchorable ones and the rest, each of the
  rest with the reason that fits: no finding is lost, repeated or put on both sides.
\<close>

theorem map_findings_to_diff_spec:
  "map_findings_to_diff findings changed =
     (if \<exists>s \<in> set changed. outside_repo (d_path s) \<or> d_start s < 1 \<or> d_end s < d_start s
      then Inl (Msg ''diff range is invalid'')
      else Inr (filter (anchorable changed) findings,
                map (summary_of changed) (filter (\<lambda>f. \<not> anchorable changed f) findings)))"
proof -
  have inv: "range_invalid s \<longleftrightarrow> outside_repo (d_path s) \<or> d_start s < 1 \<or> d_end s < d_start s" for s
    by (auto simp: range_invalid_def outside_repo_def)
  show ?thesis
  proof (cases "index_ranges (\<lambda>_. []) changed")
    case (Inl e)
    then show ?thesis
      unfolding index_ranges_error by (auto simp: map_findings_to_diff_def inv index_ranges_error)
        (metis Inl index_ranges_error old.sum.simps(5))+
  next
    case (Inr m)
    then have m: "m = (\<lambda>p. map (\<lambda>s. s\<lparr>d_path := p\<rparr>) (filter (\<lambda>s. clean (d_path s) = p) changed))"
        and valid: "\<forall>s \<in> set changed. \<not> range_invalid s"
      by (auto simp: index_ranges_ok)
    have "anchored_in f (m (clean (f_path f))) = anchorable changed f" for f
      by (auto simp: m anchored_in_def anchorable_def ranges_of_def list_ex_iff)
    moreover have "(m (clean (f_path f)) = []) = (ranges_of changed f = [])" for f
      by (simp add: m ranges_of_def)
    ultimately show ?thesis
      using Inr valid by (simp add: map_findings_to_diff_def place_findings_eq summary_of_def [abs_def] flip: inv)
  qed
qed

section \<open>Planning a re-review\<close>

record prior_finding =
  p_fingerprint :: bytes
  p_path :: bytes
  p_start :: int
  p_end :: int
  p_status :: bytes
  p_thread_id :: bytes

record fingerprinted_finding =
  ff_fingerprint :: bytes
  ff_finding :: finding

record rereview_plan =
  rp_base_sha :: bytes
  rp_head_sha :: bytes
  rp_findings :: "fingerprinted_finding list"
  rp_resolve_thread_ids :: "bytes list"
  rp_dismissed_fingerprints :: "bytes list"

definition full_sha :: "bytes \<Rightarrow> bool" where
  "full_sha value \<longleftrightarrow> length value = 40
     \<and> list_all (\<lambda>r. ascii_digit r \<or> (CHR ''a'' \<le> r \<and> r \<le> CHR ''f'')) (ascii_lowercase value)"

definition range_changed :: "prior_finding \<Rightarrow> diff_range list \<Rightarrow> bool" where
  "range_changed old changed \<longleftrightarrow>
     list_ex (\<lambda>s. clean (d_path s) = clean (p_path old)
        \<and> p_start old \<le> d_end s \<and> d_start s \<le> p_end old) changed"

fun collect_dismissed :: "bytes set \<Rightarrow> prior_finding list \<Rightarrow> bytes set" where
  "collect_dismissed acc [] = acc"
| "collect_dismissed acc (old # rest) =
     collect_dismissed
       (if p_status old = ''dismissed'' \<and> p_fingerprint old \<noteq> [] then insert (p_fingerprint old) acc
        else acc) rest"

fun scan_proposed ::
    "bytes set \<Rightarrow> bytes set \<Rightarrow> fingerprinted_finding list \<Rightarrow> fingerprinted_finding list
     \<Rightarrow> (bytes set \<times> fingerprinted_finding list) res" where
  "scan_proposed dismissed current kept [] = Inr (current, kept)"
| "scan_proposed dismissed current kept (c # cs) =
     (if ff_fingerprint c = [] then Inl (Msg ''proposed finding fingerprint is required'')
      else scan_proposed dismissed (insert (ff_fingerprint c) current)
        (if ff_fingerprint c \<notin> dismissed then kept @ [c] else kept) cs)"

fun collect_resolved :: "bytes set \<Rightarrow> diff_range list \<Rightarrow> bytes set \<Rightarrow> prior_finding list \<Rightarrow> bytes set" where
  "collect_resolved current changed acc [] = acc"
| "collect_resolved current changed acc (old # rest) =
     collect_resolved current changed
       (if p_status old \<noteq> ''open'' \<or> p_thread_id old = [] \<or> p_fingerprint old \<in> current then acc
        else if range_changed old changed then insert (p_thread_id old) acc else acc) rest"

definition plan_rereview ::
    "bytes \<Rightarrow> bytes \<Rightarrow> diff_range list \<Rightarrow> prior_finding list \<Rightarrow> fingerprinted_finding list
     \<Rightarrow> rereview_plan res" where
  "plan_rereview last_sha head_sha changed prior proposed =
     (if \<not> full_sha last_sha \<or> \<not> full_sha head_sha \<or> last_sha = head_sha
      then Inl (Msg ''distinct full review SHAs are required'')
      else let dismissed = collect_dismissed {} prior in
        case scan_proposed dismissed {} [] proposed of
          Inl e \<Rightarrow> Inl e
        | Inr (current, kept) \<Rightarrow>
            Inr \<lparr>rp_base_sha = last_sha, rp_head_sha = head_sha, rp_findings = kept,
                 rp_resolve_thread_ids =
                   sorted_list_of_set (collect_resolved current changed {} prior),
                 rp_dismissed_fingerprints = sorted_list_of_set dismissed\<rparr>)"

lemma collect_dismissed_eq:
  "collect_dismissed acc prior =
     acc \<union> {p_fingerprint old | old. old \<in> set prior \<and> p_status old = ''dismissed'' \<and> p_fingerprint old \<noteq> []}"
  by (induction acc prior rule: collect_dismissed.induct) auto

lemma scan_proposed_ok:
  "scan_proposed dismissed current kept cs = Inr r \<longleftrightarrow>
     (\<forall>c \<in> set cs. ff_fingerprint c \<noteq> [])
     \<and> r = (current \<union> ff_fingerprint ` set cs,
            kept @ filter (\<lambda>c. ff_fingerprint c \<notin> dismissed) cs)"
  by (induction dismissed current kept cs rule: scan_proposed.induct) auto

lemma collect_resolved_eq:
  "collect_resolved current changed acc prior =
     acc \<union> {p_thread_id old | old. old \<in> set prior \<and> p_status old = ''open'' \<and> p_thread_id old \<noteq> []
             \<and> p_fingerprint old \<notin> current \<and> range_changed old changed}"
  by (induction current changed acc prior rule: collect_resolved.induct) auto

lemma finite_collect: "finite acc \<Longrightarrow> finite (collect_dismissed acc prior)"
  "finite acc \<Longrightarrow> finite (collect_resolved current changed acc prior)"
  by (induction prior arbitrary: acc) auto

text \<open>
  C27: A re-review plan exists exactly for two different full SHAs and fingerprinted proposals.
  It keeps the proposals that were not dismissed before, in their order; lists the dismissed
  fingerprints; and resolves a thread exactly when some open finding on it did not recur and its
  range was touched, both lists sorted and free of repetitions.
\<close>

theorem plan_rereview_spec:
  "plan_rereview last_sha head_sha changed prior proposed = Inr plan \<longleftrightarrow>
     full_sha last_sha \<and> full_sha head_sha \<and> last_sha \<noteq> head_sha
     \<and> [] \<notin> ff_fingerprint ` set proposed
     \<and> rp_base_sha plan = last_sha \<and> rp_head_sha plan = head_sha
     \<and> rp_findings plan = filter (\<lambda>c. \<not> (\<exists>old \<in> set prior. p_status old = ''dismissed''
           \<and> p_fingerprint old = ff_fingerprint c)) proposed
     \<and> sorted (rp_resolve_thread_ids plan) \<and> distinct (rp_resolve_thread_ids plan)
     \<and> set (rp_resolve_thread_ids plan) =
         {p_thread_id old | old. old \<in> set prior \<and> p_status old = ''open'' \<and> p_thread_id old \<noteq> []
            \<and> p_fingerprint old \<notin> ff_fingerprint ` set proposed \<and> range_changed old changed}
     \<and> sorted (rp_dismissed_fingerprints plan) \<and> distinct (rp_dismissed_fingerprints plan)
     \<and> set (rp_dismissed_fingerprints plan) =
         {p_fingerprint old | old. old \<in> set prior \<and> p_status old = ''dismissed'' \<and> p_fingerprint old \<noteq> []}"
proof -
  let ?dis = "collect_dismissed {} prior"
  let ?cur = "ff_fingerprint ` set proposed"
  let ?res = "collect_resolved ?cur changed {} prior"
  have fin: "finite ?dis" "finite ?res" by (simp_all add: finite_collect)
  have lists: "(sorted xs \<and> distinct xs \<and> set xs = S) \<longleftrightarrow> xs = sorted_list_of_set S"
      if "finite S" for xs :: "bytes list" and S
    using that by (metis sorted_list_of_set.distinct_sorted_key_list_of_set
      sorted_list_of_set.set_sorted_key_list_of_set sorted_list_of_set.sorted_sorted_key_list_of_set
      sorted_list_of_set.idem_if_sorted_distinct list.map_ident)
  have kept: "[] \<notin> ?cur \<Longrightarrow> filter (\<lambda>c. ff_fingerprint c \<notin> ?dis) proposed =
      filter (\<lambda>c. \<not> (\<exists>old \<in> set prior. p_status old = ''dismissed''
           \<and> p_fingerprint old = ff_fingerprint c)) proposed"
    by (rule filter_cong) (force simp: collect_dismissed_eq)+
  have main: "plan_rereview last_sha head_sha changed prior proposed = Inr plan \<longleftrightarrow>
      full_sha last_sha \<and> full_sha head_sha \<and> last_sha \<noteq> head_sha \<and> [] \<notin> ?cur
      \<and> rp_base_sha plan = last_sha \<and> rp_head_sha plan = head_sha
      \<and> rp_findings plan = filter (\<lambda>c. ff_fingerprint c \<notin> ?dis) proposed
      \<and> rp_resolve_thread_ids plan = sorted_list_of_set ?res
      \<and> rp_dismissed_fingerprints plan = sorted_list_of_set ?dis"
  proof (cases "scan_proposed ?dis {} [] proposed")
    case (Inl e)
    have "[] \<in> ?cur"
    proof (rule ccontr)
      assume "[] \<notin> ?cur"
      then have "\<forall>c \<in> set proposed. ff_fingerprint c \<noteq> []" by (auto simp: image_iff)
      then have "\<exists>r. scan_proposed ?dis {} [] proposed = Inr r" by (simp add: scan_proposed_ok)
      with Inl show False by simp
    qed
    then show ?thesis using Inl by (simp add: plan_rereview_def Let_def)
  next
    case (Inr r)
    then have r: "r = (?cur, filter (\<lambda>c. ff_fingerprint c \<notin> ?dis) proposed)" "[] \<notin> ?cur"
      using scan_proposed_ok [of ?dis "{}" "[]" proposed r] by (simp_all add: image_iff) metis
    show ?thesis using Inr r by (cases plan) (auto simp: plan_rereview_def Let_def)
  qed
  have res: "rp_resolve_thread_ids plan = sorted_list_of_set ?res \<longleftrightarrow>
      sorted (rp_resolve_thread_ids plan) \<and> distinct (rp_resolve_thread_ids plan)
      \<and> set (rp_resolve_thread_ids plan) =
         {p_thread_id old | old. old \<in> set prior \<and> p_status old = ''open'' \<and> p_thread_id old \<noteq> []
            \<and> p_fingerprint old \<notin> ff_fingerprint ` set proposed \<and> range_changed old changed}"
    using lists [OF fin(2), of "rp_resolve_thread_ids plan"] unfolding collect_resolved_eq by simp
  have dis: "rp_dismissed_fingerprints plan = sorted_list_of_set ?dis \<longleftrightarrow>
      sorted (rp_dismissed_fingerprints plan) \<and> distinct (rp_dismissed_fingerprints plan)
      \<and> set (rp_dismissed_fingerprints plan) =
         {p_fingerprint old | old. old \<in> set prior \<and> p_status old = ''dismissed'' \<and> p_fingerprint old \<noteq> []}"
    using lists [OF fin(1), of "rp_dismissed_fingerprints plan"] unfolding collect_dismissed_eq by simp
  show ?thesis
  proof (cases "[] \<in> ?cur")
    case True
    then show ?thesis unfolding main by (simp only: simp_thms)
  next
    case False
    show ?thesis unfolding main res dis kept [OF False] by (simp only: conj_assoc)
  qed
qed

end
