(* ===== verification/Addressed.thy ===== *)
theory Addressed
  imports Delivery
begin

text \<open>
  \<open>internal/hosted/review/addressed.go\<close>: whether the lines a finding was about are gone at
  the merge revision. The file reader of the host and the hex SHA-256 digest are parameters;
  a \<open>nil\<close> reader is \<open>None\<close>.
\<close>

definition max_addressed_file_bytes :: nat where
  "max_addressed_file_bytes = 4194304"

type_synonym file_reader = "int \<Rightarrow> int \<Rightarrow> bytes \<Rightarrow> bytes \<Rightarrow> (bytes \<times> bool) res"

record addressed_input =
  ai_installation_id :: int
  ai_repository_id :: int
  ai_review_sha :: bytes
  ai_merge_sha :: bytes
  ai_path :: bytes
  ai_start :: int
  ai_end :: int

record addressed_result =
  ar_addressed :: bool
  ar_reason :: bytes
  ar_original_fingerprint :: bytes

fun replace_crlf :: "bytes \<Rightarrow> bytes" where
  "replace_crlf [] = []"
| "replace_crlf [c] = [c]"
| "replace_crlf (c # d # s) =
     (if c = CHR 0x0D \<and> d = CHR 0x0A then CHR 0x0A # replace_crlf s
      else c # replace_crlf (d # s))"

definition split_review_lines :: "bytes \<Rightarrow> bytes list" where
  "split_review_lines content = split_on CHR 0x0A (trim_suffix [CHR 0x0A] (replace_crlf content))"

definition contains_line_sequence :: "bytes list \<Rightarrow> bytes list \<Rightarrow> bool" where
  "contains_line_sequence lines wanted =
     (if wanted = [] \<or> length wanted > length lines then False
      else list_ex (\<lambda>i. list_all (\<lambda>k. lines ! (i + k) = wanted ! k) [0..<length wanted])
             [0..<Suc (length lines - length wanted)])"

definition input_invalid :: "addressed_input \<Rightarrow> bool" where
  "input_invalid i \<longleftrightarrow>
     ai_installation_id i \<le> 0 \<or> ai_repository_id i \<le> 0
     \<or> \<not> full_sha (ai_review_sha i) \<or> \<not> full_sha (ai_merge_sha i)
     \<or> ai_review_sha i = ai_merge_sha i
     \<or> ai_path i = [] \<or> is_abs (ai_path i) \<or> clean (ai_path i) = ''..''
     \<or> has_prefix ''../'' (clean (ai_path i))
     \<or> ai_start i \<le> 0 \<or> ai_end i < ai_start i"

definition wanted_lines :: "addressed_input \<Rightarrow> bytes list \<Rightarrow> bytes list" where
  "wanted_lines i lines =
     take (nat (ai_end i - (ai_start i - 1))) (drop (nat (ai_start i - 1)) lines)"

definition detect_addressed ::
    "(bytes \<Rightarrow> bytes) \<Rightarrow> file_reader option \<Rightarrow> addressed_input \<Rightarrow> addressed_result res" where
  "detect_addressed hex_digest reader i =
     (case reader of
        None \<Rightarrow> Inl (Msg ''tenant, distinct revisions, and a valid reviewed range are required'')
      | Some read_file \<Rightarrow>
     if input_invalid i
     then Inl (Msg ''tenant, distinct revisions, and a valid reviewed range are required'')
     else let clean_path = clean (ai_path i) in
     case read_file (ai_installation_id i) (ai_repository_id i) (ai_review_sha i) clean_path of
       Inl e \<Rightarrow> Inl (Wrapped ''read reviewed file: %w'' [] e)
     | Inr (original, exists) \<Rightarrow>
     if \<not> exists
     then Inl (Wrapped ''read reviewed file: %w'' [] (Msg ''reviewed file does not exist at review SHA''))
     else if length original > max_addressed_file_bytes
     then Inl (Msg ''reviewed file exceeds addressed-detection limit'')
     else let lines = split_review_lines original in
     if ai_end i > int (length lines) then Inl (Msg ''reviewed range exceeds file length'')
     else let wanted = wanted_lines i lines;
              result = \<lparr>ar_addressed = False, ar_reason = [],
                        ar_original_fingerprint = hex_digest (join_with [CHR 0x0A] wanted)\<rparr> in
     case read_file (ai_installation_id i) (ai_repository_id i) (ai_merge_sha i) clean_path of
       Inl e \<Rightarrow> Inl (Wrapped ''read merged file: %w'' [] e)
     | Inr (merged, exists) \<Rightarrow>
     if \<not> exists
     then Inr (result\<lparr>ar_addressed := True, ar_reason := ''file was deleted before merge''\<rparr>)
     else if length merged > max_addressed_file_bytes
     then Inl (Msg ''merged file exceeds addressed-detection limit'')
     else if contains_line_sequence (split_review_lines merged) wanted
     then Inr (result\<lparr>ar_reason := ''reviewed lines remain unchanged at merge''\<rparr>)
     else Inr (result\<lparr>ar_addressed := True, ar_reason := ''reviewed lines changed before merge''\<rparr>))"

section \<open>The search\<close>

text \<open>The nested loops decide whether the wanted lines are a contiguous part of the file.\<close>

lemma contains_line_sequence_iff:
  "contains_line_sequence lines wanted \<longleftrightarrow>
     wanted \<noteq> [] \<and> (\<exists>pre post. lines = pre @ wanted @ post)"
proof (cases "wanted = [] \<or> length wanted > length lines")
  case True
  then show ?thesis by (auto simp: contains_line_sequence_def)
next
  case False
  let ?n = "length wanted"
  have at: "(\<forall>k < ?n. lines ! (i + k) = wanted ! k) \<longleftrightarrow> take ?n (drop i lines) = wanted"
    if "i + ?n \<le> length lines" for i
    using that by (auto simp: list_eq_iff_nth_eq)
  have "contains_line_sequence lines wanted \<longleftrightarrow>
      (\<exists>i \<le> length lines - ?n. take ?n (drop i lines) = wanted)"
  proof -
    have "contains_line_sequence lines wanted \<longleftrightarrow>
        (\<exists>i < Suc (length lines - ?n). \<forall>k < ?n. lines ! (i + k) = wanted ! k)"
      using False by (auto simp: contains_line_sequence_def list_ex_iff list_all_iff Bex_def simp del: upt_Suc)
    also have "\<dots> \<longleftrightarrow> (\<exists>i \<le> length lines - ?n. take ?n (drop i lines) = wanted)"
      using False at by (metis less_Suc_eq_le le_diff_conv2 linorder_not_less)
    finally show ?thesis .
  qed
  also have "\<dots> \<longleftrightarrow> (\<exists>pre post. lines = pre @ wanted @ post)"
  proof
    assume "\<exists>i \<le> length lines - ?n. take ?n (drop i lines) = wanted"
    then obtain i where "take ?n (drop i lines) = wanted" by blast
    then have "lines = take i lines @ wanted @ drop ?n (drop i lines)"
      by (metis append_take_drop_id)
    then show "\<exists>pre post. lines = pre @ wanted @ post" by blast
  next
    assume "\<exists>pre post. lines = pre @ wanted @ post"
    then obtain pre post where "lines = pre @ wanted @ post" by blast
    then show "\<exists>i \<le> length lines - ?n. take ?n (drop i lines) = wanted"
      by (intro exI [of _ "length pre"]) simp
  qed
  finally show ?thesis using False by simp
qed

lemma wanted_lines_nonempty:
  assumes "\<not> input_invalid i" and "ai_end i \<le> int (length lines)"
  shows "wanted_lines i lines \<noteq> []"
  using assms by (auto simp: wanted_lines_def input_invalid_def)

lemma wanted_lines_infix: "\<exists>pre post. lines = pre @ wanted_lines i lines @ post"
  unfolding wanted_lines_def by (metis append_take_drop_id)

text \<open>
  C39: When both revisions can be read within the limits, the finding counts as addressed exactly
  when the reviewed lines are no contiguous part of the merged file, whatever was inserted
  around them.
\<close>

theorem detect_addressed_iff:
  assumes "\<not> input_invalid i"
    and "rd (ai_installation_id i) (ai_repository_id i) (ai_review_sha i) (clean (ai_path i)) = Inr (original, True)"
    and "rd (ai_installation_id i) (ai_repository_id i) (ai_merge_sha i) (clean (ai_path i)) = Inr (merged, True)"
    and "length original \<le> 4194304" and "length merged \<le> 4194304"
    and "ai_end i \<le> int (length (split_review_lines original))"
  shows "\<exists>r. detect_addressed hex_digest (Some rd) i = Inr r
    \<and> ar_original_fingerprint r = hex_digest (join_with [CHR 0x0A] (wanted_lines i (split_review_lines original)))
    \<and> (ar_addressed r \<longleftrightarrow>
        \<not> (\<exists>pre post. split_review_lines merged = pre @ wanted_lines i (split_review_lines original) @ post))"
  using assms wanted_lines_nonempty [OF assms(1,6)]
  by (simp add: detect_addressed_def max_addressed_file_bytes_def contains_line_sequence_iff Let_def)

definition sample_input :: addressed_input where
  "sample_input =
     \<lparr>ai_installation_id = 1, ai_repository_id = 2, ai_review_sha = replicate 40 CHR ''a'',
      ai_merge_sha = replicate 40 CHR ''b'', ai_path = ''src/app.go'', ai_start = 2, ai_end = 2\<rparr>"

definition sample_reader :: file_reader where
  "sample_reader inst repo sha p =
     (if sha = replicate 40 CHR ''a'' then Inr (''a'' @ [CHR 0x0A] @ ''b'' @ [CHR 0x0A], True)
      else Inr (''x'' @ [CHR 0x0A] @ ''a'' @ [CHR 0x0D, CHR 0x0A] @ ''b'', True))"

theorem detect_addressed_iff_witness:
  "\<exists>r. detect_addressed (\<lambda>s. s) (Some sample_reader) sample_input = Inr r
    \<and> ar_original_fingerprint r = join_with [CHR 0x0A]
        (wanted_lines sample_input (split_review_lines (''a'' @ [CHR 0x0A] @ ''b'' @ [CHR 0x0A])))
    \<and> (ar_addressed r \<longleftrightarrow> \<not> (\<exists>pre post.
        split_review_lines (''x'' @ [CHR 0x0A] @ ''a'' @ [CHR 0x0D, CHR 0x0A] @ ''b'') = pre
          @ wanted_lines sample_input (split_review_lines (''a'' @ [CHR 0x0A] @ ''b'' @ [CHR 0x0A])) @ post))"
proof (rule detect_addressed_iff [where hex_digest = "\<lambda>s. s"])
  show "\<not> input_invalid sample_input" by code_simp
  show "ai_end sample_input \<le> int (length (split_review_lines (''a'' @ [CHR 0x0A] @ ''b'' @ [CHR 0x0A])))"
    by code_simp
qed (simp_all add: sample_input_def sample_reader_def)

text \<open>
  Lines added before and after the reviewed file never make a finding look addressed.
\<close>

theorem insertions_do_not_address:
  assumes "\<not> input_invalid i"
    and "rd (ai_installation_id i) (ai_repository_id i) (ai_review_sha i) (clean (ai_path i)) = Inr (original, True)"
    and "rd (ai_installation_id i) (ai_repository_id i) (ai_merge_sha i) (clean (ai_path i)) = Inr (merged, True)"
    and "length original \<le> 4194304" and "length merged \<le> 4194304"
    and "ai_end i \<le> int (length (split_review_lines original))"
    and "split_review_lines merged = upper @ split_review_lines original @ lower"
  shows "\<exists>r. detect_addressed hex_digest (Some rd) i = Inr r \<and> \<not> ar_addressed r
    \<and> ar_reason r = ''reviewed lines remain unchanged at merge''"
proof -
  obtain pre post where "split_review_lines original = pre @ wanted_lines i (split_review_lines original) @ post"
    using wanted_lines_infix by blast
  then have "split_review_lines merged
      = (upper @ pre) @ wanted_lines i (split_review_lines original) @ (post @ lower)"
    using assms(7) by (metis append.assoc)
  then have "contains_line_sequence (split_review_lines merged) (wanted_lines i (split_review_lines original))"
    using wanted_lines_nonempty [OF assms(1,6)] unfolding contains_line_sequence_iff by metis
  then show ?thesis
    using assms(1-6) by (simp add: detect_addressed_def max_addressed_file_bytes_def Let_def)
qed

theorem insertions_do_not_address_witness:
  "\<exists>r. detect_addressed (\<lambda>s. s) (Some sample_reader) sample_input = Inr r \<and> \<not> ar_addressed r
    \<and> ar_reason r = ''reviewed lines remain unchanged at merge''"
proof (rule insertions_do_not_address
    [where original = "''a'' @ [CHR 0x0A] @ ''b'' @ [CHR 0x0A]" and upper = "[''x'']" and lower = "[]"
       and merged = "''x'' @ [CHR 0x0A] @ ''a'' @ [CHR 0x0D, CHR 0x0A] @ ''b''"])
  show "\<not> input_invalid sample_input" by code_simp
  show "ai_end sample_input \<le> int (length (split_review_lines (''a'' @ [CHR 0x0A] @ ''b'' @ [CHR 0x0A])))"
    by code_simp
  show "split_review_lines (''x'' @ [CHR 0x0A] @ ''a'' @ [CHR 0x0D, CHR 0x0A] @ ''b'')
      = [''x''] @ split_review_lines (''a'' @ [CHR 0x0A] @ ''b'' @ [CHR 0x0A]) @ []"
    by code_simp
qed (simp_all add: sample_input_def sample_reader_def)

end
