(* ===== verification/Confidence.thy ===== *)
theory Confidence
  imports GoStd
begin

text \<open>
  \<open>internal/hosted/review/confidence.go\<close>: the published zero-to-five confidence rubric. Go's
  \<open>int\<close> is 64 bits wide: sums and products are written with their wrap-around. Ratios are
  rationals; the two thresholds they are compared with are exact, and only the digits printed by
  \<open>%.0f\<close> in a detail text could depend on \<open>float64\<close> rounding.
\<close>

section \<open>Input, reasons and validation\<close>

record confidence_input =
  unresolved_p0 :: int
  unresolved_p1 :: int
  changed_lines :: int
  complexity_increase :: int
  changed_symbols :: int
  tested_symbols :: int
  high_risk_paths :: int
  pattern_fit :: rat

record confidence_reason =
  cr_input :: bytes
  cr_impact :: int
  cr_detail :: bytes

record confidence_score =
  cs_value :: int
  cs_reasons :: "confidence_reason list"

definition reason_invalid :: "confidence_reason \<Rightarrow> bool" where
  "reason_invalid r \<longleftrightarrow>
     cr_input r = [] \<or> length (cr_input r) > 80 \<or> cr_impact r < -5 \<or> cr_impact r > 0
     \<or> blank (cr_detail r) \<or> length (cr_detail r) > 400"

definition validate_score :: "confidence_score \<Rightarrow> unit res" where
  "validate_score s =
     (if cs_value s < 0 \<or> cs_value s > 5 \<or> cs_reasons s = [] \<or> length (cs_reasons s) > 8
      then Inl (Msg ''confidence score or reason count is invalid'')
      else if list_ex reason_invalid (cs_reasons s) then Inl (Msg ''confidence reason is invalid'')
      else Inr ())"

definition inputs_invalid :: "confidence_input \<Rightarrow> bool" where
  "inputs_invalid i \<longleftrightarrow>
     unresolved_p0 i < 0 \<or> unresolved_p1 i < 0 \<or> changed_lines i < 0 \<or> complexity_increase i < 0
     \<or> changed_symbols i < 0 \<or> tested_symbols i < 0 \<or> tested_symbols i > changed_symbols i
     \<or> high_risk_paths i < 0 \<or> pattern_fit i < 0 \<or> pattern_fit i > 1"

section \<open>Scoring\<close>

text \<open>\<open>%.0f\<close>: the nearest whole number, the even one when two are equally near.\<close>

definition round_half_even :: "rat \<Rightarrow> int" where
  "round_half_even x =
     (let n = floor x; d = x - of_int n in
      if d < 1 / 2 then n else if d > 1 / 2 then n + 1 else if even n then n else n + 1)"

type_synonym score_state = "int \<times> confidence_reason list"

definition apply_impact :: "bytes \<Rightarrow> int \<Rightarrow> bytes \<Rightarrow> score_state \<Rightarrow> score_state" where
  "apply_impact name impact detail st =
     (if impact = 0 then st
      else (wrap64 (fst st + impact),
            snd st @ [\<lparr>cr_input = name, cr_impact = impact, cr_detail = detail\<rparr>]))"

definition step_p0 :: "confidence_input \<Rightarrow> score_state \<Rightarrow> score_state" where
  "step_p0 i st =
     (if unresolved_p0 i > 0
      then apply_impact ''unresolved_p0'' (wrap64 (- min 4 (wrap64 (unresolved_p0 i * 2))))
        (dec_int (unresolved_p0 i) @ '' unresolved P0 findings'') st
      else st)"

definition step_p1 :: "confidence_input \<Rightarrow> score_state \<Rightarrow> score_state" where
  "step_p1 i st =
     (if unresolved_p1 i > 0
      then apply_impact ''unresolved_p1'' (- min 3 (unresolved_p1 i))
        (dec_int (unresolved_p1 i) @ '' unresolved P1 findings'') st
      else st)"

definition step_lines :: "confidence_input \<Rightarrow> score_state \<Rightarrow> score_state" where
  "step_lines i st =
     (if changed_lines i > 3000 then apply_impact ''changed_lines'' (-2) ''more than 3,000 changed lines'' st
      else if changed_lines i > 1000
      then apply_impact ''changed_lines'' (-1) ''more than 1,000 changed lines'' st
      else st)"

definition step_complexity :: "confidence_input \<Rightarrow> score_state \<Rightarrow> score_state" where
  "step_complexity i st =
     (if complexity_increase i > 15
      then apply_impact ''complexity'' (-1) ''complexity increased by more than 15'' st else st)"

definition step_coverage :: "confidence_input \<Rightarrow> score_state \<Rightarrow> score_state" where
  "step_coverage i st =
     (if changed_symbols i > 0 then
        let coverage = (of_int (tested_symbols i) / of_int (changed_symbols i) :: rat) in
        if coverage < 1 / 2
        then apply_impact ''test_coverage'' (-1)
          (dec_int (round_half_even (coverage * 100)) @ ''% of changed symbols have linked tests'') st
        else st
      else st)"

definition step_paths :: "confidence_input \<Rightarrow> score_state \<Rightarrow> score_state" where
  "step_paths i st =
     (if high_risk_paths i > 0
      then apply_impact ''path_risk'' (-1) (dec_int (high_risk_paths i) @ '' high-risk paths changed'') st
      else st)"

definition step_fit :: "confidence_input \<Rightarrow> score_state \<Rightarrow> score_state" where
  "step_fit i st =
     (if pattern_fit i < 1 / 2
      then apply_impact ''pattern_fit'' (-1)
        (''repository pattern fit is '' @ dec_int (round_half_even (pattern_fit i * 100)) @ ''%'') st
      else st)"

definition score_confidence :: "confidence_input \<Rightarrow> confidence_score res" where
  "score_confidence i =
     (if inputs_invalid i then Inl (Msg ''confidence inputs are outside their valid ranges'')
      else let (score, reasons) =
             step_fit i (step_paths i (step_coverage i (step_complexity i (step_lines i
               (step_p1 i (step_p0 i (5, [])))))));
           score = (if score < 0 then 0 else score);
           reasons = (if reasons = []
             then [\<lparr>cr_input = ''supporting_evidence'', cr_impact = 0,
                    cr_detail = ''no rubric deductions applied''\<rparr>]
             else reasons)
         in Inr \<lparr>cs_value = score, cs_reasons = reasons\<rparr>)"

section \<open>The rubric in closed form\<close>

text \<open>What the seven steps deduct, on inputs whose P0 count does not overflow when doubled.\<close>

definition deduction :: "confidence_input \<Rightarrow> int" where
  "deduction i =
     min 4 (2 * unresolved_p0 i) + min 3 (unresolved_p1 i)
     + (if changed_lines i > 3000 then 2 else if changed_lines i > 1000 then 1 else 0)
     + (if complexity_increase i > 15 then 1 else 0)
     + (if 2 * tested_symbols i < changed_symbols i then 1 else 0)
     + (if high_risk_paths i > 0 then 1 else 0)
     + (if pattern_fit i < 1 / 2 then 1 else 0)"

text \<open>
  The state between steps: the score is five plus the impacts so far, every reason is valid and
  there are at most \<open>k\<close> of them.
\<close>

definition score_inv :: "nat \<Rightarrow> int \<Rightarrow> score_state \<Rightarrow> bool" where
  "score_inv k d st \<longleftrightarrow> fst st = 5 - d \<and> 0 \<le> d \<and> d \<le> 4 * int k \<and> length (snd st) \<le> k
     \<and> list_all (\<lambda>r. \<not> reason_invalid r) (snd st) \<and> (snd st = [] \<longrightarrow> d = 0)"

lemma score_inv_skip: "score_inv k d st \<Longrightarrow> score_inv (Suc k) (d + 0) st"
  by (auto simp: score_inv_def)

lemma score_inv_apply:
  assumes "score_inv k d st" and "k \<le> 7" and "1 \<le> n" and "n \<le> 4"
    and "name \<noteq> []" and "length name \<le> 80" and "\<not> blank detail" and "length detail \<le> 400"
  shows "score_inv (Suc k) (d + n) (apply_impact name (- n) detail st)"
proof -
  have "wrap64 (fst st + - n) = fst st - n"
    using assms(1-4) by (subst wrap64_small) (auto simp: score_inv_def)
  then show ?thesis
    using assms by (auto simp: score_inv_def apply_impact_def reason_invalid_def)
qed

lemma length_dec_int: "0 \<le> n \<Longrightarrow> n < 2 ^ 63 \<Longrightarrow> length (dec_int n) \<le> 19"
  using length_dec_nat [of "nat n" 18] by (simp add: dec_int_def)

lemma round_half_even_bounds:
  assumes "0 \<le> x" and "x \<le> 100"
  shows "0 \<le> round_half_even x \<and> round_half_even x \<le> 101"
proof -
  have "0 \<le> floor x" "floor x \<le> 100"
    using assms by (simp_all add: floor_le_iff)
  then show ?thesis by (auto simp: round_half_even_def Let_def)
qed

lemma step_p0_inv:
  "score_inv k d st \<Longrightarrow> k \<le> 7 \<Longrightarrow> \<not> inputs_invalid i \<Longrightarrow> unresolved_p0 i < 2 ^ 62 \<Longrightarrow>
   score_inv (Suc k) (d + min 4 (2 * unresolved_p0 i)) (step_p0 i st)"
proof -
  assume a: "score_inv k d st" "k \<le> 7" "\<not> inputs_invalid i" "unresolved_p0 i < 2 ^ 62"
  show ?thesis
  proof (cases "unresolved_p0 i > 0")
    case True
    have w: "wrap64 (unresolved_p0 i * 2) = 2 * unresolved_p0 i"
      using True a(4) by (subst wrap64_small) auto
    have w2: "wrap64 (- min 4 (2 * unresolved_p0 i)) = - min 4 (2 * unresolved_p0 i)"
      using True by (subst wrap64_small) auto
    have "score_inv (Suc k) (d + min 4 (2 * unresolved_p0 i))
        (apply_impact ''unresolved_p0'' (- min 4 (2 * unresolved_p0 i))
          (dec_int (unresolved_p0 i) @ '' unresolved P0 findings'') st)"
      using True a length_dec_int [of "unresolved_p0 i"]
      by (intro score_inv_apply nonblank_last) auto
    then show ?thesis using True by (simp add: step_p0_def w w2)
  next
    case False
    then have "unresolved_p0 i = 0" using a(3) by (simp add: inputs_invalid_def)
    then show ?thesis using score_inv_skip [OF a(1)] by (simp add: step_p0_def)
  qed
qed

lemma step_p1_inv:
  "score_inv k d st \<Longrightarrow> k \<le> 7 \<Longrightarrow> \<not> inputs_invalid i \<Longrightarrow> unresolved_p1 i < 2 ^ 63 \<Longrightarrow>
   score_inv (Suc k) (d + min 3 (unresolved_p1 i)) (step_p1 i st)"
proof -
  assume a: "score_inv k d st" "k \<le> 7" "\<not> inputs_invalid i" "unresolved_p1 i < 2 ^ 63"
  show ?thesis
  proof (cases "unresolved_p1 i > 0")
    case True
    have "score_inv (Suc k) (d + min 3 (unresolved_p1 i))
        (apply_impact ''unresolved_p1'' (- min 3 (unresolved_p1 i))
          (dec_int (unresolved_p1 i) @ '' unresolved P1 findings'') st)"
      using True a length_dec_int [of "unresolved_p1 i"]
      by (intro score_inv_apply nonblank_last) auto
    then show ?thesis using True by (simp add: step_p1_def)
  next
    case False
    then have "unresolved_p1 i = 0" using a(3) by (simp add: inputs_invalid_def)
    then show ?thesis using score_inv_skip [OF a(1)] by (simp add: step_p1_def)
  qed
qed

lemma step_lines_inv:
  "score_inv k d st \<Longrightarrow> k \<le> 7 \<Longrightarrow>
   score_inv (Suc k) (d + (if changed_lines i > 3000 then 2 else if changed_lines i > 1000 then 1 else 0))
     (step_lines i st)"
  using score_inv_skip [of k d st]
    score_inv_apply [of k d st 2 "''changed_lines''" "''more than 3,000 changed lines''"]
    score_inv_apply [of k d st 1 "''changed_lines''" "''more than 1,000 changed lines''"]
  by (auto simp: step_lines_def nonblank_last)

lemma step_complexity_inv:
  "score_inv k d st \<Longrightarrow> k \<le> 7 \<Longrightarrow>
   score_inv (Suc k) (d + (if complexity_increase i > 15 then 1 else 0)) (step_complexity i st)"
  using score_inv_skip [of k d st]
    score_inv_apply [of k d st 1 "''complexity''" "''complexity increased by more than 15''"]
  by (auto simp: step_complexity_def nonblank_last)

lemma step_coverage_inv:
  assumes "score_inv k d st" and "k \<le> 7" and "\<not> inputs_invalid i"
  shows "score_inv (Suc k) (d + (if 2 * tested_symbols i < changed_symbols i then 1 else 0)) (step_coverage i st)"
proof (cases "changed_symbols i > 0")
  case True
  let ?c = "of_int (tested_symbols i) / of_int (changed_symbols i) :: rat"
  have half: "?c < 1 / 2 \<longleftrightarrow> 2 * tested_symbols i < changed_symbols i"
  proof -
    have "?c < 1 / 2 \<longleftrightarrow> (of_int (2 * tested_symbols i) :: rat) < of_int (changed_symbols i)"
      using True by (simp add: divide_less_eq mult.commute)
    then show ?thesis by (simp only: of_int_less_iff)
  qed
  have "0 \<le> ?c * 100" "?c * 100 \<le> 100"
    using assms(3) True by (auto simp: inputs_invalid_def divide_le_eq)
  then have "length (dec_int (round_half_even (?c * 100))) \<le> 19"
    using round_half_even_bounds [of "?c * 100"] by (intro length_dec_int) auto
  then have "score_inv (Suc k) (d + 1) (apply_impact ''test_coverage'' (- 1)
      (dec_int (round_half_even (?c * 100)) @ ''% of changed symbols have linked tests'') st)"
    using assms by (intro score_inv_apply nonblank_last) auto
  then show ?thesis
    using True half score_inv_skip [OF assms(1)] by (simp add: step_coverage_def Let_def)
next
  case False
  then have "changed_symbols i = 0 \<and> tested_symbols i = 0" using assms(3) by (auto simp: inputs_invalid_def)
  then show ?thesis using score_inv_skip [OF assms(1)] by (simp add: step_coverage_def)
qed

lemma step_paths_inv:
  assumes "score_inv k d st" and "k \<le> 7" and "high_risk_paths i < 2 ^ 63"
  shows "score_inv (Suc k) (d + (if high_risk_paths i > 0 then 1 else 0)) (step_paths i st)"
proof (cases "high_risk_paths i > 0")
  case True
  have "score_inv (Suc k) (d + 1) (apply_impact ''path_risk'' (- 1)
      (dec_int (high_risk_paths i) @ '' high-risk paths changed'') st)"
    using True assms length_dec_int [of "high_risk_paths i"] by (intro score_inv_apply nonblank_last) auto
  then show ?thesis using True by (simp add: step_paths_def)
next
  case False
  then show ?thesis using score_inv_skip [OF assms(1)] by (simp add: step_paths_def)
qed

lemma step_fit_inv:
  assumes "score_inv k d st" and "k \<le> 7" and "\<not> inputs_invalid i"
  shows "score_inv (Suc k) (d + (if pattern_fit i < 1 / 2 then 1 else 0)) (step_fit i st)"
proof -
  have "length (dec_int (round_half_even (pattern_fit i * 100))) \<le> 19"
    using assms(3) round_half_even_bounds [of "pattern_fit i * 100"]
    by (intro length_dec_int) (auto simp: inputs_invalid_def)
  then have "score_inv (Suc k) (d + 1) (apply_impact ''pattern_fit'' (- 1)
      (''repository pattern fit is '' @ dec_int (round_half_even (pattern_fit i * 100)) @ ''%'') st)"
    using assms by (intro score_inv_apply nonblank_last) auto
  then show ?thesis using score_inv_skip [OF assms(1)] by (simp add: step_fit_def)
qed

text \<open>The counts of an input fit Go's \<open>int\<close>, the P0 count with a bit to spare.\<close>

definition counts_fit :: "confidence_input \<Rightarrow> bool" where
  "counts_fit i \<longleftrightarrow> unresolved_p0 i < 2 ^ 62 \<and> unresolved_p1 i < 2 ^ 63 \<and> high_risk_paths i < 2 ^ 63"

lemma steps_inv:
  assumes "\<not> inputs_invalid i" and "counts_fit i"
  shows "score_inv 7 (deduction i)
    (step_fit i (step_paths i (step_coverage i (step_complexity i (step_lines i
      (step_p1 i (step_p0 i (5, []))))))))"
proof -
  have "score_inv 0 0 (5, [])" by (simp add: score_inv_def)
  note s1 = step_p0_inv [OF this _ assms(1), simplified]
  note s2 = step_p1_inv [OF s1 _ assms(1)]
  note s3 = step_lines_inv [OF s2, of i]
  note s4 = step_complexity_inv [OF s3, of i]
  note s5 = step_coverage_inv [OF s4 _ assms(1)]
  note s6 = step_paths_inv [OF s5, of i]
  note s7 = step_fit_inv [OF s6 _ assms(1)]
  from s7 show ?thesis
    using assms(2) by (simp add: counts_fit_def deduction_def eval_nat_numeral)
qed

lemma score_confidence_result:
  assumes "\<not> inputs_invalid i" and "counts_fit i"
  obtains reasons where
    "score_confidence i = Inr \<lparr>cs_value = max 0 (5 - deduction i), cs_reasons = reasons\<rparr>"
    "reasons \<noteq> []" "length reasons \<le> 8" "list_all (\<lambda>r. \<not> reason_invalid r) reasons"
proof -
  let ?st = "step_fit i (step_paths i (step_coverage i (step_complexity i (step_lines i
      (step_p1 i (step_p0 i (5, [])))))))"
  obtain score reasons where st: "?st = (score, reasons)" by (cases ?st)
  have inv: "score_inv 7 (deduction i) (score, reasons)" using steps_inv [OF assms] unfolding st .
  let ?reasons = "if reasons = []
     then [\<lparr>cr_input = ''supporting_evidence'', cr_impact = 0, cr_detail = ''no rubric deductions applied''\<rparr>]
     else reasons"
  have "(if score < 0 then 0 else score) = max 0 (5 - deduction i)"
    using inv by (simp add: score_inv_def)
  then have "score_confidence i = Inr \<lparr>cs_value = max 0 (5 - deduction i), cs_reasons = ?reasons\<rparr>"
    using assms(1) st by (simp add: score_confidence_def)
  moreover have "?reasons \<noteq> []" "length ?reasons \<le> 8" "list_all (\<lambda>r. \<not> reason_invalid r) ?reasons"
    using inv by (auto simp: score_inv_def reason_invalid_def nonblank_last)
  ultimately show ?thesis by (rule that)
qed

lemma deduction_nonneg: "\<not> inputs_invalid i \<Longrightarrow> 0 \<le> deduction i"
  by (auto simp: deduction_def inputs_invalid_def)

text \<open>
  On inputs within range the rubric always scores, its result is a valid confidence score
  (a value between zero and five, one to eight well-formed reasons), and the value is five minus
  the deductions, never below zero.
\<close>

theorem score_confidence_valid:
  assumes "\<not> inputs_invalid i" and "counts_fit i"
  shows "\<exists>s. score_confidence i = Inr s \<and> validate_score s = Inr () \<and> cs_value s = max 0 (5 - deduction i)"
proof -
  obtain reasons where
    "score_confidence i = Inr \<lparr>cs_value = max 0 (5 - deduction i), cs_reasons = reasons\<rparr>"
    "reasons \<noteq> []" "length reasons \<le> 8" "list_all (\<lambda>r. \<not> reason_invalid r) reasons"
    by (rule score_confidence_result [OF assms])
  then show ?thesis
    using deduction_nonneg [OF assms(1)] by (auto simp: validate_score_def list_ex_iff list_all_iff)
qed

definition sample_confidence :: confidence_input where
  "sample_confidence =
     \<lparr>unresolved_p0 = 1, unresolved_p1 = 0, changed_lines = 1200, complexity_increase = 3,
      changed_symbols = 4, tested_symbols = 1, high_risk_paths = 0, pattern_fit = 3/4\<rparr>"

theorem score_confidence_valid_witness:
  "\<exists>s. score_confidence sample_confidence = Inr s \<and> validate_score s = Inr ()
     \<and> cs_value s = max 0 (5 - deduction sample_confidence)"
  by (rule score_confidence_valid)
     (simp_all add: sample_confidence_def inputs_invalid_def counts_fit_def)

definition no_less_risky :: "confidence_input \<Rightarrow> confidence_input \<Rightarrow> bool" where
  "no_less_risky a b \<longleftrightarrow>
     unresolved_p0 a \<le> unresolved_p0 b \<and> unresolved_p1 a \<le> unresolved_p1 b
     \<and> changed_lines a \<le> changed_lines b \<and> complexity_increase a \<le> complexity_increase b
     \<and> changed_symbols a \<le> changed_symbols b \<and> tested_symbols b \<le> tested_symbols a
     \<and> high_risk_paths a \<le> high_risk_paths b \<and> pattern_fit b \<le> pattern_fit a"

definition sample_riskier :: confidence_input where
  "sample_riskier = sample_confidence\<lparr>unresolved_p1 := 1, tested_symbols := 0\<rparr>"

text \<open>
  The score is antitone in risk: an input with at least as many open findings, changed
  lines, added complexity and risky paths, no better test coverage and no better pattern fit
  never scores higher.
\<close>

theorem score_confidence_antitone:
  assumes "\<not> inputs_invalid a" and "counts_fit a" and "\<not> inputs_invalid b" and "counts_fit b"
    and "no_less_risky a b"
    and "score_confidence a = Inr sa" and "score_confidence b = Inr sb"
  shows "cs_value sb \<le> cs_value sa"
proof -
  have "deduction a \<le> deduction b"
    using assms(1,3,5) unfolding deduction_def no_less_risky_def inputs_invalid_def
    by (intro add_mono min.mono) (auto split: if_splits)
  moreover have "cs_value sa = max 0 (5 - deduction a)"
    by (rule score_confidence_result [OF assms(1,2)]) (use assms(6) in auto)
  moreover have "cs_value sb = max 0 (5 - deduction b)"
    by (rule score_confidence_result [OF assms(3,4)]) (use assms(7) in auto)
  ultimately show ?thesis by simp
qed

theorem score_confidence_antitone_witness:
  "\<exists>sa sb. score_confidence sample_confidence = Inr sa \<and> score_confidence sample_riskier = Inr sb
     \<and> cs_value sb \<le> cs_value sa"
proof -
  have fits: "\<not> inputs_invalid sample_confidence" "counts_fit sample_confidence"
    "\<not> inputs_invalid sample_riskier" "counts_fit sample_riskier"
    "no_less_risky sample_confidence sample_riskier"
    by (simp_all add: sample_confidence_def sample_riskier_def inputs_invalid_def counts_fit_def no_less_risky_def)
  obtain ra rb where r:
      "score_confidence sample_confidence = Inr \<lparr>cs_value = max 0 (5 - deduction sample_confidence), cs_reasons = ra\<rparr>"
      "score_confidence sample_riskier = Inr \<lparr>cs_value = max 0 (5 - deduction sample_riskier), cs_reasons = rb\<rparr>"
    using score_confidence_result [OF fits(1,2)] score_confidence_result [OF fits(3,4)] by metis
  from score_confidence_antitone [OF fits r] r show ?thesis by blast
qed

end
