(* ===== verification/Llm.thy ===== *)
theory Llm
  imports GoStd "HOL-Library.Signed_Division"
begin

text \<open>
  \<open>internal/hosted/llm/gateway.go\<close>: the bounded model call with its prompt cache, retry loop
  and call record, and the in-memory cache. What lies outside is a parameter: the provider
  (its answer to the k-th attempt), the sleep between attempts, the clock (the times at which
  the cache is read and written, in nanoseconds), SHA-256 and the \<open>%g\<close> format.
\<close>

section \<open>Requests, responses and records\<close>

record request =
  rq_provider :: bytes
  rq_model :: bytes
  rq_system :: bytes
  rq_prompt :: bytes
  rq_max_output_tokens :: int
  rq_temperature :: rat

record usage =
  us_input_tokens :: int
  us_output_tokens :: int
  us_cache_read_tokens :: int

record response =
  rs_text :: bytes
  rs_usage :: usage
  rs_request_id :: bytes
  rs_cached :: bool

definition no_usage :: usage where
  "no_usage = \<lparr>us_input_tokens = 0, us_output_tokens = 0, us_cache_read_tokens = 0\<rparr>"

definition no_response :: response where
  "no_response = \<lparr>rs_text = [], rs_usage = no_usage, rs_request_id = [], rs_cached = False\<rparr>"

record price =
  input_microusd_per_million :: int
  output_microusd_per_million :: int
  cache_read_microusd_per_million :: int

record call_record =
  cl_provider :: bytes
  cl_model :: bytes
  cl_attempts :: nat
  cl_usage :: usage
  cl_cost_microusd :: int
  cl_cached :: bool
  cl_cache_err :: "go_error option"
  cl_err :: "go_error option"

definition cost :: "price \<Rightarrow> usage \<Rightarrow> int" where
  "cost p u =
     wrap64 (us_input_tokens u * input_microusd_per_million p
           + us_output_tokens u * output_microusd_per_million p
           + us_cache_read_tokens u * cache_read_microusd_per_million p) sdiv 1000000"

section \<open>The prompt key\<close>

definition prompt_material :: "(rat \<Rightarrow> bytes) \<Rightarrow> request \<Rightarrow> bytes" where
  "prompt_material fmt_g r =
     join_with [CHR 0x00]
       [rq_provider r, rq_model r, rq_system r, rq_prompt r,
        dec_int (rq_max_output_tokens r), fmt_g (rq_temperature r)]"

definition prompt_key :: "(bytes \<Rightarrow> bytes) \<Rightarrow> (rat \<Rightarrow> bytes) \<Rightarrow> request \<Rightarrow> bytes" where
  "prompt_key hex_digest fmt_g r = hex_digest (prompt_material fmt_g r)"

definition nul_free :: "request \<Rightarrow> bool" where
  "nul_free r \<longleftrightarrow> CHR 0x00 \<notin> set (rq_provider r) \<and> CHR 0x00 \<notin> set (rq_model r)
     \<and> CHR 0x00 \<notin> set (rq_system r) \<and> CHR 0x00 \<notin> set (rq_prompt r)"

lemma dec_int_nul_free: "CHR 0x00 \<notin> set (dec_int n)"
  using dec_nat_digits [of "CHR 0x00"] by (auto simp: dec_int_def)

lemma prompt_material_split:
  assumes "nul_free r" and "CHR 0x00 \<notin> set (fmt_g (rq_temperature r))"
  shows "split_on (CHR 0x00) (prompt_material fmt_g r) =
    [rq_provider r, rq_model r, rq_system r, rq_prompt r,
     dec_int (rq_max_output_tokens r), fmt_g (rq_temperature r)]"
  unfolding prompt_material_def
  using assms dec_int_nul_free by (intro split_join) (auto simp: nul_free_def)

text \<open>
  Two different requests whose texts hold no NUL byte are hashed from different material,
  when the number format is injective and prints no NUL.
\<close>

theorem prompt_material_injective:
  assumes "nul_free r" and "nul_free r'"
    and "inj fmt_g" and "\<And>x. CHR 0x00 \<notin> set (fmt_g x)"
    and "r \<noteq> r'"
  shows "prompt_material fmt_g r \<noteq> prompt_material fmt_g r'"
proof
  assume same: "prompt_material fmt_g r = prompt_material fmt_g r'"
  have "[rq_provider r, rq_model r, rq_system r, rq_prompt r,
     dec_int (rq_max_output_tokens r), fmt_g (rq_temperature r)] =
    [rq_provider r', rq_model r', rq_system r', rq_prompt r',
     dec_int (rq_max_output_tokens r'), fmt_g (rq_temperature r')]"
    using prompt_material_split [of r fmt_g, OF assms(1) assms(4)]
      prompt_material_split [of r' fmt_g, OF assms(2) assms(4)] same by simp
  then have eqs: "rq_provider r = rq_provider r'" "rq_model r = rq_model r'"
      "rq_system r = rq_system r'" "rq_prompt r = rq_prompt r'"
      "dec_int (rq_max_output_tokens r) = dec_int (rq_max_output_tokens r')"
      "fmt_g (rq_temperature r) = fmt_g (rq_temperature r')"
    by simp_all
  have "r = r'"
    by (rule request.equality) (simp_all add: eqs(1-4) dec_int_inj [OF eqs(5)] injD [OF assms(3) eqs(6)])
  with assms(5) show False by contradiction
qed

definition sample_request :: request where
  "sample_request =
     \<lparr>rq_provider = ''p'', rq_model = ''m'', rq_system = ''s'', rq_prompt = ''q'',
      rq_max_output_tokens = 10, rq_temperature = 0\<rparr>"

text \<open>A number format for the examples: numerator and denominator in decimal.\<close>

definition fraction_format :: "rat \<Rightarrow> bytes" where
  "fraction_format x = dec_int (fst (quotient_of x)) @ ''/'' @ dec_int (snd (quotient_of x))"

lemma fraction_format_sep: "CHR ''/'' \<notin> set (dec_int n)"
  using dec_nat_digits [of "CHR ''/''"] by (auto simp: dec_int_def)

lemma fraction_format_inj: "inj fraction_format"
proof (rule injI)
  fix x y
  assume eq: "fraction_format x = fraction_format y"
  have s: "split_on CHR ''/'' (fraction_format z) =
      [dec_int (fst (quotient_of z)), dec_int (snd (quotient_of z))]" for z
    using split_on_append [of "CHR ''/''" "dec_int (fst (quotient_of z))"] fraction_format_sep
    by (simp add: fraction_format_def split_on_sepfree)
  have "dec_int (fst (quotient_of x)) = dec_int (fst (quotient_of y))"
      "dec_int (snd (quotient_of x)) = dec_int (snd (quotient_of y))"
    using s [of x] s [of y] eq by simp_all
  then have "quotient_of x = quotient_of y"
    by (intro prod_eqI) (simp_all add: dec_int_inj)
  then show "x = y" by (metis quotient_of_inject)
qed

lemma fraction_format_nul: "CHR 0x00 \<notin> set (fraction_format x)"
  by (simp add: fraction_format_def dec_int_nul_free)

theorem prompt_material_injective_witness:
  "prompt_material fraction_format sample_request
   \<noteq> prompt_material fraction_format (sample_request\<lparr>rq_system := ''sq'', rq_prompt := []\<rparr>)"
  by (rule prompt_material_injective)
     (simp_all add: nul_free_def sample_request_def fraction_format_inj fraction_format_nul)

text \<open>
  With a NUL byte in a text the fields run into each other: two different requests share their
  material, hence their cache key.
\<close>

lemma prompt_key_collision:
  "\<exists>r r'. r \<noteq> r' \<and> prompt_key hex_digest fmt_g r = prompt_key hex_digest fmt_g r'"
proof (intro exI conjI)
  let ?r = "sample_request\<lparr>rq_system := ''a'' @ [CHR 0x00] @ ''b'', rq_prompt := ''c''\<rparr>"
  let ?r' = "sample_request\<lparr>rq_system := ''a'', rq_prompt := ''b'' @ [CHR 0x00] @ ''c''\<rparr>"
  show "?r \<noteq> ?r'" by (simp add: sample_request_def)
  show "prompt_key hex_digest fmt_g ?r = prompt_key hex_digest fmt_g ?r'"
    by (simp add: prompt_key_def prompt_material_def sample_request_def)
qed

section \<open>The retry loop\<close>

text \<open>
  A failed attempt carries its error and whether it is temporary. The loop stops at success, at
  an error that is not temporary, after \<open>max_retries\<close> further attempts, or when sleeping fails.
\<close>

type_synonym attempt_outcome = "(go_error \<times> bool) + response"

definition effective_retries :: "int \<Rightarrow> nat" where
  "effective_retries max_retries =
     (let m = (if max_retries < 0 then 0 else max_retries) in nat (if m = 0 then 2 else m))"

definition backoff :: "nat \<Rightarrow> int" where
  "backoff attempt = wrap64 (wrap64 (2 ^ attempt) * 1000000000)"

function retry_loop ::
    "(nat \<Rightarrow> attempt_outcome) \<Rightarrow> (int \<Rightarrow> go_error option) \<Rightarrow> nat \<Rightarrow> nat \<Rightarrow> nat \<times> response res" where
  "retry_loop call sleep max_retries attempt =
     (case call attempt of
        Inr response \<Rightarrow> (attempt + 1, Inr response)
      | Inl (e, temporary) \<Rightarrow>
          if attempt \<ge> max_retries \<or> \<not> temporary then (attempt + 1, Inl e)
          else (case sleep (backoff attempt) of
                  Some sleep_err \<Rightarrow> (attempt + 1, Inl sleep_err)
                | None \<Rightarrow> retry_loop call sleep max_retries (attempt + 1)))"
  by pat_completeness auto
termination
  by (relation "measure (\<lambda>(call, sleep, max_retries, attempt). max_retries - attempt)") auto

declare retry_loop.simps [simp del]

lemma effective_retries_pos: "1 \<le> effective_retries m"
  by (auto simp: effective_retries_def Let_def)

text \<open>The loop's result is decided at one attempt; all before it failed temporarily.\<close>

lemma retry_loop_stops:
  assumes "retry_loop call sleep max_retries attempt = (n, res)" and "attempt \<le> max_retries"
  shows "attempt < n \<and> n \<le> max_retries + 1
    \<and> (\<forall>k. attempt \<le> k \<and> k < n - 1 \<longrightarrow> (\<exists>e. call k = Inl (e, True)) \<and> sleep (backoff k) = None)
    \<and> (case call (n - 1) of
         Inr r \<Rightarrow> res = Inr r
       | Inl (e, temporary) \<Rightarrow>
           if n = max_retries + 1 \<or> \<not> temporary then res = Inl e
           else (\<exists>e'. sleep (backoff (n - 1)) = Some e' \<and> res = Inl e'))"
  using assms
proof (induction call sleep max_retries attempt rule: retry_loop.induct)
  case (1 call sleep max_retries attempt)
  show ?case
  proof (cases "call attempt")
    case (Inr r)
    then show ?thesis using "1.prems" by (auto simp: retry_loop.simps [of call])
  next
    case (Inl p)
    obtain e temporary where p: "p = (e, temporary)" by (cases p)
    show ?thesis
    proof (cases "attempt \<ge> max_retries \<or> \<not> temporary")
      case True
      then show ?thesis
        using "1.prems" Inl p by (auto simp: retry_loop.simps [of call])
    next
      case False
      show ?thesis
      proof (cases "sleep (backoff attempt)")
        case (Some e')
        then show ?thesis
          using "1.prems" Inl p False by (auto simp: retry_loop.simps [of call])
      next
        case None
        then have rec: "retry_loop call sleep max_retries (attempt + 1) = (n, res)"
          using "1.prems"(1) Inl p False by (simp add: retry_loop.simps [of call])
        have temp: "\<exists>e. call attempt = Inl (e, True)" using Inl p False by simp
        have ih: "attempt + 1 < n \<and> n \<le> max_retries + 1
            \<and> (\<forall>k. attempt + 1 \<le> k \<and> k < n - 1 \<longrightarrow> (\<exists>e. call k = Inl (e, True)) \<and> sleep (backoff k) = None)
            \<and> (case call (n - 1) of
                 Inr r \<Rightarrow> res = Inr r
               | Inl (e, temporary) \<Rightarrow>
                   if n = max_retries + 1 \<or> \<not> temporary then res = Inl e
                   else (\<exists>e'. sleep (backoff (n - 1)) = Some e' \<and> res = Inl e'))"
          using "1.IH" [OF Inl p [symmetric] False None rec] False by simp
        moreover have "(\<exists>e. call k = Inl (e, True)) \<and> sleep (backoff k) = None"
            if "attempt \<le> k" "k < n - 1" for k
          using ih temp None that by (cases "k = attempt") auto
        ultimately show ?thesis by auto
      qed
    qed
  qed
qed

section \<open>The memory cache\<close>

text \<open>
  \<open>MemoryCache\<close>: a map under a mutex, so one operation at a time. An entry is served while its
  expiry lies after the clock; a stale entry is deleted by the read that finds it.
\<close>

record memory_entry =
  me_response :: response
  me_expires_at :: int

type_synonym memory_cache = "bytes \<rightharpoonup> memory_entry"

definition mem_get :: "memory_cache \<Rightarrow> int \<Rightarrow> bytes \<Rightarrow> memory_cache \<times> (response \<times> bool) res" where
  "mem_get c now key =
     (case c key of
        None \<Rightarrow> (c(key := None), Inr (no_response, False))
      | Some entry \<Rightarrow>
          if \<not> me_expires_at entry > now then (c(key := None), Inr (no_response, False))
          else (c, Inr (me_response entry, True)))"

definition mem_put :: "memory_cache \<Rightarrow> int \<Rightarrow> bytes \<Rightarrow> response \<Rightarrow> int \<Rightarrow> memory_cache \<times> unit res" where
  "mem_put c now key r ttl =
     (c(key \<mapsto> \<lparr>me_response = r\<lparr>rs_cached := False\<rparr>, me_expires_at = now + ttl\<rparr>), Inr ())"

section \<open>The gateway\<close>

record 'c gateway =
  gw_providers :: "bytes \<Rightarrow> (nat \<Rightarrow> request \<Rightarrow> attempt_outcome) option"
  gw_cache :: "(('c \<Rightarrow> int \<Rightarrow> bytes \<Rightarrow> 'c \<times> (response \<times> bool) res)
     \<times> ('c \<Rightarrow> int \<Rightarrow> bytes \<Rightarrow> response \<Rightarrow> int \<Rightarrow> 'c \<times> unit res)) option"
  gw_prices :: "bytes \<Rightarrow> price"
  gw_cache_ttl :: int
  gw_max_retries :: int
  gw_sleep :: "int \<Rightarrow> go_error option"
  gw_key :: "request \<Rightarrow> bytes"

text \<open>The deferred function completes the record from the named results.\<close>

definition finish_record :: "'c gateway \<Rightarrow> request \<Rightarrow> call_record \<Rightarrow> response res \<Rightarrow> call_record" where
  "finish_record g request rec result =
     (let response = (case result of Inl _ \<Rightarrow> no_response | Inr r \<Rightarrow> r) in
      rec\<lparr>cl_usage := rs_usage response, cl_cached := rs_cached response,
          cl_cost_microusd :=
            (if \<not> rs_cached response
             then cost (gw_prices g (rq_provider request @ ''/'' @ rq_model request)) (rs_usage response)
             else 0),
          cl_err := (case result of Inl e \<Rightarrow> Some e | Inr _ \<Rightarrow> None)\<rparr>)"

definition cache_lookup ::
    "'c gateway \<Rightarrow> 'c \<Rightarrow> int \<Rightarrow> bytes \<Rightarrow> 'c \<times> go_error option \<times> response option" where
  "cache_lookup g c now key =
     (case gw_cache g of
        None \<Rightarrow> (c, None, None)
      | Some (get, _) \<Rightarrow>
          (case get c now key of
             (c', Inl e) \<Rightarrow> (c', Some (Wrapped ''read LLM prompt cache: %v'' [] e), None)
           | (c', Inr (cached, ok)) \<Rightarrow>
               (c', None, if ok then Some (cached\<lparr>rs_cached := True\<rparr>) else None)))"

definition cache_store ::
    "'c gateway \<Rightarrow> 'c \<Rightarrow> int \<Rightarrow> bytes \<Rightarrow> response \<Rightarrow> 'c \<times> go_error option" where
  "cache_store g c now key response =
     (case gw_cache g of
        None \<Rightarrow> (c, None)
      | Some (_, put) \<Rightarrow>
          let ttl = (if gw_cache_ttl g \<le> 0 then 900000000000 else gw_cache_ttl g) in
          (case put c now key response ttl of
             (c', Inl e) \<Rightarrow> (c', Some (Wrapped ''write LLM prompt cache: %v'' [] e))
           | (c', Inr _) \<Rightarrow> (c', None)))"

definition request_error :: "request \<Rightarrow> go_error option" where
  "request_error r =
     (if rq_model r = [] \<or> rq_prompt r = [] \<or> rq_max_output_tokens r \<le> 0
      then Some (Msg ''LLM model, prompt, and positive output-token limit are required'')
      else if rq_temperature r < 0 \<or> rq_temperature r > 2
      then Some (Msg ''LLM temperature must be between 0 and 2'') else None)"

definition response_error :: "response \<Rightarrow> go_error option" where
  "response_error r =
     (if rs_text r = [] then Some (Msg ''LLM provider returned an empty response'')
      else if us_input_tokens (rs_usage r) < 0 \<or> us_output_tokens (rs_usage r) < 0
         \<or> us_cache_read_tokens (rs_usage r) < 0
      then Some (Msg ''LLM provider returned invalid token usage'') else None)"

text \<open>
  One call: the new cache, the result, and the record that is emitted (none when the request is
  refused before the deferred function is installed).
\<close>

definition gateway_complete ::
    "'c gateway \<Rightarrow> 'c \<Rightarrow> int \<Rightarrow> int \<Rightarrow> request \<Rightarrow> 'c \<times> response res \<times> call_record option" where
  "gateway_complete g c read_time write_time request =
     (case gw_providers g (rq_provider request) of
        None \<Rightarrow> (c, Inl (MsgStr ''unknown LLM provider %q'' (rq_provider request)), None)
      | Some provider \<Rightarrow>
     (case request_error request of
        Some e \<Rightarrow> (c, Inl e, None)
      | None \<Rightarrow>
     let rec = \<lparr>cl_provider = rq_provider request, cl_model = rq_model request, cl_attempts = 0,
                cl_usage = no_usage, cl_cost_microusd = 0, cl_cached = False,
                cl_cache_err = None, cl_err = None\<rparr>;
         key = gw_key g request in
     (case cache_lookup g c read_time key of
        (c1, cache_err, Some cached) \<Rightarrow>
          (c1, Inr cached, Some (finish_record g request (rec\<lparr>cl_cache_err := cache_err\<rparr>) (Inr cached)))
      | (c1, cache_err, None) \<Rightarrow>
     (case retry_loop (\<lambda>k. provider k request) (gw_sleep g) (effective_retries (gw_max_retries g)) 0 of
        (attempts, Inl e) \<Rightarrow>
          (c1, Inl e, Some (finish_record g request
             (rec\<lparr>cl_attempts := attempts, cl_cache_err := cache_err\<rparr>) (Inl e)))
      | (attempts, Inr response) \<Rightarrow>
     (case response_error response of
        Some e \<Rightarrow>
          (c1, Inl e, Some (finish_record g request
             (rec\<lparr>cl_attempts := attempts, cl_cache_err := cache_err\<rparr>) (Inl e)))
      | None \<Rightarrow>
     (case cache_store g c1 write_time key response of
        (c2, store_err) \<Rightarrow>
          (c2, Inr response, Some (finish_record g request
             (rec\<lparr>cl_attempts := attempts,
                  cl_cache_err := (if store_err = None then cache_err else store_err)\<rparr>)
             (Inr response)))))))))"

lemmas gateway_unfold = gateway_complete_def cache_lookup_def cache_store_def finish_record_def

section \<open>What a cache promises the gateway\<close>

text \<open>
  The contract of the \<open>Cache\<close> interface: a write succeeds, is read back (unmarked) until it
  expires and only then missed, and touches no other key.
\<close>

locale prompt_cache =
  fixes get :: "'c \<Rightarrow> int \<Rightarrow> bytes \<Rightarrow> 'c \<times> (response \<times> bool) res"
    and put :: "'c \<Rightarrow> int \<Rightarrow> bytes \<Rightarrow> response \<Rightarrow> int \<Rightarrow> 'c \<times> unit res"
  assumes put_ok: "snd (put c t k r ttl) = Inr ()"
    and get_fresh: "t' < t + ttl \<Longrightarrow>
      snd (get (fst (put c t k r ttl)) t' k) = Inr (r\<lparr>rs_cached := False\<rparr>, True)"
    and get_expired: "t + ttl \<le> t' \<Longrightarrow> snd (get (fst (put c t k r ttl)) t' k) = Inr (no_response, False)"
    and get_other: "k \<noteq> k' \<Longrightarrow> snd (get (fst (put c t k r ttl)) t' k') = snd (get c t' k')"
begin

lemma store_then_lookup:
  assumes "gw_cache g = Some (get, put)" and "0 < gw_cache_ttl g" and "t' < t + gw_cache_ttl g"
  shows "snd (cache_lookup g (fst (cache_store g c t k r)) t' k) = (None, Some (r\<lparr>rs_cached := True\<rparr>))"
proof -
  let ?p = "put c t k r (gw_cache_ttl g)"
  have store: "fst (cache_store g c t k r) = fst ?p"
    using assms(1,2) put_ok [of c t k r "gw_cache_ttl g"]
    by (cases ?p) (simp add: cache_store_def)
  have "snd (get (fst ?p) t' k) = Inr (r\<lparr>rs_cached := False\<rparr>, True)"
    by (rule get_fresh [OF assms(3)])
  then show ?thesis
    unfolding store using assms(1) by (cases "get (fst ?p) t' k") (simp add: cache_lookup_def)
qed

text \<open>A repeated request within the lifetime is answered from the cache, provider or no provider.\<close>

lemma repeat_served:
  assumes "gw_cache g = Some (get, put)" and "0 < gw_cache_ttl g"
    and "gateway_complete g c read1 write1 request = (c', Inr response, Some rec)"
    and "snd (get c read1 (gw_key g request)) = Inr (r0, False)"
    and "read2 < write1 + gw_cache_ttl g"
    and "h = g\<lparr>gw_providers := ps\<rparr>" and "ps (rq_provider request) = Some p"
  shows "\<exists>c'' rec'. gateway_complete h c' read2 write2 request
      = (c'', Inr (response\<lparr>rs_cached := True\<rparr>), Some rec')
    \<and> cl_attempts rec' = 0 \<and> cl_cost_microusd rec' = 0 \<and> cl_cached rec'"
proof -
  obtain c1 where look1: "cache_lookup g c read1 (gw_key g request) = (c1, None, None)"
    using assms(1,4) by (cases "get c read1 (gw_key g request)") (simp add: cache_lookup_def)
  have req: "request_error request = None"
    using assms(3) by (auto simp: gateway_complete_def split: option.splits)
  have stored: "c' = fst (cache_store g c1 write1 (gw_key g request) response)"
    using assms(3) look1 req
    by (auto simp: gateway_complete_def Let_def split: option.splits prod.splits sum.splits)
  note p = assms(7)
  have "snd (cache_lookup g c' read2 (gw_key g request)) = (None, Some (response\<lparr>rs_cached := True\<rparr>))"
    unfolding stored by (rule store_then_lookup [OF assms(1,2,5)])
  then obtain c'' where
      "cache_lookup g c' read2 (gw_key g request) = (c'', None, Some (response\<lparr>rs_cached := True\<rparr>))"
    by (cases "cache_lookup g c' read2 (gw_key g request)") auto
  then have look2: "cache_lookup h c' read2 (gw_key h request)
      = (c'', None, Some (response\<lparr>rs_cached := True\<rparr>))"
    by (simp add: assms(6) cache_lookup_def)
  show ?thesis
    using look2 req p by (simp add: assms(6) gateway_complete_def finish_record_def Let_def)
qed

end

interpretation mem: prompt_cache mem_get mem_put
  by unfold_locales (auto simp: mem_get_def mem_put_def split: option.splits)

section \<open>Properties of a call\<close>

text \<open>Zero and every negative setting mean two retries: the loop cannot be told not to retry.\<close>

lemma effective_retries_eq: "effective_retries m = (if m \<le> 0 then 2 else nat m)"
  by (simp add: effective_retries_def)

lemma cost_no_usage [simp]: "cost p no_usage = 0"
  by (simp add: cost_def no_usage_def wrap64_def)

definition sample_provider :: "nat \<Rightarrow> request \<Rightarrow> attempt_outcome" where
  "sample_provider k r =
     (if k = 0 then Inl (Msg ''overloaded'', True)
      else Inr \<lparr>rs_text = ''ok'',
        rs_usage = \<lparr>us_input_tokens = 2000, us_output_tokens = 500, us_cache_read_tokens = 0\<rparr>,
        rs_request_id = ''r1'', rs_cached = False\<rparr>)"

definition sample_gateway :: "memory_cache gateway" where
  "sample_gateway =
     \<lparr>gw_providers = (\<lambda>name. if name = ''p'' then Some sample_provider else None),
      gw_cache = Some (mem_get, mem_put),
      gw_prices = (\<lambda>_. \<lparr>input_microusd_per_million = 3000000, output_microusd_per_million = 15000000,
                        cache_read_microusd_per_million = 300000\<rparr>),
      gw_cache_ttl = 60, gw_max_retries = 0, gw_sleep = (\<lambda>_. None), gw_key = rq_prompt\<rparr>"

definition sample_answer :: response where
  "sample_answer = (case sample_provider 1 sample_request of Inr r \<Rightarrow> r | Inl _ \<Rightarrow> no_response)"

definition sample_record :: call_record where
  "sample_record =
     \<lparr>cl_provider = ''p'', cl_model = ''m'', cl_attempts = 2,
      cl_usage = \<lparr>us_input_tokens = 2000, us_output_tokens = 500, us_cache_read_tokens = 0\<rparr>,
      cl_cost_microusd = 13500, cl_cached = False, cl_cache_err = None, cl_err = None\<rparr>"

lemma sample_call:
  "gateway_complete sample_gateway (\<lambda>_. None) 0 5 sample_request
   = ([''q'' \<mapsto> \<lparr>me_response = sample_answer, me_expires_at = 65\<rparr>], Inr sample_answer, Some sample_record)"
  by (simp add: gateway_unfold sample_gateway_def sample_request_def sample_provider_def sample_answer_def
      sample_record_def request_error_def response_error_def mem_get_def mem_put_def retry_loop.simps
      effective_retries_eq cost_def wrap64_def Let_def no_response_def)

text \<open>
  With the memory cache, a request answered by the provider and repeated before the entry
  expires gets the same answer marked as cached, with no attempt made and nothing charged,
  whatever the provider would do by then.
\<close>

theorem memory_cache_serves_repeat:
  assumes "gw_cache g = Some (mem_get, mem_put)" and "0 < gw_cache_ttl g"
    and "gateway_complete g c read1 write1 request = (c', Inr response, Some rec)"
    and "snd (mem_get c read1 (gw_key g request)) = Inr (r0, False)"
    and "read2 < write1 + gw_cache_ttl g"
    and "h = g\<lparr>gw_providers := ps\<rparr>" and "ps (rq_provider request) = Some p"
  shows "\<exists>c'' rec'. gateway_complete h c' read2 write2 request
      = (c'', Inr (response\<lparr>rs_cached := True\<rparr>), Some rec')
    \<and> cl_attempts rec' = 0 \<and> cl_cost_microusd rec' = 0 \<and> cl_cached rec'"
  by (rule mem.repeat_served [OF assms])

theorem memory_cache_serves_repeat_witness:
  "\<exists>c'' rec'. gateway_complete (sample_gateway\<lparr>gw_providers := (\<lambda>_. Some (\<lambda>_ _. Inl (Msg ''down'', False)))\<rparr>)
      [''q'' \<mapsto> \<lparr>me_response = sample_answer, me_expires_at = 65\<rparr>] 30 30 sample_request
      = (c'', Inr (sample_answer\<lparr>rs_cached := True\<rparr>), Some rec')
    \<and> cl_attempts rec' = 0 \<and> cl_cost_microusd rec' = 0 \<and> cl_cached rec'"
  by (rule memory_cache_serves_repeat [OF _ _ sample_call])
     (simp_all add: sample_gateway_def sample_request_def mem_get_def)

text \<open>
  C12: A recorded call made at most one attempt more than the retries in force; every attempt but
  the last failed with a temporary error; and an answer that did not come from the cache is the
  provider's answer to the last attempt, has text and no negative token count.
\<close>

theorem gateway_attempts_bounded:
  assumes "gateway_complete g c read_time write_time request = (c', res, Some rec)"
    and "gw_providers g (rq_provider request) = Some provider"
  shows "cl_attempts rec \<le> (if gw_max_retries g \<le> 0 then 2 else nat (gw_max_retries g)) + 1
    \<and> (\<forall>k < cl_attempts rec - 1. \<exists>e. provider k request = Inl (e, True))
    \<and> (\<forall>r. res = Inr r \<and> 0 < cl_attempts rec \<longrightarrow>
         provider (cl_attempts rec - 1) request = Inr r \<and> response_error r = None)"
proof -
  obtain c1 cache_err hit where look: "cache_lookup g c read_time (gw_key g request) = (c1, cache_err, hit)"
    by (cases "cache_lookup g c read_time (gw_key g request)")
  have req: "request_error request = None"
    using assms by (auto simp: gateway_complete_def split: option.splits)
  show ?thesis
  proof (cases hit)
    case (Some cached)
    then have "cl_attempts rec = 0"
      using assms look req by (auto simp: gateway_complete_def finish_record_def Let_def)
    then show ?thesis by simp
  next
    case None
    obtain n out where run: "retry_loop (\<lambda>k. provider k request) (gw_sleep g)
        (effective_retries (gw_max_retries g)) 0 = (n, out)"
      by (cases "retry_loop (\<lambda>k. provider k request) (gw_sleep g) (effective_retries (gw_max_retries g)) 0")
    have n: "cl_attempts rec = n"
      using assms look req None run
      by (auto simp: gateway_complete_def finish_record_def Let_def split: sum.splits option.splits prod.splits)
    have ok: "res = Inr r \<Longrightarrow> out = Inr r \<and> response_error r = None" for r
      using assms look req None run
      by (auto simp: gateway_complete_def Let_def split: sum.splits option.splits prod.splits)
    note stops = retry_loop_stops [OF run]
    have "provider (n - 1) request = Inr r" if "out = Inr r" for r
      using stops that by (auto split: sum.splits prod.splits if_splits)
    then show ?thesis
      using stops ok unfolding n by (simp add: effective_retries_eq)
  qed
qed

theorem gateway_attempts_bounded_witness:
  "cl_attempts sample_record \<le> 3 \<and> (\<exists>e. sample_provider 0 sample_request = Inl (e, True))
    \<and> sample_provider 1 sample_request = Inr sample_answer \<and> response_error sample_answer = None"
proof -
  have two: "cl_attempts sample_record = 2" by (simp add: sample_record_def)
  have "gw_providers sample_gateway (rq_provider sample_request) = Some sample_provider"
    by (simp add: sample_gateway_def sample_request_def)
  from gateway_attempts_bounded [OF sample_call this] show ?thesis
    unfolding two by (simp add: sample_gateway_def)
qed

text \<open>
  A recorded call is charged for the tokens of an answer the provider gave and for nothing
  else: an error or a cached answer costs zero, and the error is the one returned.
\<close>

theorem gateway_charges_answers_only:
  assumes "gateway_complete g c read_time write_time request = (c', res, Some rec)"
  shows "(case res of
      Inl e \<Rightarrow> cl_err rec = Some e \<and> cl_usage rec = no_usage \<and> cl_cost_microusd rec = 0
    | Inr r \<Rightarrow> cl_err rec = None \<and> cl_usage rec = rs_usage r \<and> cl_cached rec = rs_cached r
        \<and> cl_cost_microusd rec = (if rs_cached r then 0
            else cost (gw_prices g (rq_provider request @ ''/'' @ rq_model request)) (rs_usage r)))"
proof -
  obtain base where "rec = finish_record g request base res"
    using assms by (auto simp: gateway_complete_def Let_def split: option.splits sum.splits prod.splits)
  then show ?thesis
    by (cases res) (simp_all add: finish_record_def Let_def no_response_def)
qed

theorem gateway_charges_answers_only_witness:
  "case (Inr sample_answer :: response res) of
      Inl e \<Rightarrow> cl_err sample_record = Some e \<and> cl_usage sample_record = no_usage \<and> cl_cost_microusd sample_record = 0
    | Inr r \<Rightarrow> cl_err sample_record = None \<and> cl_usage sample_record = rs_usage r \<and> cl_cached sample_record = rs_cached r
        \<and> cl_cost_microusd sample_record = (if rs_cached r then 0
            else cost (gw_prices sample_gateway (rq_provider sample_request @ ''/'' @ rq_model sample_request)) (rs_usage r))"
  by (rule gateway_charges_answers_only [OF sample_call])

end
