(* ===== verification/Verifier.thy ===== *)
theory Verifier
  imports Llm
begin

text \<open>
  \<open>internal/hosted/review/verifier.go\<close>: the second model pass that keeps a proposed finding only
  on a supporting decision. The model client, \<open>json.Marshal\<close> and the JSON decoder (which returns
  the decisions and the bytes left over) are parameters; a \<open>nil\<close> client is \<open>None\<close>. The
  function returns its partly filled result together with an error, so the model returns both.
\<close>

section \<open>Data\<close>

record candidate =
  vc_id :: bytes
  vc_path :: bytes
  vc_start :: int
  vc_end :: int
  vc_title :: bytes
  vc_evidence :: bytes
  vc_context :: bytes

record decision =
  vd_id :: bytes
  vd_supported :: bool
  vd_confidence :: rat
  vd_reason :: bytes

record verification_result =
  vr_kept :: "candidate list"
  vr_dropped :: "bytes \<rightharpoonup> bytes"
  vr_decisions :: "decision list"

record finding_verifier =
  fv_client :: "(request \<Rightarrow> response res) option"
  fv_provider :: bytes
  fv_model :: bytes
  fv_prompt_version :: bytes
  fv_min_confidence :: rat
  fv_max_output_tokens :: int

section \<open>The three loops\<close>

definition lacks_evidence :: "candidate \<Rightarrow> bool" where
  "lacks_evidence c \<longleftrightarrow> vc_start c \<le> 0 \<or> vc_end c < vc_start c \<or> blank (vc_evidence c)"

fun select_eligible ::
    "bytes set \<Rightarrow> (bytes \<rightharpoonup> bytes) \<Rightarrow> candidate list \<Rightarrow> candidate list
     \<Rightarrow> (bytes \<rightharpoonup> bytes) \<times> candidate list \<times> go_error option" where
  "select_eligible seen dropped eligible [] = (dropped, eligible, None)"
| "select_eligible seen dropped eligible (c # cs) =
     (if vc_id c = [] \<or> vc_id c \<in> seen
      then (dropped, eligible, Some (Msg ''verification candidates require unique IDs''))
      else if lacks_evidence c
      then select_eligible (insert (vc_id c) seen) (dropped(vc_id c \<mapsto> ''missing line evidence'')) eligible cs
      else select_eligible (insert (vc_id c) seen) dropped (eligible @ [c]) cs)"

definition decision_invalid :: "decision \<Rightarrow> bool" where
  "decision_invalid d \<longleftrightarrow>
     vd_id d = [] \<or> vd_confidence d < 0 \<or> vd_confidence d > 1 \<or> blank (vd_reason d)"

definition trailing_space :: "bytes \<Rightarrow> bool" where
  "trailing_space rest \<longleftrightarrow> list_all (\<lambda>c. c \<in> {CHR '' '', CHR 0x09, CHR 0x0A, CHR 0x0D}) rest"

definition decode_decisions ::
    "(bytes \<Rightarrow> (decision list \<times> bytes) res) \<Rightarrow> bytes \<Rightarrow> decision list res" where
  "decode_decisions decode data =
     (case decode data of
        Inl e \<Rightarrow> Inl e
      | Inr (decisions, rest) \<Rightarrow>
          if \<not> trailing_space rest then Inl (Msg ''verifier response contains trailing data'')
          else if list_ex decision_invalid decisions then Inl (Msg ''verifier decision is invalid'')
          else Inr decisions)"

fun index_decisions ::
    "bytes set \<Rightarrow> (bytes \<rightharpoonup> decision) \<Rightarrow> decision list \<Rightarrow> (bytes \<rightharpoonup> decision) res" where
  "index_decisions ids by_id [] = Inr by_id"
| "index_decisions ids by_id (d # ds) =
     (if vd_id d \<notin> ids \<or> (\<exists>d'. by_id (vd_id d) = Some d' \<and> vd_id d' \<noteq> [])
      then Inl (MsgStr ''unexpected or duplicate verification ID %q'' (vd_id d))
      else index_decisions ids (by_id(vd_id d \<mapsto> d)) ds)"

definition confidence_threshold :: "rat \<Rightarrow> rat" where
  "confidence_threshold m = (if m \<le> 0 then 6 / 10 else m)"

fun settle_candidates ::
    "rat \<Rightarrow> (bytes \<rightharpoonup> decision) \<Rightarrow> verification_result \<Rightarrow> candidate list
     \<Rightarrow> verification_result \<times> go_error option" where
  "settle_candidates threshold by_id r [] = (r, None)"
| "settle_candidates threshold by_id r (c # cs) =
     (case by_id (vc_id c) of
        None \<Rightarrow> (r, Some (MsgStr ''verifier omitted candidate %q'' (vc_id c)))
      | Some d \<Rightarrow>
          if \<not> vd_supported d \<or> vd_confidence d < threshold
          then settle_candidates threshold by_id
                 (r\<lparr>vr_dropped := (vr_dropped r)(vc_id c \<mapsto> vd_reason d)\<rparr>) cs
          else settle_candidates threshold by_id (r\<lparr>vr_kept := vr_kept r @ [c]\<rparr>) cs)"

definition verification_request ::
    "(candidate list \<Rightarrow> bytes) \<Rightarrow> finding_verifier \<Rightarrow> candidate list \<Rightarrow> request" where
  "verification_request marshal v eligible =
     \<lparr>rq_provider = fv_provider v, rq_model = fv_model v,
      rq_system = ''Verify each proposed code-review finding only against its supplied line evidence and context. Return strict JSON decisions and do not add findings.'',
      rq_prompt = ''Prompt version: '' @ fv_prompt_version v @ [CHR 0x0A] @ ''Candidates:'' @ [CHR 0x0A]
        @ marshal eligible,
      rq_max_output_tokens = (if fv_max_output_tokens v \<le> 0 then 2000 else fv_max_output_tokens v),
      rq_temperature = 0\<rparr>"

definition verify ::
    "(candidate list \<Rightarrow> bytes) \<Rightarrow> (bytes \<Rightarrow> (decision list \<times> bytes) res) \<Rightarrow> finding_verifier
     \<Rightarrow> candidate list \<Rightarrow> verification_result \<times> go_error option" where
  "verify marshal decode v candidates =
     (case select_eligible {} Map.empty [] candidates of
        (dropped, eligible, Some e) \<Rightarrow>
          (\<lparr>vr_kept = [], vr_dropped = dropped, vr_decisions = []\<rparr>, Some e)
      | (dropped, eligible, None) \<Rightarrow>
     let result = \<lparr>vr_kept = [], vr_dropped = dropped, vr_decisions = []\<rparr> in
     if eligible = [] then (result, None)
     else (case fv_client v of
        None \<Rightarrow> (result, Some (Msg ''verifier client, provider, model, and prompt version are required''))
      | Some client \<Rightarrow>
     if fv_provider v = [] \<or> fv_model v = [] \<or> fv_prompt_version v = []
     then (result, Some (Msg ''verifier client, provider, model, and prompt version are required''))
     else (case client (verification_request marshal v eligible) of
        Inl e \<Rightarrow> (result, Some (Wrapped ''verify findings: %w'' [] e))
      | Inr response \<Rightarrow>
     (case decode_decisions decode (rs_text response) of
        Inl e \<Rightarrow> (result, Some e)
      | Inr decisions \<Rightarrow>
     let result = result\<lparr>vr_decisions := decisions\<rparr> in
     (case index_decisions (vc_id ` set eligible) Map.empty decisions of
        Inl e \<Rightarrow> (result, Some e)
      | Inr by_id \<Rightarrow>
          settle_candidates (confidence_threshold (fv_min_confidence v)) by_id result eligible)))))"

section \<open>What the loops compute\<close>

lemma select_eligible_ok:
  assumes "select_eligible seen dropped eligible cs = (dropped', eligible', None)"
  shows "distinct (map vc_id cs) \<and> vc_id ` set cs \<inter> seen = {} \<and> [] \<notin> vc_id ` set cs
    \<and> eligible' = eligible @ filter (\<lambda>c. \<not> lacks_evidence c) cs
    \<and> dropped' = (\<lambda>k. if \<exists>c \<in> set cs. lacks_evidence c \<and> vc_id c = k
                     then Some ''missing line evidence'' else dropped k)"
  using assms
proof (induction seen dropped eligible cs rule: select_eligible.induct)
  case (1 seen dropped eligible)
  then show ?case by simp
next
  case (2 seen dropped eligible c cs)
  then have fresh: "\<not> (vc_id c = [] \<or> vc_id c \<in> seen)" by (auto split: if_splits)
  show ?case
  proof (cases "lacks_evidence c")
    case True
    then have "select_eligible (insert (vc_id c) seen) (dropped(vc_id c \<mapsto> ''missing line evidence'')) eligible cs
        = (dropped', eligible', None)"
      using "2.prems" fresh by simp
    from "2.IH"(1) [OF fresh True this] fresh True show ?thesis by (auto simp: fun_eq_iff)
  next
    case False
    then have "select_eligible (insert (vc_id c) seen) dropped (eligible @ [c]) cs = (dropped', eligible', None)"
      using "2.prems" fresh by simp
    from "2.IH"(2) [OF fresh False this] fresh False show ?thesis by (auto simp: fun_eq_iff)
  qed
qed

lemma index_decisions_ok:
  assumes "index_decisions ids by_id ds = Inr m" and "\<forall>d \<in> set ds. vd_id d \<noteq> []"
    and "\<forall>k d. by_id k = Some d \<longrightarrow> vd_id d = k \<and> k \<noteq> []"
  shows "vd_id ` set ds \<subseteq> ids \<and> distinct (map vd_id ds) \<and> vd_id ` set ds \<inter> dom by_id = {}
    \<and> m = by_id ++ map_of (map (\<lambda>d. (vd_id d, d)) ds)"
  using assms
proof (induction ids by_id ds rule: index_decisions.induct)
  case (1 ids by_id)
  then show ?case by simp
next
  case (2 ids by_id d ds)
  let ?bad = "vd_id d \<notin> ids \<or> (\<exists>d'. by_id (vd_id d) = Some d' \<and> vd_id d' \<noteq> [])"
  have fresh: "\<not> ?bad"
  proof
    assume ?bad
    then have "index_decisions ids by_id (d # ds) \<noteq> Inr m" by (simp only: index_decisions.simps if_True) simp
    with "2.prems"(1) show False by contradiction
  qed
  have "index_decisions ids by_id (d # ds) = index_decisions ids (by_id(vd_id d \<mapsto> d)) ds"
    by (simp only: index_decisions.simps fresh if_False)
  then have step: "index_decisions ids (by_id(vd_id d \<mapsto> d)) ds = Inr m" using "2.prems"(1) by simp
  have ne: "\<forall>d \<in> set ds. vd_id d \<noteq> []" using "2.prems"(2) by simp
  have keys: "\<forall>k e. (by_id(vd_id d \<mapsto> d)) k = Some e \<longrightarrow> vd_id e = k \<and> k \<noteq> []"
    using "2.prems"(2,3) by simp
  have ih: "vd_id ` set ds \<subseteq> ids \<and> distinct (map vd_id ds)
      \<and> vd_id ` set ds \<inter> dom (by_id(vd_id d \<mapsto> d)) = {}
      \<and> m = (by_id(vd_id d \<mapsto> d)) ++ map_of (map (\<lambda>d. (vd_id d, d)) ds)"
    by (rule "2.IH" [OF fresh step ne keys])
  have new: "by_id (vd_id d) = None"
    using fresh "2.prems"(2,3) by (metis list.set_intros(1) not_None_eq)
  have fresh_id: "vd_id d \<notin> vd_id ` set ds" using ih by auto
  then have "map_of (map (\<lambda>d. (vd_id d, d)) ds) (vd_id d) = None"
    by (auto simp: map_of_eq_None_iff image_image)
  then have "m = by_id ++ map_of (map (\<lambda>d. (vd_id d, d)) (d # ds))"
    using ih by (simp add: map_add_upd_left domIff)
  moreover have "vd_id ` set (d # ds) \<subseteq> ids" using ih fresh by simp
  moreover have "distinct (map vd_id (d # ds))" using ih fresh_id by simp
  moreover have "vd_id ` set (d # ds) \<inter> dom by_id = {}" using ih new by auto
  ultimately show ?case by blast
qed

lemma settle_candidates_ok:
  assumes "settle_candidates th by_id r cs = (r', None)" and "distinct (map vc_id cs)"
  shows "(\<forall>c \<in> set cs. by_id (vc_id c) \<noteq> None)
    \<and> vr_kept r' = vr_kept r @ filter (\<lambda>c. vd_supported (the (by_id (vc_id c)))
          \<and> th \<le> vd_confidence (the (by_id (vc_id c)))) cs
    \<and> vr_dropped r' = (\<lambda>k. if \<exists>c \<in> set cs. vc_id c = k \<and> \<not> (vd_supported (the (by_id k))
          \<and> th \<le> vd_confidence (the (by_id k)))
        then Some (vd_reason (the (by_id k))) else vr_dropped r k)
    \<and> vr_decisions r' = vr_decisions r"
  using assms
proof (induction th by_id r cs rule: settle_candidates.induct)
  case (1 threshold by_id r)
  then show ?case by simp
next
  case (2 th by_id r c cs)
  obtain d where d: "by_id (vc_id c) = Some d" using "2.prems" by (cases "by_id (vc_id c)") auto
  show ?case
  proof (cases "\<not> vd_supported d \<or> vd_confidence d < th")
    case True
    then have "settle_candidates th by_id (r\<lparr>vr_dropped := (vr_dropped r)(vc_id c \<mapsto> vd_reason d)\<rparr>) cs = (r', None)"
      using "2.prems"(1) d by simp
    from "2.IH"(1) [OF d True this] d True "2.prems"(2) show ?thesis by (auto simp: fun_eq_iff)
  next
    case False
    then have "settle_candidates th by_id (r\<lparr>vr_kept := vr_kept r @ [c]\<rparr>) cs = (r', None)"
      using "2.prems"(1) d by simp
    from "2.IH"(2) [OF d False this] d False "2.prems"(2) show ?thesis by (auto simp: fun_eq_iff)
  qed
qed

lemma decode_decisions_ok:
  "decode_decisions decode data = Inr ds \<Longrightarrow> \<forall>d \<in> set ds. vd_id d \<noteq> []"
  by (auto simp: decode_decisions_def list_ex_iff decision_invalid_def split: sum.splits if_splits)

text \<open>
  C17: When verification succeeds, every candidate ends up on exactly one side: a kept candidate
  has line evidence and a supporting decision of at least the threshold, a dropped one is recorded
  under its ID, the kept ones keep their order, and no ID is both kept and dropped.
\<close>

theorem verify_partitions:
  assumes "verify marshal decode v candidates = (r, None)"
  shows "distinct (map vc_id candidates)
    \<and> vr_kept r = filter (\<lambda>c. vr_dropped r (vc_id c) = None) candidates
    \<and> dom (vr_dropped r) \<union> vc_id ` set (vr_kept r) = vc_id ` set candidates
    \<and> dom (vr_dropped r) \<inter> vc_id ` set (vr_kept r) = {}
    \<and> (\<forall>c \<in> set (vr_kept r). \<not> lacks_evidence c
         \<and> (\<exists>d \<in> set (vr_decisions r). vd_id d = vc_id c \<and> vd_supported d
              \<and> vd_confidence d \<ge> (if fv_min_confidence v \<le> 0 then 6 / 10 else fv_min_confidence v)))"
proof -
  obtain dropped eligible err where sel: "select_eligible {} Map.empty [] candidates = (dropped, eligible, err)"
    by (cases "select_eligible {} Map.empty [] candidates")
  have "err = None" using assms sel by (cases err) (auto simp: verify_def)
  note sel = select_eligible_ok [OF sel [unfolded this]] sel [unfolded this]
  have inj: "inj_on vc_id (set candidates)" using sel(1) by (simp add: distinct_map)
  have elig: "eligible = filter (\<lambda>c. \<not> lacks_evidence c) candidates" using sel(1) by simp
  have drop: "dropped = (\<lambda>k. if \<exists>c \<in> set candidates. lacks_evidence c \<and> vc_id c = k
                     then Some ''missing line evidence'' else None)" using sel(1) by simp
  show ?thesis
  proof (cases "eligible = []")
    case True
    then have "r = \<lparr>vr_kept = [], vr_dropped = dropped, vr_decisions = []\<rparr>"
      using assms sel(2) by (simp add: verify_def)
    moreover have "\<forall>c \<in> set candidates. lacks_evidence c"
      using True elig by (simp add: filter_empty_conv)
    moreover have "filter (\<lambda>c. dropped (vc_id c) = None) candidates = []"
      using calculation(2) by (auto simp: drop filter_empty_conv)
    ultimately show ?thesis using sel(1) by (auto simp: drop dom_def)
  next
    case False
    obtain ds by_id data where run: "decode_decisions decode data = Inr ds"
        "index_decisions (vc_id ` set eligible) Map.empty ds = Inr by_id"
        "settle_candidates (confidence_threshold (fv_min_confidence v)) by_id
           \<lparr>vr_kept = [], vr_dropped = dropped, vr_decisions = ds\<rparr> eligible = (r, None)"
      using assms sel(2) False
      by (auto simp: verify_def Let_def split: option.splits sum.splits if_splits)
    have idx: "by_id = map_of (map (\<lambda>d. (vd_id d, d)) ds)"
      using index_decisions_ok [OF run(2) decode_decisions_ok [OF run(1)]] by simp
    have found: "d \<in> set ds \<and> vd_id d = k" if "by_id k = Some d" for k d
      using map_of_SomeD [OF that [unfolded idx]] by auto
    let ?good = "\<lambda>k. vd_supported (the (by_id k))
       \<and> confidence_threshold (fv_min_confidence v) \<le> vd_confidence (the (by_id k))"
    have "distinct (map vc_id eligible)" using sel(1) by (simp add: elig distinct_map_filter)
    from settle_candidates_ok [OF run(3) this]
    have fin: "\<forall>c \<in> set eligible. by_id (vc_id c) \<noteq> None"
      "vr_kept r = filter (\<lambda>c. ?good (vc_id c)) eligible"
      "vr_dropped r = (\<lambda>k. if \<exists>c \<in> set eligible. vc_id c = k \<and> \<not> ?good k
        then Some (vd_reason (the (by_id k))) else dropped k)"
      "vr_decisions r = ds"
      unfolding verification_result.simps append_Nil by blast+
    have side: "vr_dropped r (vc_id c) = None \<longleftrightarrow> \<not> lacks_evidence c \<and> ?good (vc_id c)"
      if "c \<in> set candidates" for c
      using that inj by (auto simp: fin(3) drop elig dest: inj_onD)
    have kept: "vr_kept r = filter (\<lambda>c. vr_dropped r (vc_id c) = None) candidates"
      unfolding fin(2) elig filter_filter by (rule filter_cong) (auto simp: side)
    have dom: "dom (vr_dropped r) \<subseteq> vc_id ` set candidates"
      by (auto simp: fin(3) drop elig split: if_splits)
    have "\<forall>c \<in> set (vr_kept r). \<not> lacks_evidence c
        \<and> (\<exists>d \<in> set ds. vd_id d = vc_id c \<and> vd_supported d
              \<and> vd_confidence d \<ge> confidence_threshold (fv_min_confidence v))"
    proof
      fix c
      assume "c \<in> set (vr_kept r)"
      then have c: "c \<in> set eligible" "?good (vc_id c)" unfolding fin(2) by simp_all
      then obtain d where "by_id (vc_id c) = Some d" using fin(1) by blast
      with found [OF this] c show "\<not> lacks_evidence c
        \<and> (\<exists>d \<in> set ds. vd_id d = vc_id c \<and> vd_supported d
              \<and> vd_confidence d \<ge> confidence_threshold (fv_min_confidence v))"
        by (auto simp: elig)
    qed
    moreover have "dom (vr_dropped r) \<union> vc_id ` set (vr_kept r) = vc_id ` set candidates"
      using dom unfolding kept by (auto simp: dom_def)
    moreover have "dom (vr_dropped r) \<inter> vc_id ` set (vr_kept r) = {}"
      unfolding kept by (auto simp: dom_def)
    ultimately show ?thesis using sel(1) kept fin(4) by (simp add: confidence_threshold_def)
  qed
qed

definition sample_candidate :: candidate where
  "sample_candidate =
     \<lparr>vc_id = ''f1'', vc_path = ''a.go'', vc_start = 3, vc_end = 4, vc_title = ''t'',
      vc_evidence = ''line 3'', vc_context = []\<rparr>"

definition sample_decision :: decision where
  "sample_decision = \<lparr>vd_id = ''f1'', vd_supported = True, vd_confidence = 3/4, vd_reason = ''shown''\<rparr>"

definition sample_verifier :: finding_verifier where
  "sample_verifier =
     \<lparr>fv_client = Some (\<lambda>_. Inr (no_response\<lparr>rs_text := ''decisions''\<rparr>)), fv_provider = ''p'',
      fv_model = ''m'', fv_prompt_version = ''1'', fv_min_confidence = 0, fv_max_output_tokens = 0\<rparr>"

lemma blank_examples: "\<not> blank ''line 3''" "\<not> blank ''shown''"
  by (rule nonblank_last; simp)+

lemma sample_verification:
  "verify (\<lambda>_. []) (\<lambda>data. Inr ([sample_decision], [])) sample_verifier
     [sample_candidate, sample_candidate\<lparr>vc_id := ''f2'', vc_start := 0\<rparr>]
   = (\<lparr>vr_kept = [sample_candidate], vr_dropped = [''f2'' \<mapsto> ''missing line evidence''],
      vr_decisions = [sample_decision]\<rparr>, None)"
  by (simp add: verify_def sample_verifier_def sample_candidate_def sample_decision_def
      lacks_evidence_def decode_decisions_def trailing_space_def decision_invalid_def
      confidence_threshold_def blank_examples)

theorem verify_partitions_witness:
  "\<exists>r. verify (\<lambda>_. []) (\<lambda>data. Inr ([sample_decision], [])) sample_verifier
       [sample_candidate, sample_candidate\<lparr>vc_id := ''f2'', vc_start := 0\<rparr>] = (r, None)
     \<and> dom (vr_dropped r) \<inter> vc_id ` set (vr_kept r) = {}"
  using verify_partitions [OF sample_verification] sample_verification by blast

end
