(* ===== verification/Blocks.thy ===== *)
theory Blocks
  imports GoPath
begin

text \<open>
  \<open>internal/hosted/review/blocks.go\<close>: grouping changed files into review blocks by shared
  identifiers, with a union-find over the file indexes. SHA-256 (as the hex of its first eight
  bytes) is a parameter. The recursive \<open>find\<close> closure has no bound of its own, so it is an
  optional value here (\<open>None\<close> would be a call that never returns), and that it always returns
  is part of what is proved. Go sets of strings are HOL sets.
\<close>

section \<open>Files and signals\<close>

record diff_line =
  dl_kind :: bytes
  dl_text :: bytes

record hunk =
  hk_lines :: "diff_line list"

record review_file =
  fl_path :: bytes
  fl_hunks :: "hunk list"

record block =
  bl_id :: bytes
  bl_title :: bytes
  bl_summary :: bytes
  bl_paths :: "bytes list"

record signals =
  sg_path :: "bytes set"
  sg_code :: "bytes set"

definition stop_words :: "bytes set" where
  "stop_words =
     {''async'', ''await'', ''break'', ''case'', ''class'', ''const'', ''continue'', ''default'',
      ''else'', ''error'', ''export'', ''false'', ''from'', ''function'', ''import'', ''interface'',
      ''package'', ''return'', ''string'', ''struct'', ''switch'', ''throw'', ''true'', ''undefined''}"

definition token_start :: "char \<Rightarrow> bool" where
  "token_start c \<longleftrightarrow> ascii_upper c \<or> ascii_lower c"

definition token_char :: "char \<Rightarrow> bool" where
  "token_char c \<longleftrightarrow> token_start c \<or> ascii_digit c \<or> c = CHR ''_''"

text \<open>All leftmost, longest matches of \<open>[A-Za-z][A-Za-z0-9_]{3,}\<close>.\<close>

function find_tokens :: "bytes \<Rightarrow> bytes list" where
  "find_tokens [] = []"
| "find_tokens (c # cs) =
     (if token_start c \<and> 3 \<le> length (takeWhile token_char cs)
      then (c # takeWhile token_char cs) # find_tokens (dropWhile token_char cs)
      else find_tokens cs)"
  by pat_completeness auto
termination
  by (relation "measure length") (auto simp: le_imp_less_Suc length_dropWhile_le)

definition trim_underscores :: "bytes \<Rightarrow> bytes" where
  "trim_underscores s =
     rev (dropWhile (\<lambda>c. c = CHR ''_'') (rev (dropWhile (\<lambda>c. c = CHR ''_'') s)))"

definition add_signal :: "bytes \<Rightarrow> bytes set \<Rightarrow> bytes set" where
  "add_signal token s =
     (let value = ascii_lowercase (trim_underscores token) in
      if 4 \<le> length value \<and> value \<notin> stop_words then insert value s else s)"

definition file_signals :: "review_file \<Rightarrow> signals" where
  "file_signals f =
     (let name = trim_suffix (ext (fl_path f)) (base (fl_path f)) in
      \<lparr>sg_path = fold add_signal (find_tokens name) {},
       sg_code = fold (\<lambda>h s. fold (\<lambda>l s. if dl_kind l \<noteq> ''context''
           then fold add_signal (find_tokens (dl_text l)) s else s) (hk_lines h) s) (fl_hunks f) {}\<rparr>)"

definition shared :: "signals \<Rightarrow> signals \<Rightarrow> bool" where
  "shared a b \<longleftrightarrow> sg_path a \<inter> sg_path b \<noteq> {} \<or> 2 \<le> card (sg_code a \<inter> sg_code b)"

lemma shared_commute: "shared a b = shared b a"
  by (simp add: shared_def Int_commute)

section \<open>Union-find\<close>

partial_function (option) uf_find :: "nat list \<Rightarrow> nat \<Rightarrow> (nat list \<times> nat) option" where
  "uf_find parent i =
     (if parent ! i \<noteq> i
      then Option.bind (uf_find parent (parent ! i)) (\<lambda>(parent', r). Some (parent'[i := r], r))
      else Some (parent, i))"

definition uf_union :: "nat list \<Rightarrow> nat \<Rightarrow> nat \<Rightarrow> nat list option" where
  "uf_union parent i j =
     Option.bind (uf_find parent j) (\<lambda>(parent1, rj).
       Option.bind (uf_find parent1 i) (\<lambda>(parent2, ri). Some (parent2[rj := ri])))"

fun link_pairs :: "(nat \<Rightarrow> nat \<Rightarrow> bool) \<Rightarrow> (nat \<times> nat) list \<Rightarrow> nat list \<Rightarrow> nat list option" where
  "link_pairs share [] parent = Some parent"
| "link_pairs share ((i, j) # ps) parent =
     (if share i j then Option.bind (uf_union parent i j) (link_pairs share ps)
      else link_pairs share ps parent)"

definition index_pairs :: "nat \<Rightarrow> (nat \<times> nat) list" where
  "index_pairs n = concat (map (\<lambda>i. map (\<lambda>j. (i, j)) [Suc i..<n]) [0..<n])"

text \<open>\<open>groups[find(i)] = append(groups[find(i)], i)\<close>, for every index in order.\<close>

fun collect_groups :: "nat list \<Rightarrow> (nat \<Rightarrow> nat list) \<Rightarrow> nat list \<Rightarrow> (nat \<Rightarrow> nat list) option" where
  "collect_groups parent groups [] = Some groups"
| "collect_groups parent groups (i # is) =
     Option.bind (uf_find parent i) (\<lambda>(parent1, r1).
       Option.bind (uf_find parent1 i) (\<lambda>(parent2, r2).
         collect_groups parent2 (groups(r1 := groups r2 @ [i])) is))"

text \<open>
  The invariant: \<open>rep\<close> names the root of every index and \<open>depth\<close> decreases along the parent
  pointers, so that following them ends.
\<close>

definition uf_inv :: "nat \<Rightarrow> nat list \<Rightarrow> (nat \<Rightarrow> nat) \<Rightarrow> (nat \<Rightarrow> nat) \<Rightarrow> bool" where
  "uf_inv n parent rep depth \<longleftrightarrow> length parent = n
     \<and> (\<forall>i < n. parent ! i < n \<and> rep i < n \<and> rep (parent ! i) = rep i \<and> rep (rep i) = rep i
          \<and> (parent ! i = i \<longleftrightarrow> rep i = i) \<and> (parent ! i \<noteq> i \<longrightarrow> depth (parent ! i) < depth i))"

lemma uf_invD:
  assumes "uf_inv n parent rep depth" and "i < n"
  shows "length parent = n" "parent ! i < n" "rep i < n" "rep (parent ! i) = rep i"
    "rep (rep i) = rep i" "parent ! i = i \<longleftrightarrow> rep i = i" "parent ! i \<noteq> i \<Longrightarrow> depth (parent ! i) < depth i"
  using assms by (auto simp: uf_inv_def)

lemma uf_depth_root: "uf_inv n parent rep depth \<Longrightarrow> i < n \<Longrightarrow> rep i \<noteq> i \<Longrightarrow> depth (rep i) < depth i"
proof (induction "depth i" arbitrary: i rule: less_induct)
  case less
  note d = uf_invD [OF less.prems(1,2)]
  have step: "depth (parent ! i) < depth i" using d less.prems(3) by simp
  show ?case
  proof (cases "rep (parent ! i) = parent ! i")
    case True
    then show ?thesis using step d(4) by simp
  next
    case False
    then show ?thesis using less.hyps [OF step less.prems(1) d(2)] step d(4) by simp
  qed
qed

lemma uf_inv_compress:
  assumes "uf_inv n parent rep depth" and "i < n"
  shows "uf_inv n (parent[i := rep i]) rep depth"
  unfolding uf_inv_def
proof (intro conjI allI impI)
  show "length (parent[i := rep i]) = n" using assms by (simp add: uf_inv_def)
next
  fix k
  assume k: "k < n"
  note dk = uf_invD [OF assms(1) k] and di = uf_invD [OF assms]
  have len: "i < length parent" using assms di(1) by simp
  show "parent[i := rep i] ! k < n" using dk di len by (cases "k = i") auto
  show "rep k < n" by (rule dk(3))
  show "rep (parent[i := rep i] ! k) = rep k" using dk di len by (cases "k = i") auto
  show "rep (rep k) = rep k" by (rule dk(5))
  show "(parent[i := rep i] ! k = k) = (rep k = k)" using dk di len by (cases "k = i") auto
  show "parent[i := rep i] ! k \<noteq> k \<Longrightarrow> depth (parent[i := rep i] ! k) < depth k"
    using dk di len uf_depth_root [OF assms] by (cases "k = i") auto
qed

text \<open>\<open>find\<close> returns the root and keeps the invariant.\<close>

lemma uf_find_correct:
  "uf_inv n parent rep depth \<Longrightarrow> i < n \<Longrightarrow>
   \<exists>parent'. uf_find parent i = Some (parent', rep i) \<and> uf_inv n parent' rep depth"
proof (induction "depth i" arbitrary: i rule: less_induct)
  case less
  note d = uf_invD [OF less.prems]
  show ?case
  proof (cases "parent ! i = i")
    case True
    then show ?thesis using d less.prems by (simp add: uf_find.simps [of parent i])
  next
    case False
    obtain p where p: "uf_find parent (parent ! i) = Some (p, rep i)" "uf_inv n p rep depth"
      using less.hyps [OF d(7) [OF False] less.prems(1) d(2)] d(4) by auto
    then have "uf_find parent i = Some (p[i := rep i], rep i)"
      using False by (simp add: uf_find.simps [of parent i])
    then show ?thesis using uf_inv_compress [OF p(2) less.prems(2)] by blast
  qed
qed

definition merge_rep :: "(nat \<Rightarrow> nat) \<Rightarrow> nat \<Rightarrow> nat \<Rightarrow> nat \<Rightarrow> nat" where
  "merge_rep rep i j = (\<lambda>x. if rep x = rep j then rep i else rep x)"

lemma uf_inv_attach:
  assumes "uf_inv n parent rep depth" and "i < n" and "j < n"
  shows "\<exists>depth'. uf_inv n (parent[rep j := rep i]) (merge_rep rep i j) depth'"
proof (cases "rep i = rep j")
  case True
  note dj = uf_invD [OF assms(1,3)]
  have "parent ! rep j = rep j" using uf_invD(6) [OF assms(1) dj(3)] dj(5) by simp
  then have "parent[rep j := rep i] = parent" using True by (metis list_update_id)
  moreover have "merge_rep rep i j = rep" using True by (auto simp: merge_rep_def)
  ultimately show ?thesis using assms(1) by auto
next
  case False
  note di = uf_invD [OF assms(1,2)] and dj = uf_invD [OF assms(1,3)]
  define depth' where "depth' x = (if rep x = rep j then depth x + Suc (depth (rep i)) else depth x)" for x
  have "uf_inv n (parent[rep j := rep i]) (merge_rep rep i j) depth'"
    unfolding uf_inv_def
  proof (intro conjI allI impI)
    show "length (parent[rep j := rep i]) = n" using di by simp
  next
    fix k
    assume k: "k < n"
    note dk = uf_invD [OF assms(1) k]
    have len: "rep j < length parent" using dj by simp
    show "parent[rep j := rep i] ! k < n" using dk di len by (cases "k = rep j") auto
    show "merge_rep rep i j k < n" using dk di by (simp add: merge_rep_def)
    show "merge_rep rep i j (parent[rep j := rep i] ! k) = merge_rep rep i j k"
      using dk di dj len by (cases "k = rep j") (auto simp: merge_rep_def)
    show "merge_rep rep i j (merge_rep rep i j k) = merge_rep rep i j k"
      using dk di by (auto simp: merge_rep_def)
    show "(parent[rep j := rep i] ! k = k) = (merge_rep rep i j k = k)"
      using dk di dj len False by (cases "k = rep j") (auto simp: merge_rep_def)
    show "parent[rep j := rep i] ! k \<noteq> k \<Longrightarrow> depth' (parent[rep j := rep i] ! k) < depth' k"
      using dk di dj len False by (cases "k = rep j") (auto simp: depth'_def)
  qed
  then show ?thesis by blast
qed

lemma uf_union_correct:
  assumes "uf_inv n parent rep depth" and "i < n" and "j < n"
  shows "\<exists>parent' depth'. uf_union parent i j = Some parent' \<and> uf_inv n parent' (merge_rep rep i j) depth'"
proof -
  obtain p1 where p1: "uf_find parent j = Some (p1, rep j)" "uf_inv n p1 rep depth"
    using uf_find_correct [OF assms(1,3)] by blast
  obtain p2 where p2: "uf_find p1 i = Some (p2, rep i)" "uf_inv n p2 rep depth"
    using uf_find_correct [OF p1(2) assms(2)] by blast
  have "uf_union parent i j = Some (p2[rep j := rep i])"
    using p1(1) p2(1) by (simp add: uf_union_def)
  with uf_inv_attach [OF p2(2) assms(2,3)] show ?thesis by blast
qed

text \<open>The classes of \<open>rep\<close> are the connected components of the edges linked so far.\<close>

definition components :: "(nat \<Rightarrow> nat) \<Rightarrow> (nat \<times> nat) set \<Rightarrow> bool" where
  "components rep E \<longleftrightarrow> (\<forall>x y. rep x = rep y \<longleftrightarrow> (x, y) \<in> (E \<union> E\<inverse>)\<^sup>*)"

lemma components_id: "components (\<lambda>x. x) {}"
  by (auto simp: components_def)

lemma components_insert:
  assumes "components rep E"
  shows "components (merge_rep rep i j) (insert (i, j) E)"
  unfolding components_def
proof (intro allI iffI)
  fix x y
  let ?F = "insert (i, j) E \<union> (insert (i, j) E)\<inverse>"
  have sub: "(a, b) \<in> ?F\<^sup>*" if "rep a = rep b" for a b
  proof -
    have "(a, b) \<in> (E \<union> E\<inverse>)\<^sup>*" using that assms by (simp add: components_def)
    then show ?thesis by (rule rtrancl_mono [THEN subsetD, rotated]) auto
  qed
  have ij: "(i, j) \<in> ?F\<^sup>*" "(j, i) \<in> ?F\<^sup>*" by auto
  show "(x, y) \<in> ?F\<^sup>*" if merged: "merge_rep rep i j x = merge_rep rep i j y"
  proof -
    consider "rep x = rep y" | "rep x = rep j" "rep i = rep y" | "rep x = rep i" "rep j = rep y"
      using merged by (auto simp: merge_rep_def split: if_splits)
    then show ?thesis
    proof cases
      case 1
      then show ?thesis by (rule sub)
    next
      case 2
      then show ?thesis using sub ij by (meson rtrancl_trans)
    next
      case 3
      then show ?thesis using sub ij by (meson rtrancl_trans)
    qed
  qed
  have edge: "merge_rep rep i j a = merge_rep rep i j b" if "(a, b) \<in> ?F" for a b
  proof -
    have "rep a = rep b" if "(a, b) \<in> E \<union> E\<inverse>"
      using that assms unfolding components_def by blast
    then show ?thesis using that by (auto simp: merge_rep_def)
  qed
  show "merge_rep rep i j x = merge_rep rep i j y" if "(x, y) \<in> ?F\<^sup>*"
    using that by (induction rule: rtrancl_induct) (use edge in auto)
qed

lemma link_pairs_correct:
  assumes "uf_inv n parent rep depth" and "components rep E" and "\<forall>(i, j) \<in> set ps. i < n \<and> j < n"
  shows "\<exists>parent' rep' depth'. link_pairs share ps parent = Some parent' \<and> uf_inv n parent' rep' depth'
    \<and> components rep' (E \<union> {(i, j) \<in> set ps. share i j})"
  using assms
proof (induction share ps parent arbitrary: rep depth E rule: link_pairs.induct)
  case (1 share parent)
  then show ?case by auto
next
  case (2 share i j ps parent)
  show ?case
  proof (cases "share i j")
    case True
    obtain p d where p: "uf_union parent i j = Some p" "uf_inv n p (merge_rep rep i j) d"
      using uf_union_correct [OF "2.prems"(1), of i j] "2.prems"(3) by auto
    have "insert (i, j) E \<union> {(i, j) \<in> set ps. share i j} = E \<union> {(i', j') \<in> set ((i, j) # ps). share i' j'}"
      using True by auto
    moreover have "\<exists>parent' rep' depth'. link_pairs share ps p = Some parent' \<and> uf_inv n parent' rep' depth'
        \<and> components rep' (insert (i, j) E \<union> {(i, j) \<in> set ps. share i j})"
      by (rule "2.IH"(1) [OF True p components_insert [OF "2.prems"(2)]]) (use "2.prems"(3) in auto)
    ultimately show ?thesis using True p(1) by simp
  next
    case False
    have "{(i, j) \<in> set ps. share i j} = {(i', j') \<in> set ((i, j) # ps). share i' j'}"
      using False by auto
    moreover have "\<exists>parent' rep' depth'. link_pairs share ps parent = Some parent' \<and> uf_inv n parent' rep' depth'
        \<and> components rep' (E \<union> {(i, j) \<in> set ps. share i j})"
      by (rule "2.IH"(2) [OF False "2.prems"(1,2)]) (use "2.prems"(3) in auto)
    ultimately show ?thesis using False by simp
  qed
qed

lemma collect_groups_correct:
  assumes "uf_inv n parent rep depth" and "\<forall>i \<in> set is. i < n"
  shows "collect_groups parent groups is = Some (\<lambda>r. groups r @ filter (\<lambda>i. rep i = r) is)"
  using assms
proof (induction "is" arbitrary: parent groups)
  case Nil
  then show ?case by simp
next
  case (Cons i "is")
  obtain p1 where p1: "uf_find parent i = Some (p1, rep i)" "uf_inv n p1 rep depth"
    using uf_find_correct [OF Cons.prems(1), of i] Cons.prems(2) by auto
  obtain p2 where p2: "uf_find p1 i = Some (p2, rep i)" "uf_inv n p2 rep depth"
    using uf_find_correct [OF p1(2), of i] Cons.prems(2) by auto
  show ?case
    using p1(1) p2(1) Cons.IH [OF p2(2)] Cons.prems(2) by (auto simp: fun_eq_iff)
qed

lemma uf_inv_start: "uf_inv n [0..<n] (\<lambda>x. x) (\<lambda>_. 0)"
  by (simp add: uf_inv_def)

lemma set_index_pairs: "set (index_pairs n) = {(i, j). i < j \<and> j < n}"
  by (force simp: index_pairs_def)

section \<open>Topics and blocks\<close>

definition topic_step :: "bytes \<times> int \<Rightarrow> bytes \<times> int \<Rightarrow> bytes \<times> int" where
  "topic_step best vn =
     (if snd vn > snd best \<or> (snd vn = snd best \<and> fst vn < fst best) then vn else best)"

definition topic_count :: "signals list \<Rightarrow> nat list \<Rightarrow> bytes \<Rightarrow> int" where
  "topic_count all idx v =
     (\<Sum>i\<leftarrow>idx. (if v \<in> sg_path (all ! i) then 1 else 0)
        + (if v \<in> sg_code (all ! i) \<or> v \<in> sg_path (all ! i) then 1 else 0))"

definition topic_words :: "signals list \<Rightarrow> nat list \<Rightarrow> bytes set" where
  "topic_words all idx = (\<Union>i \<in> set idx. sg_code (all ! i) \<union> sg_path (all ! i))"

text \<open>
  The loop over the counts keeps the best word so far; its result does not depend on the order
  of the map, so the words are visited in sorted order.
\<close>

definition topic :: "nat list \<Rightarrow> signals list \<Rightarrow> bytes" where
  "topic idx all =
     fst (foldl topic_step (''related'', -1)
       (map (\<lambda>v. (v, topic_count all idx v)) (sorted_list_of_set (topic_words all idx))))"

definition upper_char :: "char \<Rightarrow> char" where
  "upper_char c = (if ascii_lower c then char_of (of_char c - 32 :: nat) else c)"

definition make_block :: "(bytes \<Rightarrow> bytes) \<Rightarrow> review_file list \<Rightarrow> signals list \<Rightarrow> nat list \<Rightarrow> block" where
  "make_block hex8 files all idx =
     (let paths = sort (map (\<lambda>i. fl_path (files ! i)) idx);
          t = topic idx all
      in \<lparr>bl_id = ''change-'' @ hex8 (join_with [CHR 0x00] paths),
          bl_title = map upper_char (take 1 t) @ drop 1 t @ '' changes'',
          bl_summary = dec_int (int (length paths)) @ '' related files share the '' @ [CHR 0x22] @ t
            @ [CHR 0x22] @ '' change signal.'',
          bl_paths = paths\<rparr>)"

text \<open>The index groups of \<open>GroupBlocks\<close>, one list for every root.\<close>

definition index_groups :: "(nat \<Rightarrow> nat \<Rightarrow> bool) \<Rightarrow> nat \<Rightarrow> nat list list option" where
  "index_groups share n =
     Option.bind (link_pairs share (index_pairs n) [0..<n]) (\<lambda>parent.
       Option.bind (collect_groups parent (\<lambda>_. []) [0..<n]) (\<lambda>groups.
         Some (map groups [0..<n])))"

definition group_blocks :: "(bytes \<Rightarrow> bytes) \<Rightarrow> review_file list \<Rightarrow> block list option" where
  "group_blocks hex8 files =
     (if length files < 2 then Some []
      else let all = map file_signals files in
        map_option
          (\<lambda>groups. sort_by (\<lambda>a b. hd (bl_paths a) < hd (bl_paths b))
             (map (make_block hex8 files all) (filter (\<lambda>g. \<not> length g < 2) groups)))
          (index_groups (\<lambda>i j. shared (all ! i) (all ! j)) (length files)))"

section \<open>Blocks are connected components\<close>

definition share_edges :: "(nat \<Rightarrow> nat \<Rightarrow> bool) \<Rightarrow> nat \<Rightarrow> (nat \<times> nat) set" where
  "share_edges share n = {(i, j). i < j \<and> j < n \<and> share i j}"

definition linked :: "(nat \<Rightarrow> nat \<Rightarrow> bool) \<Rightarrow> nat \<Rightarrow> nat \<Rightarrow> nat \<Rightarrow> bool" where
  "linked share n i j \<longleftrightarrow> (i, j) \<in> (share_edges share n \<union> (share_edges share n)\<inverse>)\<^sup>*"

lemma index_groups_by_root:
  "\<exists>rep. index_groups share n = Some (map (\<lambda>r. filter (\<lambda>i. rep i = r) [0..<n]) [0..<n])
     \<and> (\<forall>i < n. rep i < n) \<and> (\<forall>x y. rep x = rep y \<longleftrightarrow> linked share n x y)"
proof -
  have "\<exists>parent' rep' depth'. link_pairs share (index_pairs n) [0..<n] = Some parent'
      \<and> uf_inv n parent' rep' depth'
      \<and> components rep' ({} \<union> {(i, j) \<in> set (index_pairs n). share i j})"
    by (rule link_pairs_correct [OF uf_inv_start components_id]) (auto simp: set_index_pairs)
  then obtain parent rep depth where l: "link_pairs share (index_pairs n) [0..<n] = Some parent"
      "uf_inv n parent rep depth" "components rep ({} \<union> {(i, j) \<in> set (index_pairs n). share i j})"
    by blast
  have "{} \<union> {(i, j) \<in> set (index_pairs n). share i j} = share_edges share n"
    by (auto simp: set_index_pairs share_edges_def)
  then have "\<forall>x y. rep x = rep y \<longleftrightarrow> linked share n x y"
    using l(3) by (simp add: components_def linked_def)
  moreover have "\<forall>i < n. rep i < n" using l(2) by (simp add: uf_inv_def)
  moreover have "index_groups share n = Some (map (\<lambda>r. filter (\<lambda>i. rep i = r) [0..<n]) [0..<n])"
    using l(1) collect_groups_correct [OF l(2), of "[0..<n]" "\<lambda>_. []"] by (simp add: index_groups_def)
  ultimately show ?thesis by blast
qed

text \<open>
  C2: The union-find terminates on any sharing relation, puts every file index in exactly one
  group, and two indexes are in the same group exactly when a chain of shared signals connects
  them.
\<close>

theorem index_groups_are_components:
  "\<exists>groups. index_groups share n = Some groups
     \<and> distinct (concat groups) \<and> set (concat groups) = {0..<n}
     \<and> (\<forall>i < n. \<forall>j < n. (\<exists>g \<in> set groups. i \<in> set g \<and> j \<in> set g) \<longleftrightarrow> linked share n i j)"
proof -
  obtain rep where rep: "index_groups share n = Some (map (\<lambda>r. filter (\<lambda>i. rep i = r) [0..<n]) [0..<n])"
      "\<forall>i < n. rep i < n" "\<forall>x y. rep x = rep y \<longleftrightarrow> linked share n x y"
    using index_groups_by_root by blast
  let ?gs = "map (\<lambda>r. filter (\<lambda>i. rep i = r) [0..<n]) [0..<n]"
  have "distinct (concat (map (\<lambda>r. filter (\<lambda>i. rep i = r) [0..<n]) rs))" if "distinct rs" for rs
    using that by (induction rs) auto
  then have "distinct (concat ?gs)" by simp
  moreover have "set (concat ?gs) = {0..<n}" using rep(2) by auto
  moreover have "(\<exists>g \<in> set ?gs. i \<in> set g \<and> j \<in> set g) \<longleftrightarrow> linked share n i j" if "i < n" "j < n" for i j
  proof -
    have "linked share n i j \<longleftrightarrow> rep i = rep j" using rep(3) by simp
    moreover have "(\<exists>g \<in> set ?gs. i \<in> set g \<and> j \<in> set g) \<longleftrightarrow> rep i = rep j"
    proof
      assume "\<exists>g \<in> set ?gs. i \<in> set g \<and> j \<in> set g"
      then show "rep i = rep j" by auto
    next
      assume "rep i = rep j"
      then have "i \<in> set (filter (\<lambda>k. rep k = rep i) [0..<n])" "j \<in> set (filter (\<lambda>k. rep k = rep i) [0..<n])"
        using that by simp_all
      moreover have "filter (\<lambda>k. rep k = rep i) [0..<n] \<in> set ?gs" using rep(2) that(1) by simp
      ultimately show "\<exists>g \<in> set ?gs. i \<in> set g \<and> j \<in> set g" by blast
    qed
    ultimately show ?thesis by simp
  qed
  ultimately show ?thesis using rep(1) by blast
qed

lemma mset_root_group:
  assumes "\<forall>x y. rep x = rep y \<longleftrightarrow> linked share n x y" and "i \<in> set (filter (\<lambda>k. rep k = r) [0..<n])"
  shows "mset (filter (\<lambda>k. rep k = r) [0..<n]) = mset_set {j. j < n \<and> linked share n i j}"
proof -
  have "set (filter (\<lambda>k. rep k = r) [0..<n]) = {j. j < n \<and> linked share n i j}"
    using assms(2) by (auto simp flip: assms(1) [rule_format])
  moreover have "distinct (filter (\<lambda>k. rep k = r) [0..<n])" by simp
  ultimately show ?thesis by (metis mset_set_set)
qed

lemma two_members: "i \<in> set g \<Longrightarrow> j \<in> set g \<Longrightarrow> i \<noteq> j \<Longrightarrow> 2 \<le> length g"
  by (cases g; cases "tl g") auto

lemma make_block_paths [simp]:
  "bl_paths (make_block hex8 files all g) = sort (map (\<lambda>i. fl_path (files ! i)) g)"
  by (simp add: make_block_def Let_def)

definition files_share :: "review_file list \<Rightarrow> nat \<Rightarrow> nat \<Rightarrow> bool" where
  "files_share files i j = shared (map file_signals files ! i) (map file_signals files ! j)"

text \<open>
  Grouping always returns; the blocks come ordered by their first path; each block lists, in
  sorted order, the files of one connected component of at least two files; and every such
  component has a block.
\<close>

theorem group_blocks_spec:
  "\<exists>blocks. group_blocks hex8 files = Some blocks
    \<and> sorted (map (\<lambda>b. hd (bl_paths b)) blocks)
    \<and> (\<forall>b \<in> set blocks. sorted (bl_paths b) \<and> 2 \<le> length (bl_paths b)
         \<and> (\<exists>i < length files. mset (bl_paths b) = {#fl_path (files ! j). j \<in># mset_set {j. j < length files
               \<and> linked (files_share files) (length files) i j}#}))
    \<and> (\<forall>i < length files. \<forall>j < length files. i \<noteq> j \<and> linked (files_share files) (length files) i j \<longrightarrow>
         (\<exists>b \<in> set blocks. fl_path (files ! i) \<in> set (bl_paths b) \<and> fl_path (files ! j) \<in> set (bl_paths b)))"
proof (cases "length files < 2")
  case True
  then show ?thesis by (auto simp: group_blocks_def)
next
  case False
  let ?n = "length files"
  let ?all = "map file_signals files"
  obtain rep where rep: "index_groups (files_share files) ?n = Some (map (\<lambda>r. filter (\<lambda>i. rep i = r) [0..<?n]) [0..<?n])"
      "\<forall>i < ?n. rep i < ?n" "\<forall>x y. rep x = rep y \<longleftrightarrow> linked (files_share files) ?n x y"
    using index_groups_by_root by blast
  let ?gs = "filter (\<lambda>g. \<not> length g < 2) (map (\<lambda>r. filter (\<lambda>i. rep i = r) [0..<?n]) [0..<?n])"
  let ?lt = "\<lambda>a b. hd (bl_paths a) < hd (bl_paths b)"
  let ?blocks = "sort_by ?lt (map (make_block hex8 files ?all) ?gs)"
  have out: "group_blocks hex8 files = Some ?blocks"
    using False rep(1) by (simp add: group_blocks_def files_share_def [abs_def] Let_def)
  have ordered: "ordered ?lt ?blocks"
    by (rule weak_order.ordered_sort_by [OF weak_order_key])
  then have sorted: "sorted (map (\<lambda>b. hd (bl_paths b)) ?blocks)"
    by (simp add: ordered_def sorted_map linorder_not_less)
  have shape: "sorted (bl_paths b) \<and> 2 \<le> length (bl_paths b)
         \<and> (\<exists>i < ?n. mset (bl_paths b) = {#fl_path (files ! j). j \<in># mset_set {j. j < ?n
               \<and> linked (files_share files) ?n i j}#})" if b: "b \<in> set ?blocks" for b
  proof -
    obtain r where g: "b = make_block hex8 files ?all (filter (\<lambda>i. rep i = r) [0..<?n])"
        "2 \<le> length (filter (\<lambda>i. rep i = r) [0..<?n])"
      using b by auto
    then obtain i where i: "i \<in> set (filter (\<lambda>i. rep i = r) [0..<?n])"
      by (metis length_0_conv length_greater_0_conv not_numeral_le_zero nth_mem)
    show ?thesis
      using g i mset_root_group [OF rep(3) i] by (auto intro!: exI [of _ i])
  qed
  have cover: "\<exists>b \<in> set ?blocks. fl_path (files ! i) \<in> set (bl_paths b) \<and> fl_path (files ! j) \<in> set (bl_paths b)"
    if "i < ?n" "j < ?n" "i \<noteq> j" "linked (files_share files) ?n i j" for i j
  proof -
    let ?g = "filter (\<lambda>k. rep k = rep i) [0..<?n]"
    have "rep j = rep i" using rep(3) that(4) by metis
    then have ij: "i \<in> set ?g" "j \<in> set ?g" using that by auto
    then have "?g \<in> set ?gs" using two_members [OF ij that(3)] rep(2) that(1) by auto
    then have "make_block hex8 files ?all ?g \<in> set ?blocks" by simp
    moreover have "fl_path (files ! k) \<in> set (bl_paths (make_block hex8 files ?all ?g))" if "k \<in> set ?g" for k
      using that by auto
    ultimately show ?thesis using ij by blast
  qed
  show ?thesis
    using out sorted shape cover by blast
qed

definition sample_files :: "review_file list" where
  "sample_files =
     [\<lparr>fl_path = ''web/billing.view.ts'', fl_hunks = []\<rparr>,
      \<lparr>fl_path = ''docs/notes.md'', fl_hunks = []\<rparr>,
      \<lparr>fl_path = ''api/billing.go'', fl_hunks = []\<rparr>]"

lemma sample_files_linked: "linked (files_share sample_files) 3 0 2"
proof -
  have "files_share sample_files 0 2" by code_simp
  then show ?thesis by (auto simp: linked_def share_edges_def)
qed

theorem index_groups_are_components_witness:
  "\<exists>groups. index_groups (files_share sample_files) 3 = Some groups
     \<and> set (concat groups) = {0..<3} \<and> (\<exists>g \<in> set groups. 0 \<in> set g \<and> 2 \<in> set g)"
  using index_groups_are_components [of "files_share sample_files" 3] sample_files_linked by fastforce

theorem group_blocks_spec_witness:
  "\<exists>blocks. group_blocks (\<lambda>s. s) sample_files = Some blocks
     \<and> (\<exists>b \<in> set blocks. ''api/billing.go'' \<in> set (bl_paths b) \<and> ''web/billing.view.ts'' \<in> set (bl_paths b))"
proof -
  have n: "length sample_files = 3" and p: "fl_path (sample_files ! 0) = ''web/billing.view.ts''"
      "fl_path (sample_files ! 2) = ''api/billing.go''"
    by (simp_all add: sample_files_def)
  obtain blocks where b: "group_blocks (\<lambda>s. s) sample_files = Some blocks"
      "\<forall>i < 3. \<forall>j < 3. i \<noteq> j \<and> linked (files_share sample_files) 3 i j \<longrightarrow>
         (\<exists>b \<in> set blocks. fl_path (sample_files ! i) \<in> set (bl_paths b)
            \<and> fl_path (sample_files ! j) \<in> set (bl_paths b))"
    using group_blocks_spec [of "\<lambda>s. s" sample_files] unfolding n by blast
  have "\<exists>b \<in> set blocks. fl_path (sample_files ! 0) \<in> set (bl_paths b) \<and> fl_path (sample_files ! 2) \<in> set (bl_paths b)"
    using b(2) [rule_format, of 0 2] sample_files_linked by simp
  then show ?thesis using b(1) unfolding p by blast
qed

lemma file_signals_example:
  "file_signals \<lparr>fl_path = ''api/invoice.go'', fl_hunks = [\<lparr>hk_lines =
      [\<lparr>dl_kind = ''add'', dl_text = ''total := invoiceTotal(id)''\<rparr>]\<rparr>]\<rparr>
   = \<lparr>sg_path = {''invoice''}, sg_code = {''invoicetotal'', ''total''}\<rparr>"
  by code_simp

end
