(* ===== verification/Indexing.thy ===== *)
theory Indexing
  imports GoStd
begin

text \<open>
  \<open>internal/hosted/indexer/limits.go\<close> and \<open>internal/hosted/indexer/reindex.go\<close>: how much of a
  repository is indexed, and which blobs an update touches. A Go map that is only looked up and
  ranged over is an association list; \<open>map_of\<close> is the map it stands for.
\<close>

section \<open>Repository limits\<close>

record repository_limits =
  max_files :: int
  max_bytes :: int

record limit_file =
  lf_path :: bytes
  lf_size :: int

record index_limit_result =
  il_state :: bytes
  il_indexed_files :: "limit_file list"
  il_skipped_files :: int
  il_indexed_bytes :: int
  il_total_files :: int
  il_total_bytes :: int
  il_reason :: bytes

definition limit_step :: "int \<Rightarrow> int \<Rightarrow> limit_file \<Rightarrow> index_limit_result \<Rightarrow> index_limit_result" where
  "limit_step mf mb f r =
     (let r = r\<lparr>il_total_bytes := wrap64 (il_total_bytes r + lf_size f)\<rparr> in
      if int (length (il_indexed_files r)) \<ge> mf \<or> wrap64 (il_indexed_bytes r + lf_size f) > mb
      then r\<lparr>il_skipped_files := il_skipped_files r + 1\<rparr>
      else r\<lparr>il_indexed_files := il_indexed_files r @ [f],
             il_indexed_bytes := wrap64 (il_indexed_bytes r + lf_size f)\<rparr>)"

fun limit_loop :: "int \<Rightarrow> int \<Rightarrow> limit_file list \<Rightarrow> index_limit_result \<Rightarrow> index_limit_result res" where
  "limit_loop mf mb [] r = Inr r"
| "limit_loop mf mb (f # fs) r =
     (if lf_path f = [] \<or> lf_size f < 0
      then Inl (Msg ''limit inventory requires paths and non-negative sizes'')
      else limit_loop mf mb fs (limit_step mf mb f r))"

definition effective_max_files :: "repository_limits \<Rightarrow> int" where
  "effective_max_files l = (if max_files l \<le> 0 then 50000 else max_files l)"

definition effective_max_bytes :: "repository_limits \<Rightarrow> int" where
  "effective_max_bytes l = (if max_bytes l \<le> 0 then 2147483648 else max_bytes l)"

definition apply_repository_limits ::
    "limit_file list \<Rightarrow> repository_limits \<Rightarrow> index_limit_result res" where
  "apply_repository_limits files limits =
     (let sorted_files = sort_by (\<lambda>a b. lf_path a < lf_path b) files;
          start = \<lparr>il_state = ''ready'', il_indexed_files = [], il_skipped_files = 0,
                   il_indexed_bytes = 0, il_total_files = int (length sorted_files),
                   il_total_bytes = 0, il_reason = []\<rparr>
      in case limit_loop (effective_max_files limits) (effective_max_bytes limits) sorted_files start of
           Inl e \<Rightarrow> Inl e
         | Inr r \<Rightarrow> Inr (if il_skipped_files r > 0
             then r\<lparr>il_state := ''partial'',
                    il_reason := ''indexed '' @ dec_int (int (length (il_indexed_files r))) @ '' of ''
                      @ dec_int (il_total_files r) @ '' files and '' @ dec_int (il_indexed_bytes r)
                      @ '' of '' @ dec_int (il_total_bytes r) @ '' bytes; repository limit reached''\<rparr>
             else r))"

definition summary_line :: "index_limit_result \<Rightarrow> bytes" where
  "summary_line r =
     (if il_state r = ''partial''
      then ''Repository context is partial: '' @ il_reason r @ ''. Findings may miss skipped code.''
      else ''Repository context is ready: '' @ dec_int (int (length (il_indexed_files r)))
        @ '' files ('' @ dec_int (il_indexed_bytes r) @ '' bytes) indexed.'')"

text \<open>The loop invariant over the files visited so far, when no sum leaves 64 bits.\<close>

definition limit_inv :: "int \<Rightarrow> int \<Rightarrow> limit_file list \<Rightarrow> index_limit_result \<Rightarrow> bool" where
  "limit_inv mf mb seen r \<longleftrightarrow>
     set (il_indexed_files r) \<subseteq> set seen
     \<and> sorted_wrt (\<lambda>a b. \<not> lf_path b < lf_path a) seen
     \<and> sorted_wrt (\<lambda>a b. \<not> lf_path b < lf_path a) (il_indexed_files r)
     \<and> int (length (il_indexed_files r)) + il_skipped_files r = int (length seen)
     \<and> 0 \<le> il_skipped_files r
     \<and> int (length (il_indexed_files r)) \<le> mf
     \<and> il_indexed_bytes r = (\<Sum>f \<leftarrow> il_indexed_files r. lf_size f)
     \<and> 0 \<le> il_indexed_bytes r \<and> il_indexed_bytes r \<le> mb
     \<and> (il_skipped_files r = 0 \<longrightarrow> il_indexed_files r = seen)"

lemma limit_step_inv:
  assumes "limit_inv mf mb seen r" and "0 \<le> lf_size f" and "lf_size f < 2 ^ 62" and "mb < 2 ^ 62"
    and "sorted_wrt (\<lambda>a b. \<not> lf_path b < lf_path a) (seen @ [f])"
  shows "limit_inv mf mb (seen @ [f]) (limit_step mf mb f r)"
proof -
  have w: "wrap64 (il_indexed_bytes r + lf_size f) = il_indexed_bytes r + lf_size f"
    using assms by (intro wrap64_small) (auto simp: limit_inv_def)
  have s: "\<forall>g \<in> set (il_indexed_files r). \<not> lf_path f < lf_path g"
    using assms(1,5) by (auto simp: limit_inv_def sorted_wrt_append)
  show ?thesis
  proof (cases "int (length (il_indexed_files r)) \<ge> mf \<or> il_indexed_bytes r + lf_size f > mb")
    case True
    then have "limit_step mf mb f r = r\<lparr>il_total_bytes := wrap64 (il_total_bytes r + lf_size f),
        il_skipped_files := il_skipped_files r + 1\<rparr>"
      by (simp add: limit_step_def w Let_def)
    then show ?thesis using assms(1,5) by (auto simp: limit_inv_def)
  next
    case False
    then have "limit_step mf mb f r = r\<lparr>il_total_bytes := wrap64 (il_total_bytes r + lf_size f),
        il_indexed_files := il_indexed_files r @ [f], il_indexed_bytes := il_indexed_bytes r + lf_size f\<rparr>"
      by (simp add: limit_step_def w Let_def)
    then show ?thesis using assms s False by (auto simp: limit_inv_def sorted_wrt_append)
  qed
qed

lemma limit_step_frame [simp]:
  "il_state (limit_step mf mb f r) = il_state r"
  "il_total_files (limit_step mf mb f r) = il_total_files r"
  "il_reason (limit_step mf mb f r) = il_reason r"
  by (simp_all add: limit_step_def Let_def)

lemma limit_loop_inv:
  assumes "limit_loop mf mb fs r = Inr r'" and "limit_inv mf mb seen r"
    and "\<forall>f \<in> set fs. lf_size f < 2 ^ 62" and "mb < 2 ^ 62"
    and "sorted_wrt (\<lambda>a b. \<not> lf_path b < lf_path a) (seen @ fs)"
  shows "limit_inv mf mb (seen @ fs) r' \<and> il_state r' = il_state r \<and> il_total_files r' = il_total_files r"
  using assms
proof (induction mf mb fs r arbitrary: seen rule: limit_loop.induct)
  case (1 mf mb r)
  then show ?case by simp
next
  case (2 mf mb f fs r)
  have ok: "\<not> (lf_path f = [] \<or> lf_size f < 0)" using "2.prems"(1) by (auto split: if_splits)
  have step: "limit_loop mf mb fs (limit_step mf mb f r) = Inr r'"
    using "2.prems"(1) ok by simp
  have inv: "limit_inv mf mb (seen @ [f]) (limit_step mf mb f r)"
    using "2.prems" ok by (intro limit_step_inv) (auto simp: sorted_wrt_append)
  from "2.IH" [OF ok step inv] "2.prems" show ?case by simp
qed

lemma weak_order_lf_path: "weak_order (\<lambda>a b. lf_path a < lf_path b)"
  by (rule weak_order_key)

text \<open>
  Within sizes that cannot overflow, the indexed files are input files in path order that
  respect both limits, the byte count is their total, every other file is counted as skipped, and
  the state is partial exactly when something was skipped; otherwise everything is indexed.
\<close>

theorem repository_limits_respected:
  assumes "apply_repository_limits files limits = Inr r"
    and "\<forall>f \<in> set files. lf_size f < 2 ^ 62" and "max_bytes limits < 2 ^ 62"
  shows "set (il_indexed_files r) \<subseteq> set files
    \<and> sorted (map lf_path (il_indexed_files r))
    \<and> int (length (il_indexed_files r)) \<le> effective_max_files limits
    \<and> il_indexed_bytes r = (\<Sum>f \<leftarrow> il_indexed_files r. lf_size f)
    \<and> il_indexed_bytes r \<le> effective_max_bytes limits
    \<and> int (length (il_indexed_files r)) + il_skipped_files r = int (length files)
    \<and> (il_state r = ''partial'' \<longleftrightarrow> il_skipped_files r > 0)
    \<and> (il_state r = ''ready'' \<longrightarrow> mset (il_indexed_files r) = mset files)"
proof -
  let ?sf = "sort_by (\<lambda>a b. lf_path a < lf_path b) files"
  let ?start = "\<lparr>il_state = ''ready'', il_indexed_files = [], il_skipped_files = 0, il_indexed_bytes = 0,
    il_total_files = int (length ?sf), il_total_bytes = 0, il_reason = []\<rparr>"
  obtain r' where run: "limit_loop (effective_max_files limits) (effective_max_bytes limits) ?sf ?start = Inr r'"
      and r: "il_indexed_files r = il_indexed_files r'" "il_indexed_bytes r = il_indexed_bytes r'"
        "il_skipped_files r = il_skipped_files r'"
        "il_state r = (if il_skipped_files r' > 0 then ''partial'' else il_state r')"
    using assms(1) by (auto simp: apply_repository_limits_def Let_def split: sum.splits if_splits)
  have "sorted_wrt (\<lambda>a b. \<not> lf_path b < lf_path a) ?sf"
    using weak_order.ordered_sort_by [OF weak_order_lf_path] by (simp add: ordered_def)
  moreover have "limit_inv (effective_max_files limits) (effective_max_bytes limits) [] ?start"
    by (simp add: limit_inv_def effective_max_files_def effective_max_bytes_def)
  moreover have "effective_max_bytes limits < 2 ^ 62" using assms(3) by (simp add: effective_max_bytes_def)
  ultimately have inv: "limit_inv (effective_max_files limits) (effective_max_bytes limits) ?sf r'"
      "il_state r' = ''ready''"
    using limit_loop_inv [OF run, of "[]"] assms(2) by auto
  then show ?thesis
    using r by (auto simp: limit_inv_def sorted_map linorder_not_less)
qed

definition sample_limit_files :: "limit_file list" where
  "sample_limit_files = [\<lparr>lf_path = ''b'', lf_size = 5\<rparr>, \<lparr>lf_path = ''a'', lf_size = 7\<rparr>]"

definition sample_limit_result :: index_limit_result where
  "sample_limit_result =
     \<lparr>il_state = ''partial'', il_indexed_files = [\<lparr>lf_path = ''a'', lf_size = 7\<rparr>], il_skipped_files = 1,
      il_indexed_bytes = 7, il_total_files = 2, il_total_bytes = 12,
      il_reason = ''indexed 1 of 2 files and 7 of 12 bytes; repository limit reached''\<rparr>"

lemma sample_limits:
  "apply_repository_limits sample_limit_files \<lparr>max_files = 0, max_bytes = 10\<rparr> = Inr sample_limit_result"
  by code_simp

theorem repository_limits_respected_witness:
  "int (length (il_indexed_files sample_limit_result)) + il_skipped_files sample_limit_result
     = int (length sample_limit_files)
   \<and> il_indexed_bytes sample_limit_result \<le> effective_max_bytes \<lparr>max_files = 0, max_bytes = 10\<rparr>"
  using repository_limits_respected [OF sample_limits] by (simp add: sample_limit_files_def)

text \<open>Sizes near the top of \<open>int64\<close> slip through: the sum wraps to a negative number.\<close>

lemma repository_limit_overflow:
  "\<exists>r. apply_repository_limits [\<lparr>lf_path = ''a'', lf_size = 1\<rparr>, \<lparr>lf_path = ''b'', lf_size = 2 ^ 63 - 1\<rparr>]
         \<lparr>max_files = 0, max_bytes = 10\<rparr> = Inr r \<and> il_state r = ''ready'' \<and> il_skipped_files r = 0"
  by (simp add: apply_repository_limits_def limit_step_def effective_max_files_def
      effective_max_bytes_def wrap64_def Let_def)

section \<open>Planning a reindex\<close>

record blob_file =
  bf_path :: bytes
  bf_sha :: bytes
  bf_size :: int

record reindex_plan =
  pl_upsert :: "blob_file list"
  pl_delete :: "bytes list"
  pl_unchanged :: int

type_synonym blob_inventory = "(bytes \<times> bytes) list"

text \<open>Indexing a Go map with a missing key yields the empty string.\<close>

definition previous_sha :: "blob_inventory \<Rightarrow> bytes \<Rightarrow> bytes" where
  "previous_sha previous path = (case map_of previous path of None \<Rightarrow> [] | Some sha \<Rightarrow> sha)"

fun scan_current ::
    "blob_inventory \<Rightarrow> bytes set \<Rightarrow> reindex_plan \<Rightarrow> blob_file list \<Rightarrow> (bytes set \<times> reindex_plan) res" where
  "scan_current previous seen plan [] = Inr (seen, plan)"
| "scan_current previous seen plan (f # fs) =
     (if bf_path f = [] \<or> bf_sha f = [] \<or> bf_size f < 0
      then Inl (Msg ''indexed blobs require path, SHA, and non-negative size'')
      else if bf_path f \<in> seen then Inl (MsgStr ''duplicate blob path %q'' (bf_path f))
      else if previous_sha previous (bf_path f) = bf_sha f
      then scan_current previous (insert (bf_path f) seen) (plan\<lparr>pl_unchanged := pl_unchanged plan + 1\<rparr>) fs
      else scan_current previous (insert (bf_path f) seen) (plan\<lparr>pl_upsert := pl_upsert plan @ [f]\<rparr>) fs)"

definition plan_reindex :: "blob_inventory \<Rightarrow> blob_file list \<Rightarrow> reindex_plan res" where
  "plan_reindex previous current =
     (if list_ex (\<lambda>(path, sha). path = [] \<or> sha = []) previous
      then Inl (Msg ''previous blob inventory requires paths and SHAs'')
      else case scan_current previous {} \<lparr>pl_upsert = [], pl_delete = [], pl_unchanged = 0\<rparr> current of
        Inl e \<Rightarrow> Inl e
      | Inr (seen, plan) \<Rightarrow>
          Inr (plan\<lparr>pl_upsert := sort_by (\<lambda>a b. bf_path a < bf_path b) (pl_upsert plan),
                    pl_delete := sort (filter (\<lambda>path. path \<notin> seen) (map fst previous))\<rparr>))"

text \<open>\<open>ApplyReindex\<close> hands the plan to the store as one mutation, or refuses.\<close>

record reindex_mutation =
  rm_installation_id :: int
  rm_repository_id :: int
  rm_head_sha :: bytes
  rm_upsert :: "blob_file list"
  rm_delete :: "bytes list"

definition apply_reindex ::
    "(reindex_mutation \<Rightarrow> unit res) option \<Rightarrow> int \<Rightarrow> int \<Rightarrow> bytes \<Rightarrow> reindex_plan \<Rightarrow> unit res" where
  "apply_reindex store installation repository head_sha plan =
     (case store of
        None \<Rightarrow> Inl (Msg ''store, tenant, repository, and head SHA are required'')
      | Some apply_mutation \<Rightarrow>
          if installation \<le> 0 \<or> repository \<le> 0 \<or> head_sha = []
          then Inl (Msg ''store, tenant, repository, and head SHA are required'')
          else apply_mutation \<lparr>rm_installation_id = installation, rm_repository_id = repository,
            rm_head_sha = head_sha, rm_upsert = pl_upsert plan, rm_delete = pl_delete plan\<rparr>)"

text \<open>The inventory a file list stands for, and what a plan does to an inventory.\<close>

definition inventory :: "blob_file list \<Rightarrow> (bytes \<rightharpoonup> bytes)" where
  "inventory files = map_of (map (\<lambda>f. (bf_path f, bf_sha f)) files)"

definition apply_plan :: "(bytes \<rightharpoonup> bytes) \<Rightarrow> reindex_plan \<Rightarrow> (bytes \<rightharpoonup> bytes)" where
  "apply_plan m plan = (m |` (- set (pl_delete plan))) ++ inventory (pl_upsert plan)"

definition blob_changed :: "blob_inventory \<Rightarrow> blob_file \<Rightarrow> bool" where
  "blob_changed previous f \<longleftrightarrow> previous_sha previous (bf_path f) \<noteq> bf_sha f"

lemma scan_current_ok:
  assumes "scan_current previous seen plan fs = Inr (seen', plan')"
  shows "distinct (map bf_path fs) \<and> bf_path ` set fs \<inter> seen = {} \<and> seen' = seen \<union> bf_path ` set fs
    \<and> (\<forall>f \<in> set fs. bf_path f \<noteq> [] \<and> bf_sha f \<noteq> [] \<and> 0 \<le> bf_size f)
    \<and> pl_upsert plan' = pl_upsert plan @ filter (blob_changed previous) fs
    \<and> pl_unchanged plan' = pl_unchanged plan + int (length (filter (\<lambda>f. \<not> blob_changed previous f) fs))"
  using assms
proof (induction previous seen plan fs rule: scan_current.induct)
  case (1 previous seen plan)
  then show ?case by simp
next
  case (2 previous seen plan f fs)
  have ok: "\<not> (bf_path f = [] \<or> bf_sha f = [] \<or> bf_size f < 0)" "bf_path f \<notin> seen"
    using "2.prems" by (auto split: if_splits)
  show ?case
  proof (cases "previous_sha previous (bf_path f) = bf_sha f")
    case True
    then show ?thesis
      using "2.IH"(1) [OF ok True] "2.prems" ok by (auto simp: blob_changed_def)
  next
    case False
    then show ?thesis
      using "2.IH"(2) [OF ok False] "2.prems" ok by (auto simp: blob_changed_def)
  qed
qed

lemma plan_reindex_ok:
  assumes "plan_reindex previous current = Inr plan"
  shows "distinct (map bf_path current)"
    and "\<forall>f \<in> set current. bf_path f \<noteq> [] \<and> bf_sha f \<noteq> [] \<and> 0 \<le> bf_size f"
    and "\<forall>(path, sha) \<in> set previous. path \<noteq> [] \<and> sha \<noteq> []"
    and "pl_upsert plan = sort_by (\<lambda>a b. bf_path a < bf_path b) (filter (blob_changed previous) current)"
    and "pl_delete plan = sort (filter (\<lambda>path. path \<notin> bf_path ` set current) (map fst previous))"
    and "pl_unchanged plan = int (length (filter (\<lambda>f. \<not> blob_changed previous f) current))"
proof -
  obtain seen p where s: "scan_current previous {} \<lparr>pl_upsert = [], pl_delete = [], pl_unchanged = 0\<rparr> current
      = Inr (seen, p)"
      and plan: "plan = p\<lparr>pl_upsert := sort_by (\<lambda>a b. bf_path a < bf_path b) (pl_upsert p),
                    pl_delete := sort (filter (\<lambda>path. path \<notin> seen) (map fst previous))\<rparr>"
      and prev: "\<not> list_ex (\<lambda>(path, sha). path = [] \<or> sha = []) previous"
    using assms by (auto simp: plan_reindex_def split: if_splits sum.splits)
  note ok = scan_current_ok [OF s]
  show "distinct (map bf_path current)"
    "\<forall>f \<in> set current. bf_path f \<noteq> [] \<and> bf_sha f \<noteq> [] \<and> 0 \<le> bf_size f"
    "\<forall>(path, sha) \<in> set previous. path \<noteq> [] \<and> sha \<noteq> []"
    "pl_upsert plan = sort_by (\<lambda>a b. bf_path a < bf_path b) (filter (blob_changed previous) current)"
    "pl_delete plan = sort (filter (\<lambda>path. path \<notin> bf_path ` set current) (map fst previous))"
    "pl_unchanged plan = int (length (filter (\<lambda>f. \<not> blob_changed previous f) current))"
    using ok plan prev by (auto simp: list_ex_iff)
qed

lemma inventory_Some:
  assumes "distinct (map bf_path files)"
  shows "inventory files p = Some sha \<longleftrightarrow> (\<exists>f \<in> set files. bf_path f = p \<and> bf_sha f = sha)"
proof -
  have "distinct (map fst (map (\<lambda>f. (bf_path f, bf_sha f)) files))" using assms by (simp add: comp_def)
  then show ?thesis unfolding inventory_def by (subst map_of_eq_Some_iff) auto
qed

lemma inventory_None: "inventory files p = None \<longleftrightarrow> p \<notin> bf_path ` set files"
  by (simp add: inventory_def map_of_eq_None_iff image_image)

lemma plan_reindex_sha:
  assumes "plan_reindex previous current = Inr plan" and "f \<in> set current"
  shows "blob_changed previous f \<longleftrightarrow> map_of previous (bf_path f) \<noteq> Some (bf_sha f)"
  using plan_reindex_ok(2) [OF assms(1)] assms(2)
  by (auto simp: blob_changed_def previous_sha_def split: option.splits)

lemma plan_reindex_delete:
  assumes "plan_reindex previous current = Inr plan"
  shows "set (pl_delete plan) = dom (map_of previous) - bf_path ` set current"
  by (auto simp: plan_reindex_ok(5) [OF assms] dom_map_of_conv_image_fst)

lemma plan_reindex_upsert:
  assumes "plan_reindex previous current = Inr plan"
  shows "set (pl_upsert plan) = {f \<in> set current. blob_changed previous f}"
    and "distinct (map bf_path (pl_upsert plan))"
    and "sorted (map bf_path (pl_upsert plan))"
proof -
  note ok = plan_reindex_ok [OF assms]
  show "set (pl_upsert plan) = {f \<in> set current. blob_changed previous f}" by (auto simp: ok(4))
  have "inj_on bf_path (set current)" using ok(1) by (simp add: distinct_map)
  then have "inj_on bf_path (set (pl_upsert plan))" by (rule inj_on_subset) (auto simp: ok(4))
  then show "distinct (map bf_path (pl_upsert plan))" using ok(1,4) by (simp add: distinct_map)
  show "sorted (map bf_path (pl_upsert plan))"
    using weak_order.ordered_sort_by [OF weak_order_key, of bf_path "filter (blob_changed previous) current"]
    by (simp add: ok(4) ordered_def sorted_map linorder_not_less)
qed

lemma plan_reindex_inventory:
  assumes "plan_reindex previous current = Inr plan"
  shows "apply_plan (map_of previous) plan = inventory current"
proof
  fix p
  note ok = plan_reindex_ok [OF assms] and up = plan_reindex_upsert [OF assms]
    and del = plan_reindex_delete [OF assms]
  show "apply_plan (map_of previous) plan p = inventory current p"
  proof (cases "inventory (pl_upsert plan) p")
    case (Some s)
    then obtain f where f: "f \<in> set (pl_upsert plan)" "bf_path f = p" "bf_sha f = s"
      using inventory_Some [OF up(2)] by auto
    then have "inventory current p = Some s" using inventory_Some [OF ok(1)] by (auto simp: up(1))
    then show ?thesis using Some by (simp add: apply_plan_def map_add_Some_iff)
  next
    case None
    then have same: "\<And>f. f \<in> set current \<Longrightarrow> bf_path f = p \<Longrightarrow> map_of previous p = Some (bf_sha f)"
      using plan_reindex_sha [OF assms] by (auto simp: inventory_None up(1))
    have "apply_plan (map_of previous) plan p = (if p \<in> set (pl_delete plan) then None else map_of previous p)"
      using None by (simp add: apply_plan_def map_add_def restrict_map_def)
    also have "\<dots> = inventory current p"
    proof (cases "p \<in> bf_path ` set current")
      case True
      then obtain f where f: "f \<in> set current" "bf_path f = p" by auto
      then have "inventory current p = Some (bf_sha f)" using inventory_Some [OF ok(1)] by auto
      moreover have "p \<notin> set (pl_delete plan)" using True del by blast
      ultimately show ?thesis using same [OF f] by simp
    next
      case False
      then have "inventory current p = None" by (simp add: inventory_None)
      then show ?thesis using False del by auto
    qed
    finally show ?thesis .
  qed
qed

text \<open>
  C33: A reindex plan turns the previous inventory into the current one, and is minimal: it
  upserts only blobs whose SHA differs and deletes only paths that are gone, both in path order.
\<close>

theorem plan_reindex_reaches_current:
  assumes "plan_reindex previous current = Inr plan"
  shows "apply_plan (map_of previous) plan = inventory current
    \<and> (\<forall>f \<in> set (pl_upsert plan). f \<in> set current \<and> map_of previous (bf_path f) \<noteq> Some (bf_sha f))
    \<and> set (pl_delete plan) = dom (map_of previous) - bf_path ` set current
    \<and> sorted (map bf_path (pl_upsert plan)) \<and> sorted (pl_delete plan)
    \<and> int (length (pl_upsert plan)) + pl_unchanged plan = int (length current)"
proof -
  note ok = plan_reindex_ok [OF assms] and up = plan_reindex_upsert [OF assms]
  have "\<forall>f \<in> set (pl_upsert plan). f \<in> set current \<and> map_of previous (bf_path f) \<noteq> Some (bf_sha f)"
    using plan_reindex_sha [OF assms] by (auto simp: up(1))
  moreover have "int (length (pl_upsert plan)) + pl_unchanged plan = int (length current)"
    using sum_length_filter_compl [of "blob_changed previous" current] by (simp add: ok(4,6))
  ultimately show ?thesis
    using plan_reindex_inventory [OF assms] plan_reindex_delete [OF assms] up(3) by (simp add: ok(5))
qed

definition sample_inventory :: blob_inventory where
  "sample_inventory = [(''a'', ''1''), (''b'', ''2''), (''c'', ''3'')]"

definition sample_blobs :: "blob_file list" where
  "sample_blobs =
     [\<lparr>bf_path = ''d'', bf_sha = ''4'', bf_size = 1\<rparr>, \<lparr>bf_path = ''a'', bf_sha = ''1'', bf_size = 1\<rparr>,
      \<lparr>bf_path = ''b'', bf_sha = ''9'', bf_size = 1\<rparr>]"

definition sample_plan :: reindex_plan where
  "sample_plan =
     \<lparr>pl_upsert = [\<lparr>bf_path = ''b'', bf_sha = ''9'', bf_size = 1\<rparr>, \<lparr>bf_path = ''d'', bf_sha = ''4'', bf_size = 1\<rparr>],
      pl_delete = [''c''], pl_unchanged = 1\<rparr>"

lemma sample_reindex: "plan_reindex sample_inventory sample_blobs = Inr sample_plan"
  by code_simp

theorem plan_reindex_reaches_current_witness:
  "apply_plan (map_of sample_inventory) sample_plan = inventory sample_blobs"
  using plan_reindex_reaches_current [OF sample_reindex] by blast

end
