(* ===== verification/Incremental.thy ===== *)
theory Incremental
  imports Indexing
begin

text \<open>
  \<open>internal/hosted/graph/incremental.go\<close>: the mutation that brings the stored symbol graph to a new
  head. The Go maps (parsed graphs by path, importers by path) are association lists; ranging over
  the set of changed paths is modelled in list order, which the final sort makes irrelevant.
\<close>

record symbol_record =
  sr_local_id :: bytes
  sr_kind :: bytes
  sr_name :: bytes
  sr_signature :: bytes
  sr_start_line :: int
  sr_end_line :: int

record edge_record =
  er_source_local_id :: bytes
  er_target :: bytes
  er_kind :: bytes
  er_source_line :: int

record file_graph =
  fg_path :: bytes
  fg_blob_sha :: bytes
  fg_symbols :: "symbol_record list"
  fg_edges :: "edge_record list"

record incremental_mutation =
  im_installation_id :: int
  im_repository_id :: int
  im_head_sha :: bytes
  im_delete_paths :: "bytes list"
  im_upsert_files :: "file_graph list"
  im_relink_paths :: "bytes list"

fun matching_graphs :: "(bytes \<times> file_graph) list \<Rightarrow> blob_file list \<Rightarrow> file_graph list res" where
  "matching_graphs parsed [] = Inr []"
| "matching_graphs parsed (f # fs) =
     (case map_of parsed (bf_path f) of
        None \<Rightarrow> Inl (Msg ''every changed blob requires a matching parsed graph'')
      | Some g \<Rightarrow>
          if fg_path g \<noteq> bf_path f \<or> fg_blob_sha g \<noteq> bf_sha f
          then Inl (Msg ''every changed blob requires a matching parsed graph'')
          else case matching_graphs parsed fs of Inl e \<Rightarrow> Inl e | Inr gs \<Rightarrow> Inr (g # gs))"

definition importers_of :: "(bytes \<times> bytes list) list \<Rightarrow> bytes \<Rightarrow> bytes list" where
  "importers_of importers path = (case map_of importers path of None \<Rightarrow> [] | Some ps \<Rightarrow> ps)"

definition relink_paths :: "bytes list \<Rightarrow> bytes list \<Rightarrow> (bytes \<times> bytes list) list \<Rightarrow> bytes list" where
  "relink_paths replaced deleted importers =
     remdups (concat (map (\<lambda>path.
       (if path \<in> set replaced then [path] else [])
       @ filter (\<lambda>importer. importer \<noteq> []) (importers_of importers path)) (replaced @ deleted)))"

definition plan_incremental ::
    "blob_inventory \<Rightarrow> blob_file list \<Rightarrow> (bytes \<times> file_graph) list \<Rightarrow> (bytes \<times> bytes list) list
     \<Rightarrow> incremental_mutation res" where
  "plan_incremental previous current parsed importers =
     (case plan_reindex previous current of
        Inl e \<Rightarrow> Inl e
      | Inr plan \<Rightarrow>
          (case matching_graphs parsed (pl_upsert plan) of
             Inl e \<Rightarrow> Inl e
           | Inr graphs \<Rightarrow>
               let replaced = map bf_path (pl_upsert plan) in
               Inr \<lparr>im_installation_id = 0, im_repository_id = 0, im_head_sha = [],
                    im_delete_paths = sort (replaced @ pl_delete plan),
                    im_upsert_files = sort_by (\<lambda>a b. fg_path a < fg_path b) graphs,
                    im_relink_paths = sort (relink_paths replaced (pl_delete plan) importers)\<rparr>))"

definition apply_incremental ::
    "(incremental_mutation \<Rightarrow> unit res) option \<Rightarrow> int \<Rightarrow> int \<Rightarrow> bytes \<Rightarrow> incremental_mutation \<Rightarrow> unit res" where
  "apply_incremental store installation repository head_sha mutation =
     (case store of
        None \<Rightarrow> Inl (Msg ''store, tenant, repository, and head SHA are required'')
      | Some apply_mutation \<Rightarrow>
          if installation \<le> 0 \<or> repository \<le> 0 \<or> head_sha = []
          then Inl (Msg ''store, tenant, repository, and head SHA are required'')
          else apply_mutation (mutation\<lparr>im_installation_id := installation,
                 im_repository_id := repository, im_head_sha := head_sha\<rparr>))"

section \<open>What the store is meant to do with a mutation\<close>

text \<open>
  The abstract store keeps one graph per path; changed paths are deleted before replacement, as the
  comment on \<open>PlanIncremental\<close> says. It agrees with an inventory when every graph is the one of the
  blob recorded for its path.
\<close>

type_synonym graph_store = "bytes \<rightharpoonup> file_graph"

definition run_mutation :: "graph_store \<Rightarrow> incremental_mutation \<Rightarrow> graph_store" where
  "run_mutation m mutation =
     (m |` (- set (im_delete_paths mutation)))
     ++ map_of (map (\<lambda>g. (fg_path g, g)) (im_upsert_files mutation))"

definition agrees :: "graph_store \<Rightarrow> (bytes \<rightharpoonup> bytes) \<Rightarrow> bool" where
  "agrees m blobs \<longleftrightarrow>
     (\<forall>p. map_option fg_blob_sha (m p) = blobs p) \<and> (\<forall>p g. m p = Some g \<longrightarrow> fg_path g = p)"

lemma matching_graphs_ok:
  assumes "matching_graphs parsed fs = Inr gs"
  shows "map fg_path gs = map bf_path fs" and "map fg_blob_sha gs = map bf_sha fs"
    and "\<forall>g \<in> set gs. map_of parsed (fg_path g) = Some g"
  using assms
  by (induction parsed fs arbitrary: gs rule: matching_graphs.induct)
    (auto split: option.splits if_splits sum.splits)

lemma map_of_by_path:
  assumes "distinct (map fg_path gs)"
  shows "map_of (map (\<lambda>g. (fg_path g, g)) gs) p = Some g \<longleftrightarrow> g \<in> set gs \<and> fg_path g = p"
proof -
  have "distinct (map fst (map (\<lambda>g. (fg_path g, g)) gs))" using assms by (simp add: comp_def)
  then show ?thesis by (subst map_of_eq_Some_iff) auto
qed

lemma sort_by_key_distinct:
  assumes "distinct (map f xs)"
  shows "distinct (map f (sort_by r xs))"
proof -
  have "mset (map f (sort_by r xs)) = mset (map f xs)" by simp
  then show ?thesis using assms by (metis mset_eq_imp_distinct_iff)
qed

lemma plan_incremental_ok:
  assumes "plan_incremental previous current parsed importers = Inr mu"
  obtains plan graphs where "plan_reindex previous current = Inr plan"
    and "matching_graphs parsed (pl_upsert plan) = Inr graphs"
    and "set (im_upsert_files mu) = set graphs"
    and "distinct (map fg_path (im_upsert_files mu))"
    and "sorted (map fg_path (im_upsert_files mu))"
    and "im_delete_paths mu = sort (map bf_path (pl_upsert plan) @ pl_delete plan)"
    and "im_relink_paths mu = sort (relink_paths (map bf_path (pl_upsert plan)) (pl_delete plan) importers)"
proof -
  obtain plan graphs where p: "plan_reindex previous current = Inr plan"
      and g: "matching_graphs parsed (pl_upsert plan) = Inr graphs"
      and mu: "mu = \<lparr>im_installation_id = 0, im_repository_id = 0, im_head_sha = [],
                    im_delete_paths = sort (map bf_path (pl_upsert plan) @ pl_delete plan),
                    im_upsert_files = sort_by (\<lambda>a b. fg_path a < fg_path b) graphs,
                    im_relink_paths = sort (relink_paths (map bf_path (pl_upsert plan)) (pl_delete plan) importers)\<rparr>"
    using assms by (auto simp: plan_incremental_def Let_def split: sum.splits)
  have "distinct (map fg_path graphs)"
    using plan_reindex_upsert(2) [OF p] matching_graphs_ok(1) [OF g] by simp
  moreover have "sorted (map fg_path (sort_by (\<lambda>a b. fg_path a < fg_path b) graphs))"
    using weak_order.ordered_sort_by [OF weak_order_key, of fg_path graphs]
    by (simp add: ordered_def sorted_map linorder_not_less)
  ultimately show thesis
    using that [OF p g] by (simp add: mu sort_by_key_distinct)
qed

lemma set_relink_paths:
  "set (relink_paths replaced deleted importers) =
     set replaced \<union> {i. i \<noteq> [] \<and> (\<exists>p \<in> set replaced \<union> set deleted. i \<in> set (importers_of importers p))}"
  by (auto simp: relink_paths_def)

text \<open>The graphs a mutation writes carry exactly the blobs the plan upserts.\<close>

lemma upserted_shas:
  assumes "matching_graphs parsed fs = Inr gs" and "distinct (map bf_path fs)" and "set hs = set gs"
    and "distinct (map fg_path hs)"
  shows "map_option fg_blob_sha (map_of (map (\<lambda>g. (fg_path g, g)) hs) q) = inventory fs q"
proof (cases "map_of (map (\<lambda>g. (fg_path g, g)) hs) q")
  case None
  note graphs = matching_graphs_ok [OF assms(1)]
  have "fg_path ` set gs = bf_path ` set fs" using arg_cong [OF graphs(1), of set] by simp
  moreover have "q \<notin> fg_path ` set gs"
    using None assms(3) map_of_by_path [OF assms(4)] by (metis imageE option.distinct(1))
  ultimately show ?thesis using None inventory_None [of fs q] by simp
next
  case (Some h)
  note graphs = matching_graphs_ok [OF assms(1)]
  have "h \<in> set gs" "fg_path h = q" using Some map_of_by_path [OF assms(4)] assms(3) by auto
  then obtain i where i: "i < length gs" "gs ! i = h" by (auto simp: in_set_conv_nth)
  have len: "length gs = length fs" using arg_cong [OF graphs(1), of length] by simp
  have "bf_path (fs ! i) = q" "bf_sha (fs ! i) = fg_blob_sha h"
    using arg_cong [OF graphs(1), of "\<lambda>l. l ! i"] arg_cong [OF graphs(2), of "\<lambda>l. l ! i"] i len \<open>fg_path h = q\<close>
    by simp_all
  then have "inventory fs q = Some (fg_blob_sha h)"
    using inventory_Some [OF assms(2)] i len nth_mem by metis
  then show ?thesis using Some by simp
qed

lemma run_mutation_planned:
  assumes "plan_incremental previous current parsed importers = Inr mu"
    and "plan_reindex previous current = Inr plan"
  shows "map_option fg_blob_sha (run_mutation m mu q) =
      (case inventory (pl_upsert plan) q of Some s \<Rightarrow> Some s
       | None \<Rightarrow> if q \<in> set (pl_delete plan) then None else map_option fg_blob_sha (m q))"
    and "run_mutation m mu q =
      (if inventory (pl_upsert plan) q \<noteq> None then map_of parsed q
       else if q \<in> set (pl_delete plan) then None else m q)"
    and "inventory (pl_upsert plan) q \<noteq> None \<Longrightarrow> \<exists>g. run_mutation m mu q = Some g \<and> fg_path g = q"
proof -
  obtain graphs where g: "matching_graphs parsed (pl_upsert plan) = Inr graphs"
      and up: "set (im_upsert_files mu) = set graphs"
      and dist: "distinct (map fg_path (im_upsert_files mu))"
      and del: "im_delete_paths mu = sort (map bf_path (pl_upsert plan) @ pl_delete plan)"
    using plan_incremental_ok [OF assms(1)] assms(2) by (metis Inr_inject)
  let ?new = "map_of (map (\<lambda>g. (fg_path g, g)) (im_upsert_files mu))"
  have shas: "map_option fg_blob_sha (?new q) = inventory (pl_upsert plan) q"
    by (rule upserted_shas [OF g plan_reindex_upsert(2) [OF assms(2)] up dist])
  have new: "?new q = Some h \<Longrightarrow> map_of parsed q = Some h \<and> fg_path h = q" for h
    using map_of_by_path [OF dist] up matching_graphs_ok(3) [OF g] by auto
  have run: "run_mutation m mu q = (case ?new q of Some h \<Rightarrow> Some h
      | None \<Rightarrow> if q \<in> set (pl_delete plan) then None else m q)"
  proof (cases "?new q")
    case None
    then have "q \<notin> bf_path ` set (pl_upsert plan)" using shas by (simp flip: inventory_None)
    then show ?thesis using None by (simp add: run_mutation_def map_add_def restrict_map_def del)
  qed (simp add: run_mutation_def map_add_def)
  have agree: "inventory (pl_upsert plan) q = None \<longleftrightarrow> ?new q = None" by (simp flip: shas)
  show "map_option fg_blob_sha (run_mutation m mu q) =
      (case inventory (pl_upsert plan) q of Some s \<Rightarrow> Some s
       | None \<Rightarrow> if q \<in> set (pl_delete plan) then None else map_option fg_blob_sha (m q))"
    unfolding run shas [symmetric] by (cases "?new q") simp_all
  show "run_mutation m mu q =
      (if inventory (pl_upsert plan) q \<noteq> None then map_of parsed q
       else if q \<in> set (pl_delete plan) then None else m q)"
  proof (cases "?new q")
    case (Some h)
    show ?thesis unfolding run agree Some using new [OF Some] by simp
  qed (simp add: run agree)
  show "\<exists>g. run_mutation m mu q = Some g \<and> fg_path g = q" if present: "inventory (pl_upsert plan) q \<noteq> None"
  proof -
    obtain h where h: "?new q = Some h" using present unfolding agree by auto
    show ?thesis unfolding run h using new [OF h] by simp
  qed
qed

lemma plan_incremental_reindex:
  assumes "plan_incremental previous current parsed importers = Inr mu"
  obtains plan where "plan_reindex previous current = Inr plan"
  using assms by (auto simp: plan_incremental_def split: sum.splits)

text \<open>
  C3: Refinement: running the planned mutation on a store that agrees with the previous inventory
  gives a store that agrees with the current one. Files whose blob did not change keep their graph,
  every changed file has the parsed one, and nothing else is stored.
\<close>

theorem incremental_refines_reindex:
  assumes "plan_incremental previous current parsed importers = Inr mu"
    and "agrees m (map_of previous)"
  shows "agrees (run_mutation m mu) (inventory current)
    \<and> (\<forall>f \<in> set current. run_mutation m mu (bf_path f) =
         (if map_of previous (bf_path f) = Some (bf_sha f) then m (bf_path f)
          else map_of parsed (bf_path f)))"
proof -
  obtain plan where p: "plan_reindex previous current = Inr plan"
    using plan_incremental_reindex [OF assms(1)] .
  note run = run_mutation_planned [OF assms(1) p]
  have blobs: "map_option fg_blob_sha (run_mutation m mu q) = inventory current q" for q
  proof -
    have "map_option fg_blob_sha (run_mutation m mu q) = apply_plan (map_of previous) plan q"
      using assms(2)
      by (cases "inventory (pl_upsert plan) q")
        (simp_all add: run(1) apply_plan_def map_add_def restrict_map_def agrees_def)
    then show ?thesis using plan_reindex_inventory [OF p] by simp
  qed
  have paths: "fg_path h = q" if "run_mutation m mu q = Some h" for q h
  proof (cases "inventory (pl_upsert plan) q = None")
    case True
    then show ?thesis using that assms(2) by (auto simp: run(2) agrees_def split: if_splits)
  next
    case False
    then show ?thesis using run(3) [OF False, of m] that by auto
  qed
  have each: "run_mutation m mu (bf_path f) =
      (if map_of previous (bf_path f) = Some (bf_sha f) then m (bf_path f) else map_of parsed (bf_path f))"
    if f: "f \<in> set current" for f
  proof -
    have "g = f" if "g \<in> set current" "bf_path g = bf_path f" for g
      using that f plan_reindex_ok(1) [OF p] by (auto simp: distinct_map inj_on_def)
    then have "inventory (pl_upsert plan) (bf_path f) = None \<longleftrightarrow> \<not> blob_changed previous f"
      using f by (auto simp: inventory_None plan_reindex_upsert(1) [OF p])
    moreover have "bf_path f \<notin> set (pl_delete plan)" using plan_reindex_delete [OF p] f by auto
    ultimately show ?thesis using plan_reindex_sha [OF p f] by (simp add: run(2))
  qed
  show ?thesis using blobs paths each by (simp add: agrees_def)
qed

definition sample_graph :: "bytes \<Rightarrow> bytes \<Rightarrow> file_graph" where
  "sample_graph path sha = \<lparr>fg_path = path, fg_blob_sha = sha, fg_symbols = [], fg_edges = []\<rparr>"

definition sample_parsed :: "(bytes \<times> file_graph) list" where
  "sample_parsed = [(''d'', sample_graph ''d'' ''4''), (''b'', sample_graph ''b'' ''9'')]"

definition sample_importers :: "(bytes \<times> bytes list) list" where
  "sample_importers = [(''b'', [''a'', []]), (''c'', [''c'', ''e''])]"

definition sample_mutation :: incremental_mutation where
  "sample_mutation =
     \<lparr>im_installation_id = 0, im_repository_id = 0, im_head_sha = [],
      im_delete_paths = [''b'', ''c'', ''d''],
      im_upsert_files = [sample_graph ''b'' ''9'', sample_graph ''d'' ''4''],
      im_relink_paths = [''a'', ''b'', ''c'', ''d'', ''e'']\<rparr>"

definition sample_store :: graph_store where
  "sample_store = (\<lambda>p. map_option (sample_graph p) (map_of sample_inventory p))"

lemma sample_incremental:
  "plan_incremental sample_inventory sample_blobs sample_parsed sample_importers = Inr sample_mutation"
  by code_simp

lemma sample_store_agrees: "agrees sample_store (map_of sample_inventory)"
  by (auto simp: agrees_def sample_store_def sample_graph_def option.map_comp comp_def option.map_ident)

theorem incremental_refines_reindex_witness:
  "agrees (run_mutation sample_store sample_mutation) (inventory sample_blobs)"
  using incremental_refines_reindex [OF sample_incremental sample_store_agrees] by blast

text \<open>
  The mutation re-links every replaced file and every known importer of a replaced or deleted
  file, nothing else, without repetition; the three lists are sorted, and the deleted paths are
  the replaced ones and the ones that are gone.
\<close>

theorem incremental_mutation_spec:
  assumes "plan_incremental previous current parsed importers = Inr mu"
  shows "set (im_delete_paths mu) =
      {p. p \<in> dom (map_of previous) \<and> p \<notin> bf_path ` set current}
      \<union> {bf_path f | f. f \<in> set current \<and> map_of previous (bf_path f) \<noteq> Some (bf_sha f)}
    \<and> set (im_relink_paths mu) =
      {bf_path f | f. f \<in> set current \<and> map_of previous (bf_path f) \<noteq> Some (bf_sha f)}
      \<union> {i. i \<noteq> [] \<and> (\<exists>p \<in> set (im_delete_paths mu). i \<in> set (importers_of importers p))}
    \<and> sorted (im_delete_paths mu) \<and> sorted (im_relink_paths mu) \<and> distinct (im_relink_paths mu)
    \<and> sorted (map fg_path (im_upsert_files mu)) \<and> distinct (map fg_path (im_upsert_files mu))"
proof -
  obtain plan graphs where p: "plan_reindex previous current = Inr plan"
      and dist: "distinct (map fg_path (im_upsert_files mu))" "sorted (map fg_path (im_upsert_files mu))"
      and del: "im_delete_paths mu = sort (map bf_path (pl_upsert plan) @ pl_delete plan)"
      and rel: "im_relink_paths mu = sort (relink_paths (map bf_path (pl_upsert plan)) (pl_delete plan) importers)"
    using plan_incremental_ok [OF assms] by metis
  have up: "bf_path ` set (pl_upsert plan) =
      {bf_path f | f. f \<in> set current \<and> map_of previous (bf_path f) \<noteq> Some (bf_sha f)}"
    using plan_reindex_sha [OF p] by (auto simp: plan_reindex_upsert(1) [OF p])
  have "distinct (im_relink_paths mu)" by (simp add: rel relink_paths_def)
  moreover have "set (im_relink_paths mu) = bf_path ` set (pl_upsert plan)
      \<union> {i. i \<noteq> [] \<and> (\<exists>p \<in> set (im_delete_paths mu). i \<in> set (importers_of importers p))}"
    by (simp add: rel del set_relink_paths)
  moreover have "set (im_delete_paths mu) =
      {p. p \<in> dom (map_of previous) \<and> p \<notin> bf_path ` set current} \<union> bf_path ` set (pl_upsert plan)"
    by (auto simp: del plan_reindex_delete [OF p])
  ultimately show ?thesis using dist by (simp add: up del rel)
qed

theorem incremental_mutation_spec_witness:
  "distinct (im_relink_paths sample_mutation) \<and> sorted (im_delete_paths sample_mutation)"
  using incremental_mutation_spec [OF sample_incremental] by blast

text \<open>
  Importers are not filtered: a path that the same mutation deletes can be listed for re-linking.
\<close>

lemma relink_can_name_deleted_path:
  "''c'' \<in> set (im_relink_paths sample_mutation) \<and> ''c'' \<in> set (im_delete_paths sample_mutation)
   \<and> run_mutation sample_store sample_mutation ''c'' = None"
  by (simp add: sample_mutation_def run_mutation_def sample_graph_def map_add_def restrict_map_def)

end
