(* ===== verification/Chunker.thy ===== *)
theory Chunker
  imports Utf8
begin

text \<open>
  \<open>internal/hosted/indexer/chunk.go\<close>: cutting a file into chunks of a bounded number of tokens along
  its symbols. Offsets are \<open>int\<close> in the symbols the caller passes and \<open>nat\<close> once \<open>symbolUnits\<close> has
  checked them. The binary search of \<open>boundedEnd\<close> need not end, so it and its callers have type
  \<open>option\<close>: \<open>None\<close> is "does not return".
\<close>

section \<open>Data\<close>

record chunk_symbol =
  cs_name :: bytes
  cs_start_byte :: int
  cs_end_byte :: int

record chunk =
  ck_path :: bytes
  ck_symbol :: bytes
  ck_start_line :: int
  ck_end_line :: int
  ck_content :: bytes
  ck_token_count :: int

type_synonym token_counter = "bytes \<Rightarrow> int"

record chunker =
  ch_counter :: "token_counter option"
  ch_min_tokens :: int
  ch_max_tokens :: int

record byte_unit =
  bu_start :: nat
  bu_end :: nat
  bu_symbol :: bytes

record piece = byte_unit +
  pc_tokens :: int

definition embedding_text :: "chunk \<Rightarrow> bytes" where
  "embedding_text c =
     (let header = ''path: '' @ ck_path c;
          header = (if ck_symbol c \<noteq> [] then header @ CHR 0x0A # ''symbol: '' @ ck_symbol c else header)
      in header @ [CHR 0x0A, CHR 0x0A] @ ck_content c)"

definition slice :: "bytes \<Rightarrow> nat \<Rightarrow> nat \<Rightarrow> bytes" where
  "slice content a b = take (b - a) (drop a content)"

definition approximate_count :: "unicode \<Rightarrow> token_counter" where
  "approximate_count u s = int (length (fields_func (\<lambda>r. u_space u r \<or> u_punct u r) (runes s)))"

section \<open>Symbols and units\<close>

fun symbol_loop :: "nat \<Rightarrow> nat \<Rightarrow> byte_unit list \<Rightarrow> chunk_symbol list \<Rightarrow> (nat \<times> byte_unit list) res" where
  "symbol_loop len cursor units [] = Inr (cursor, units)"
| "symbol_loop len cursor units (s # ss) =
     (if cs_start_byte s < int cursor \<or> cs_start_byte s < 0 \<or> cs_end_byte s \<le> cs_start_byte s
         \<or> cs_end_byte s > int len
      then Inl (MsgStr ''invalid or overlapping symbol %q'' (cs_name s))
      else symbol_loop len (nat (cs_end_byte s))
        (units
          @ (if cs_start_byte s > int cursor
             then [\<lparr>bu_start = cursor, bu_end = nat (cs_start_byte s), bu_symbol = []\<rparr>] else [])
          @ [\<lparr>bu_start = nat (cs_start_byte s), bu_end = nat (cs_end_byte s), bu_symbol = cs_name s\<rparr>]) ss)"

definition symbol_units :: "bytes \<Rightarrow> chunk_symbol list \<Rightarrow> byte_unit list res" where
  "symbol_units content symbols =
     (case symbol_loop (length content) 0 [] (sort_by (\<lambda>a b. cs_start_byte a < cs_start_byte b) symbols) of
        Inl e \<Rightarrow> Inl e
      | Inr (cursor, units) \<Rightarrow>
          let units = units @ (if cursor < length content
                then [\<lparr>bu_start = cursor, bu_end = length content, bu_symbol = []\<rparr>] else [])
          in Inr (if units = [] \<and> length content > 0
                  then [\<lparr>bu_start = 0, bu_end = length content, bu_symbol = []\<rparr>] else units))"

section \<open>Bounding a piece\<close>

fun back_up :: "bytes \<Rightarrow> nat \<Rightarrow> nat \<Rightarrow> nat \<Rightarrow> nat" where
  "back_up content start limit middle =
     (if middle < limit \<and> start < middle \<and> \<not> rune_start (content ! middle)
      then back_up content start limit (middle - 1) else middle)"

function forward :: "bytes \<Rightarrow> nat \<Rightarrow> nat \<Rightarrow> nat" where
  "forward content limit middle =
     (if middle < limit \<and> \<not> rune_start (content ! middle)
      then forward content limit (Suc middle) else middle)"
  by pat_completeness auto
termination
  by (relation "measure (\<lambda>(_, limit, middle). limit - middle)") auto

declare back_up.simps [simp del] forward.simps [simp del]

definition rune_cut :: "bytes \<Rightarrow> nat \<Rightarrow> nat \<Rightarrow> nat \<Rightarrow> nat" where
  "rune_cut content start limit middle =
     (let m = back_up content start limit middle
      in if m = start then forward content limit (start + 1) else m)"

partial_function (option) bisect ::
    "token_counter \<Rightarrow> bytes \<Rightarrow> nat \<Rightarrow> nat \<Rightarrow> int \<Rightarrow> nat \<Rightarrow> nat \<Rightarrow> nat \<Rightarrow> nat option" where
  "bisect counter content start limit maximum low high best =
     (if low \<le> high
      then (let middle = rune_cut content start limit (low + (high - low) div 2) in
            if counter (slice content start middle) \<le> maximum
            then bisect counter content start limit maximum (middle + 1) high middle
            else bisect counter content start limit maximum low (middle - 1) best)
      else Some best)"

fun last_index :: "char \<Rightarrow> bytes \<Rightarrow> nat option" where
  "last_index c [] = None"
| "last_index c (x # xs) =
     (case last_index c xs of Some i \<Rightarrow> Some (Suc i) | None \<Rightarrow> if x = c then Some 0 else None)"

definition settle_end :: "token_counter \<Rightarrow> bytes \<Rightarrow> nat \<Rightarrow> nat \<Rightarrow> int \<Rightarrow> nat \<Rightarrow> nat" where
  "settle_end counter content start limit maximum best =
     (if best \<le> start then start + snd (decode_rune (slice content start limit))
      else case last_index (CHR 0x0A) (slice content start best) of
             None \<Rightarrow> best
           | Some offset \<Rightarrow>
               let candidate = start + offset + 1 in
               if counter (slice content start candidate) \<ge> maximum div 2 then candidate else best)"

definition bounded_end :: "token_counter \<Rightarrow> bytes \<Rightarrow> nat \<Rightarrow> nat \<Rightarrow> int \<Rightarrow> nat option" where
  "bounded_end counter content start limit maximum =
     map_option (settle_end counter content start limit maximum)
       (bisect counter content start limit maximum (start + 1) limit start)"

partial_function (option) split_loop ::
    "token_counter \<Rightarrow> bytes \<Rightarrow> byte_unit \<Rightarrow> int \<Rightarrow> nat \<Rightarrow> piece list option" where
  "split_loop counter content unit maximum start =
     (if start < bu_end unit
      then Option.bind (bounded_end counter content start (bu_end unit) maximum) (\<lambda>stop.
           Option.bind (split_loop counter content unit maximum stop) (\<lambda>ps.
           Some (\<lparr>bu_start = start, bu_end = stop, bu_symbol = bu_symbol unit,
                  pc_tokens = counter (slice content start stop)\<rparr> # ps)))
      else Some [])"

definition split_piece :: "token_counter \<Rightarrow> bytes \<Rightarrow> int \<Rightarrow> byte_unit \<Rightarrow> piece list option" where
  "split_piece counter content maximum unit =
     (let tokens = counter (slice content (bu_start unit) (bu_end unit)) in
      if tokens \<le> maximum
      then Some [\<lparr>bu_start = bu_start unit, bu_end = bu_end unit, bu_symbol = bu_symbol unit,
                  pc_tokens = tokens\<rparr>]
      else split_loop counter content unit maximum (bu_start unit))"

fun split_units :: "token_counter \<Rightarrow> bytes \<Rightarrow> int \<Rightarrow> byte_unit list \<Rightarrow> piece list option" where
  "split_units counter content maximum [] = Some []"
| "split_units counter content maximum (u # us) =
     Option.bind (split_piece counter content maximum u) (\<lambda>ps.
       map_option (\<lambda>qs. ps @ qs) (split_units counter content maximum us))"

section \<open>Assembling chunks\<close>

text \<open>The inner loop takes pieces while they fit, and stops once the minimum is reached.\<close>

fun take_group :: "int \<Rightarrow> int \<Rightarrow> int \<Rightarrow> piece list \<Rightarrow> piece list \<times> piece list" where
  "take_group minimum maximum tokens [] = ([], [])"
| "take_group minimum maximum tokens (p # ps) =
     (if tokens + pc_tokens p \<le> maximum
      then if tokens + pc_tokens p \<ge> minimum then ([p], ps)
           else (let (g, rest) = take_group minimum maximum (tokens + pc_tokens p) ps in (p # g, rest))
      else ([], p # ps))"

fun joined_names :: "bytes list \<Rightarrow> piece list \<Rightarrow> bytes list" where
  "joined_names names [] = names"
| "joined_names names (p # ps) =
     joined_names (if bu_symbol p \<noteq> [] \<and> (names = [] \<or> last names \<noteq> bu_symbol p)
                   then names @ [bu_symbol p] else names) ps"

definition joined_symbols :: "piece list \<Rightarrow> bytes" where
  "joined_symbols ps = join_with '', '' (joined_names [] ps)"

definition line_at :: "bytes \<Rightarrow> nat \<Rightarrow> int" where
  "line_at content offset = 1 + int (length (filter (\<lambda>c. c = CHR 0x0A) (take offset content)))"

definition make_chunk :: "token_counter \<Rightarrow> bytes \<Rightarrow> bytes \<Rightarrow> piece list \<Rightarrow> chunk" where
  "make_chunk counter path content g =
     (let first = bu_start (hd g); stop = bu_end (last g); text = slice content first stop in
      \<lparr>ck_path = path, ck_symbol = joined_symbols g, ck_start_line = line_at content first,
       ck_end_line = line_at content (max first (stop - 1)), ck_content = text,
       ck_token_count = counter text\<rparr>)"

lemma take_group_append: "take_group mn mx t ps = (g, rest) \<Longrightarrow> g @ rest = ps"
  by (induction mn mx t ps arbitrary: g rest rule: take_group.induct) (auto split: if_splits prod.splits)

lemma take_group_rest: "take_group mn mx t ps = (g, rest) \<Longrightarrow> g \<noteq> [] \<Longrightarrow> length rest < length ps"
  using take_group_append by fastforce

function assemble ::
    "token_counter \<Rightarrow> int \<Rightarrow> int \<Rightarrow> bytes \<Rightarrow> bytes \<Rightarrow> piece list \<Rightarrow> chunk list \<Rightarrow> chunk list res" where
  "assemble counter minimum maximum path content pieces chunks =
     (if pieces = [] then Inr chunks
      else if fst (take_group minimum maximum 0 pieces) = []
      then Inl (Msg ''unable to produce a bounded chunk'')
      else assemble counter minimum maximum path content (snd (take_group minimum maximum 0 pieces))
             (chunks @ [make_chunk counter path content (fst (take_group minimum maximum 0 pieces))]))"
  by pat_completeness auto
termination
  by (relation "measure (\<lambda>(_, _, _, _, _, pieces, _). length pieces)")
    (auto intro: take_group_rest [OF surjective_pairing])

declare assemble.simps [simp del]

definition effective_min :: "chunker \<Rightarrow> int" where
  "effective_min c = (if ch_min_tokens c \<le> 0 then 200 else ch_min_tokens c)"

definition effective_max :: "chunker \<Rightarrow> int" where
  "effective_max c = (if ch_max_tokens c \<le> 0 then 800 else ch_max_tokens c)"

definition effective_counter :: "unicode \<Rightarrow> chunker \<Rightarrow> token_counter" where
  "effective_counter u c = (case ch_counter c of None \<Rightarrow> approximate_count u | Some counter \<Rightarrow> counter)"

definition chunk_file ::
    "unicode \<Rightarrow> chunker \<Rightarrow> bytes \<Rightarrow> bytes \<Rightarrow> chunk_symbol list \<Rightarrow> chunk list res option" where
  "chunk_file u c path content symbols =
     (if \<not> utf8_valid content then Some (Inl (Msg ''chunk input must be UTF-8 text''))
      else if effective_min c > effective_max c
      then Some (Inl (Msg ''minimum chunk size exceeds maximum''))
      else case symbol_units content symbols of
             Inl e \<Rightarrow> Some (Inl e)
           | Inr units \<Rightarrow>
               map_option (\<lambda>pieces. assemble (effective_counter u c) (effective_min c) (effective_max c)
                                      path content pieces [])
                 (split_units (effective_counter u c) content (effective_max c) units))"


section \<open>Pieces are contiguous\<close>

fun chained :: "nat \<Rightarrow> 'a byte_unit_scheme list \<Rightarrow> nat \<Rightarrow> bool" where
  "chained a [] b \<longleftrightarrow> a = b"
| "chained a (p # ps) b \<longleftrightarrow> bu_start p = a \<and> a < bu_end p \<and> chained (bu_end p) ps b"

lemma chained_append: "chained a (ps @ qs) c \<longleftrightarrow> (\<exists>b. chained a ps b \<and> chained b qs c)"
  by (induction ps arbitrary: a) auto

lemma chained_le: "chained a ps b \<Longrightarrow> a \<le> b"
  by (induction ps arbitrary: a) force+

lemma chained_ends: "chained a ps b \<Longrightarrow> ps \<noteq> [] \<Longrightarrow> bu_start (hd ps) = a \<and> bu_end (last ps) = b \<and> a < b"
proof (induction ps arbitrary: a)
  case (Cons p ps)
  then show ?case using chained_le by (cases ps) force+
qed simp

lemma slice_append: "a \<le> b \<Longrightarrow> b \<le> c \<Longrightarrow> slice s a b @ slice s b c = slice s a c"
  using take_add [of "b - a" "c - b" "drop a s"] by (simp add: slice_def)

lemma length_slice: "b \<le> length s \<Longrightarrow> length (slice s a b) = b - a"
  by (simp add: slice_def)

lemma slice_all [simp]: "slice s 0 (length s) = s"
  by (simp add: slice_def)

lemma symbol_loop_chained:
  assumes "symbol_loop len cursor units ss = Inr (cursor', units')"
    and "chained 0 units cursor" and "cursor \<le> len"
  shows "chained 0 units' cursor' \<and> cursor' \<le> len"
  using assms
proof (induction len cursor units ss rule: symbol_loop.induct)
  case (1 len cursor units)
  then show ?case by simp
next
  case (2 len cursor units s ss)
  have ok: "\<not> (cs_start_byte s < int cursor \<or> cs_start_byte s < 0 \<or> cs_end_byte s \<le> cs_start_byte s
         \<or> cs_end_byte s > int len)"
    using "2.prems"(1) by (auto split: if_splits)
  show ?case
    by (rule "2.IH" [OF ok]) (use "2.prems" ok in \<open>auto simp: chained_append\<close>)
qed

lemma symbol_units_chained:
  assumes "symbol_units content symbols = Inr units"
  shows "chained 0 units (length content)"
proof -
  let ?ss = "sort_by (\<lambda>a b. cs_start_byte a < cs_start_byte b) symbols"
  obtain cursor us where l: "symbol_loop (length content) 0 [] ?ss = Inr (cursor, us)"
    using assms by (auto simp: symbol_units_def split: sum.splits prod.splits)
  have "chained 0 us cursor \<and> cursor \<le> length content"
    by (rule symbol_loop_chained [OF l]) simp_all
  then show ?thesis
    using assms l by (auto simp: symbol_units_def Let_def chained_append split: if_splits)
qed

lemma back_up_range:
  "start \<le> middle \<Longrightarrow> start \<le> back_up content start limit middle \<and> back_up content start limit middle \<le> middle"
proof (induction content start limit middle rule: back_up.induct)
  case (1 content start limit middle)
  show ?case
  proof (cases "middle < limit \<and> start < middle \<and> \<not> rune_start (content ! middle)")
    case True
    then have "back_up content start limit middle = back_up content start limit (middle - 1)"
      by (subst back_up.simps) simp
    moreover have "start \<le> middle - 1" using conjunct1 [OF conjunct2 [OF True]] by arith
    ultimately show ?thesis using "1.IH" [OF True] True by linarith
  next
    case False
    then have "back_up content start limit middle = middle" by (subst back_up.simps) auto
    then show ?thesis using "1.prems" by simp
  qed
qed

lemma forward_range:
  "middle \<le> limit \<Longrightarrow> middle \<le> forward content limit middle \<and> forward content limit middle \<le> limit"
proof (induction content limit middle rule: forward.induct)
  case (1 content limit middle)
  show ?case by (subst (1 2) forward.simps) (use 1 in fastforce)
qed

lemma rune_cut_range:
  assumes "start < middle" and "middle \<le> limit"
  shows "start < rune_cut content start limit middle \<and> rune_cut content start limit middle \<le> limit"
  using back_up_range [of start middle content limit] forward_range [of "start + 1" limit content] assms
  by (auto simp: rune_cut_def Let_def)

lemma bisect_bounds:
  assumes "bisect counter content start limit maximum low high best = Some b"
  shows "start < low \<longrightarrow> high \<le> limit \<longrightarrow> best = start \<or> (start < best \<and> best \<le> limit) \<longrightarrow>
     b = start \<or> (start < b \<and> b \<le> limit)"
proof (rule bisect.raw_induct [where P = "\<lambda>counter content start limit maximum low high best b.
     start < low \<longrightarrow> high \<le> limit \<longrightarrow> best = start \<or> (start < best \<and> best \<le> limit) \<longrightarrow>
     b = start \<or> (start < b \<and> b \<le> limit)", OF _ assms])
  fix f :: "token_counter \<Rightarrow> bytes \<Rightarrow> nat \<Rightarrow> nat \<Rightarrow> int \<Rightarrow> nat \<Rightarrow> nat \<Rightarrow> nat \<Rightarrow> nat option"
    and counter content start limit maximum low high best b
  assume IH: "\<And>counter content start limit maximum low high best b.
      f counter content start limit maximum low high best = Some b \<Longrightarrow>
      start < low \<longrightarrow> high \<le> limit \<longrightarrow> best = start \<or> (start < best \<and> best \<le> limit) \<longrightarrow>
      b = start \<or> (start < b \<and> b \<le> limit)"
    and eq: "(if low \<le> high
      then (let middle = rune_cut content start limit (low + (high - low) div 2) in
            if counter (slice content start middle) \<le> maximum
            then f counter content start limit maximum (middle + 1) high middle
            else f counter content start limit maximum low (middle - 1) best)
      else Some best) = Some b"
  have cut: "start < rune_cut content start limit (low + (high - low) div 2)
      \<and> rune_cut content start limit (low + (high - low) div 2) \<le> limit"
    if "start < low" "high \<le> limit" "low \<le> high" using that by (intro rune_cut_range) auto
  show "start < low \<longrightarrow> high \<le> limit \<longrightarrow> best = start \<or> (start < best \<and> best \<le> limit) \<longrightarrow>
      b = start \<or> (start < b \<and> b \<le> limit)"
    using eq IH cut by (fastforce simp: Let_def split: if_splits)
qed

lemma last_index_less: "last_index c s = Some i \<Longrightarrow> i < length s \<and> s ! i = c"
  by (induction s arbitrary: i) (auto split: option.splits if_splits)

lemma settle_end_range:
  assumes "start < limit" and "limit \<le> length content"
    and "best = start \<or> (start < best \<and> best \<le> limit)"
  shows "start < settle_end counter content start limit maximum best
    \<and> settle_end counter content start limit maximum best \<le> limit"
proof (cases "best \<le> start")
  case True
  have "slice content start limit \<noteq> []" using assms length_slice [of limit content start] by fastforce
  then show ?thesis
    using decode_rune_width [of "slice content start limit"] length_slice [OF assms(2), of start] True assms(1)
    by (auto simp: settle_end_def)
next
  case False
  have "i < best - start" if "last_index (CHR 0x0A) (slice content start best) = Some i" for i
    using last_index_less [OF that] length_slice [of best content start] assms by auto
  then show ?thesis
    using False assms by (fastforce simp: settle_end_def Let_def split: option.splits)
qed

lemma bounded_end_range:
  assumes "bounded_end counter content start limit maximum = Some e"
    and "start < limit" and "limit \<le> length content"
  shows "start < e \<and> e \<le> limit"
proof -
  obtain b where b: "bisect counter content start limit maximum (start + 1) limit start = Some b"
      and e: "e = settle_end counter content start limit maximum b"
    using assms(1) by (auto simp: bounded_end_def)
  have "b = start \<or> (start < b \<and> b \<le> limit)" using bisect_bounds [OF b] by simp
  then show ?thesis unfolding e by (intro settle_end_range assms(2,3))
qed

definition measured :: "token_counter \<Rightarrow> bytes \<Rightarrow> piece list \<Rightarrow> bool" where
  "measured counter content ps \<longleftrightarrow> (\<forall>p \<in> set ps. pc_tokens p = counter (slice content (bu_start p) (bu_end p)))"

lemma split_loop_chained:
  assumes "split_loop counter content unit maximum start = Some ps"
  shows "start \<le> bu_end unit \<longrightarrow> bu_end unit \<le> length content \<longrightarrow>
     chained start ps (bu_end unit) \<and> measured counter content ps"
proof (rule split_loop.raw_induct [where P = "\<lambda>counter content unit maximum start ps.
     start \<le> bu_end unit \<longrightarrow> bu_end unit \<le> length content \<longrightarrow>
     chained start ps (bu_end unit) \<and> measured counter content ps", OF _ assms])
  fix f :: "token_counter \<Rightarrow> bytes \<Rightarrow> byte_unit \<Rightarrow> int \<Rightarrow> nat \<Rightarrow> piece list option"
    and counter content unit maximum start ps
  assume IH: "\<And>counter content unit maximum start ps. f counter content unit maximum start = Some ps \<Longrightarrow>
       start \<le> bu_end unit \<longrightarrow> bu_end unit \<le> length content \<longrightarrow>
       chained start ps (bu_end unit) \<and> measured counter content ps"
    and eq: "(if start < bu_end unit
      then Option.bind (bounded_end counter content start (bu_end unit) maximum) (\<lambda>stop.
           Option.bind (f counter content unit maximum stop) (\<lambda>ps.
           Some (\<lparr>bu_start = start, bu_end = stop, bu_symbol = bu_symbol unit,
                  pc_tokens = counter (slice content start stop)\<rparr> # ps)))
      else Some []) = Some ps"
  show "start \<le> bu_end unit \<longrightarrow> bu_end unit \<le> length content \<longrightarrow>
       chained start ps (bu_end unit) \<and> measured counter content ps"
  proof (cases "start < bu_end unit")
    case True
    then obtain e qs where e: "bounded_end counter content start (bu_end unit) maximum = Some e"
        and qs: "f counter content unit maximum e = Some qs"
        and ps: "ps = \<lparr>bu_start = start, bu_end = e, bu_symbol = bu_symbol unit,
                  pc_tokens = counter (slice content start e)\<rparr> # qs"
      using eq by (auto simp: bind_eq_Some_conv)
    show ?thesis
      using IH [OF qs] bounded_end_range [OF e] True by (auto simp: ps measured_def)
  next
    case False
    then show ?thesis using eq by (auto simp: measured_def)
  qed
qed

lemma split_piece_chained:
  assumes "split_piece counter content maximum unit = Some ps"
    and "bu_start unit < bu_end unit" and "bu_end unit \<le> length content"
  shows "chained (bu_start unit) ps (bu_end unit) \<and> measured counter content ps"
proof (cases "counter (slice content (bu_start unit) (bu_end unit)) \<le> maximum")
  case True
  then show ?thesis using assms by (auto simp: split_piece_def Let_def measured_def)
next
  case False
  then have "split_loop counter content unit maximum (bu_start unit) = Some ps"
    using assms(1) by (simp add: split_piece_def Let_def)
  then show ?thesis using split_loop_chained assms(2,3) by (metis less_imp_le)
qed

lemma split_units_chained:
  assumes "split_units counter content maximum units = Some ps"
    and "chained a units b" and "b \<le> length content"
  shows "chained a ps b \<and> measured counter content ps"
  using assms
proof (induction units arbitrary: a ps)
  case Nil
  then show ?case by (simp add: measured_def)
next
  case (Cons u us)
  obtain xs ys where xs: "split_piece counter content maximum u = Some xs"
      and ys: "split_units counter content maximum us = Some ys" and ps: "ps = xs @ ys"
    using Cons.prems(1) by (auto simp: bind_eq_Some_conv)
  have u: "bu_start u = a" "a < bu_end u" "chained (bu_end u) us b" using Cons.prems(2) by auto
  then have "bu_end u \<le> length content" using chained_le Cons.prems(3) le_trans by blast
  then have "chained a xs (bu_end u) \<and> measured counter content xs"
    using split_piece_chained [OF xs] u by simp
  moreover have "chained (bu_end u) ys b \<and> measured counter content ys"
    using Cons.IH [OF ys u(3) Cons.prems(3)] .
  ultimately show ?case unfolding ps chained_append by (auto simp: measured_def)
qed

lemma assemble_contents:
  assumes "assemble counter minimum maximum path content pieces chunks = Inr out"
    and "chained a pieces b" and "b \<le> length content"
  shows "concat (map ck_content out) = concat (map ck_content chunks) @ slice content a b"
  using assms
proof (induction counter minimum maximum path content pieces chunks arbitrary: a rule: assemble.induct)
  case (1 counter minimum maximum path content pieces chunks)
  show ?case
  proof (cases "pieces = []")
    case True
    then show ?thesis using "1.prems" by (simp add: assemble.simps slice_def)
  next
    case False
    obtain g rest where g: "take_group minimum maximum 0 pieces = (g, rest)" by fastforce
    have gn: "g \<noteq> []" using "1.prems"(1) False by (subst (asm) assemble.simps) (auto simp: g)
    obtain m where m: "chained a g m" "chained m rest b"
      using "1.prems"(2) take_group_append [OF g] chained_append by metis
    have run: "assemble counter minimum maximum path content rest
        (chunks @ [make_chunk counter path content g]) = Inr out"
      using "1.prems"(1) False gn by (subst (asm) assemble.simps) (simp add: g)
    have "ck_content (make_chunk counter path content g) = slice content a m"
      using chained_ends [OF m(1) gn] by (simp add: make_chunk_def Let_def)
    then show ?thesis
      using "1.IH" [OF False, of m] run m "1.prems"(3) gn slice_append [of a m b content]
        chained_le [OF m(1)] chained_le [OF m(2)] by (simp add: g)
  qed
qed

section \<open>ASCII text\<close>

text \<open>
  What the bound on a chunk needs of a token counter, on ASCII text: it is not negative, does not
  shrink when text is appended, is subadditive, and one byte is at most one token.
\<close>

definition ascii :: "bytes \<Rightarrow> bool" where
  "ascii s \<longleftrightarrow> list_all (\<lambda>c. byte c < 128) s"

lemma ascii_append [simp]: "ascii (s @ t) \<longleftrightarrow> ascii s \<and> ascii t"
  by (simp add: ascii_def)

lemma ascii_slice: "ascii s \<Longrightarrow> ascii (slice s a b)"
  by (auto simp: ascii_def slice_def list_all_iff dest!: in_set_takeD in_set_dropD)

lemma ascii_rune_start: "ascii s \<Longrightarrow> i < length s \<Longrightarrow> rune_start (s ! i)"
  by (auto simp: ascii_def rune_start_def list_all_length)

lemma rune_cut_ascii:
  assumes "ascii content" and "limit \<le> length content" and "start < middle"
  shows "rune_cut content start limit middle = middle"
proof -
  have "back_up content start limit middle = middle"
    using assms ascii_rune_start [of content middle] by (subst back_up.simps) auto
  then show ?thesis using assms(3) by (simp add: rune_cut_def)
qed

locale subadditive_counter =
  fixes counter :: token_counter
  assumes counter_nonneg: "ascii s \<Longrightarrow> 0 \<le> counter s"
    and counter_append: "ascii s \<Longrightarrow> ascii t \<Longrightarrow> counter (s @ t) \<le> counter s + counter t"
    and counter_prefix: "ascii s \<Longrightarrow> ascii t \<Longrightarrow> counter s \<le> counter (s @ t)"
    and counter_byte: "ascii [c] \<Longrightarrow> counter [c] \<le> 1"
begin

lemma counter_slice_mono:
  assumes "ascii content" and "a \<le> b" and "b \<le> c"
  shows "counter (slice content a b) \<le> counter (slice content a c)"
  using counter_prefix [OF ascii_slice [OF assms(1), of a b] ascii_slice [OF assms(1), of b c]]
  by (simp add: slice_append [OF assms(2,3)])

text \<open>On ASCII text the binary search ends, at the longest prefix that respects the maximum.\<close>

lemma bisect_ascii:
  assumes "ascii content" and "limit \<le> length content" and "high \<le> limit" and "start \<le> best"
    and "low = best + 1" and "best \<le> limit"
    and "best = start \<or> counter (slice content start best) \<le> maximum"
    and "\<forall>m. high < m \<and> m \<le> limit \<longrightarrow> counter (slice content start m) > maximum"
  shows "\<exists>b. bisect counter content start limit maximum low high best = Some b \<and> start \<le> b \<and> b \<le> limit
    \<and> (b = start \<or> counter (slice content start b) \<le> maximum)
    \<and> (\<forall>m. b < m \<and> m \<le> limit \<longrightarrow> counter (slice content start m) > maximum)"
  using assms
proof (induction "Suc high - low" arbitrary: low high best rule: less_induct)
  case less
  show ?case
  proof (cases "low \<le> high")
    case False
    then show ?thesis using less.prems by (subst bisect.simps) auto
  next
    case True
    define middle where "middle = low + (high - low) div 2"
    have mid: "low \<le> middle" "middle \<le> high" using True by (auto simp: middle_def)
    have cut: "rune_cut content start limit middle = middle"
      using less.prems mid by (intro rune_cut_ascii) auto
    have run: "bisect counter content start limit maximum low high best =
        (if counter (slice content start middle) \<le> maximum
         then bisect counter content start limit maximum (middle + 1) high middle
         else bisect counter content start limit maximum low (middle - 1) best)"
      using True cut by (subst bisect.simps) (simp add: middle_def [symmetric])
    show ?thesis
    proof (cases "counter (slice content start middle) \<le> maximum")
      case fits: True
      show ?thesis unfolding run using fits less.prems mid
        by (simp only: if_True) (rule less.hyps; simp)
    next
      case over: False
      have "counter (slice content start m) > maximum" if "middle - 1 < m" for m
      proof -
        have "middle \<le> m" using that by arith
        then show ?thesis
          using counter_slice_mono [OF less.prems(1), of start middle m] over less.prems(4,5) mid by simp
      qed
      then show ?thesis unfolding run using over less.prems mid
        by (simp only: if_False) (rule less.hyps; simp)
    qed
  qed
qed

lemma bounded_end_ascii:
  assumes "ascii content" and "limit \<le> length content" and "start < limit" and "1 \<le> maximum"
  shows "\<exists>e b. bounded_end counter content start limit maximum = Some e \<and> start < e \<and> e \<le> b \<and> b \<le> limit
    \<and> counter (slice content start b) \<le> maximum
    \<and> (\<forall>m. b < m \<and> m \<le> limit \<longrightarrow> counter (slice content start m) > maximum)
    \<and> (e = b \<or> content ! (e - 1) = CHR 0x0A)"
proof -
  obtain b where b: "bisect counter content start limit maximum (start + 1) limit start = Some b"
      "start \<le> b" "b \<le> limit" "b = start \<or> counter (slice content start b) \<le> maximum"
      "\<forall>m. b < m \<and> m \<le> limit \<longrightarrow> counter (slice content start m) > maximum"
    using bisect_ascii [OF assms(1,2), of limit start start "start + 1" maximum] assms(3) by auto
  have "slice content start (start + 1) = [content ! start]"
    using assms(2,3) by (simp add: slice_def take_Suc_conv_app_nth hd_drop_conv_nth take_Suc)
  then have "counter (slice content start (start + 1)) \<le> maximum"
    using counter_byte ascii_slice [OF assms(1), of start "start + 1"] assms(4) by fastforce
  then have "start < b" using b(2,5) assms(3) by (metis Suc_eq_plus1 Suc_leI le_neq_implies_less lessI not_le)
  have len: "length (slice content start b) = b - start" using b(3) assms(2) by (simp add: length_slice)
  have "settle_end counter content start limit maximum b = b
      \<or> (settle_end counter content start limit maximum b \<le> b
         \<and> content ! (settle_end counter content start limit maximum b - 1) = CHR 0x0A)"
  proof (cases "last_index (CHR 0x0A) (slice content start b)")
    case None
    then show ?thesis using \<open>start < b\<close> by (simp add: settle_end_def)
  next
    case (Some i)
    have "i < b - start" "content ! (start + i) = CHR 0x0A"
      using last_index_less [OF Some] len b(3) assms(2) by (auto simp: slice_def)
    then show ?thesis using \<open>start < b\<close> Some by (auto simp: settle_end_def Let_def)
  qed
  moreover have "bounded_end counter content start limit maximum
      = Some (settle_end counter content start limit maximum b)"
    using b(1) by (simp add: bounded_end_def)
  moreover have "start < settle_end counter content start limit maximum b"
    using settle_end_range [OF assms(3,2)] \<open>start < b\<close> b(3) by blast
  ultimately show ?thesis using b \<open>start < b\<close> by (metis le_refl less_imp_neq)
qed

lemma split_loop_ascii:
  assumes "ascii content" and "bu_end unit \<le> length content" and "1 \<le> maximum"
  shows "\<exists>ps. split_loop counter content unit maximum start = Some ps \<and> (\<forall>p \<in> set ps. pc_tokens p \<le> maximum)"
proof (induction "bu_end unit - start" arbitrary: start rule: less_induct)
  case less
  show ?case
  proof (cases "start < bu_end unit")
    case True
    obtain e b where e: "bounded_end counter content start (bu_end unit) maximum = Some e" "start < e" "e \<le> b"
        "counter (slice content start b) \<le> maximum"
      using bounded_end_ascii [OF assms(1,2) True assms(3)] by blast
    have fits: "counter (slice content start e) \<le> maximum"
      using counter_slice_mono [OF assms(1), of start e b] e by simp
    have "bu_end unit - e < bu_end unit - start" using e(2) True by arith
    from less [OF this] obtain ps where
      "split_loop counter content unit maximum e = Some ps" "\<forall>p \<in> set ps. pc_tokens p \<le> maximum" by blast
    then show ?thesis using True e(1) fits by (subst split_loop.simps) simp
  qed (simp add: split_loop.simps)
qed

lemma split_units_ascii:
  assumes "ascii content" and "chained a units b" and "b \<le> length content" and "1 \<le> maximum"
  shows "\<exists>ps. split_units counter content maximum units = Some ps \<and> (\<forall>p \<in> set ps. pc_tokens p \<le> maximum)"
  using assms(2)
proof (induction units arbitrary: a)
  case Nil
  then show ?case by simp
next
  case (Cons u us)
  have "bu_end u \<le> length content" using Cons.prems chained_le assms(3) le_trans by fastforce
  then have "\<exists>ps. split_piece counter content maximum u = Some ps \<and> (\<forall>p \<in> set ps. pc_tokens p \<le> maximum)"
    using split_loop_ascii [OF assms(1) _ assms(4), of u "bu_start u"] by (simp add: split_piece_def Let_def)
  moreover have "\<exists>qs. split_units counter content maximum us = Some qs \<and> (\<forall>p \<in> set qs. pc_tokens p \<le> maximum)"
    using Cons.IH Cons.prems by auto
  ultimately show ?case by fastforce
qed

lemma counter_pieces:
  assumes "ascii content" and "chained a ps b" and "measured counter content ps" and "ps \<noteq> []"
  shows "counter (slice content a b) \<le> (\<Sum>p \<leftarrow> ps. pc_tokens p)"
  using assms(2,3,4)
proof (induction ps arbitrary: a)
  case Nil
  then show ?case by simp
next
  case (Cons p ps)
  have p: "bu_start p = a" "a < bu_end p" "chained (bu_end p) ps b"
      "pc_tokens p = counter (slice content a (bu_end p))" "measured counter content ps"
    using Cons.prems by (auto simp: measured_def)
  show ?case
  proof (cases "ps = []")
    case True
    then show ?thesis using p by simp
  next
    case False
    have "counter (slice content a b)
        \<le> counter (slice content a (bu_end p)) + counter (slice content (bu_end p) b)"
      using counter_append [OF ascii_slice [OF assms(1)] ascii_slice [OF assms(1)], of a "bu_end p" "bu_end p" b]
        slice_append [of a "bu_end p" b content] p chained_le [OF p(3)] by simp
    then show ?thesis using Cons.IH [OF p(3,5) False] p(4) by simp
  qed
qed

lemma take_group_sum:
  "take_group mn mx t ps = (g, rest) \<Longrightarrow> g \<noteq> [] \<Longrightarrow> t + (\<Sum>p \<leftarrow> g. pc_tokens p) \<le> mx"
proof (induction mn mx t ps arbitrary: g rest rule: take_group.induct)
  case (2 mn mx t p ps)
  then show ?case by (cases "fst (take_group mn mx (t + pc_tokens p) ps) = []")
      (auto split: if_splits prod.splits)
qed simp

lemma assemble_ascii:
  assumes "ascii content" and "chained a pieces b" and "measured counter content pieces"
    and "\<forall>p \<in> set pieces. pc_tokens p \<le> maximum" and "\<forall>c \<in> set chunks. ck_token_count c \<le> maximum"
  shows "\<exists>out. assemble counter minimum maximum path content pieces chunks = Inr out
    \<and> (\<forall>c \<in> set out. ck_token_count c \<le> maximum)"
  using assms(2-5)
proof (induction "length pieces" arbitrary: pieces chunks a rule: less_induct)
  case less
  show ?case
  proof (cases "pieces = []")
    case True
    then show ?thesis using less.prems by (simp add: assemble.simps)
  next
    case False
    obtain g rest where g: "take_group minimum maximum 0 pieces = (g, rest)" by fastforce
    obtain p ps where p: "pieces = p # ps" using False by (cases pieces) auto
    have gn: "g \<noteq> []" using g less.prems(3) by (auto simp: p split: if_splits prod.splits)
    have app: "g @ rest = pieces" using take_group_append [OF g] .
    obtain m where m: "chained a g m" "chained m rest b" using less.prems(1) app chained_append by metis
    have parts: "measured counter content g" "measured counter content rest"
        "\<forall>p \<in> set rest. pc_tokens p \<le> maximum"
      using less.prems(2,3) by (auto simp: measured_def simp flip: app)
    have "counter (slice content a m) \<le> maximum"
      using counter_pieces [OF assms(1) m(1) parts(1) gn] take_group_sum [OF g gn] by simp
    moreover have "ck_token_count (make_chunk counter path content g) = counter (slice content a m)"
      using chained_ends [OF m(1) gn] by (simp add: make_chunk_def Let_def)
    ultimately have ok: "\<forall>c \<in> set (chunks @ [make_chunk counter path content g]). ck_token_count c \<le> maximum"
      using less.prems(4) by auto
    show ?thesis
      using less.hyps [OF take_group_rest [OF g gn] m(2) parts(2,3) ok] False gn
      by (subst assemble.simps) (simp add: g)
  qed
qed

end

text \<open>The counter the code falls back to satisfies the contract, whatever the Unicode tables.\<close>

lemma approximate_count_ascii:
  "ascii s \<Longrightarrow> approximate_count u s
     = int (length (fields_func (\<lambda>r. u_space u r \<or> u_punct u r) (map byte s)))"
  by (simp add: approximate_count_def runes_ascii ascii_def)

interpretation approximate: subadditive_counter "approximate_count u" for u
proof
  show "0 \<le> approximate_count u s" for s by (simp add: approximate_count_def)
  show "approximate_count u (s @ t) \<le> approximate_count u s + approximate_count u t"
    if "ascii s" "ascii t" for s t
    using that length_fields_append [of _ "map byte s" "map byte t"]
    by (simp add: approximate_count_ascii flip: of_nat_add)
  show "approximate_count u s \<le> approximate_count u (s @ t)" if "ascii s" "ascii t" for s t
    using that length_fields_prefix [of _ "map byte s" "map byte t"]
    by (simp add: approximate_count_ascii)
  show "approximate_count u [c] \<le> 1" if "ascii [c]" for c
    using that by (simp add: approximate_count_ascii fields_func_def)
qed

section \<open>Properties\<close>

text \<open>What holds of every chunk on its own.\<close>

definition chunk_wf :: "bytes \<Rightarrow> chunk \<Rightarrow> bool" where
  "chunk_wf path k \<longleftrightarrow> ck_path k = path \<and> ck_content k \<noteq> [] \<and> 1 \<le> ck_start_line k
     \<and> ck_start_line k \<le> ck_end_line k"

lemma line_at_mono: "a \<le> b \<Longrightarrow> line_at content a \<le> line_at content b"
proof -
  assume "a \<le> b"
  then have "take b content = take a content @ take (b - a) (drop a content)"
    using take_add [of a "b - a" content] by simp
  then show ?thesis by (simp add: line_at_def)
qed

lemma make_chunk_wf:
  assumes "chained a g m" and "g \<noteq> []" and "m \<le> length content"
  shows "chunk_wf path (make_chunk counter path content g)"
proof -
  note ends = chained_ends [OF assms(1,2)]
  have "slice content a m \<noteq> []" using length_slice [OF assms(3), of a] ends by fastforce
  moreover have "line_at content a \<le> line_at content (max a (m - 1))" by (rule line_at_mono) simp
  moreover have "1 \<le> line_at content a" by (simp add: line_at_def)
  ultimately show ?thesis using ends by (simp add: chunk_wf_def make_chunk_def Let_def)
qed

lemma assemble_wf:
  assumes "assemble counter minimum maximum path content pieces chunks = Inr out"
    and "chained a pieces b" and "b \<le> length content" and "\<forall>k \<in> set chunks. chunk_wf path k"
  shows "\<forall>k \<in> set out. chunk_wf path k"
  using assms
proof (induction counter minimum maximum path content pieces chunks arbitrary: a rule: assemble.induct)
  case (1 counter minimum maximum path content pieces chunks)
  show ?case
  proof (cases "pieces = []")
    case True
    then show ?thesis using "1.prems" by (simp add: assemble.simps)
  next
    case False
    obtain g rest where g: "take_group minimum maximum 0 pieces = (g, rest)" by fastforce
    have gn: "g \<noteq> []" using "1.prems"(1) False by (subst (asm) assemble.simps) (auto simp: g)
    obtain m where m: "chained a g m" "chained m rest b"
      using "1.prems"(2) take_group_append [OF g] chained_append by metis
    have run: "assemble counter minimum maximum path content rest
        (chunks @ [make_chunk counter path content g]) = Inr out"
      using "1.prems"(1) False gn by (subst (asm) assemble.simps) (simp add: g)
    have "chunk_wf path (make_chunk counter path content g)"
      using make_chunk_wf [OF m(1) gn] chained_le [OF m(2)] "1.prems"(3) by simp
    then have "\<forall>k \<in> set (chunks @ [make_chunk counter path content g]). chunk_wf path k"
      using "1.prems"(4) by auto
    from "1.IH" [unfolded g fst_conv snd_conv, OF False gn run m(2) "1.prems"(3) this] show ?thesis .
  qed
qed

lemma chunk_file_pieces:
  assumes "chunk_file u c path content symbols = Some (Inr chunks)"
  obtains pieces where "chained 0 pieces (length content)"
    and "assemble (effective_counter u c) (effective_min c) (effective_max c) path content pieces []
         = Inr chunks"
proof -
  obtain units pieces where units: "symbol_units content symbols = Inr units"
      and p: "split_units (effective_counter u c) content (effective_max c) units = Some pieces"
      and out: "assemble (effective_counter u c) (effective_min c) (effective_max c) path content pieces []
         = Inr chunks"
    using assms by (auto simp: chunk_file_def split: if_splits sum.splits)
  show thesis
    using that [OF _ out] split_units_chained [OF p symbol_units_chained [OF units]] by simp
qed

text \<open>
  C1: Nothing is lost and nothing is repeated: the contents of the chunks of a file, in order,
  are the file, whatever the counter, the limits and the symbols. No chunk is empty, and its lines
  are in order.
\<close>

theorem chunks_cover_file:
  assumes "chunk_file u c path content symbols = Some (Inr chunks)"
  shows "concat (map ck_content chunks) = content
    \<and> (\<forall>k \<in> set chunks. ck_path k = path \<and> ck_content k \<noteq> []
         \<and> 1 \<le> ck_start_line k \<and> ck_start_line k \<le> ck_end_line k)"
proof -
  obtain pieces where p: "chained 0 pieces (length content)"
    and run: "assemble (effective_counter u c) (effective_min c) (effective_max c) path content pieces []
         = Inr chunks"
    using chunk_file_pieces [OF assms] .
  show ?thesis
    using assemble_contents [OF run p] assemble_wf [OF run p] by (simp add: chunk_wf_def)
qed

definition sample_chunker :: chunker where
  "sample_chunker = \<lparr>ch_counter = Some (\<lambda>s. int (length s)), ch_min_tokens = 1, ch_max_tokens = 3\<rparr>"

definition sample_pieces :: "piece list" where
  "sample_pieces =
     [\<lparr>bu_start = 0, bu_end = 2, bu_symbol = [], pc_tokens = 2\<rparr>,
      \<lparr>bu_start = 2, bu_end = 5, bu_symbol = ''f'', pc_tokens = 3\<rparr>,
      \<lparr>bu_start = 5, bu_end = 6, bu_symbol = ''f'', pc_tokens = 1\<rparr>]"

definition sample_chunks :: "chunk list" where
  "sample_chunks =
     [\<lparr>ck_path = ''p'', ck_symbol = [], ck_start_line = 1, ck_end_line = 1,
       ck_content = [CHR ''a'', CHR 0x0A], ck_token_count = 2\<rparr>,
      \<lparr>ck_path = ''p'', ck_symbol = ''f'', ck_start_line = 2, ck_end_line = 2,
       ck_content = ''bcd'', ck_token_count = 3\<rparr>,
      \<lparr>ck_path = ''p'', ck_symbol = ''f'', ck_start_line = 2, ck_end_line = 2,
       ck_content = ''e'', ck_token_count = 1\<rparr>]"

definition sample_content :: bytes where
  "sample_content = ''a'' @ CHR 0x0A # ''bcde''"

definition sample_symbols :: "chunk_symbol list" where
  "sample_symbols = [\<lparr>cs_name = ''f'', cs_start_byte = 2, cs_end_byte = 6\<rparr>]"

lemma sample_units:
  "symbol_units sample_content sample_symbols =
     Inr [\<lparr>bu_start = 0, bu_end = 2, bu_symbol = []\<rparr>, \<lparr>bu_start = 2, bu_end = 6, bu_symbol = ''f''\<rparr>]"
  by code_simp

lemma sample_ascii: "ascii sample_content"
  by (simp add: ascii_def sample_content_def)

lemma sample_slice_length [simp]: "b \<le> 6 \<Longrightarrow> length (slice sample_content a b) = b - a"
  by (rule length_slice) (simp add: sample_content_def)

lemma sample_cut [simp]: "limit \<le> 6 \<Longrightarrow> start < m \<Longrightarrow> rune_cut sample_content start limit m = m"
  by (rule rune_cut_ascii [OF sample_ascii]) (simp_all add: sample_content_def)

lemma sample_bounded_end:
  "bounded_end (\<lambda>s. int (length s)) sample_content 2 6 3 = Some 5"
  "bounded_end (\<lambda>s. int (length s)) sample_content 5 6 3 = Some 6"
proof -
  have "bisect (\<lambda>s. int (length s)) sample_content 2 6 3 3 6 2 = Some 5"
    "bisect (\<lambda>s. int (length s)) sample_content 5 6 3 6 6 5 = Some 6"
    by (simp_all add: bisect.simps)
  then show "bounded_end (\<lambda>s. int (length s)) sample_content 2 6 3 = Some 5"
    "bounded_end (\<lambda>s. int (length s)) sample_content 5 6 3 = Some 6"
    by (simp_all add: bounded_end_def settle_end_def) (simp_all add: slice_def sample_content_def)
qed

lemma sample_split:
  "split_units (\<lambda>s. int (length s)) sample_content 3
     [\<lparr>bu_start = 0, bu_end = 2, bu_symbol = []\<rparr>, \<lparr>bu_start = 2, bu_end = 6, bu_symbol = ''f''\<rparr>]
   = Some sample_pieces"
  by (simp add: split_piece_def split_loop.simps sample_bounded_end sample_pieces_def)

lemma sample_chunk_file:
  "chunk_file ascii_tables sample_chunker ''p'' sample_content sample_symbols = Some (Inr sample_chunks)"
proof -
  have "assemble (\<lambda>s. int (length s)) 1 3 ''p'' sample_content sample_pieces [] = Inr sample_chunks"
    by (simp add: assemble.simps sample_pieces_def make_chunk_def slice_def sample_content_def line_at_def
        joined_symbols_def sample_chunks_def)
  then show ?thesis
    using sample_ascii sample_units sample_split
    by (simp add: chunk_file_def utf8_valid_ascii ascii_def sample_chunker_def effective_counter_def
        effective_min_def effective_max_def)
qed

theorem chunks_cover_file_witness: "concat (map ck_content sample_chunks) = sample_content"
  using chunks_cover_file [OF sample_chunk_file] by blast

text \<open>
  C30: Chunking an ASCII file with the built-in counter returns: either an error about the limits
  or the symbols, or chunks none of which exceeds the maximum. It never gives up because a
  bounded chunk cannot be produced.
\<close>

theorem chunk_file_ascii:
  assumes "ascii content" and "ch_counter c = None"
  shows "(\<exists>chunks. chunk_file u c path content symbols = Some (Inr chunks)
            \<and> effective_min c \<le> effective_max c \<and> is_ok (symbol_units content symbols)
            \<and> (\<forall>k \<in> set chunks. ck_token_count k \<le> effective_max c))
       \<or> (chunk_file u c path content symbols = Some (Inl (Msg ''minimum chunk size exceeds maximum''))
            \<and> effective_min c > effective_max c)
       \<or> (\<exists>e. chunk_file u c path content symbols = Some (Inl e) \<and> symbol_units content symbols = Inl e)"
proof (cases "effective_min c > effective_max c")
  case True
  then show ?thesis using assms by (simp add: chunk_file_def utf8_valid_ascii ascii_def)
next
  case sizes: False
  have valid: "utf8_valid content" using assms(1) by (simp add: utf8_valid_ascii ascii_def)
  have counter: "effective_counter u c = approximate_count u" by (simp add: effective_counter_def assms(2))
  have pos: "1 \<le> effective_max c" by (simp add: effective_max_def)
  show ?thesis
  proof (cases "symbol_units content symbols")
    case (Inl e)
    then show ?thesis using valid sizes by (simp add: chunk_file_def)
  next
    case (Inr units)
    note chain = symbol_units_chained [OF Inr]
    obtain ps where ps: "split_units (approximate_count u) content (effective_max c) units = Some ps"
        "\<forall>p \<in> set ps. pc_tokens p \<le> effective_max c"
      using approximate.split_units_ascii [OF assms(1) chain _ pos] by auto
    have "chained 0 ps (length content) \<and> measured (approximate_count u) content ps"
      using split_units_chained [OF ps(1) chain] by simp
    then obtain out where "assemble (approximate_count u) (effective_min c) (effective_max c) path content ps []
          = Inr out" "\<forall>k \<in> set out. ck_token_count k \<le> effective_max c"
      using approximate.assemble_ascii [OF assms(1) _ _ ps(2), where chunks = "[]"] by fastforce
    then show ?thesis using Inr valid sizes ps(1) by (simp add: chunk_file_def counter)
  qed
qed

theorem chunk_file_ascii_witness:
  "\<exists>r. chunk_file ascii_tables \<lparr>ch_counter = None, ch_min_tokens = 1, ch_max_tokens = 3\<rparr>
         ''p'' sample_content sample_symbols = Some r"
  using chunk_file_ascii [OF sample_ascii, of "\<lparr>ch_counter = None, ch_min_tokens = 1, ch_max_tokens = 3\<rparr>"
      ascii_tables "''p''" sample_symbols] by auto

text \<open>
  On ASCII text the bisection of \<open>boundedEnd\<close> finds the longest prefix of the unit that respects
  the maximum, and the piece ends there or just after a newline before it.
\<close>

theorem bounded_end_longest:
  assumes "ascii content" and "limit \<le> length content" and "start < limit" and "1 \<le> maximum"
  shows "\<exists>e b. bounded_end (approximate_count u) content start limit maximum = Some e
    \<and> start < e \<and> e \<le> b \<and> b \<le> limit
    \<and> approximate_count u (slice content start b) \<le> maximum
    \<and> (\<forall>m. b < m \<and> m \<le> limit \<longrightarrow> approximate_count u (slice content start m) > maximum)
    \<and> (e = b \<or> content ! (e - 1) = CHR 0x0A)"
  by (rule approximate.bounded_end_ascii [OF assms])

theorem bounded_end_longest_witness:
  "\<exists>e. bounded_end (approximate_count ascii_tables) sample_content 2 6 1 = Some e \<and> 2 < e \<and> e \<le> 6"
  using bounded_end_longest [OF sample_ascii, of 6 2 1 ascii_tables] by (fastforce simp: sample_content_def)

section \<open>The bisection can loop\<close>

text \<open>
  When the probed position falls inside a multi-byte rune it is moved back to the start of that
  rune; if the prefix up to there still fits, the lower bound moves to the byte after it, where it
  already was. From then on the state repeats.
\<close>

lemma bisect_stuck:
  assumes "low \<le> high" and "rune_cut content start limit (low + (high - low) div 2) + 1 = low"
    and "counter (slice content start (low - 1)) \<le> maximum"
  shows "bisect counter content start limit maximum low high best = None"
proof (rule ccontr)
  assume "bisect counter content start limit maximum low high best \<noteq> None"
  then obtain b where b: "bisect counter content start limit maximum low high best = Some b" by auto
  have "\<not> (low \<le> high \<and> rune_cut content start limit (low + (high - low) div 2) + 1 = low
      \<and> counter (slice content start (low - 1)) \<le> maximum)"
  proof (rule bisect.raw_induct [where P = "\<lambda>counter content start limit maximum low high best b.
      \<not> (low \<le> high \<and> rune_cut content start limit (low + (high - low) div 2) + 1 = low
         \<and> counter (slice content start (low - 1)) \<le> maximum)", OF _ b])
    fix f :: "token_counter \<Rightarrow> bytes \<Rightarrow> nat \<Rightarrow> nat \<Rightarrow> int \<Rightarrow> nat \<Rightarrow> nat \<Rightarrow> nat \<Rightarrow> nat option"
      and counter content start limit maximum low high best b
    assume IH: "\<And>counter content start limit maximum low high best b.
        f counter content start limit maximum low high best = Some b \<Longrightarrow>
        \<not> (low \<le> high \<and> rune_cut content start limit (low + (high - low) div 2) + 1 = low
           \<and> counter (slice content start (low - 1)) \<le> maximum)"
      and eq: "(if low \<le> high
        then (let middle = rune_cut content start limit (low + (high - low) div 2) in
              if counter (slice content start middle) \<le> maximum
              then f counter content start limit maximum (middle + 1) high middle
              else f counter content start limit maximum low (middle - 1) best)
        else Some best) = Some b"
    show "\<not> (low \<le> high \<and> rune_cut content start limit (low + (high - low) div 2) + 1 = low
        \<and> counter (slice content start (low - 1)) \<le> maximum)"
    proof
      assume stuck: "low \<le> high \<and> rune_cut content start limit (low + (high - low) div 2) + 1 = low
          \<and> counter (slice content start (low - 1)) \<le> maximum"
      then have "rune_cut content start limit (low + (high - low) div 2) = low - 1" by arith
      then have "f counter content start limit maximum low high (low - 1) = Some b"
        using eq stuck by (simp add: Let_def)
      from IH [OF this] stuck show False by blast
    qed
  qed
  then show False using assms by blast
qed

text \<open>
  Chunking a valid UTF-8 file need not end: with the built-in counter and a maximum of one
  token, the four bytes of \<open>x\<close>, a space and the letter e with an acute accent are never chunked.
\<close>

theorem chunk_file_hangs:
  "chunk_file ascii_tables \<lparr>ch_counter = None, ch_min_tokens = 1, ch_max_tokens = 1\<rparr> path
     [CHR ''x'', CHR '' '', CHR 0xC3, CHR 0xA9] [] = None"
proof -
  let ?s = "[CHR ''x'', CHR '' '', CHR 0xC3, CHR 0xA9]" and ?count = "approximate_count ascii_tables"
  have counts: "?count (slice ?s 0 4) = 2" "?count (slice ?s 0 2) = 1" by code_simp+
  have cuts: "rune_cut ?s 0 4 (Suc (Suc 0)) = 2" "rune_cut ?s 0 4 3 = 2" by code_simp+
  have "bisect ?count ?s 0 4 1 3 4 2 = None"
    by (rule bisect_stuck) (simp_all add: cuts counts)
  then have "bisect ?count ?s 0 4 1 1 4 0 = None"
    by (subst bisect.simps) (simp add: cuts counts)
  then have "split_piece ?count ?s 1 \<lparr>bu_start = 0, bu_end = 4, bu_symbol = []\<rparr> = None"
    by (simp add: split_piece_def counts split_loop.simps bounded_end_def)
  moreover have "symbol_units ?s [] = Inr [\<lparr>bu_start = 0, bu_end = 4, bu_symbol = []\<rparr>]" by code_simp
  moreover have "utf8_valid ?s"
    by (simp add: utf8_valid.simps decode_tail_def second_range_def cont_in_def bad_rune_def)
  ultimately show ?thesis
    by (simp add: chunk_file_def effective_counter_def effective_min_def effective_max_def)
qed

end
