(* ===== verification/Overlay.thy ===== *)
theory Overlay
  imports GoStd "HOL-Library.AList"
begin

text \<open>
  \<open>internal/hosted/graph/overlay.go\<close>: the symbol graph of a pull request's head, laid over the stored
  graph of the default branch. The head parser is a parameter. Symbol ids are \<open>int\<close>: the stored ones
  are positive, the overlay counts down from -1. A missing entry of a Go map from ids to ids reads 0.
\<close>

section \<open>Data\<close>

record overlay_symbol =
  os_id :: int
  os_path :: bytes
  os_kind :: bytes
  os_name :: bytes
  os_signature :: bytes
  os_start_line :: int
  os_end_line :: int

record overlay_edge =
  oe_source_id :: int
  oe_target_id :: int
  oe_target :: bytes
  oe_kind :: bytes

record snapshot =
  sn_symbols :: "overlay_symbol list"
  sn_edges :: "overlay_edge list"

record changed_file =
  cf_path :: bytes
  cf_blob_sha :: bytes
  cf_content :: bytes
  cf_deleted :: bool

record symbol_delta =
  sd_added :: "overlay_symbol list"
  sd_removed :: "overlay_symbol list"
  sd_modified :: "overlay_symbol list"

record overlay =
  ov_graph :: snapshot
  ov_delta :: symbol_delta

type_synonym head_parser = "changed_file \<Rightarrow> (overlay_symbol list \<times> overlay_edge list) res"

definition symbol_key :: "overlay_symbol \<Rightarrow> bytes" where
  "symbol_key s = os_path s @ CHR 0x00 # os_kind s @ CHR 0x00 # os_name s"

definition sort_overlay_symbols :: "overlay_symbol list \<Rightarrow> overlay_symbol list" where
  "sort_overlay_symbols = sort_by (\<lambda>a b. symbol_key a < symbol_key b)"

section \<open>Building the overlay\<close>

fun changed_paths :: "bytes set \<Rightarrow> changed_file list \<Rightarrow> bytes set res" where
  "changed_paths seen [] = Inr seen"
| "changed_paths seen (c # cs) =
     (if cf_path c = [] \<or> (\<not> cf_deleted c \<and> cf_blob_sha c = [])
      then Inl (Msg ''changed files require path and blob SHA'')
      else if cf_path c \<in> seen then Inl (MsgStr ''duplicate changed path %q'' (cf_path c))
      else changed_paths (insert (cf_path c) seen) cs)"

text \<open>The loop over the base symbols: ids to replace, symbols by key, symbols to keep.\<close>

fun split_base ::
    "bytes set \<Rightarrow> int set \<Rightarrow> (bytes \<times> overlay_symbol) list \<Rightarrow> overlay_symbol list \<Rightarrow> overlay_symbol list
     \<Rightarrow> int set \<times> (bytes \<times> overlay_symbol) list \<times> overlay_symbol list" where
  "split_base changed removed by_key kept [] = (removed, by_key, kept)"
| "split_base changed removed by_key kept (s # ss) =
     (if os_path s \<in> changed
      then split_base changed (insert (os_id s) removed) (AList.update (symbol_key s) s by_key) kept ss
      else split_base changed removed by_key (kept @ [s]) ss)"

record head_state =
  hs_symbols :: "overlay_symbol list"
  hs_edges :: "overlay_edge list"
  hs_added :: "overlay_symbol list"
  hs_modified :: "overlay_symbol list"
  hs_next :: int
  hs_seen :: "bytes set"
  hs_replacement :: "int \<Rightarrow> int"

definition add_head_symbol ::
    "(bytes \<times> overlay_symbol) list \<Rightarrow> overlay_symbol \<Rightarrow> head_state \<Rightarrow> head_state" where
  "add_head_symbol by_key s st =
     (let s = s\<lparr>os_id := hs_next st\<rparr>;
          key = symbol_key s;
          st = st\<lparr>hs_next := hs_next st - 1, hs_seen := insert key (hs_seen st),
                  hs_symbols := hs_symbols st @ [s]\<rparr>
      in case map_of by_key key of
           None \<Rightarrow> st\<lparr>hs_added := hs_added st @ [s]\<rparr>
         | Some old \<Rightarrow>
             let st = st\<lparr>hs_replacement := (hs_replacement st)(os_id old := os_id s)\<rparr> in
             if os_signature old \<noteq> os_signature s \<or> os_start_line old \<noteq> os_start_line s
                \<or> os_end_line old \<noteq> os_end_line s
             then st\<lparr>hs_modified := hs_modified st @ [s]\<rparr> else st)"

fun head_symbols ::
    "bytes \<Rightarrow> (bytes \<times> overlay_symbol) list \<Rightarrow> overlay_symbol list \<Rightarrow> (int \<Rightarrow> int) \<Rightarrow> head_state
     \<Rightarrow> ((int \<Rightarrow> int) \<times> head_state) res" where
  "head_symbols path by_key [] ids st = Inr (ids, st)"
| "head_symbols path by_key (s # ss) ids st =
     (if os_id s \<le> 0 \<or> os_path s \<noteq> path \<or> os_kind s = [] \<or> os_name s = [] \<or> ids (os_id s) \<noteq> 0
      then Inl (Msg ''overlay parser returned an invalid or duplicate symbol'')
      else head_symbols path by_key ss (ids(os_id s := hs_next st)) (add_head_symbol by_key s st))"

definition head_edge :: "(int \<Rightarrow> int) \<Rightarrow> overlay_edge \<Rightarrow> overlay_edge" where
  "head_edge ids e = e\<lparr>oe_source_id := ids (oe_source_id e),
     oe_target_id := (if ids (oe_target_id e) \<noteq> 0 then ids (oe_target_id e) else oe_target_id e)\<rparr>"

fun head_edges :: "(int \<Rightarrow> int) \<Rightarrow> overlay_edge list \<Rightarrow> overlay_edge list \<Rightarrow> overlay_edge list res" where
  "head_edges ids acc [] = Inr acc"
| "head_edges ids acc (e # es) =
     (if oe_source_id (head_edge ids e) = 0 then Inl (Msg ''overlay edge has an unknown source symbol'')
      else if oe_target_id (head_edge ids e) = 0 \<and> oe_target e = []
      then Inl (Msg ''overlay edge requires a resolved or unresolved target'')
      else head_edges ids (acc @ [head_edge ids e]) es)"

fun head_files ::
    "head_parser \<Rightarrow> (bytes \<times> overlay_symbol) list \<Rightarrow> changed_file list \<Rightarrow> head_state \<Rightarrow> head_state res" where
  "head_files parse by_key [] st = Inr st"
| "head_files parse by_key (c # cs) st =
     (if cf_deleted c then head_files parse by_key cs st
      else case parse c of
             Inl e \<Rightarrow> Inl (Wrapped (''parse graph overlay for '' @ cf_path c @ '': %w'') [] e)
           | Inr (symbols, edges) \<Rightarrow>
               (case head_symbols (cf_path c) by_key symbols (\<lambda>_. 0) st of
                  Inl e \<Rightarrow> Inl e
                | Inr (ids, st) \<Rightarrow>
                    (case head_edges ids (hs_edges st) edges of
                       Inl e \<Rightarrow> Inl e
                     | Inr es \<Rightarrow> head_files parse by_key cs (st\<lparr>hs_edges := es\<rparr>))))"

definition base_edge :: "int set \<Rightarrow> (int \<Rightarrow> int) \<Rightarrow> overlay_edge \<Rightarrow> overlay_edge" where
  "base_edge removed replacement e =
     e\<lparr>oe_source_id := (if oe_source_id e \<in> removed then replacement (oe_source_id e) else oe_source_id e),
       oe_target_id := (if oe_target_id e \<in> removed then replacement (oe_target_id e) else oe_target_id e)\<rparr>"

definition usable_edge :: "overlay_edge \<Rightarrow> bool" where
  "usable_edge e \<longleftrightarrow> oe_source_id e \<noteq> 0 \<and> (oe_target_id e \<noteq> 0 \<or> oe_target e \<noteq> [])"

definition build_overlay :: "snapshot \<Rightarrow> changed_file list \<Rightarrow> head_parser option \<Rightarrow> overlay res" where
  "build_overlay base changes parser =
     (case parser of
        None \<Rightarrow> Inl (Msg ''head graph parser is required'')
      | Some parse \<Rightarrow>
          (case changed_paths {} changes of
             Inl e \<Rightarrow> Inl e
           | Inr changed \<Rightarrow>
               (case split_base changed {} [] [] (sn_symbols base) of
                  (removed, by_key, kept) \<Rightarrow>
                    (case head_files parse by_key changes
                            \<lparr>hs_symbols = kept, hs_edges = [], hs_added = [], hs_modified = [], hs_next = -1,
                             hs_seen = {}, hs_replacement = (\<lambda>_. 0)\<rparr> of
                       Inl e \<Rightarrow> Inl e
                     | Inr st \<Rightarrow>
                         Inr \<lparr>ov_graph = \<lparr>sn_symbols = hs_symbols st,
                                sn_edges = hs_edges st @ filter usable_edge
                                  (map (base_edge removed (hs_replacement st)) (sn_edges base))\<rparr>,
                              ov_delta = \<lparr>sd_added = sort_overlay_symbols (hs_added st),
                                sd_removed = sort_overlay_symbols (map snd
                                  (filter (\<lambda>(key, _). key \<notin> hs_seen st) by_key)),
                                sd_modified = sort_overlay_symbols (hs_modified st)\<rparr>\<rparr>))))"

section \<open>The base split\<close>

lemma changed_paths_set:
  "changed_paths seen cs = Inr r \<Longrightarrow> r = seen \<union> cf_path ` set cs"
  by (induction seen cs rule: changed_paths.induct) (auto split: if_splits)

definition last_by_key :: "overlay_symbol list \<Rightarrow> (bytes \<rightharpoonup> overlay_symbol)" where
  "last_by_key ss = map_of (rev (map (\<lambda>s. (symbol_key s, s)) ss))"

lemma split_base_spec:
  assumes "split_base changed removed by_key kept ss = (removed', by_key', kept')"
    and "distinct (map fst by_key)"
  shows "removed' = removed \<union> os_id ` {s \<in> set ss. os_path s \<in> changed}"
    and "kept' = kept @ filter (\<lambda>s. os_path s \<notin> changed) ss"
    and "map_of by_key' = map_of by_key ++ last_by_key (filter (\<lambda>s. os_path s \<in> changed) ss)"
    and "distinct (map fst by_key')"
proof -
  have "removed' = removed \<union> os_id ` {s \<in> set ss. os_path s \<in> changed}
    \<and> kept' = kept @ filter (\<lambda>s. os_path s \<notin> changed) ss
    \<and> map_of by_key' = map_of by_key ++ last_by_key (filter (\<lambda>s. os_path s \<in> changed) ss)
    \<and> distinct (map fst by_key')"
    using assms
  proof (induction changed removed by_key kept ss rule: split_base.induct)
    case (1 changed removed by_key kept)
    then show ?case by (simp add: last_by_key_def)
  next
    case (2 changed removed by_key kept s ss)
    show ?case
    proof (cases "os_path s \<in> changed")
      case True
      have "map_of (AList.update (symbol_key s) s by_key) ++ last_by_key (filter (\<lambda>s. os_path s \<in> changed) ss)
          = map_of by_key ++ last_by_key (s # filter (\<lambda>s. os_path s \<in> changed) ss)"
        by (rule ext) (auto simp: update_conv' last_by_key_def map_add_def split: option.splits)
      moreover have "{x. (x = s \<or> x \<in> set ss) \<and> os_path x \<in> changed} = insert s {x \<in> set ss. os_path x \<in> changed}"
        using True by auto
      ultimately show ?thesis
        using "2.IH"(1) [OF True] "2.prems" True by (simp add: distinct_update)
    next
      case False
      then have "{x. (x = s \<or> x \<in> set ss) \<and> os_path x \<in> changed} = {x \<in> set ss. os_path x \<in> changed}" by auto
      then show ?thesis using "2.IH"(2) [OF False] "2.prems" False by simp
    qed
  qed
  then show "removed' = removed \<union> os_id ` {s \<in> set ss. os_path s \<in> changed}"
    "kept' = kept @ filter (\<lambda>s. os_path s \<notin> changed) ss"
    "map_of by_key' = map_of by_key ++ last_by_key (filter (\<lambda>s. os_path s \<in> changed) ss)"
    "distinct (map fst by_key')" by blast+
qed

section \<open>The head loop\<close>

definition alters :: "overlay_symbol \<Rightarrow> overlay_symbol \<Rightarrow> bool" where
  "alters old s \<longleftrightarrow> os_signature old \<noteq> os_signature s \<or> os_start_line old \<noteq> os_start_line s
     \<or> os_end_line old \<noteq> os_end_line s"

definition modifies :: "(bytes \<times> overlay_symbol) list \<Rightarrow> overlay_symbol \<Rightarrow> bool" where
  "modifies by_key s \<longleftrightarrow> (case map_of by_key (symbol_key s) of None \<Rightarrow> False | Some old \<Rightarrow> alters old s)"

text \<open>The state after the head symbols \<open>new\<close>: fresh consecutive ids and a delta against the base.\<close>

definition head_inv ::
    "(bytes \<times> overlay_symbol) list \<Rightarrow> overlay_symbol list \<Rightarrow> overlay_symbol list \<Rightarrow> head_state \<Rightarrow> bool" where
  "head_inv by_key kept new st \<longleftrightarrow>
     hs_symbols st = kept @ new
     \<and> map os_id new = map (\<lambda>i. - 1 - int i) [0..<length new]
     \<and> hs_next st = - 1 - int (length new)
     \<and> hs_seen st = symbol_key ` set new
     \<and> hs_added st = filter (\<lambda>s. map_of by_key (symbol_key s) = None) new
     \<and> hs_modified st = filter (modifies by_key) new
     \<and> (\<forall>k. hs_replacement st k = 0 \<or> hs_replacement st k \<in> os_id ` set new)"

lemma symbol_key_id [simp]: "symbol_key (s\<lparr>os_id := i\<rparr>) = symbol_key s"
  by (simp add: symbol_key_def)

lemma add_head_symbol_inv:
  assumes "head_inv by_key kept new st"
  shows "head_inv by_key kept (new @ [s\<lparr>os_id := hs_next st\<rparr>]) (add_head_symbol by_key s st)
    \<and> hs_edges (add_head_symbol by_key s st) = hs_edges st"
proof (cases "map_of by_key (symbol_key s)")
  case None
  then show ?thesis
    using assms by (auto simp: head_inv_def add_head_symbol_def Let_def modifies_def)
next
  case (Some old)
  then show ?thesis
    using assms by (auto simp: head_inv_def add_head_symbol_def Let_def modifies_def alters_def)
qed

lemma head_symbols_inv:
  assumes "head_symbols path by_key ss ids st = Inr (ids', st')" and "head_inv by_key kept new st"
  shows "\<exists>more. head_inv by_key kept (new @ more) st' \<and> hs_edges st' = hs_edges st
    \<and> map (\<lambda>s. s\<lparr>os_id := 0\<rparr>) more = map (\<lambda>s. s\<lparr>os_id := 0\<rparr>) ss
    \<and> (\<forall>s \<in> set more. os_path s = path)
    \<and> (\<forall>k. ids' k = ids k \<or> ids' k \<in> os_id ` set more)
    \<and> (\<forall>k \<in> os_id ` set ss. ids' k \<in> os_id ` set more)
    \<and> distinct (map os_id ss) \<and> (\<forall>k \<in> os_id ` set ss. ids k = 0)"
  using assms
proof (induction path by_key ss ids st arbitrary: new rule: head_symbols.induct)
  case (1 path by_key ids st)
  then show ?case by (intro exI [of _ "[]"]) simp
next
  case (2 path by_key s ss ids st)
  have ok: "\<not> (os_id s \<le> 0 \<or> os_path s \<noteq> path \<or> os_kind s = [] \<or> os_name s = [] \<or> ids (os_id s) \<noteq> 0)"
    using "2.prems"(1) by (auto split: if_splits)
  have run: "head_symbols path by_key ss (ids(os_id s := hs_next st)) (add_head_symbol by_key s st) = Inr (ids', st')"
    using "2.prems"(1) ok by simp
  have neg: "hs_next st < 0" using "2.prems"(2) by (simp add: head_inv_def)
  note step = add_head_symbol_inv [OF "2.prems"(2), of s]
  obtain more where more: "head_inv by_key kept ((new @ [s\<lparr>os_id := hs_next st\<rparr>]) @ more) st'"
      "hs_edges st' = hs_edges st" "map (\<lambda>s. s\<lparr>os_id := 0\<rparr>) more = map (\<lambda>s. s\<lparr>os_id := 0\<rparr>) ss"
      "\<forall>s \<in> set more. os_path s = path"
      "\<forall>k. ids' k = (ids(os_id s := hs_next st)) k \<or> ids' k \<in> os_id ` set more"
      "\<forall>k \<in> os_id ` set ss. ids' k \<in> os_id ` set more"
      "distinct (map os_id ss)" "\<forall>k \<in> os_id ` set ss. (ids(os_id s := hs_next st)) k = 0"
    using "2.IH" [OF ok run] step by metis
  have fresh: "os_id s \<notin> os_id ` set ss" using more(8) neg by force
  then have zero: "\<forall>k \<in> os_id ` set ss. ids k = 0" using more(8) by (metis fun_upd_other)
  have "ids' (os_id s) = hs_next st \<or> ids' (os_id s) \<in> os_id ` set more" using more(5) by (metis fun_upd_same)
  moreover have "\<forall>k. ids' k = ids k \<or> ids' k = hs_next st \<or> ids' k \<in> os_id ` set more"
    using more(5) by (metis fun_upd_apply)
  ultimately show ?case
    using more ok fresh zero by (intro exI [of _ "s\<lparr>os_id := hs_next st\<rparr> # more"]) auto
qed

lemma head_files_inv:
  assumes "head_files parse by_key cs st = Inr st'" and "head_inv by_key kept new st"
  shows "\<exists>more. head_inv by_key kept (new @ more) st'
    \<and> (\<forall>s \<in> set more. \<exists>c \<in> set cs. \<not> cf_deleted c \<and> os_path s = cf_path c)"
  using assms
proof (induction parse by_key cs st arbitrary: new rule: head_files.induct)
  case (1 parse by_key st)
  then show ?case by (intro exI [of _ "[]"]) simp
next
  case (2 parse by_key c cs st)
  show ?case
  proof (cases "cf_deleted c")
    case True
    then show ?thesis using "2.IH"(1) [OF True _ "2.prems"(2)] "2.prems"(1) by auto
  next
    case False
    obtain symbols edges ids st1 es where parse: "parse c = Inr (symbols, edges)"
        and syms: "head_symbols (cf_path c) by_key symbols (\<lambda>_. 0) st = Inr (ids, st1)"
        and es: "head_edges ids (hs_edges st1) edges = Inr es"
        and run: "head_files parse by_key cs (st1\<lparr>hs_edges := es\<rparr>) = Inr st'"
      using "2.prems"(1) False by (auto split: sum.splits prod.splits)
    obtain more where more: "head_inv by_key kept (new @ more) st1" "\<forall>s \<in> set more. os_path s = cf_path c"
      using head_symbols_inv [OF syms "2.prems"(2)] by blast
    have "head_inv by_key kept (new @ more) (st1\<lparr>hs_edges := es\<rparr>)" using more(1) by (simp add: head_inv_def)
    then obtain rest where "head_inv by_key kept ((new @ more) @ rest) st'"
        "\<forall>s \<in> set rest. \<exists>c \<in> set cs. \<not> cf_deleted c \<and> os_path s = cf_path c"
      using "2.IH"(2) [OF False parse refl syms refl es run] by blast
    then show ?thesis using more(2) False by (intro exI [of _ "more @ rest"]) auto
  qed
qed

lemma build_overlay_ok:
  assumes "build_overlay base changes (Some parse) = Inr ov"
  obtains removed by_key new st where
    "removed = os_id ` {s \<in> set (sn_symbols base). os_path s \<in> cf_path ` set changes}"
    and "map_of by_key = last_by_key (filter (\<lambda>s. os_path s \<in> cf_path ` set changes) (sn_symbols base))"
    and "distinct (map fst by_key)"
    and "head_files parse by_key changes
           \<lparr>hs_symbols = filter (\<lambda>s. os_path s \<notin> cf_path ` set changes) (sn_symbols base), hs_edges = [],
            hs_added = [], hs_modified = [], hs_next = -1, hs_seen = {}, hs_replacement = (\<lambda>_. 0)\<rparr> = Inr st"
    and "head_inv by_key (filter (\<lambda>s. os_path s \<notin> cf_path ` set changes) (sn_symbols base)) new st"
    and "\<forall>s \<in> set new. \<exists>c \<in> set changes. \<not> cf_deleted c \<and> os_path s = cf_path c"
    and "ov = \<lparr>ov_graph = \<lparr>sn_symbols = hs_symbols st,
                 sn_edges = hs_edges st @ filter usable_edge
                   (map (base_edge removed (hs_replacement st)) (sn_edges base))\<rparr>,
               ov_delta = \<lparr>sd_added = sort_overlay_symbols (hs_added st),
                 sd_removed = sort_overlay_symbols (map snd (filter (\<lambda>(key, _). key \<notin> hs_seen st) by_key)),
                 sd_modified = sort_overlay_symbols (hs_modified st)\<rparr>\<rparr>"
proof -
  obtain changed removed by_key kept st where c: "changed_paths {} changes = Inr changed"
      and split: "split_base changed {} [] [] (sn_symbols base) = (removed, by_key, kept)"
      and run: "head_files parse by_key changes
           \<lparr>hs_symbols = kept, hs_edges = [], hs_added = [], hs_modified = [], hs_next = -1,
            hs_seen = {}, hs_replacement = (\<lambda>_. 0)\<rparr> = Inr st"
      and ov: "ov = \<lparr>ov_graph = \<lparr>sn_symbols = hs_symbols st,
                 sn_edges = hs_edges st @ filter usable_edge
                   (map (base_edge removed (hs_replacement st)) (sn_edges base))\<rparr>,
               ov_delta = \<lparr>sd_added = sort_overlay_symbols (hs_added st),
                 sd_removed = sort_overlay_symbols (map snd (filter (\<lambda>(key, _). key \<notin> hs_seen st) by_key)),
                 sd_modified = sort_overlay_symbols (hs_modified st)\<rparr>\<rparr>"
    using assms by (auto simp: build_overlay_def split: sum.splits prod.splits)
  have changed: "changed = cf_path ` set changes" using changed_paths_set [OF c] by simp
  note parts = split_base_spec [OF split, simplified, unfolded changed]
  have "head_inv by_key kept [] \<lparr>hs_symbols = kept, hs_edges = [], hs_added = [], hs_modified = [],
      hs_next = -1, hs_seen = {}, hs_replacement = (\<lambda>_. 0)\<rparr>"
    by (simp add: head_inv_def)
  from head_files_inv [OF run this] obtain new where
    "head_inv by_key kept new st" "\<forall>s \<in> set new. \<exists>c \<in> set changes. \<not> cf_deleted c \<and> os_path s = cf_path c"
    by auto
  then show thesis using that [OF parts(1) parts(3) parts(4)] run ov by (simp add: parts(2) [symmetric])
qed

section \<open>Closed edges\<close>

text \<open>
  An edge is closed over a set of symbol ids when it starts in the set and either ends in it or
  names an unresolved target.
\<close>

definition closed_edge :: "int set \<Rightarrow> overlay_edge \<Rightarrow> bool" where
  "closed_edge ids e \<longleftrightarrow>
     oe_source_id e \<in> ids \<and> (oe_target_id e \<in> ids \<or> (oe_target_id e = 0 \<and> oe_target e \<noteq> []))"

text \<open>
  What the overlay relies on from the parser: a resolved target is a symbol of the same file, or a
  stored symbol of a file that the pull request does not touch.
\<close>

definition parser_targets_known :: "head_parser \<Rightarrow> int set \<Rightarrow> bool" where
  "parser_targets_known parse stored \<longleftrightarrow> (\<forall>c symbols edges. parse c = Inr (symbols, edges) \<longrightarrow>
     (\<forall>e \<in> set edges. oe_target_id e \<in> insert 0 (os_id ` set symbols \<union> stored)))"

lemma head_edges_closed:
  assumes "head_edges ids acc es = Inr r" and "\<forall>e \<in> set acc. closed_edge I e"
    and "\<forall>k. ids k = 0 \<or> ids k \<in> I"
    and "\<forall>e \<in> set es. oe_target_id e = 0 \<or> oe_target_id e \<in> I \<or> ids (oe_target_id e) \<noteq> 0"
  shows "\<forall>e \<in> set r. closed_edge I e"
  using assms
proof (induction ids acc es rule: head_edges.induct)
  case (1 ids acc)
  then show ?case by simp
next
  case (2 ids acc e es)
  have ok: "oe_source_id (head_edge ids e) \<noteq> 0" "\<not> (oe_target_id (head_edge ids e) = 0 \<and> oe_target e = [])"
    using "2.prems"(1) by (auto split: if_splits)
  have e: "oe_target_id e = 0 \<or> oe_target_id e \<in> I \<or> ids (oe_target_id e) \<noteq> 0" using "2.prems"(4) by simp
  have "closed_edge I (head_edge ids e)"
    using ok "2.prems"(3) e by (fastforce simp: closed_edge_def head_edge_def split: if_splits)
  then have "\<forall>e \<in> set (acc @ [head_edge ids e]). closed_edge I e" using "2.prems"(2) by auto
  then show ?case using "2.IH" [OF ok] "2.prems" ok by auto
qed

lemma head_inv_ids:
  assumes "head_inv by_key kept new st"
  shows "distinct (map os_id new)" and "\<forall>s \<in> set new. os_id s < 0"
proof -
  have eq: "map os_id new = map (\<lambda>i. - 1 - int i) [0..<length new]" using assms by (simp add: head_inv_def)
  show "distinct (map os_id new)" unfolding eq by (simp add: distinct_map inj_on_def)
  have "\<forall>i \<in> set (map os_id new). i < 0" unfolding eq by auto
  then show "\<forall>s \<in> set new. os_id s < 0" by auto
qed

lemma closed_edge_mono: "closed_edge I e \<Longrightarrow> I \<subseteq> J \<Longrightarrow> closed_edge J e"
  by (auto simp: closed_edge_def)

lemma head_files_closed:
  assumes "head_files parse by_key cs st = Inr st'" and "head_inv by_key kept new st"
    and "parser_targets_known parse (os_id ` set kept)"
    and "\<forall>e \<in> set (hs_edges st). closed_edge (os_id ` set (hs_symbols st)) e"
  shows "\<forall>e \<in> set (hs_edges st'). closed_edge (os_id ` set (hs_symbols st')) e"
  using assms
proof (induction parse by_key cs st arbitrary: new rule: head_files.induct)
  case (1 parse by_key st)
  then show ?case by simp
next
  case (2 parse by_key c cs st)
  show ?case
  proof (cases "cf_deleted c")
    case True
    then show ?thesis using "2.IH"(1) [OF True _ "2.prems"(2-4)] "2.prems"(1) by auto
  next
    case False
    obtain symbols edges ids st1 es where parse: "parse c = Inr (symbols, edges)"
        and syms: "head_symbols (cf_path c) by_key symbols (\<lambda>_. 0) st = Inr (ids, st1)"
        and es: "head_edges ids (hs_edges st1) edges = Inr es"
        and run: "head_files parse by_key cs (st1\<lparr>hs_edges := es\<rparr>) = Inr st'"
      using "2.prems"(1) False by (auto split: sum.splits prod.splits)
    obtain more where more: "head_inv by_key kept (new @ more) st1" "hs_edges st1 = hs_edges st"
        "\<forall>k. ids k = 0 \<or> ids k \<in> os_id ` set more" "\<forall>k \<in> os_id ` set symbols. ids k \<in> os_id ` set more"
      using head_symbols_inv [OF syms "2.prems"(2)] by blast
    let ?I = "os_id ` set (hs_symbols st1)"
    have sub: "os_id ` set (hs_symbols st) \<subseteq> ?I" "os_id ` set more \<subseteq> ?I" "os_id ` set kept \<subseteq> ?I"
      using "2.prems"(2) more(1) by (auto simp: head_inv_def)
    have neg: "\<forall>i \<in> os_id ` set more. i < 0" using head_inv_ids(2) [OF more(1)] by simp
    have "\<forall>e \<in> set es. closed_edge ?I e"
    proof (rule head_edges_closed [OF es])
      show "\<forall>e \<in> set (hs_edges st1). closed_edge ?I e"
        using "2.prems"(4) more(2) sub(1) closed_edge_mono by metis
      show "\<forall>k. ids k = 0 \<or> ids k \<in> ?I" using more(3) sub(2) by blast
      show "\<forall>e \<in> set edges. oe_target_id e = 0 \<or> oe_target_id e \<in> ?I \<or> ids (oe_target_id e) \<noteq> 0"
      proof
        fix e assume "e \<in> set edges"
        then have "oe_target_id e \<in> insert 0 (os_id ` set symbols \<union> os_id ` set kept)"
          using "2.prems"(3) parse unfolding parser_targets_known_def by blast
        then show "oe_target_id e = 0 \<or> oe_target_id e \<in> ?I \<or> ids (oe_target_id e) \<noteq> 0"
          using more(4) neg sub(3) by force
      qed
    qed
    moreover have "head_inv by_key kept (new @ more) (st1\<lparr>hs_edges := es\<rparr>)"
      using more(1) by (simp add: head_inv_def)
    ultimately show ?thesis
      using "2.IH"(2) [OF False parse refl syms refl es run _ "2.prems"(3)] by simp
  qed
qed

section \<open>Properties\<close>

text \<open>
  The overlay keeps exactly the base symbols of untouched files and adds head symbols of the
  changed files under fresh negative ids: ids stay unique, and no stored id of a changed file
  survives.
\<close>

theorem overlay_symbols_spec:
  assumes "build_overlay base changes (Some parse) = Inr ov"
    and "distinct (map os_id (sn_symbols base))" and "\<forall>s \<in> set (sn_symbols base). 0 < os_id s"
  shows "distinct (map os_id (sn_symbols (ov_graph ov)))
    \<and> filter (\<lambda>s. 0 < os_id s) (sn_symbols (ov_graph ov))
        = filter (\<lambda>s. os_path s \<notin> cf_path ` set changes) (sn_symbols base)
    \<and> (\<forall>s \<in> set (sn_symbols (ov_graph ov)). os_id s \<noteq> 0)
    \<and> (\<forall>s \<in> set (sn_symbols (ov_graph ov)). os_id s < 0 \<longrightarrow>
          (\<exists>c \<in> set changes. \<not> cf_deleted c \<and> os_path s = cf_path c))"
proof -
  let ?kept = "filter (\<lambda>s. os_path s \<notin> cf_path ` set changes) (sn_symbols base)"
  obtain by_key new st where inv: "head_inv by_key ?kept new st"
      and paths: "\<forall>s \<in> set new. \<exists>c \<in> set changes. \<not> cf_deleted c \<and> os_path s = cf_path c"
      and syms: "sn_symbols (ov_graph ov) = ?kept @ new"
  proof (rule build_overlay_ok [OF assms(1)], goal_cases)
    case prems: (1 removed by_key new st)
    have "sn_symbols (ov_graph ov) = ?kept @ new" using prems(6,8) by (simp add: head_inv_def)
    then show ?case using prems(1) [OF prems(6,7)] by blast
  qed
  note new = head_inv_ids [OF inv]
  have pos: "\<forall>s \<in> set ?kept. 0 < os_id s" using assms(3) by simp
  have "distinct (map os_id ?kept)" using assms(2) by (simp add: distinct_map_filter)
  moreover have "os_id ` set ?kept \<inter> os_id ` set new = {}" using pos new(2) by force
  ultimately have "distinct (map os_id (?kept @ new))" using new(1) by simp
  moreover have "filter (\<lambda>s. 0 < os_id s) new = []" using new(2) by (auto simp: filter_empty_conv)
  moreover have "filter (\<lambda>s. 0 < os_id s) ?kept = ?kept" using pos by (rule filter_True)
  ultimately show ?thesis
    using pos new(2) paths by (auto simp: syms simp del: filter_filter)
qed

text \<open>
  C28: The overlay has no dangling edge: when the stored edges connect stored symbols and the head
  parser resolves targets only to symbols that exist, every edge starts at a symbol of the overlay
  and ends at one or names an unresolved target.
\<close>

theorem overlay_edges_closed:
  assumes "build_overlay base changes (Some parse) = Inr ov"
    and "\<forall>e \<in> set (sn_edges base). closed_edge (os_id ` set (sn_symbols base)) e"
    and "parser_targets_known parse
           (os_id ` {s \<in> set (sn_symbols base). os_path s \<notin> cf_path ` set changes})"
  shows "\<forall>e \<in> set (sn_edges (ov_graph ov)). closed_edge (os_id ` set (sn_symbols (ov_graph ov))) e"
proof -
  let ?kept = "filter (\<lambda>s. os_path s \<notin> cf_path ` set changes) (sn_symbols base)"
  let ?start = "\<lparr>hs_symbols = ?kept, hs_edges = [], hs_added = [], hs_modified = [], hs_next = -1, hs_seen = {},
       hs_replacement = (\<lambda>_. 0)\<rparr>"
  obtain removed by_key new st where
      removed: "removed = os_id ` {s \<in> set (sn_symbols base). os_path s \<in> cf_path ` set changes}"
      and run: "head_files parse by_key changes ?start = Inr st"
      and inv: "head_inv by_key ?kept new st"
      and syms: "sn_symbols (ov_graph ov) = hs_symbols st"
      and edges: "sn_edges (ov_graph ov)
        = hs_edges st @ filter usable_edge (map (base_edge removed (hs_replacement st)) (sn_edges base))"
    by (rule build_overlay_ok [OF assms(1)]) auto
  let ?I = "os_id ` set (hs_symbols st)"
  have "head_inv by_key ?kept [] ?start" by (simp add: head_inv_def)
  then have head: "\<forall>e \<in> set (hs_edges st). closed_edge ?I e"
    using head_files_closed [OF run] assms(3) by simp
  have repl: "\<forall>k. hs_replacement st k = 0 \<or> hs_replacement st k \<in> ?I"
    using inv by (auto simp: head_inv_def)
  have kept: "i \<in> ?I" if "i \<in> os_id ` set (sn_symbols base)" "i \<notin> removed" for i
    using that inv by (auto simp: removed head_inv_def)
  have "closed_edge ?I (base_edge removed (hs_replacement st) e)"
    if "e \<in> set (sn_edges base)" "usable_edge (base_edge removed (hs_replacement st) e)" for e
  proof -
    have "closed_edge (os_id ` set (sn_symbols base)) e" using assms(2) that(1) by blast
    moreover have z: "0 \<notin> removed \<or> hs_replacement st 0 = 0 \<or> hs_replacement st 0 \<in> ?I" using repl by blast
    ultimately show ?thesis
      using that(2) repl kept
      by (simp add: closed_edge_def usable_edge_def base_edge_def split: if_splits) metis+
  qed
  then show ?thesis using head by (auto simp: syms edges)
qed

text \<open>
  The delta compares the changed files by path, kind and name: added are the head symbols with
  no base symbol of that key, modified those whose last base symbol of that key has another
  signature or other lines, removed the last base symbol of every key that the head no longer has.
\<close>

theorem overlay_delta_spec:
  assumes "build_overlay base changes (Some parse) = Inr ov"
    and "\<forall>s \<in> set (sn_symbols base). 0 < os_id s"
  shows "let old = last_by_key (filter (\<lambda>s. os_path s \<in> cf_path ` set changes) (sn_symbols base));
             head = {s \<in> set (sn_symbols (ov_graph ov)). os_id s < 0}
         in set (sd_added (ov_delta ov)) = {s \<in> head. old (symbol_key s) = None}
          \<and> set (sd_modified (ov_delta ov)) =
              {s \<in> head. \<exists>b. old (symbol_key s) = Some b \<and> alters b s}
          \<and> set (sd_removed (ov_delta ov)) = {b. \<exists>key. old key = Some b \<and> key \<notin> symbol_key ` head}"
proof -
  let ?kept = "filter (\<lambda>s. os_path s \<notin> cf_path ` set changes) (sn_symbols base)"
  let ?old = "last_by_key (filter (\<lambda>s. os_path s \<in> cf_path ` set changes) (sn_symbols base))"
  let ?head = "{s \<in> set (sn_symbols (ov_graph ov)). os_id s < 0}"
  obtain removed by_key new st where old: "map_of by_key = ?old" "distinct (map fst by_key)"
      and inv: "head_inv by_key ?kept new st"
      and ov: "sn_symbols (ov_graph ov) = hs_symbols st" "set (sd_added (ov_delta ov)) = set (hs_added st)"
        "set (sd_modified (ov_delta ov)) = set (hs_modified st)"
        "set (sd_removed (ov_delta ov)) = snd ` {x \<in> set by_key. fst x \<notin> hs_seen st}"
    by (rule build_overlay_ok [OF assms(1)]) (auto simp: sort_overlay_symbols_def case_prod_unfold)
  have head: "?head = set new"
    using inv assms(2) head_inv_ids(2) [OF inv] by (auto simp: ov(1) head_inv_def)
  have "snd ` {x \<in> set by_key. fst x \<notin> symbol_key ` set new}
      = {b. \<exists>key. map_of by_key key = Some b \<and> key \<notin> symbol_key ` set new}"
    using old(2) by (force simp: map_of_eq_Some_iff)
  moreover have "hs_seen st = symbol_key ` set new" "hs_added st = filter (\<lambda>s. ?old (symbol_key s) = None) new"
      "hs_modified st = filter (modifies by_key) new"
    using inv by (simp_all add: head_inv_def old(1))
  moreover have "modifies by_key s \<longleftrightarrow> (\<exists>b. ?old (symbol_key s) = Some b \<and> alters b s)" for s
    by (simp add: modifies_def old(1) split: option.splits)
  ultimately show ?thesis unfolding Let_def head by (simp add: ov(2-4) old(1))
qed

section \<open>An example, and two findings\<close>

definition overlay_fn :: "int \<Rightarrow> bytes \<Rightarrow> bytes \<Rightarrow> bytes \<Rightarrow> overlay_symbol" where
  "overlay_fn i path nm sig =
     \<lparr>os_id = i, os_path = path, os_kind = ''function'', os_name = nm, os_signature = sig,
      os_start_line = 1, os_end_line = 2\<rparr>"

definition sample_base :: snapshot where
  "sample_base =
     \<lparr>sn_symbols = [overlay_fn 1 ''a'' ''run'' ''s'', overlay_fn 2 ''b'' ''helper'' ''s''],
      sn_edges = [\<lparr>oe_source_id = 1, oe_target_id = 2, oe_target = [], oe_kind = ''calls''\<rparr>]\<rparr>"

definition sample_change :: "changed_file list" where
  "sample_change = [\<lparr>cf_path = ''a'', cf_blob_sha = ''1'', cf_content = [], cf_deleted = False\<rparr>]"

text \<open>The head of \<open>a\<close> still has \<open>run\<close>, which no longer calls anything.\<close>

definition sample_parser :: head_parser where
  "sample_parser c = Inr ([overlay_fn 10 ''a'' ''run'' ''s''], [])"

definition sample_overlay :: overlay where
  "sample_overlay =
     \<lparr>ov_graph = \<lparr>sn_symbols = [overlay_fn 2 ''b'' ''helper'' ''s'', overlay_fn (-1) ''a'' ''run'' ''s''],
        sn_edges = [\<lparr>oe_source_id = -1, oe_target_id = 2, oe_target = [], oe_kind = ''calls''\<rparr>]\<rparr>,
      ov_delta = \<lparr>sd_added = [], sd_removed = [], sd_modified = []\<rparr>\<rparr>"

lemma sample_build: "build_overlay sample_base sample_change (Some sample_parser) = Inr sample_overlay"
  by (simp add: build_overlay_def sample_base_def sample_change_def sample_parser_def sample_overlay_def
      overlay_fn_def add_head_symbol_def symbol_key_def Let_def base_edge_def usable_edge_def
      sort_overlay_symbols_def)

text \<open>
  The call that the head of the file no longer makes is still an edge of the overlay: stored edges
  out of a changed file are rewired to the replacement symbol, never dropped.
\<close>

lemma overlay_keeps_deleted_call:
  "\<exists>e \<in> set (sn_edges (ov_graph sample_overlay)). oe_source_id e = -1 \<and> oe_target_id e = 2
     \<and> (\<forall>symbols edges. sample_parser (hd sample_change) = Inr (symbols, edges) \<longrightarrow> edges = [])"
  by (simp add: sample_overlay_def sample_parser_def)

text \<open>
  Two symbols of a file with one kind and name share a key. When the head is the same file, the
  first of them counts as modified against the last, and a stored call to the first is lost.
\<close>

definition twin_base :: snapshot where
  "twin_base =
     \<lparr>sn_symbols = [overlay_fn 1 ''a'' ''String'' ''A'', overlay_fn 2 ''a'' ''String'' ''B'',
                    overlay_fn 3 ''b'' ''caller'' ''s''],
      sn_edges = [\<lparr>oe_source_id = 3, oe_target_id = 1, oe_target = [], oe_kind = ''calls''\<rparr>]\<rparr>"

definition twin_parser :: head_parser where
  "twin_parser c = Inr ([overlay_fn 1 ''a'' ''String'' ''A'', overlay_fn 2 ''a'' ''String'' ''B''], [])"

lemma overlay_twin_symbols:
  "\<exists>ov. build_overlay twin_base sample_change (Some twin_parser) = Inr ov
     \<and> sn_edges (ov_graph ov) = [] \<and> sd_modified (ov_delta ov) = [overlay_fn (-1) ''a'' ''String'' ''A'']"
  by (simp add: build_overlay_def twin_base_def sample_change_def twin_parser_def
      overlay_fn_def add_head_symbol_def symbol_key_def Let_def base_edge_def usable_edge_def
      sort_overlay_symbols_def)

theorem overlay_symbols_spec_witness:
  "distinct (map os_id (sn_symbols (ov_graph sample_overlay)))"
  using overlay_symbols_spec [OF sample_build] by (simp add: sample_base_def overlay_fn_def)

theorem overlay_edges_closed_witness:
  "closed_edge (os_id ` set (sn_symbols (ov_graph sample_overlay))) (hd (sn_edges (ov_graph sample_overlay)))"
proof -
  have "hd (sn_edges (ov_graph sample_overlay)) \<in> set (sn_edges (ov_graph sample_overlay))"
    by (simp add: sample_overlay_def)
  moreover have "\<forall>e \<in> set (sn_edges (ov_graph sample_overlay)).
      closed_edge (os_id ` set (sn_symbols (ov_graph sample_overlay))) e"
    by (rule overlay_edges_closed [OF sample_build])
      (auto simp: sample_base_def overlay_fn_def closed_edge_def parser_targets_known_def sample_parser_def)
  ultimately show ?thesis by blast
qed

theorem overlay_delta_spec_witness: "set (sd_removed (ov_delta sample_overlay)) = {}"
proof -
  have "\<forall>s \<in> set (sn_symbols sample_base). 0 < os_id s" by (simp add: sample_base_def overlay_fn_def)
  from overlay_delta_spec [OF sample_build this] show ?thesis
    by (auto simp: Let_def sample_base_def overlay_fn_def last_by_key_def sample_change_def
        sample_overlay_def symbol_key_def split: if_splits)
qed

end
