(* ===== verification/Tools.thy ===== *)
theory Tools
  imports GoStd "HOL-Library.AList"
begin

text \<open>
  \<open>internal/hosted/graph/tools.go\<close>: bounded traversal of the stored symbol graph. The reader behind
  the interface \<open>GraphReader\<close> is a parameter. A Go map filled only under fresh keys is a list.
\<close>

section \<open>Data\<close>

record tool_symbol =
  ts_id :: int
  ts_path :: bytes
  ts_kind :: bytes
  ts_name :: bytes
  ts_signature :: bytes

record tool_edge =
  te_source :: tool_symbol
  te_target :: tool_symbol
  te_kind :: bytes

datatype direction = Forward | Reverse

record tool_query =
  tq_installation_id :: int
  tq_repository_id :: int
  tq_symbol_id :: int
  tq_depth :: int
  tq_limit :: int

type_synonym graph_reader =
  "int \<Rightarrow> int \<Rightarrow> int list \<Rightarrow> direction \<Rightarrow> bytes list \<Rightarrow> tool_edge list res"

definition max_graph_depth :: int where "max_graph_depth = 2"

definition max_graph_results :: int where "max_graph_results = 250"

definition validate_tool_query :: "graph_reader option \<Rightarrow> tool_query \<Rightarrow> (graph_reader \<times> tool_query) res" where
  "validate_tool_query reader q =
     (case reader of
        None \<Rightarrow> Inl (Msg ''graph reader and tenant-scoped symbol are required'')
      | Some neighbors \<Rightarrow>
          if tq_installation_id q \<le> 0 \<or> tq_repository_id q \<le> 0 \<or> tq_symbol_id q \<le> 0
          then Inl (Msg ''graph reader and tenant-scoped symbol are required'')
          else let q = (if tq_depth q = 0 then q\<lparr>tq_depth := 1\<rparr> else q) in
               if tq_depth q < 1 \<or> tq_depth q > max_graph_depth
               then Inl (MsgNum ''graph depth must be between 1 and %d'' [max_graph_depth])
               else let q = (if tq_limit q = 0 then q\<lparr>tq_limit := 100\<rparr> else q) in
                    if tq_limit q < 1 \<or> tq_limit q > max_graph_results
                    then Inl (MsgNum ''graph result limit must be between 1 and %d'' [max_graph_results])
                    else Inr (neighbors, q))"

definition sorted_tool_symbols :: "tool_symbol list \<Rightarrow> tool_symbol list" where
  "sorted_tool_symbols = sort_by (\<lambda>a b. ts_id a < ts_id b)"

section \<open>Traversal\<close>

definition far_end :: "direction \<Rightarrow> tool_edge \<Rightarrow> tool_symbol" where
  "far_end d e = (case d of Reverse \<Rightarrow> te_source e | Forward \<Rightarrow> te_target e)"

definition near_end :: "direction \<Rightarrow> tool_edge \<Rightarrow> tool_symbol" where
  "near_end d e = (case d of Reverse \<Rightarrow> te_target e | Forward \<Rightarrow> te_source e)"

text \<open>The inner loop: ids seen, symbols found, ids of the next frontier.\<close>

fun visit ::
    "direction \<Rightarrow> int \<Rightarrow> tool_edge list \<Rightarrow> int set \<Rightarrow> tool_symbol list \<Rightarrow> int list
     \<Rightarrow> int set \<times> tool_symbol list \<times> int list" where
  "visit d limit [] seen found nexts = (seen, found, nexts)"
| "visit d limit (e # es) seen found nexts =
     (let s = far_end d e in
      if ts_id s \<le> 0 \<or> ts_id s \<in> seen then visit d limit es seen found nexts
      else if int (length found) + 1 \<ge> limit
      then (insert (ts_id s) seen, found @ [s], nexts @ [ts_id s])
      else visit d limit es (insert (ts_id s) seen) (found @ [s]) (nexts @ [ts_id s]))"

fun traverse_loop ::
    "graph_reader \<Rightarrow> tool_query \<Rightarrow> direction \<Rightarrow> bytes list \<Rightarrow> nat \<Rightarrow> int list \<Rightarrow> int set
     \<Rightarrow> tool_symbol list \<Rightarrow> tool_symbol list res" where
  "traverse_loop neighbors q d kinds 0 frontier seen found = Inr found"
| "traverse_loop neighbors q d kinds (Suc depth) frontier seen found =
     (if frontier = [] \<or> int (length found) \<ge> tq_limit q then Inr found
      else case neighbors (tq_installation_id q) (tq_repository_id q) frontier d kinds of
             Inl e \<Rightarrow> Inl (Wrapped ''query graph neighbors: %w'' [] e)
           | Inr es \<Rightarrow>
               (case visit d (tq_limit q) es seen found [] of
                  (seen', found', nexts) \<Rightarrow>
                    traverse_loop neighbors q d kinds depth nexts seen' found'))"

definition traverse ::
    "graph_reader option \<Rightarrow> tool_query \<Rightarrow> direction \<Rightarrow> bytes list \<Rightarrow> tool_symbol list res" where
  "traverse reader q d kinds =
     (case validate_tool_query reader q of
        Inl e \<Rightarrow> Inl e
      | Inr (neighbors, q) \<Rightarrow>
          (case traverse_loop neighbors q d kinds (nat (tq_depth q)) [tq_symbol_id q] {tq_symbol_id q} [] of
             Inl e \<Rightarrow> Inl e
           | Inr found \<Rightarrow> Inr (sorted_tool_symbols found)))"

definition callers :: "graph_reader option \<Rightarrow> tool_query \<Rightarrow> tool_symbol list res" where
  "callers reader q = traverse reader q Reverse [''calls'']"

definition callees :: "graph_reader option \<Rightarrow> tool_query \<Rightarrow> tool_symbol list res" where
  "callees reader q = traverse reader q Forward [''calls'']"

definition tests_for :: "graph_reader option \<Rightarrow> tool_query \<Rightarrow> tool_symbol list res" where
  "tests_for reader q = traverse reader (q\<lparr>tq_depth := 1\<rparr>) Reverse [''tests'']"

definition implementers :: "graph_reader option \<Rightarrow> tool_query \<Rightarrow> tool_symbol list res" where
  "implementers reader q = traverse reader (q\<lparr>tq_depth := 1\<rparr>) Reverse [''implements'']"

fun collect_siblings :: "int \<Rightarrow> int \<Rightarrow> (int \<times> tool_symbol) list \<Rightarrow> tool_edge list \<Rightarrow> (int \<times> tool_symbol) list" where
  "collect_siblings self limit found [] = found"
| "collect_siblings self limit found (e # es) =
     (if ts_id (te_target e) \<noteq> self \<and> int (length found) < limit
      then collect_siblings self limit (AList.update (ts_id (te_target e)) (te_target e) found) es
      else collect_siblings self limit found es)"

definition siblings :: "graph_reader option \<Rightarrow> tool_query \<Rightarrow> tool_symbol list res" where
  "siblings reader q =
     (case validate_tool_query reader q of
        Inl e \<Rightarrow> Inl e
      | Inr (neighbors, q) \<Rightarrow>
          (case neighbors (tq_installation_id q) (tq_repository_id q) [tq_symbol_id q] Reverse [''contains''] of
             Inl e \<Rightarrow> Inl e
           | Inr parents \<Rightarrow>
               let parent_ids = map (\<lambda>e. ts_id (te_source e)) parents in
               if parent_ids = [] then Inr []
               else case neighbors (tq_installation_id q) (tq_repository_id q) parent_ids Forward [''contains''] of
                      Inl e \<Rightarrow> Inl e
                    | Inr children \<Rightarrow>
                        Inr (sorted_tool_symbols
                          (map snd (collect_siblings (tq_symbol_id q) (tq_limit q) [] children)))))"

section \<open>What a reader serves\<close>

text \<open>
  The reader answers from one stored set of edges per tenant: asked for a list of ids, it returns
  the edges of the wanted kinds whose near end is one of them.
\<close>

definition serves :: "graph_reader \<Rightarrow> (int \<Rightarrow> int \<Rightarrow> tool_edge set) \<Rightarrow> bool" where
  "serves neighbors stored \<longleftrightarrow> (\<forall>i r ids d kinds es. neighbors i r ids d kinds = Inr es \<longrightarrow>
     set es = {e \<in> stored i r. ts_id (near_end d e) \<in> set ids \<and> te_kind e \<in> set kinds})"

definition hop :: "tool_edge set \<Rightarrow> direction \<Rightarrow> bytes set \<Rightarrow> (int \<times> int) set" where
  "hop E d kinds = {(ts_id (near_end d e), ts_id (far_end d e)) | e.
     e \<in> E \<and> te_kind e \<in> kinds \<and> 0 < ts_id (far_end d e)}"

text \<open>The ids within \<open>n\<close> hops of an id.\<close>

primrec reach_within :: "(int \<times> int) set \<Rightarrow> int \<Rightarrow> nat \<Rightarrow> int set" where
  "reach_within R a 0 = {a}"
| "reach_within R a (Suc n) = reach_within R a n \<union> R `` reach_within R a n"

lemma reach_within_mono: "m \<le> n \<Longrightarrow> reach_within R a m \<subseteq> reach_within R a n"
  by (induction n) (auto simp: le_Suc_eq)

lemma reach_within_least: "reach_within R a k \<subseteq> S \<Longrightarrow> R `` S \<subseteq> S \<Longrightarrow> reach_within R a (k + n) \<subseteq> S"
  by (induction n) auto

lemma visit_spec:
  assumes "visit d limit es seen found nexts = (seen', found', nexts')"
  shows "\<exists>new. found' = found @ new \<and> nexts' = nexts @ map ts_id new \<and> seen' = seen \<union> ts_id ` set new
    \<and> distinct (map ts_id new) \<and> ts_id ` set new \<inter> seen = {}
    \<and> (\<forall>s \<in> set new. 0 < ts_id s \<and> s \<in> far_end d ` set es)
    \<and> (int (length found) < limit \<longrightarrow> int (length found') \<le> limit)
    \<and> (int (length found') < limit \<longrightarrow> (\<forall>e \<in> set es. 0 < ts_id (far_end d e) \<longrightarrow> ts_id (far_end d e) \<in> seen'))"
  using assms
proof (induction d limit es seen found nexts rule: visit.induct)
  case (1 d limit seen found nexts)
  then show ?case by (intro exI [of _ "[]"]) simp
next
  case (2 d limit e es seen found nexts)
  let ?s = "far_end d e"
  show ?case
  proof (cases "ts_id ?s \<le> 0 \<or> ts_id ?s \<in> seen")
    case skip: True
    then have "visit d limit es seen found nexts = (seen', found', nexts')" using "2.prems" by (simp add: Let_def)
    from "2.IH"(1) [OF refl skip this] obtain new where
      "found' = found @ new \<and> nexts' = nexts @ map ts_id new \<and> seen' = seen \<union> ts_id ` set new
    \<and> distinct (map ts_id new) \<and> ts_id ` set new \<inter> seen = {}
    \<and> (\<forall>s \<in> set new. 0 < ts_id s \<and> s \<in> far_end d ` set es)
    \<and> (int (length found) < limit \<longrightarrow> int (length found') \<le> limit)
    \<and> (int (length found') < limit \<longrightarrow> (\<forall>e \<in> set es. 0 < ts_id (far_end d e) \<longrightarrow> ts_id (far_end d e) \<in> seen'))"
      by blast
    then show ?thesis using skip by (intro exI [of _ new]) auto
  next
    case fresh: False
    show ?thesis
    proof (cases "int (length found) + 1 \<ge> limit")
      case True
      then show ?thesis using fresh "2.prems" by (intro exI [of _ "[?s]"]) (auto simp: Let_def)
    next
      case False
      have "visit d limit es (insert (ts_id ?s) seen) (found @ [?s]) (nexts @ [ts_id ?s]) = (seen', found', nexts')"
        using "2.prems" fresh False by (simp add: Let_def)
      from "2.IH"(2) [OF refl fresh False this] obtain new where
        "found' = (found @ [?s]) @ new \<and> nexts' = (nexts @ [ts_id ?s]) @ map ts_id new
    \<and> seen' = insert (ts_id ?s) seen \<union> ts_id ` set new
    \<and> distinct (map ts_id new) \<and> ts_id ` set new \<inter> insert (ts_id ?s) seen = {}
    \<and> (\<forall>s \<in> set new. 0 < ts_id s \<and> s \<in> far_end d ` set es)
    \<and> (int (length (found @ [?s])) < limit \<longrightarrow> int (length found') \<le> limit)
    \<and> (int (length found') < limit \<longrightarrow> (\<forall>e \<in> set es. 0 < ts_id (far_end d e) \<longrightarrow> ts_id (far_end d e) \<in> seen'))"
        by blast
      then show ?thesis using fresh False by (intro exI [of _ "?s # new"]) auto
    qed
  qed
qed

text \<open>The breadth-first invariant after \<open>k\<close> rounds.\<close>

definition bfs_sound :: "(int \<times> int) set \<Rightarrow> int \<Rightarrow> int \<Rightarrow> nat \<Rightarrow> int list \<Rightarrow> tool_symbol list \<Rightarrow> bool" where
  "bfs_sound R a limit k frontier found \<longleftrightarrow>
     distinct (map ts_id found) \<and> a \<notin> ts_id ` set found \<and> (\<forall>s \<in> set found. 0 < ts_id s)
     \<and> int (length found) \<le> limit
     \<and> insert a (ts_id ` set found) \<subseteq> reach_within R a k \<and> set frontier \<subseteq> reach_within R a k"

definition bfs_full :: "(int \<times> int) set \<Rightarrow> int \<Rightarrow> nat \<Rightarrow> int list \<Rightarrow> int set \<Rightarrow> bool" where
  "bfs_full R a k frontier seen \<longleftrightarrow> reach_within R a k \<subseteq> seen \<and> R `` (seen - set frontier) \<subseteq> seen"

definition bfs_inv ::
    "(int \<times> int) set \<Rightarrow> int \<Rightarrow> int \<Rightarrow> nat \<Rightarrow> int list \<Rightarrow> int set \<Rightarrow> tool_symbol list \<Rightarrow> bool" where
  "bfs_inv R a limit k frontier seen found \<longleftrightarrow>
     insert a (ts_id ` set found) = seen \<and> bfs_sound R a limit k frontier found
     \<and> (int (length found) < limit \<longrightarrow> bfs_full R a k frontier seen)"

lemma bfs_round:
  assumes "bfs_inv R a limit k frontier seen found" and "int (length found) < limit"
    and "visit d limit es seen found [] = (seen', found', nexts)"
    and "R = hop E d kinds"
    and "set es = {e \<in> E. ts_id (near_end d e) \<in> set frontier \<and> te_kind e \<in> kinds}"
  shows "bfs_inv R a limit (Suc k) nexts seen' found'"
proof -
  obtain new where new: "found' = found @ new" "nexts = map ts_id new" "seen' = seen \<union> ts_id ` set new"
      "distinct (map ts_id new)" "ts_id ` set new \<inter> seen = {}"
      "\<forall>s \<in> set new. 0 < ts_id s \<and> s \<in> far_end d ` set es" "int (length found') \<le> limit"
      "int (length found') < limit \<longrightarrow> (\<forall>e \<in> set es. 0 < ts_id (far_end d e) \<longrightarrow> ts_id (far_end d e) \<in> seen')"
    using visit_spec [OF assms(3)] assms(2) by auto
  have seen: "insert a (ts_id ` set found) = seen" and sound: "bfs_sound R a limit k frontier found"
      and full: "bfs_full R a k frontier seen"
    using assms(1,2) by (auto simp: bfs_inv_def)
  have eq: "seen = reach_within R a k" using seen sound full by (auto simp: bfs_sound_def bfs_full_def)
  have front: "set frontier \<subseteq> seen" using sound by (simp add: bfs_sound_def eq)
  have hops: "ts_id ` set new \<subseteq> R `` set frontier"
  proof
    fix b assume "b \<in> ts_id ` set new"
    then obtain e where "e \<in> set es" "b = ts_id (far_end d e)" "0 < b" using new(6) by force
    then show "b \<in> R `` set frontier" unfolding assms(4,5) hop_def by blast
  qed
  have "R `` seen \<subseteq> seen'" if room: "int (length found') < limit"
  proof
    fix b assume "b \<in> R `` seen"
    then obtain c where c: "c \<in> seen" "(c, b) \<in> R" by auto
    show "b \<in> seen'"
    proof (cases "c \<in> set frontier")
      case True
      then obtain e where "e \<in> set es" "b = ts_id (far_end d e)" "0 < b"
        using c(2) by (auto simp: assms(4,5) hop_def)
      then show ?thesis using new(8) room by blast
    next
      case False
      then show ?thesis using c full new(3) unfolding bfs_full_def by blast
    qed
  qed
  note closed = this
  have sub: "seen \<union> ts_id ` set new \<subseteq> reach_within R a (Suc k)" using front hops by (auto simp: eq)
  have "bfs_sound R a limit (Suc k) nexts found'"
    using sound new(1-7) sub seen by (auto simp: bfs_sound_def)
  moreover have "bfs_full R a (Suc k) nexts seen'" if "int (length found') < limit"
    using closed [OF that] new(2,3) by (auto simp: bfs_full_def eq)
  moreover have "insert a (ts_id ` set found') = seen'" by (auto simp: new(1,3) simp flip: seen)
  ultimately show ?thesis by (simp add: bfs_inv_def)
qed

lemma traverse_loop_spec:
  assumes "traverse_loop neighbors q d kinds depth frontier seen found = Inr found'"
    and "bfs_inv R a (tq_limit q) k frontier seen found" and "serves neighbors stored"
    and "R = hop (stored (tq_installation_id q) (tq_repository_id q)) d (set kinds)"
  shows "distinct (map ts_id found') \<and> a \<notin> ts_id ` set found' \<and> (\<forall>s \<in> set found'. 0 < ts_id s)
    \<and> int (length found') \<le> tq_limit q
    \<and> ts_id ` set found' \<subseteq> reach_within R a (k + depth)
    \<and> (int (length found') < tq_limit q \<longrightarrow> insert a (ts_id ` set found') = reach_within R a (k + depth))"
  using assms
proof (induction neighbors q d kinds depth frontier seen found arbitrary: k rule: traverse_loop.induct)
  case (1 neighbors q d kinds frontier seen found)
  have "found' = found" using "1.prems"(1) by simp
  then show ?case using "1.prems"(2) unfolding bfs_inv_def bfs_sound_def bfs_full_def by auto
next
  case (2 neighbors q d kinds depth frontier seen found)
  have up: "reach_within R a k \<subseteq> reach_within R a (k + Suc depth)" by (rule reach_within_mono) simp
  show ?case
  proof (cases "frontier = [] \<or> int (length found) \<ge> tq_limit q")
    case True
    then have found: "found' = found" using "2.prems"(1) by simp
    have "reach_within R a (k + Suc depth) \<subseteq> seen" if room: "int (length found) < tq_limit q"
    proof -
      have full: "reach_within R a k \<subseteq> seen" "R `` seen \<subseteq> seen"
        using "2.prems"(2) room True by (auto simp: bfs_inv_def bfs_full_def)
      show ?thesis by (rule reach_within_least [OF full])
    qed
    note least = this
    have seen: "insert a (ts_id ` set found) = seen" and sound: "bfs_sound R a (tq_limit q) k frontier found"
      using "2.prems"(2) by (simp_all add: bfs_inv_def)
    have sub: "seen \<subseteq> reach_within R a (k + Suc depth)"
      using sound up unfolding bfs_sound_def seen by (metis subset_trans)
    then have "ts_id ` set found \<subseteq> reach_within R a (k + Suc depth)" using seen by blast
    moreover have "seen = reach_within R a (k + Suc depth)" if "int (length found) < tq_limit q"
      using sub least [OF that] by (rule subset_antisym)
    ultimately show ?thesis using sound unfolding found bfs_sound_def seen by simp
  next
    case False
    then obtain es where es: "neighbors (tq_installation_id q) (tq_repository_id q) frontier d kinds = Inr es"
      using "2.prems"(1) by (auto split: sum.splits)
    obtain seen' found1 nexts where v: "visit d (tq_limit q) es seen found [] = (seen', found1, nexts)"
      by (metis prod_cases3)
    have run: "traverse_loop neighbors q d kinds depth nexts seen' found1 = Inr found'"
      using "2.prems"(1) False es v by simp
    have "set es = {e \<in> stored (tq_installation_id q) (tq_repository_id q).
        ts_id (near_end d e) \<in> set frontier \<and> te_kind e \<in> set kinds}"
      using "2.prems"(3) es unfolding serves_def by blast
    then have inv: "bfs_inv R a (tq_limit q) (Suc k) nexts seen' found1"
      using bfs_round [OF "2.prems"(2) _ v "2.prems"(4)] False by simp
    show ?thesis using "2.IH" [OF False es v [symmetric] refl run inv "2.prems"(3,4)] by simp
  qed
qed

lemma validate_ok:
  assumes "validate_tool_query reader q = Inr (neighbors, q')"
  shows "reader = Some neighbors" and "0 < tq_symbol_id q'" and "tq_symbol_id q' = tq_symbol_id q"
    and "tq_installation_id q' = tq_installation_id q" and "tq_repository_id q' = tq_repository_id q"
    and "1 \<le> tq_depth q' \<and> tq_depth q' \<le> 2" and "1 \<le> tq_limit q' \<and> tq_limit q' \<le> 250"
    and "tq_depth q' = (if tq_depth q = 0 then 1 else tq_depth q)"
    and "tq_limit q' = (if tq_limit q = 0 then 100 else tq_limit q)"
  using assms
  by (auto simp: validate_tool_query_def Let_def max_graph_depth_def max_graph_results_def
      split: option.splits if_splits)

definition asked_depth :: "tool_query \<Rightarrow> nat" where
  "asked_depth q = (if tq_depth q = 0 then 1 else nat (tq_depth q))"

definition asked_limit :: "tool_query \<Rightarrow> int" where
  "asked_limit q = (if tq_limit q = 0 then 100 else tq_limit q)"

text \<open>
  C5: A traversal against a reader that serves a stored graph returns symbols in id order, without
  repetition and without the queried one, at most the limit and never more than 250; each is within
  the asked number of hops, at most two, and when fewer than the limit came back, every symbol that
  is that close was returned.
\<close>

theorem traverse_sound_complete:
  assumes "traverse (Some neighbors) q d kinds = Inr found" and "serves neighbors stored"
    and "R = hop (stored (tq_installation_id q) (tq_repository_id q)) d (set kinds)"
  shows "sorted (map ts_id found) \<and> distinct (map ts_id found) \<and> tq_symbol_id q \<notin> ts_id ` set found
    \<and> int (length found) \<le> asked_limit q \<and> length found \<le> 250 \<and> asked_depth q \<le> 2
    \<and> ts_id ` set found \<subseteq> reach_within R (tq_symbol_id q) (asked_depth q)
    \<and> (int (length found) < asked_limit q \<longrightarrow>
         insert (tq_symbol_id q) (ts_id ` set found) = reach_within R (tq_symbol_id q) (asked_depth q))"
proof -
  obtain q' raw where v: "validate_tool_query (Some neighbors) q = Inr (neighbors, q')"
      and run: "traverse_loop neighbors q' d kinds (nat (tq_depth q')) [tq_symbol_id q'] {tq_symbol_id q'} []
        = Inr raw"
      and found: "found = sorted_tool_symbols raw"
    using assms(1) validate_ok(1) by (fastforce simp: traverse_def split: sum.splits)
  note ok = validate_ok [OF v]
  have depth: "nat (tq_depth q') = asked_depth q" and limit: "tq_limit q' = asked_limit q"
    using ok(8,9) by (auto simp: asked_depth_def asked_limit_def)
  have "bfs_inv R (tq_symbol_id q) (tq_limit q') 0 [tq_symbol_id q'] {tq_symbol_id q'} []"
    using ok(3,7) by (simp add: bfs_inv_def bfs_sound_def bfs_full_def)
  from traverse_loop_spec [OF run this assms(2)] have
    spec: "distinct (map ts_id raw) \<and> tq_symbol_id q \<notin> ts_id ` set raw \<and> (\<forall>s \<in> set raw. 0 < ts_id s)
    \<and> int (length raw) \<le> asked_limit q
    \<and> ts_id ` set raw \<subseteq> reach_within R (tq_symbol_id q) (asked_depth q)
    \<and> (int (length raw) < asked_limit q \<longrightarrow>
         insert (tq_symbol_id q) (ts_id ` set raw) = reach_within R (tq_symbol_id q) (asked_depth q))"
    using assms(3) ok(4,5) depth limit by simp
  have "mset (map ts_id (sorted_tool_symbols raw)) = mset (map ts_id raw)"
    by (simp add: sorted_tool_symbols_def)
  then have "distinct (map ts_id (sorted_tool_symbols raw)) = distinct (map ts_id raw)"
    by (rule mset_eq_imp_distinct_iff)
  moreover have "sorted (map ts_id (sorted_tool_symbols raw))"
    using weak_order.ordered_sort_by [OF weak_order_key, of ts_id raw]
    by (simp add: sorted_tool_symbols_def ordered_def sorted_map linorder_not_less)
  moreover have "length (sorted_tool_symbols raw) = length raw" "set (sorted_tool_symbols raw) = set raw"
    by (simp_all add: sorted_tool_symbols_def)
  moreover have "asked_limit q \<le> 250" "asked_depth q \<le> 2" using ok(6,7) limit depth by auto
  ultimately show ?thesis using spec by (simp add: found)
qed

text \<open>A reader over one list of edges, for evaluation.\<close>

definition edge_list_reader :: "tool_edge list \<Rightarrow> graph_reader" where
  "edge_list_reader E i r ids d kinds =
     Inr (filter (\<lambda>e. ts_id (near_end d e) \<in> set ids \<and> te_kind e \<in> set kinds) E)"

lemma edge_list_reader_serves: "serves (edge_list_reader E) (\<lambda>_ _. set E)"
  by (auto simp: serves_def edge_list_reader_def)

definition tool_fn :: "int \<Rightarrow> tool_symbol" where
  "tool_fn i = \<lparr>ts_id = i, ts_path = ''p'', ts_kind = ''function'', ts_name = ''f'', ts_signature = []\<rparr>"

definition sample_edges :: "tool_edge list" where
  "sample_edges =
     [\<lparr>te_source = tool_fn 3, te_target = tool_fn 2, te_kind = ''calls''\<rparr>,
      \<lparr>te_source = tool_fn 2, te_target = tool_fn 1, te_kind = ''calls''\<rparr>,
      \<lparr>te_source = tool_fn 1, te_target = tool_fn 1, te_kind = ''calls''\<rparr>,
      \<lparr>te_source = tool_fn 4, te_target = tool_fn 3, te_kind = ''calls''\<rparr>]"

definition sample_query :: tool_query where
  "sample_query = \<lparr>tq_installation_id = 1, tq_repository_id = 1, tq_symbol_id = 1, tq_depth = 2, tq_limit = 0\<rparr>"

lemma sample_callers:
  "callers (Some (edge_list_reader sample_edges)) sample_query = Inr [tool_fn 2, tool_fn 3]"
  by code_simp

theorem traverse_sound_complete_witness:
  "\<exists>R. insert 1 {2, 3} = reach_within R 1 2
     \<and> R = hop (set sample_edges) Reverse {''calls''}"
  using traverse_sound_complete [OF sample_callers [unfolded callers_def] edge_list_reader_serves refl]
  by (auto simp: sample_query_def asked_depth_def asked_limit_def tool_fn_def)

text \<open>Siblings never name the queried symbol, and only children of its parents come back.\<close>

lemma set_alist_update: "set (AList.update k v al) \<subseteq> insert (k, v) (set al)"
  by (induction al) auto

lemma collect_siblings_spec:
  assumes "\<forall>(i, s) \<in> set found. i = ts_id s \<and> i \<noteq> self \<and> s \<in> S" and "te_target ` set es \<subseteq> S"
  shows "\<forall>(i, s) \<in> set (collect_siblings self limit found es). i = ts_id s \<and> i \<noteq> self \<and> s \<in> S"
  using assms
proof (induction self limit found es rule: collect_siblings.induct)
  case (1 self limit found)
  then show ?case by simp
next
  case (2 self limit found e es)
  show ?case
  proof (cases "ts_id (te_target e) \<noteq> self \<and> int (length found) < limit")
    case True
    have "\<forall>(i, s) \<in> set (AList.update (ts_id (te_target e)) (te_target e) found).
        i = ts_id s \<and> i \<noteq> self \<and> s \<in> S"
      using "2.prems" True set_alist_update [of "ts_id (te_target e)" "te_target e" found] by auto
    then show ?thesis using "2.IH"(1) [OF True] "2.prems"(2) True by simp
  next
    case False
    then show ?thesis using "2.IH"(2) [OF False] "2.prems" by auto
  qed
qed

lemma siblings_spec:
  assumes "siblings (Some neighbors) q = Inr found" and "serves neighbors stored"
  shows "\<forall>s \<in> set found. ts_id s \<noteq> tq_symbol_id q
    \<and> (\<exists>up \<in> stored (tq_installation_id q) (tq_repository_id q).
         \<exists>down \<in> stored (tq_installation_id q) (tq_repository_id q).
           te_kind up = ''contains'' \<and> te_kind down = ''contains'' \<and> te_target down = s
           \<and> ts_id (te_target up) = tq_symbol_id q \<and> ts_id (te_source up) = ts_id (te_source down))"
proof -
  obtain q' where v: "validate_tool_query (Some neighbors) q = Inr (neighbors, q')"
    using assms(1) validate_ok(1) by (fastforce simp: siblings_def split: sum.splits)
  note ok = validate_ok [OF v]
  obtain parents where parents: "neighbors (tq_installation_id q) (tq_repository_id q) [tq_symbol_id q]
      Reverse [''contains''] = Inr parents"
    using assms(1) v ok(3-5) by (auto simp: siblings_def split: sum.splits)
  show ?thesis
  proof (cases "parents = []")
    case True
    then show ?thesis using assms(1) v ok(3-5) parents by (simp add: siblings_def)
  next
    case False
    obtain children where children: "neighbors (tq_installation_id q) (tq_repository_id q)
        (map (\<lambda>e. ts_id (te_source e)) parents) Forward [''contains''] = Inr children"
        and found: "set found = snd ` set (collect_siblings (tq_symbol_id q) (tq_limit q') [] children)"
      using assms(1) v ok(3-5) parents False
      by (auto simp: siblings_def Let_def sorted_tool_symbols_def split: sum.splits)
    have "set parents = {e \<in> stored (tq_installation_id q) (tq_repository_id q).
        ts_id (te_target e) = tq_symbol_id q \<and> te_kind e = ''contains''}"
      using assms(2) parents unfolding serves_def by (fastforce simp: near_end_def)
    moreover have "set children = {e \<in> stored (tq_installation_id q) (tq_repository_id q).
        ts_id (te_source e) \<in> (\<lambda>e. ts_id (te_source e)) ` set parents \<and> te_kind e = ''contains''}"
      using assms(2) children unfolding serves_def by (fastforce simp: near_end_def)
    moreover have "\<forall>s \<in> set found. ts_id s \<noteq> tq_symbol_id q \<and> s \<in> te_target ` set children"
      using collect_siblings_spec [of "[]" "tq_symbol_id q" "te_target ` set children" children "tq_limit q'"]
      by (auto simp: found)
    ultimately show ?thesis by force
  qed
qed

end
