(* ===== verification/Billing.thy ===== *)
theory Billing
  imports GoStd "HOL-Library.Word"
begin

text \<open>
  \<open>internal/hosted/billing\<close>: the credit ledger (\<open>ledger.go\<close>) and the gate in front of every review
  (\<open>gate.go\<close>). Credits are \<open>int64\<close> and are kept as \<open>64 word\<close>, so negation and subtraction wrap as
  they do in Go; comparisons are signed. Stores are parameters that pass their state explicitly, under a
  contract that a journal keeps.
\<close>

section \<open>The ledger\<close>

datatype transaction_kind = Credit_Grant | Credit_Reserve | Credit_Settle | Credit_Refund

record transaction =
  tx_id :: bytes
  tx_installation_id :: int
  tx_review_id :: bytes
  tx_idempotency_key :: bytes
  tx_kind :: transaction_kind
  tx_credits :: "64 word"

type_synonym 's ledger_append = "'s \<Rightarrow> transaction \<Rightarrow> 's \<times> (transaction \<times> bool) res"
type_synonym 's ledger_reserve = "'s \<Rightarrow> transaction \<Rightarrow> 64 word \<Rightarrow> 's \<times> (transaction \<times> bool) res"

record 's ledger_store =
  st_append :: "'s ledger_append"
  st_reserve :: "'s ledger_reserve"

definition grant ::
    "'s ledger_store option \<Rightarrow> 's \<Rightarrow> int \<Rightarrow> 64 word \<Rightarrow> bytes \<Rightarrow> 's \<times> (transaction \<times> bool) res" where
  "grant store s installation credits key =
     (case store of
        None \<Rightarrow> (s, Inl (Msg ''ledger store, tenant, positive credits, and idempotency key are required''))
      | Some st \<Rightarrow>
          if installation \<le> 0 \<or> sint credits \<le> 0 \<or> key = []
          then (s, Inl (Msg ''ledger store, tenant, positive credits, and idempotency key are required''))
          else st_append st s \<lparr>tx_id = [], tx_installation_id = installation, tx_review_id = [],
                 tx_idempotency_key = key, tx_kind = Credit_Grant, tx_credits = credits\<rparr>)"

definition reserve ::
    "'s ledger_store option \<Rightarrow> 's \<Rightarrow> int \<Rightarrow> bytes \<Rightarrow> 64 word \<Rightarrow> bytes \<Rightarrow> 's \<times> (transaction \<times> bool) res" where
  "reserve store s installation review credits key =
     (case store of
        None \<Rightarrow> (s, Inl (Msg ''ledger store, tenant, review, positive credits, and idempotency key are required''))
      | Some st \<Rightarrow>
          if installation \<le> 0 \<or> review = [] \<or> sint credits \<le> 0 \<or> key = []
          then (s, Inl (Msg ''ledger store, tenant, review, positive credits, and idempotency key are required''))
          else st_reserve st s \<lparr>tx_id = [], tx_installation_id = installation, tx_review_id = review,
                 tx_idempotency_key = key, tx_kind = Credit_Reserve, tx_credits = - credits\<rparr> credits)"

definition valid_reservation :: "transaction \<Rightarrow> bool" where
  "valid_reservation e \<longleftrightarrow>
     \<not> (tx_installation_id e \<le> 0 \<or> tx_review_id e = [] \<or> tx_kind e \<noteq> Credit_Reserve \<or> sint (tx_credits e) \<ge> 0)"

definition settle ::
    "'s ledger_store option \<Rightarrow> 's \<Rightarrow> transaction \<Rightarrow> 64 word \<Rightarrow> bytes \<Rightarrow> 's \<times> (transaction \<times> bool) res" where
  "settle store s reservation actual key =
     (case store of
        None \<Rightarrow> (s, Inl (Msg ''ledger store is required''))
      | Some st \<Rightarrow>
          if \<not> valid_reservation reservation \<or> sint actual < 0 \<or> key = []
          then (s, Inl (Msg ''valid reservation, non-negative actual credits, and idempotency key are required''))
          else st_append st s \<lparr>tx_id = [], tx_installation_id = tx_installation_id reservation,
                 tx_review_id = tx_review_id reservation, tx_idempotency_key = key,
                 tx_kind = Credit_Settle, tx_credits = - tx_credits reservation - actual\<rparr>)"

definition refund ::
    "'s ledger_store option \<Rightarrow> 's \<Rightarrow> transaction \<Rightarrow> bytes \<Rightarrow> 's \<times> (transaction \<times> bool) res" where
  "refund store s reservation key =
     (case store of
        None \<Rightarrow> (s, Inl (Msg ''ledger store is required''))
      | Some st \<Rightarrow>
          if \<not> valid_reservation reservation \<or> key = []
          then (s, Inl (Msg ''valid reservation and idempotency key are required''))
          else st_append st s \<lparr>tx_id = [], tx_installation_id = tx_installation_id reservation,
                 tx_review_id = tx_review_id reservation, tx_idempotency_key = key,
                 tx_kind = Credit_Refund, tx_credits = - tx_credits reservation\<rparr>)"

section \<open>Signed arithmetic\<close>

lemma sint_diff_small:
  fixes a b :: "64 word"
  assumes "- (2 ^ 63) \<le> sint a - sint b" and "sint a - sint b < 2 ^ 63"
  shows "sint (a - b) = sint a - sint b"
  using assms by (simp add: sint_word_ariths signed_take_bit_int_eq_self)

lemma sint64_range: "- (2 ^ 63) \<le> sint (a :: 64 word) \<and> sint a < 2 ^ 63"
  using sint_ge [of a] sint_lt [of a] by simp

lemma sint_uminus_neg: "0 < sint (a :: 64 word) \<Longrightarrow> sint (- a) < 0"
  using sint_diff_small [of 0 a] sint64_range [of a] by simp

section \<open>The contract of a ledger store\<close>

text \<open>
  What the comments of \<open>LedgerStore\<close> promise. \<open>balance\<close> is what \<open>Balance\<close> reads for a tenant, \<open>entry\<close> what is
  stored for a tenant under an idempotency key. A new entry changes the balance of its tenant by its
  signed credits and is stored under a key that was free; a repeated key answers with the stored
  entry; a failure, or an answer from the store, changes nothing. A reservation is new only when
  the tenant has at least the required credits.
\<close>

definition accounted ::
    "('s \<Rightarrow> int \<Rightarrow> int) \<Rightarrow> ('s \<Rightarrow> int \<Rightarrow> bytes \<Rightarrow> transaction option) \<Rightarrow> 's \<Rightarrow> transaction \<Rightarrow> 's \<Rightarrow> (transaction \<times> bool) res \<Rightarrow> bool" where
  "accounted balance entry s e s' r =
     (let i = tx_installation_id e; key = tx_idempotency_key e in
      case r of
        Inr (e', True) \<Rightarrow> entry s i key = None \<and> (\<exists>id. e' = e\<lparr>tx_id := id\<rparr>)
          \<and> balance s' = (balance s)(i := balance s i + sint (tx_credits e))
          \<and> entry s' = (entry s)(i := (entry s i)(key \<mapsto> e'))
      | Inr (e', False) \<Rightarrow> entry s i key = Some e' \<and> balance s' = balance s \<and> entry s' = entry s
      | Inl _ \<Rightarrow> balance s' = balance s \<and> entry s' = entry s)"

definition created :: "(transaction \<times> bool) res \<Rightarrow> bool" where
  "created r = (case r of Inr (_, fresh) \<Rightarrow> fresh | Inl _ \<Rightarrow> False)"

lemma created_iff: "created r \<longleftrightarrow> (\<exists>e. r = Inr (e, True))"
  by (cases r) (auto simp: created_def)

locale ledger_contract =
  fixes store :: "'s ledger_store"
    and balance :: "'s \<Rightarrow> int \<Rightarrow> int"
    and entry :: "'s \<Rightarrow> int \<Rightarrow> bytes \<Rightarrow> transaction option"
  assumes append_accounted: "st_append store s e = (s', r) \<Longrightarrow> accounted balance entry s e s' r"
    and reserve_accounted: "st_reserve store s e required = (s', r) \<Longrightarrow> accounted balance entry s e s' r"
    and reserve_covered: "st_reserve store s e required = (s', r) \<Longrightarrow> created r \<Longrightarrow>
          sint required \<le> balance s (tx_installation_id e)"

section \<open>Calls of the ledger\<close>

datatype ledger_call =
    Call_Grant int "64 word" bytes
  | Call_Reserve int bytes "64 word" bytes
  | Call_Settle transaction "64 word" bytes
  | Call_Refund transaction bytes

fun run_call :: "'s ledger_store option \<Rightarrow> 's \<Rightarrow> ledger_call \<Rightarrow> 's \<times> (transaction \<times> bool) res" where
  "run_call store s (Call_Grant i c key) = grant store s i c key"
| "run_call store s (Call_Reserve i review c key) = reserve store s i review c key"
| "run_call store s (Call_Settle e actual key) = settle store s e actual key"
| "run_call store s (Call_Refund e key) = refund store s e key"

text \<open>The states before the calls of a run, with the calls and their results.\<close>

fun ledger_run ::
    "'s ledger_store \<Rightarrow> 's \<Rightarrow> ledger_call list \<Rightarrow> 's \<times> ('s \<times> ledger_call \<times> (transaction \<times> bool) res) list" where
  "ledger_run store s [] = (s, [])"
| "ledger_run store s (c # cs) =
     (case run_call (Some store) s c of
        (s1, r) \<Rightarrow> (case ledger_run store s1 cs of (s2, steps) \<Rightarrow> (s2, (s, c, r) # steps)))"

text \<open>What a call is worth to its tenant, in terms of its arguments alone.\<close>

fun call_tenant :: "ledger_call \<Rightarrow> int" where
  "call_tenant (Call_Grant i c key) = i"
| "call_tenant (Call_Reserve i review c key) = i"
| "call_tenant (Call_Settle e actual key) = tx_installation_id e"
| "call_tenant (Call_Refund e key) = tx_installation_id e"

fun call_key :: "ledger_call \<Rightarrow> bytes" where
  "call_key (Call_Grant i c key) = key"
| "call_key (Call_Reserve i review c key) = key"
| "call_key (Call_Settle e actual key) = key"
| "call_key (Call_Refund e key) = key"

fun call_kind :: "ledger_call \<Rightarrow> transaction_kind" where
  "call_kind (Call_Grant i c key) = Credit_Grant"
| "call_kind (Call_Reserve i review c key) = Credit_Reserve"
| "call_kind (Call_Settle e actual key) = Credit_Settle"
| "call_kind (Call_Refund e key) = Credit_Refund"

fun call_change :: "ledger_call \<Rightarrow> int" where
  "call_change (Call_Grant i c key) = sint c"
| "call_change (Call_Reserve i review c key) = - sint c"
| "call_change (Call_Settle e actual key) = - sint (tx_credits e) - sint actual"
| "call_change (Call_Refund e key) = - sint (tx_credits e)"

text \<open>When it may be recorded, given the balances before it.\<close>

fun call_proper :: "(int \<Rightarrow> int) \<Rightarrow> ledger_call \<Rightarrow> bool" where
  "call_proper balances (Call_Grant i c key) \<longleftrightarrow> 0 < i \<and> 0 < sint c \<and> key \<noteq> []"
| "call_proper balances (Call_Reserve i review c key) \<longleftrightarrow>
     0 < i \<and> review \<noteq> [] \<and> 0 < sint c \<and> sint c \<le> balances i \<and> key \<noteq> []"
| "call_proper balances (Call_Settle e actual key) \<longleftrightarrow>
     0 < tx_installation_id e \<and> tx_review_id e \<noteq> [] \<and> tx_kind e = Credit_Reserve \<and> sint (tx_credits e) < 0
     \<and> 0 \<le> sint actual \<and> key \<noteq> []"
| "call_proper balances (Call_Refund e key) \<longleftrightarrow>
     0 < tx_installation_id e \<and> tx_review_id e \<noteq> [] \<and> tx_kind e = Credit_Reserve \<and> sint (tx_credits e) < 0 \<and> key \<noteq> []"

text \<open>The smallest \<open>int64\<close> has no negation; \<open>Reserve\<close> never makes a reservation of it.\<close>

fun negatable :: "ledger_call \<Rightarrow> bool" where
  "negatable (Call_Settle e actual key) \<longleftrightarrow> sint (tx_credits e) \<noteq> - (2 ^ 63)"
| "negatable (Call_Refund e key) \<longleftrightarrow> sint (tx_credits e) \<noteq> - (2 ^ 63)"
| "negatable _ \<longleftrightarrow> True"

lemma sint_uminus_small: "sint (a :: 64 word) \<noteq> - (2 ^ 63) \<Longrightarrow> sint (- a) = - sint a"
  using sint_diff_small [of 0 a] sint64_range [of a] by simp

lemma sint_settled:
  fixes a b :: "64 word"
  assumes "sint a < 0" "sint a \<noteq> - (2 ^ 63)" "0 \<le> sint b"
  shows "sint (- a - b) = - sint a - sint b"
  using sint_diff_small [of "- a" b] sint_uminus_small [OF assms(2)] sint64_range [of a] sint64_range [of b] assms by simp

context ledger_contract
begin

text \<open>A call hands at most one entry to the store; it is for the tenant and under the key of the call.\<close>

lemma run_call_asks:
  assumes "run_call (Some store) s c = (s', r)" and "negatable c"
  obtains err where "s' = s" and "r = Inl err"
  | e where "accounted balance entry s e s' r" and "tx_installation_id e = call_tenant c" and "tx_idempotency_key e = call_key c"
      and "tx_kind e = call_kind c" and "sint (tx_credits e) = call_change c" and "created r \<longrightarrow> call_proper (balance s) c"
proof (cases c)
  case (Call_Grant i cr key)
  show ?thesis
  proof (cases "i \<le> 0 \<or> sint cr \<le> 0 \<or> key = []")
    case True
    then show ?thesis using assms Call_Grant that(1) by (auto simp: grant_def)
  next
    case False
    let ?e = "\<lparr>tx_id = [], tx_installation_id = i, tx_review_id = [], tx_idempotency_key = key,
      tx_kind = Credit_Grant, tx_credits = cr\<rparr>"
    have "st_append store s ?e = (s', r)" using assms Call_Grant False by (auto simp: grant_def)
    then show ?thesis using that(2) [OF append_accounted, of ?e] Call_Grant False by auto
  qed
next
  case (Call_Reserve i review cr key)
  show ?thesis
  proof (cases "i \<le> 0 \<or> review = [] \<or> sint cr \<le> 0 \<or> key = []")
    case True
    then show ?thesis using assms Call_Reserve that(1) by (auto simp: reserve_def)
  next
    case False
    let ?e = "\<lparr>tx_id = [], tx_installation_id = i, tx_review_id = review, tx_idempotency_key = key,
      tx_kind = Credit_Reserve, tx_credits = - cr\<rparr>"
    have run: "st_reserve store s ?e cr = (s', r)" using assms Call_Reserve False by (auto simp: reserve_def)
    have "sint (- cr) = - sint cr" using False by (intro sint_uminus_small) auto
    then show ?thesis
      using that(2) [OF reserve_accounted [OF run]] reserve_covered [OF run] Call_Reserve False by auto
  qed
next
  case (Call_Settle re actual key)
  show ?thesis
  proof (cases "\<not> valid_reservation re \<or> sint actual < 0 \<or> key = []")
    case True
    then show ?thesis using assms Call_Settle that(1) by (auto simp: settle_def)
  next
    case False
    let ?e = "\<lparr>tx_id = [], tx_installation_id = tx_installation_id re, tx_review_id = tx_review_id re,
      tx_idempotency_key = key, tx_kind = Credit_Settle, tx_credits = - tx_credits re - actual\<rparr>"
    have "st_append store s ?e = (s', r)" using assms Call_Settle False by (auto simp: settle_def)
    moreover have "sint (- tx_credits re - actual) = - sint (tx_credits re) - sint actual"
      using False assms(2) Call_Settle by (intro sint_settled) (auto simp: valid_reservation_def)
    ultimately show ?thesis
      using that(2) [OF append_accounted, of ?e] Call_Settle False by (auto simp: valid_reservation_def)
  qed
next
  case (Call_Refund re key)
  show ?thesis
  proof (cases "\<not> valid_reservation re \<or> key = []")
    case True
    then show ?thesis using assms Call_Refund that(1) by (auto simp: refund_def)
  next
    case False
    let ?e = "\<lparr>tx_id = [], tx_installation_id = tx_installation_id re, tx_review_id = tx_review_id re,
      tx_idempotency_key = key, tx_kind = Credit_Refund, tx_credits = - tx_credits re\<rparr>"
    have "st_append store s ?e = (s', r)" using assms Call_Refund False by (auto simp: refund_def)
    moreover have "sint (- tx_credits re) = - sint (tx_credits re)"
      using assms(2) Call_Refund by (intro sint_uminus_small) simp
    ultimately show ?thesis
      using that(2) [OF append_accounted, of ?e] Call_Refund False by (auto simp: valid_reservation_def)
  qed
qed

lemma run_call_effect:
  assumes "run_call (Some store) s c = (s', r)" and "negatable c"
  shows "balance s' i = balance s i + (if created r \<and> call_tenant c = i then call_change c else 0)"
    and "created r \<Longrightarrow> call_proper (balance s) c \<and> (\<exists>e. r = Inr (e, True) \<and> tx_kind e = call_kind c) \<and> entry s (call_tenant c) (call_key c) = None
      \<and> entry s' (call_tenant c) (call_key c) \<noteq> None"
    and "entry s j key \<noteq> None \<Longrightarrow> entry s' j key \<noteq> None"
  by (cases rule: run_call_asks [OF assms];
      auto simp: accounted_def created_def Let_def split: sum.splits prod.splits bool.splits)+

lemma ledger_run_effect:
  assumes "ledger_run store s calls = (s', steps)" and "list_all negatable calls"
  shows "balance s' i = balance s i + (\<Sum>(b, c, r) \<leftarrow> steps. if created r \<and> call_tenant c = i then call_change c else 0)
    \<and> list_all (\<lambda>(b, c, r). created r \<longrightarrow> call_proper (balance b) c \<and> (\<exists>e. r = Inr (e, True) \<and> tx_kind e = call_kind c)) steps
    \<and> distinct (map (\<lambda>(b, c, r). (call_tenant c, call_key c)) (filter (\<lambda>(b, c, r). created r) steps))
    \<and> (\<forall>(b, c, r) \<in> set steps. created r \<longrightarrow> entry s (call_tenant c) (call_key c) = None)"
  using assms
proof (induction calls arbitrary: s steps)
  case (Cons c calls)
  obtain s1 r where call: "run_call (Some store) s c = (s1, r)" by fastforce
  obtain rest where rest: "ledger_run store s1 calls = (s', rest)" and steps: "steps = (s, c, r) # rest"
    using Cons.prems(1) call by (auto split: prod.splits)
  note effect = run_call_effect [OF call] and ih = Cons.IH [OF rest]
  have neg: "negatable c" "list_all negatable calls" using Cons.prems(2) by simp_all
  have later: "\<forall>(b, d, q) \<in> set rest. created q \<longrightarrow> entry s (call_tenant d) (call_key d) = None"
    using ih [OF neg(2)] effect(3) [OF neg(1)] by fastforce
  have "created r \<Longrightarrow> (call_tenant c, call_key c)
      \<notin> set (map (\<lambda>(b, c, r). (call_tenant c, call_key c)) (filter (\<lambda>(b, c, r). created r) rest))"
    using ih [OF neg(2)] effect(2) [OF neg(1)] by fastforce
  then show ?case
    using ih [OF neg(2)] effect(1) [OF neg(1), of i] effect(2) [OF neg(1)] later by (auto simp: steps)
qed simp

lemma run_call_served:
  assumes "\<And>s e. is_ok (snd (st_append store s e))"
    and "\<And>s e n. sint n \<le> balance s (tx_installation_id e) \<Longrightarrow> is_ok (snd (st_reserve store s e n))"
    and "run_call (Some store) s c = (s', r)" and "call_proper (balance s) c"
  shows "is_ok r"
proof (cases c)
  case (Call_Reserve i review n key)
  let ?e = "\<lparr>tx_id = [], tx_installation_id = i, tx_review_id = review, tx_idempotency_key = key,
      tx_kind = Credit_Reserve, tx_credits = - n\<rparr>"
  have "st_reserve store s ?e n = (s', r)" "sint n \<le> balance s (tx_installation_id ?e)"
    using assms(3,4) Call_Reserve by (auto simp: reserve_def)
  then show ?thesis using assms(2) by (metis snd_conv)
next
  case (Call_Grant i n key)
  then have "r = snd (run_call (Some store) s c)" using assms(3) by simp
  then show ?thesis using assms(1,4) Call_Grant by (auto simp: grant_def)
next
  case (Call_Settle e actual key)
  then have "r = snd (run_call (Some store) s c)" using assms(3) by simp
  then show ?thesis using assms(1,4) Call_Settle by (auto simp: settle_def valid_reservation_def)
next
  case (Call_Refund e key)
  then have "r = snd (run_call (Some store) s c)" using assms(3) by simp
  then show ?thesis using assms(1,4) Call_Refund by (auto simp: refund_def valid_reservation_def)
qed

lemma ledger_run_served:
  assumes "\<And>s e. is_ok (snd (st_append store s e))"
    and "\<And>s e n. sint n \<le> balance s (tx_installation_id e) \<Longrightarrow> is_ok (snd (st_reserve store s e n))"
    and "ledger_run store s calls = (s', steps)"
  shows "list_all (\<lambda>(b, c, r). call_proper (balance b) c \<longrightarrow> is_ok r) steps"
  using assms(3)
proof (induction calls arbitrary: s steps)
  case (Cons c calls)
  obtain s1 r where call: "run_call (Some store) s c = (s1, r)" by fastforce
  obtain rest where rest: "ledger_run store s1 calls = (s', rest)" and steps: "steps = (s, c, r) # rest"
    using Cons.prems call by (auto split: prod.splits)
  have "call_proper (balance s) c \<Longrightarrow> is_ok r" using run_call_served [OF assms(1) assms(2) call] .
  then show ?case using Cons.IH [OF rest] by (simp add: steps)
qed simp

end

section \<open>A journal as store\<close>

text \<open>
  The contract has an instance: the entries in order, the balance of a tenant their sum, and any call
  may fail as \<open>fails\<close> says.
\<close>

type_synonym journal = "transaction list"

definition journal_balance :: "journal \<Rightarrow> int \<Rightarrow> int" where
  "journal_balance j i = (\<Sum>e \<leftarrow> j. if tx_installation_id e = i then sint (tx_credits e) else 0)"

definition journal_entry :: "journal \<Rightarrow> int \<Rightarrow> bytes \<Rightarrow> transaction option" where
  "journal_entry j i key = find (\<lambda>e. tx_installation_id e = i \<and> tx_idempotency_key e = key) j"

definition journal_append :: "(journal \<Rightarrow> go_error option) \<Rightarrow> journal ledger_append" where
  "journal_append fails j e =
     (case fails j of
        Some err \<Rightarrow> (j, Inl err)
      | None \<Rightarrow>
          (case journal_entry j (tx_installation_id e) (tx_idempotency_key e) of
             Some old \<Rightarrow> (j, Inr (old, False))
           | None \<Rightarrow> (j @ [e], Inr (e, True))))"

definition journal_reserve :: "(journal \<Rightarrow> go_error option) \<Rightarrow> journal ledger_reserve" where
  "journal_reserve fails j e required =
     (if journal_entry j (tx_installation_id e) (tx_idempotency_key e) = None
        \<and> journal_balance j (tx_installation_id e) < sint required
      then (j, Inl (Msg ''insufficient credits'')) else journal_append fails j e)"

definition journal_store :: "(journal \<Rightarrow> go_error option) \<Rightarrow> journal ledger_store" where
  "journal_store fails = \<lparr>st_append = journal_append fails, st_reserve = journal_reserve fails\<rparr>"

lemma journal_append_accounted:
  assumes "journal_append fails j e = (j', r)"
  shows "accounted journal_balance journal_entry j e j' r"
proof (cases "fails j = None \<and> journal_entry j (tx_installation_id e) (tx_idempotency_key e) = None")
  case True
  then have "j' = j @ [e]" "r = Inr (e, True)" using assms by (simp_all add: journal_append_def)
  moreover have "journal_balance (j @ [e]) = (journal_balance j)(tx_installation_id e :=
      journal_balance j (tx_installation_id e) + sint (tx_credits e))"
    by (auto simp: journal_balance_def)
  moreover have "find P (xs @ [x]) = (case find P xs of Some y \<Rightarrow> Some y | None \<Rightarrow> if P x then Some x else None)" for P xs and x :: transaction
    by (induction xs) auto
  then have "journal_entry (j @ [e]) = (journal_entry j)(tx_installation_id e :=
      (journal_entry j (tx_installation_id e))(tx_idempotency_key e \<mapsto> e))"
    using True by (auto simp: journal_entry_def fun_eq_iff split: option.splits)
  moreover have "e = e\<lparr>tx_id := tx_id e\<rparr>" by simp
  then have "\<exists>id. e = e\<lparr>tx_id := id\<rparr>" by (rule exI)
  ultimately show ?thesis using True by (simp add: accounted_def Let_def)
next
  case False
  then show ?thesis using assms by (auto simp: journal_append_def accounted_def Let_def split: option.splits)
qed

interpretation journal: ledger_contract "journal_store fails" journal_balance journal_entry
proof
  show "accounted journal_balance journal_entry s e s' r" if "st_append (journal_store fails) s e = (s', r)" for s e s' r
    using that journal_append_accounted by (simp add: journal_store_def)
  show "accounted journal_balance journal_entry s e s' r" if "st_reserve (journal_store fails) s e required = (s', r)" for s e required s' r
    using that journal_append_accounted
    by (auto simp: journal_store_def journal_reserve_def accounted_def Let_def split: if_splits)
  show "sint required \<le> journal_balance s (tx_installation_id e)"
    if "st_reserve (journal_store fails) s e required = (s', r)" "created r" for s e required s' r
    using that
    by (auto simp: journal_store_def journal_reserve_def journal_append_def created_def split: if_splits option.splits)
qed

text \<open>
  C7: For every store that keeps the documented contract and every sequence of grants, reservations,
  settlements and refunds (of reservations other than the smallest integer): the balance of a tenant
  changes by what the calls recorded for it are worth, a grant by its credits, a reservation by minus
  its credits, a settlement by the reserved credits less the actual ones, a refund by the reserved
  ones, and by nothing else; only proper calls are recorded, under their kind, a reservation only when
  the balance before it covers it; no key of a tenant is recorded twice; and while the store itself
  does not fail, every proper call is recorded or finds its key recorded before.
\<close>

theorem ledger_balance_follows_calls:
  assumes "ledger_contract store balance entry"
    and "ledger_run store s calls = (s', steps)" and "list_all negatable calls"
  shows "balance s' i = balance s i + (\<Sum>(b, c, r) \<leftarrow> steps. if created r \<and> call_tenant c = i then call_change c else 0)
    \<and> list_all (\<lambda>(b, c, r). created r \<longrightarrow> call_proper (balance b) c \<and> (\<exists>e. r = Inr (e, True) \<and> tx_kind e = call_kind c)) steps
    \<and> distinct (map (\<lambda>(b, c, r). (call_tenant c, call_key c)) (filter (\<lambda>(b, c, r). created r) steps))
    \<and> ((\<forall>s e. is_ok (snd (st_append store s e)))
        \<and> (\<forall>s e n. sint n \<le> balance s (tx_installation_id e) \<longrightarrow> is_ok (snd (st_reserve store s e n))) \<longrightarrow>
        list_all (\<lambda>(b, c, r). call_proper (balance b) c \<longrightarrow> is_ok r) steps)"
  using ledger_contract.ledger_run_effect [OF assms] ledger_contract.ledger_run_served [OF assms(1) _ _ assms(2)] by blast

definition sample_reservation :: transaction where
  "sample_reservation =
     \<lparr>tx_id = [], tx_installation_id = 7, tx_review_id = ''r'', tx_idempotency_key = ''k'',
      tx_kind = Credit_Reserve, tx_credits = -6\<rparr>"

definition sample_ledger_calls :: "ledger_call list" where
  "sample_ledger_calls =
     [Call_Grant 7 10 ''g'', Call_Grant 7 10 ''g'', Call_Reserve 7 ''r'' 11 ''x'', Call_Reserve 7 ''r'' 6 ''k'',
      Call_Settle sample_reservation 4 ''s'']"

lemma sample_ledger_run:
  "map (\<lambda>(b, c, r). created r) (snd (ledger_run (journal_store (\<lambda>_. None)) [] sample_ledger_calls)) = [True, False, False, True, True]"
  by code_simp

theorem ledger_balance_follows_calls_witness:
  "journal_balance (fst (ledger_run (journal_store (\<lambda>_. None)) [] sample_ledger_calls)) 7 = 6"
proof -
  have neg: "list_all negatable sample_ledger_calls" by code_simp
  obtain j steps where run: "ledger_run (journal_store (\<lambda>_. None)) [] sample_ledger_calls = (j, steps)" by fastforce
  have "journal_balance j 7 = journal_balance [] 7
      + (\<Sum>(b, c, r) \<leftarrow> steps. if created r \<and> call_tenant c = 7 then call_change c else 0)"
    using ledger_balance_follows_calls [OF journal.ledger_contract_axioms run neg, of 7] by blast
  moreover have "(\<Sum>(b, c, r) \<leftarrow> snd (ledger_run (journal_store (\<lambda>_. None)) [] sample_ledger_calls).
      if created r \<and> call_tenant c = 7 then call_change c else 0) = 6" by code_simp
  ultimately show ?thesis using run by (simp add: journal_balance_def)
qed

text \<open>
  A reservation is not consumed: under two keys it can be settled and refunded, and the tenant ends
  with more credits than were granted.
\<close>

lemma settle_and_refund_pay_twice:
  "journal_balance (fst (ledger_run (journal_store (\<lambda>_. None)) []
     [Call_Grant 7 10 ''g'', Call_Reserve 7 ''r'' 6 ''k'', Call_Settle sample_reservation 0 ''s'', Call_Refund sample_reservation ''f''])) 7 = 16"
  by code_simp

section \<open>The credit gate\<close>

record review_decision =
  rd_allowed :: bool
  rd_available_credits :: int
  rd_required_credits :: int
  rd_skip_code :: bytes
  rd_summary :: bytes

definition no_decision :: review_decision where
  "no_decision = \<lparr>rd_allowed = False, rd_available_credits = 0, rd_required_credits = 0,
     rd_skip_code = [], rd_summary = []\<rparr>"

text \<open>Go functions that return a value and an error.\<close>

type_synonym 'a with_error = "'a \<times> go_error option"

definition authorize :: "(int \<Rightarrow> int res) option \<Rightarrow> int \<Rightarrow> int \<Rightarrow> review_decision with_error" where
  "authorize balances installation required =
     (case balances of
        None \<Rightarrow> (no_decision, Some (Msg ''balance reader, tenant, and positive required credits are required''))
      | Some read \<Rightarrow>
          if installation \<le> 0 \<or> required \<le> 0
          then (no_decision, Some (Msg ''balance reader, tenant, and positive required credits are required''))
          else case read installation of
                 Inl e \<Rightarrow> (\<lparr>rd_allowed = False, rd_available_credits = 0, rd_required_credits = required,
                     rd_skip_code = ''billing_unavailable'',
                     rd_summary = ''px1 skipped this review because credit availability could not be verified. No AI review ran; retry after billing recovers.''\<rparr>,
                     Some (Wrapped ''read credit balance: %w'' [] e))
               | Inr available \<Rightarrow>
                   let d = no_decision\<lparr>rd_available_credits := available, rd_required_credits := required\<rparr> in
                   if available < required
                   then (d\<lparr>rd_skip_code := ''credits_exhausted'',
                       rd_summary := ''px1 skipped this review because it requires '' @ dec_int required
                         @ '' credits and this organization has '' @ dec_int available
                         @ '' available. No AI review ran; add credits or reduce the review scope, then retry.''\<rparr>, None)
                   else (d\<lparr>rd_allowed := True,
                       rd_summary := ''px1 reserved up to '' @ dec_int required @ '' credits for this review; ''
                         @ dec_int available @ '' were available before reservation.''\<rparr>, None))"

type_synonym 's skip_publisher = "'s \<Rightarrow> int \<Rightarrow> bytes \<Rightarrow> review_decision \<Rightarrow> 's \<times> go_error option"

definition enforce ::
    "(int \<Rightarrow> int res) option \<Rightarrow> 's skip_publisher option \<Rightarrow> 's \<Rightarrow> int \<Rightarrow> bytes \<Rightarrow> int
     \<Rightarrow> 's \<times> review_decision with_error" where
  "enforce balances publisher s installation review required =
     (case publisher of
        None \<Rightarrow> (s, no_decision, Some (Msg ''skip publisher and review ID are required''))
      | Some publish \<Rightarrow>
          if review = [] then (s, no_decision, Some (Msg ''skip publisher and review ID are required''))
          else let (decision, gate_err) = authorize balances installation required in
               if rd_allowed decision then (s, decision, gate_err)
               else let (s, publish_err) = publish s installation review decision in
                    (s, decision,
                     case (gate_err, publish_err) of
                       (Some g, Some p) \<Rightarrow> Some (Joined g p)
                     | (Some g, None) \<Rightarrow> Some g
                     | (None, p) \<Rightarrow> p))"

text \<open>
  A review is allowed only when the balance could be read and covers a positive requirement,
  and then nothing is published; every other outcome of a configured gate publishes exactly one
  skip, carries the failure of the balance read and of the publication in the error, and gives a
  reason whenever the request itself was valid.
\<close>

theorem enforce_spec:
  assumes "enforce balances (Some publish) s installation review required = (s', d, err)" and "review \<noteq> []"
  shows "(rd_allowed d \<longleftrightarrow> 0 < installation \<and> 0 < required \<and>
            (\<exists>read available. balances = Some read \<and> read installation = Inr available \<and> required \<le> available))
    \<and> (rd_allowed d \<longrightarrow> s' = s \<and> err = None)
    \<and> (\<not> rd_allowed d \<longrightarrow> s' = fst (publish s installation review d)
         \<and> (err = None \<longrightarrow> snd (publish s installation review d) = None))
    \<and> (\<not> rd_allowed d \<and> balances \<noteq> None \<and> 0 < installation \<and> 0 < required \<longrightarrow>
         rd_skip_code d \<in> {''billing_unavailable'', ''credits_exhausted''})"
proof -
  obtain dd ge where a: "authorize balances installation required = (dd, ge)" by fastforce
  have dd: "d = dd" and rest: "rd_allowed dd \<Longrightarrow> s' = s \<and> err = ge"
      "\<not> rd_allowed dd \<Longrightarrow> s' = fst (publish s installation review dd)
        \<and> (err = None \<longrightarrow> snd (publish s installation review dd) = None)"
    using assms a by (auto simp: enforce_def Let_def split: if_splits prod.splits option.splits)
  have "(rd_allowed dd \<longleftrightarrow> 0 < installation \<and> 0 < required \<and>
            (\<exists>read available. balances = Some read \<and> read installation = Inr available \<and> required \<le> available))
      \<and> (rd_allowed dd \<longrightarrow> ge = None)
      \<and> (\<not> rd_allowed dd \<and> balances \<noteq> None \<and> 0 < installation \<and> 0 < required \<longrightarrow>
         rd_skip_code dd \<in> {''billing_unavailable'', ''credits_exhausted''})"
    using a by (auto simp: authorize_def no_decision_def Let_def split: option.splits if_splits sum.splits)
  then show ?thesis using dd rest by blast
qed

theorem enforce_spec_witness:
  "\<exists>d. enforce (Some (\<lambda>_. Inr 5)) (Some (\<lambda>n i r d. (Suc n, None))) (0 :: nat) 7 ''r'' 6 = (1, d, None)
     \<and> \<not> rd_allowed d \<and> rd_skip_code d = ''credits_exhausted''"
proof -
  obtain s d err where e: "enforce (Some (\<lambda>_. Inr 5)) (Some (\<lambda>n i r d. (Suc n, None))) (0 :: nat) 7 ''r'' 6
      = (s, d, err)" by (metis prod_cases3)
  have "rd_skip_code d = ''credits_exhausted'' \<and> err = None"
    using e by (auto simp: enforce_def authorize_def no_decision_def)
  then show ?thesis using enforce_spec [OF e] e by auto
qed

end
