(* ===== verification/GoTime.thy ===== *)
theory GoTime
  imports GoStd
begin

text \<open>
  Instants and durations: a \<open>time.Time\<close> is its number of nanoseconds since the Unix epoch, a
  \<open>time.Duration\<close> its number of nanoseconds. Weekdays count from Sunday; the epoch was a Thursday.
\<close>

definition second_ns :: int where "second_ns = 1000000000"

definition hour_ns :: int where "hour_ns = 3600000000000"

definition day_ns :: int where "day_ns = 86400000000000"

text \<open>The zero \<open>time.Time\<close>: the first of January of year 1, UTC.\<close>

definition zero_time :: int where "zero_time = -62135596800000000000"

definition weekday :: "int \<Rightarrow> int" where
  "weekday t = (t div day_ns + 4) mod 7"

text \<open>The instant truncated to its UTC day.\<close>

definition utc_day :: "int \<Rightarrow> int" where
  "utc_day t = t div day_ns * day_ns"

lemma utc_day_minus: "utc_day (t - k * day_ns) = utc_day t - k * day_ns"
proof -
  have "(t - k * day_ns) div day_ns = t div day_ns - k"
    using div_mult_self1 [of day_ns t "- k"] by (simp add: day_ns_def)
  then show ?thesis by (simp add: utc_day_def left_diff_distrib)
qed

lemma weekday_utc_day [simp]: "weekday (utc_day t) = weekday t"
  by (simp add: weekday_def utc_day_def day_ns_def)

lemma utc_day_range: "utc_day t \<le> t \<and> t < utc_day t + day_ns"
proof -
  have "t = utc_day t + t mod day_ns" "0 \<le> t mod day_ns" "t mod day_ns < day_ns"
    by (simp_all add: utc_day_def day_ns_def)
  then show ?thesis by linarith
qed

end
