(* ===== verification/Margin.thy ===== *)
theory Margin
  imports GoTime
begin

text \<open>
  \<open>internal/hosted/billing/margin.go\<close> and \<open>oss.go\<close>: the weekly gross-margin check of a tenant and
  the open-source programme. A \<open>time.Time\<close> is its number of nanoseconds since the Unix epoch, a
  float is the rational it denotes, and the verb \<open>%.1f\<close> and \<open>url.Parse\<close> are parameters. Stores pass
  their state explicitly.
\<close>

section \<open>Weeks\<close>

definition utc_week :: "int \<Rightarrow> int" where
  "utc_week t = (let day = utc_day t in day + (- ((weekday day + 6) mod 7)) * day_ns)"

lemma weekday_shift: "(weekday t + 6) mod 7 = (t div day_ns + 3) mod 7"
proof -
  have "((d + 4) mod 7 + 6) mod 7 = (d + 3) mod 7" for d :: int by presburger
  then show ?thesis by (simp add: weekday_def)
qed

lemma utc_week_eq: "utc_week t = utc_day t - (t div day_ns + 3) mod 7 * day_ns"
  by (simp add: utc_week_def Let_def) (simp add: weekday_shift)

text \<open>The start of a week is a Monday at midnight, UTC, and the instant lies in its seven days.\<close>

lemma utc_week_monday: "weekday (utc_week t) = 1"
proof -
  have m: "(d - (d + 3) mod 7 + 4) mod 7 = 1" for d :: int by presburger
  have "utc_week t = (t div day_ns - (t div day_ns + 3) mod 7) * day_ns"
    by (simp add: utc_week_eq utc_day_def left_diff_distrib)
  then show ?thesis by (simp add: weekday_def day_ns_def m)
qed

lemma utc_week_range: "utc_week t \<le> t \<and> t < utc_week t + 7 * day_ns"
proof -
  define k where "k = (t div day_ns + 3) mod 7"
  have "0 \<le> k" "k \<le> 6" by (simp_all add: k_def)
  moreover have "utc_week t = utc_day t - k * day_ns" by (simp add: utc_week_eq k_def)
  ultimately show ?thesis using utc_day_range [of t] by (simp add: day_ns_def)
qed

section \<open>Evaluating a margin\<close>

record weekly_economics =
  we_installation_id :: int
  we_week_start :: int
  we_revenue_micros :: int
  we_llm_cost_micros :: int

record margin_result =
  mr_available :: bool
  mr_margin :: rat
  mr_alert :: bool
  mr_reason :: bytes

definition effective_minimum :: "rat \<Rightarrow> rat" where
  "effective_minimum minimum = (if minimum \<le> 0 \<or> minimum \<ge> 1 then 60 / 100 else minimum)"

definition evaluate_margin :: "(rat \<Rightarrow> bytes) \<Rightarrow> weekly_economics \<Rightarrow> rat \<Rightarrow> margin_result res" where
  "evaluate_margin fmt e minimum =
     (if we_installation_id e \<le> 0 \<or> we_week_start e = zero_time \<or> we_revenue_micros e < 0
         \<or> we_llm_cost_micros e < 0
      then Inl (Msg ''valid tenant, week, revenue, and cost are required'')
      else if we_revenue_micros e = 0
      then Inr \<lparr>mr_available = False, mr_margin = 0, mr_alert = False,
             mr_reason = ''margin unavailable because the organization has no recognized credit revenue''\<rparr>
      else let minimum = effective_minimum minimum;
               margin = rat_of_int (we_revenue_micros e - we_llm_cost_micros e) / rat_of_int (we_revenue_micros e)
           in Inr \<lparr>mr_available = True, mr_margin = margin, mr_alert = margin < minimum,
                mr_reason = ''weekly gross margin '' @ fmt (margin * 100) @ ''%; threshold '' @ fmt (minimum * 100)
                  @ ''%''\<rparr>)"

section \<open>The weekly job\<close>

record 's margin_ops =
  mo_weekly_economics :: "'s \<Rightarrow> int \<Rightarrow> weekly_economics list res"
  mo_record_margin :: "'s \<Rightarrow> weekly_economics \<Rightarrow> margin_result \<Rightarrow> 's \<times> bool res"
  mo_alert :: "'s \<Rightarrow> weekly_economics \<Rightarrow> margin_result \<Rightarrow> 's \<times> go_error option"

fun margin_loop ::
    "(rat \<Rightarrow> bytes) \<Rightarrow> 's margin_ops \<Rightarrow> rat \<Rightarrow> int \<Rightarrow> 's \<Rightarrow> int \<Rightarrow> weekly_economics list
     \<Rightarrow> 's \<times> int \<times> go_error option" where
  "margin_loop fmt ops minimum week s alerts [] = (s, alerts, None)"
| "margin_loop fmt ops minimum week s alerts (row # rows) =
     (if we_week_start row \<noteq> week
      then (s, alerts, Some (Msg ''margin store returned a row outside the requested week''))
      else case evaluate_margin fmt row minimum of
             Inl e \<Rightarrow> (s, alerts, Some e)
           | Inr r \<Rightarrow>
               (case mo_record_margin ops s row r of
                  (s, Inl e) \<Rightarrow> (s, alerts, Some e)
                | (s, Inr created) \<Rightarrow>
                    if created \<and> mr_alert r
                    then (case mo_alert ops s row r of
                            (s, Some e) \<Rightarrow> (s, alerts, Some e)
                          | (s, None) \<Rightarrow> margin_loop fmt ops minimum week s (alerts + 1) rows)
                    else margin_loop fmt ops minimum week s alerts rows))"

definition run_margin_job ::
    "(rat \<Rightarrow> bytes) \<Rightarrow> 's margin_ops option \<Rightarrow> rat \<Rightarrow> 's \<Rightarrow> int \<Rightarrow> 's \<times> int \<times> go_error option" where
  "run_margin_job fmt ops minimum s week =
     (case ops of
        None \<Rightarrow> (s, 0, Some (Msg ''margin store and alerter are required''))
      | Some ops \<Rightarrow>
          (case mo_weekly_economics ops s (utc_week week) of
             Inl e \<Rightarrow> (s, 0, Some e)
           | Inr rows \<Rightarrow> margin_loop fmt ops minimum (utc_week week) s 0 rows))"

section \<open>The open-source programme\<close>

datatype oss_status = Oss_Submitted | Oss_Approved | Oss_Rejected

record parsed_url =
  pu_scheme :: bytes
  pu_host :: bytes
  pu_user :: bool
  pu_fragment :: bytes

record oss_application =
  oa_id :: bytes
  oa_installation_id :: int
  oa_repository_id :: int
  oa_repository_url :: bytes
  oa_contact_email :: bytes
  oa_reason :: bytes
  oa_status :: oss_status
  oa_submitted_at :: int

record oss_decision =
  od_application_id :: bytes
  od_actor :: bytes
  od_reason :: bytes
  od_status :: oss_status
  od_credit_grant :: int

record 's oss_store =
  oss_submit :: "'s \<Rightarrow> oss_application \<Rightarrow> 's \<times> (oss_application \<times> bool) res"
  oss_decide :: "'s \<Rightarrow> int \<Rightarrow> oss_decision \<Rightarrow> oss_status \<Rightarrow> 's \<times> oss_application res"

definition public_https_repository :: "(bytes \<Rightarrow> parsed_url res) \<Rightarrow> bytes \<Rightarrow> bool" where
  "public_https_repository parse raw =
     (case parse raw of
        Inl e \<Rightarrow> False
      | Inr u \<Rightarrow> pu_scheme u = ''https'' \<and> pu_host u \<noteq> [] \<and> \<not> pu_user u \<and> pu_fragment u = [])"

definition oss_apply ::
    "(bytes \<Rightarrow> parsed_url res) \<Rightarrow> 's oss_store option \<Rightarrow> 's \<Rightarrow> oss_application
     \<Rightarrow> 's \<times> (oss_application \<times> bool) res" where
  "oss_apply parse store s a =
     (case store of
        None \<Rightarrow> (s, Inl (Msg ''tenant, public HTTPS repository, contact, reason, and store are required''))
      | Some st \<Rightarrow>
          if oa_installation_id a \<le> 0 \<or> oa_repository_id a \<le> 0 \<or> oa_contact_email a = []
             \<or> blank (oa_reason a) \<or> \<not> public_https_repository parse (oa_repository_url a)
          then (s, Inl (Msg ''tenant, public HTTPS repository, contact, reason, and store are required''))
          else oss_submit st s (a\<lparr>oa_status := Oss_Submitted\<rparr>))"

definition oss_decide_application ::
    "'s oss_store option \<Rightarrow> int \<Rightarrow> 's \<Rightarrow> int \<Rightarrow> bytes \<Rightarrow> bytes \<Rightarrow> bool \<Rightarrow> bytes \<Rightarrow> 's \<times> oss_application res" where
  "oss_decide_application store approval_credits s installation application actor approve reason =
     (case store of
        None \<Rightarrow> (s, Inl (Msg ''tenant, application, actor, reason, and store are required''))
      | Some st \<Rightarrow>
          if installation \<le> 0 \<or> application = [] \<or> actor = [] \<or> blank reason
          then (s, Inl (Msg ''tenant, application, actor, reason, and store are required''))
          else let d = \<lparr>od_application_id = application, od_actor = actor, od_reason = reason,
                        od_status = Oss_Rejected, od_credit_grant = 0\<rparr> in
               if approve
               then if approval_credits \<le> 0 then (s, Inl (Msg ''positive approval credits are required''))
                    else oss_decide st s installation
                           (d\<lparr>od_status := Oss_Approved, od_credit_grant := approval_credits\<rparr>) Oss_Submitted
               else oss_decide st s installation d Oss_Submitted)"

section \<open>Properties\<close>

text \<open>The rows of a week that lose more than the threshold allows.\<close>

definition low_margin :: "rat \<Rightarrow> weekly_economics \<Rightarrow> bool" where
  "low_margin minimum e \<longleftrightarrow> we_revenue_micros e > 0 \<and>
     rat_of_int (we_llm_cost_micros e) > (1 - effective_minimum minimum) * rat_of_int (we_revenue_micros e)"

lemma evaluate_margin_alert:
  assumes "evaluate_margin fmt e minimum = Inr r"
  shows "mr_alert r \<longleftrightarrow> low_margin minimum e"
proof (cases "we_revenue_micros e = 0")
  case True
  then show ?thesis using assms by (auto simp: evaluate_margin_def low_margin_def split: if_splits)
next
  case False
  then have pos: "rat_of_int (we_revenue_micros e) > 0"
    using assms by (simp add: evaluate_margin_def split: if_splits)
  have "mr_alert r \<longleftrightarrow> rat_of_int (we_revenue_micros e - we_llm_cost_micros e) / rat_of_int (we_revenue_micros e)
      < effective_minimum minimum"
    using assms False by (auto simp: evaluate_margin_def Let_def split: if_splits)
  also have "\<dots> \<longleftrightarrow> rat_of_int (we_revenue_micros e) - rat_of_int (we_llm_cost_micros e)
      < effective_minimum minimum * rat_of_int (we_revenue_micros e)"
    using pos by (simp add: divide_less_eq)
  also have "\<dots> \<longleftrightarrow> low_margin minimum e"
    using pos by (auto simp: low_margin_def algebra_simps)
  finally show ?thesis .
qed

text \<open>The job alerts at most once per row, and only for rows below the threshold.\<close>

lemma margin_loop_alerts:
  "margin_loop fmt ops minimum week s n rows = (s', n', err) \<Longrightarrow>
   n \<le> n' \<and> n' \<le> n + int (length (filter (low_margin minimum) rows))"
proof (induction fmt ops minimum week s n rows rule: margin_loop.induct)
  case (1 fmt ops minimum week s alerts)
  then show ?case by simp
next
  case (2 fmt ops minimum week s alerts row rows)
  show ?case
    using 2 evaluate_margin_alert [of fmt row minimum]
    by (fastforce split: if_splits sum.splits prod.splits option.splits)
qed

end
