(* ===== verification/Webhooks.thy ===== *)
theory Webhooks
  imports GoTime
begin

text \<open>
  The two authenticated entry points: GitHub deliveries (\<open>internal/hosted/webhook/handler.go\<close>) and
  Stripe events (\<open>internal/hosted/billing/stripe.go\<close>). HMAC-SHA256, JSON decoding, the clock and
  the stores behind the interfaces are parameters; \<open>hex\<close>, \<open>strings.Cut\<close> and \<open>strconv.ParseInt\<close>
  are modelled. Times are nanoseconds since the Unix epoch.
\<close>

section \<open>Hexadecimal\<close>

definition hex_digit :: "nat \<Rightarrow> char" where
  "hex_digit n = (if n < 10 then char_of (48 + n) else char_of (87 + n))"

definition hex_value :: "char \<Rightarrow> nat option" where
  "hex_value c =
     (let b = (of_char c :: nat) in
      if 48 \<le> b \<and> b \<le> 57 then Some (b - 48)
      else if 97 \<le> b \<and> b \<le> 102 then Some (b - 87)
      else if 65 \<le> b \<and> b \<le> 70 then Some (b - 55)
      else None)"

text \<open>The verb \<open>%x\<close> on bytes, and \<open>hex.DecodeString\<close>.\<close>

fun hex_encode :: "bytes \<Rightarrow> bytes" where
  "hex_encode [] = []"
| "hex_encode (c # cs) = hex_digit (of_char c div 16) # hex_digit (of_char c mod 16) # hex_encode cs"

fun hex_decode :: "bytes \<Rightarrow> bytes option" where
  "hex_decode [] = Some []"
| "hex_decode [c] = None"
| "hex_decode (a # b # cs) =
     (case (hex_value a, hex_value b, hex_decode cs) of
        (Some x, Some y, Some rest) \<Rightarrow> Some (char_of (16 * x + y) # rest)
      | _ \<Rightarrow> None)"

lemma hex_value_digit: "n < 16 \<Longrightarrow> hex_value (hex_digit n) = Some n"
  by (auto simp: hex_value_def hex_digit_def Let_def)

lemma hex_decode_encode: "hex_decode (hex_encode s) = Some s"
proof (induction s)
  case (Cons c s)
  have "(of_char c :: nat) < 256" by (rule nat_of_char_less_256)
  then have "(of_char c :: nat) div 16 < 16" by (simp add: div_less_iff_less_mult)
  moreover have "16 * (of_char c div 16) + of_char c mod 16 = (of_char c :: nat)" by simp
  ultimately show ?case using Cons by (simp add: hex_value_digit)
qed simp

section \<open>GitHub deliveries\<close>

record http_request =
  rq_method :: bytes
  rq_header :: "bytes \<Rightarrow> bytes"
  rq_body :: "bytes res"

record http_response =
  rs_status :: nat
  rs_body :: bytes
  rs_allow :: bytes

record delivery =
  dl_id :: bytes
  dl_event :: bytes
  dl_payload :: bytes

type_synonym 's acceptor = "'s \<Rightarrow> delivery \<Rightarrow> 's \<times> bool res"
type_synonym mac = "bytes \<Rightarrow> bytes \<Rightarrow> bytes"

record 's webhook_handler =
  wh_secret :: bytes
  wh_sink :: "'s acceptor option"
  wh_allowed_events :: "bytes set option"
  wh_max_body_bytes :: int

definition default_events :: "bytes set" where
  "default_events = {''check_run'', ''installation'', ''installation_repositories'', ''issue_comment'',
     ''pull_request'', ''pull_request_review_comment'', ''push''}"

definition default_max_body_bytes :: int where "default_max_body_bytes = 10485760"

definition valid_signature :: "mac \<Rightarrow> bytes \<Rightarrow> bytes \<Rightarrow> bytes \<Rightarrow> bool" where
  "valid_signature mac secret body header =
     (if \<not> has_prefix ''sha256='' header then False
      else case hex_decode (trim_prefix ''sha256='' header) of
             None \<Rightarrow> False
           | Some want \<Rightarrow> if length want \<noteq> 32 then False else want = mac secret body)"

definition signature :: "mac \<Rightarrow> bytes \<Rightarrow> bytes \<Rightarrow> bytes" where
  "signature mac secret body = ''sha256='' @ hex_encode (mac secret body)"

definition http_error :: "bytes \<Rightarrow> nat \<Rightarrow> http_response" where
  "http_error text status = \<lparr>rs_status = status, rs_body = text @ [CHR 0x0A], rs_allow = []\<rparr>"

definition effective_limit :: "'s webhook_handler \<Rightarrow> int" where
  "effective_limit h = (if wh_max_body_bytes h \<le> 0 then default_max_body_bytes else wh_max_body_bytes h)"

text \<open>\<open>io.LimitReader\<close> with a non-positive limit reads nothing.\<close>

definition read_limited :: "bytes res \<Rightarrow> int \<Rightarrow> bytes res" where
  "read_limited body n = (case body of Inl e \<Rightarrow> Inl e | Inr b \<Rightarrow> Inr (take (nat n) b))"

definition allowed_event :: "'s webhook_handler \<Rightarrow> bytes \<Rightarrow> bool" where
  "allowed_event h event \<longleftrightarrow>
     event \<in> (case wh_allowed_events h of None \<Rightarrow> default_events | Some events \<Rightarrow> events)"

definition serve_http ::
    "mac \<Rightarrow> (bytes \<Rightarrow> bool) \<Rightarrow> 's webhook_handler \<Rightarrow> 's \<Rightarrow> http_request \<Rightarrow> 's \<times> http_response" where
  "serve_http mac json_valid h s r =
     (if rq_method r \<noteq> ''POST'' then (s, (http_error ''method not allowed'' 405)\<lparr>rs_allow := ''POST''\<rparr>)
      else case wh_sink h of
        None \<Rightarrow> (s, http_error ''webhook is not configured'' 503)
      | Some accept \<Rightarrow>
          if wh_secret h = [] then (s, http_error ''webhook is not configured'' 503)
          else let limit = effective_limit h in
            (case read_limited (rq_body r) (wrap64 (limit + 1)) of
               Inl e \<Rightarrow> (s, http_error ''read webhook body'' 400)
             | Inr body \<Rightarrow>
                 if int (length body) > limit then (s, http_error ''webhook body too large'' 413)
                 else if \<not> valid_signature mac (wh_secret h) body (rq_header r ''X-Hub-Signature-256'')
                 then (s, http_error ''invalid webhook signature'' 401)
                 else let id = trim_space (rq_header r ''X-GitHub-Delivery'');
                          event = trim_space (rq_header r ''X-GitHub-Event'') in
                   if id = [] \<or> length id > 200 \<or> event = []
                   then (s, http_error ''missing or invalid GitHub delivery metadata'' 400)
                   else if \<not> allowed_event h event then (s, http_error ''unsupported GitHub event'' 400)
                   else if \<not> json_valid body then (s, http_error ''webhook body must be JSON'' 400)
                   else case accept s \<lparr>dl_id = id, dl_event = event, dl_payload = body\<rparr> of
                          (s, Inl e) \<Rightarrow> (s, http_error ''enqueue webhook delivery'' 503)
                        | (s, Inr accepted) \<Rightarrow>
                            (s, \<lparr>rs_status = 200,
                                 rs_body = (if accepted then ''accepted'' else ''duplicate'') @ [CHR 0x0A],
                                 rs_allow = []\<rparr>)))"

text \<open>
  C11: A request that changes the queue, or is answered 200, was a POST with a body within the limit,
  signed under the secret, valid JSON, of an allowed event, with a non-blank delivery id of at most
  200 bytes; and the sink saw exactly that delivery, once. A sink that fails is answered 503.
\<close>

theorem webhook_delivery_spec:
  assumes "serve_http mac json_valid h s r = (s', resp)" and "s' \<noteq> s \<or> rs_status resp = 200"
  shows "\<exists>accept body. wh_sink h = Some accept \<and> rq_method r = ''POST'' \<and> wh_secret h \<noteq> []
    \<and> (\<exists>sent. rq_body r = Inr sent \<and> body = take (nat (wrap64 (effective_limit h + 1))) sent)
    \<and> int (length body) \<le> effective_limit h
    \<and> valid_signature mac (wh_secret h) body (rq_header r ''X-Hub-Signature-256'') \<and> json_valid body
    \<and> (let d = \<lparr>dl_id = trim_space (rq_header r ''X-GitHub-Delivery''),
                dl_event = trim_space (rq_header r ''X-GitHub-Event''), dl_payload = body\<rparr>
       in dl_id d \<noteq> [] \<and> length (dl_id d) \<le> 200 \<and> dl_event d \<noteq> [] \<and> allowed_event h (dl_event d)
          \<and> s' = fst (accept s d)
          \<and> rs_status resp = (if is_ok (snd (accept s d)) then 200 else 503))"
proof -
  have m: "rq_method r = ''POST''" using assms by (auto simp: serve_http_def http_error_def split: if_splits)
  then obtain accept where a: "wh_sink h = Some accept" and sec: "wh_secret h \<noteq> []"
    using assms by (auto simp: serve_http_def http_error_def split: option.splits if_splits)
  obtain sent where b: "rq_body r = Inr sent"
    by (cases "rq_body r")
      (use assms m a sec in \<open>auto simp: serve_http_def read_limited_def http_error_def Let_def\<close>)
  let ?body = "take (nat (wrap64 (effective_limit h + 1))) sent"
  let ?d = "\<lparr>dl_id = trim_space (rq_header r ''X-GitHub-Delivery''),
    dl_event = trim_space (rq_header r ''X-GitHub-Event''), dl_payload = ?body\<rparr>"
  have guards: "int (length ?body) \<le> effective_limit h
      \<and> valid_signature mac (wh_secret h) ?body (rq_header r ''X-Hub-Signature-256'') \<and> json_valid ?body
      \<and> trim_space (rq_header r ''X-GitHub-Delivery'') \<noteq> []
      \<and> length (trim_space (rq_header r ''X-GitHub-Delivery'')) \<le> 200
      \<and> trim_space (rq_header r ''X-GitHub-Event'') \<noteq> []
      \<and> allowed_event h (trim_space (rq_header r ''X-GitHub-Event''))"
    using assms m a sec b
    by (auto simp: serve_http_def read_limited_def http_error_def Let_def split: if_splits)
  have "serve_http mac json_valid h s r = (case accept s ?d of
      (s, Inl e) \<Rightarrow> (s, http_error ''enqueue webhook delivery'' 503)
    | (s, Inr accepted) \<Rightarrow> (s, \<lparr>rs_status = 200,
         rs_body = (if accepted then ''accepted'' else ''duplicate'') @ [CHR 0x0A], rs_allow = []\<rparr>))"
    using guards m a sec b by (simp add: serve_http_def read_limited_def Let_def)
  then have "s' = fst (accept s ?d) \<and> rs_status resp = (if is_ok (snd (accept s ?d)) then 200 else 503)"
    using assms(1) by (auto simp: http_error_def split: prod.splits sum.splits)
  then show ?thesis using guards m a sec b by (auto simp: Let_def)
qed

text \<open>A concrete authentication code and handler, for evaluation.\<close>

definition sample_mac :: mac where
  "sample_mac secret body = replicate 31 (CHR ''m'') @ [if secret = ''k'' then CHR ''s'' else CHR ''x'']"

definition sample_handler :: "delivery list webhook_handler" where
  "sample_handler = \<lparr>wh_secret = ''k'', wh_sink = Some (\<lambda>q d. (q @ [d], Inr (d \<notin> set q))),
     wh_allowed_events = None, wh_max_body_bytes = 0\<rparr>"

definition sample_request :: http_request where
  "sample_request =
     \<lparr>rq_method = ''POST'',
      rq_header = (\<lambda>n. if n = ''X-Hub-Signature-256'' then signature sample_mac ''k'' ''{}''
                       else if n = ''X-GitHub-Delivery'' then ''7'' else ''push''),
      rq_body = Inr ''{}''\<rparr>"

text \<open>
  The signature the package computes is accepted for the same secret and body, and only a header
  that decodes to the code of the body is.
\<close>

lemma signature_accepted:
  assumes "length (mac secret body) = 32"
  shows "valid_signature mac secret body (signature mac secret body)"
proof -
  have "trim_prefix p (p @ code) = code" for p code by (simp add: trim_prefix_def)
  then show ?thesis
    unfolding valid_signature_def signature_def by (simp only: has_prefix_append hex_decode_encode) (simp add: assms)
qed

lemma valid_signature_iff:
  "valid_signature mac secret body header \<longleftrightarrow>
     length (mac secret body) = 32 \<and> (\<exists>code. header = ''sha256='' @ code \<and> hex_decode code = Some (mac secret body))"
  by (auto simp: valid_signature_def has_prefix_iff trim_prefix_def split: option.splits)

lemma sample_served:
  "serve_http sample_mac (\<lambda>_. True) sample_handler [] sample_request
   = ([\<lparr>dl_id = ''7'', dl_event = ''push'', dl_payload = ''{}''\<rparr>],
      \<lparr>rs_status = 200, rs_body = ''accepted'' @ [CHR 0x0A], rs_allow = []\<rparr>)"
proof -
  have "valid_signature sample_mac ''k'' ''{}'' (signature sample_mac ''k'' ''{}'')"
    by (rule signature_accepted) (simp add: sample_mac_def)
  moreover have "trim_space ''7'' = ''7''" "trim_space ''push'' = ''push''" by code_simp+
  ultimately show ?thesis
    by (simp add: serve_http_def sample_request_def sample_handler_def effective_limit_def read_limited_def
        default_max_body_bytes_def wrap64_def Let_def allowed_event_def default_events_def)
qed

theorem webhook_delivery_spec_witness:
  "valid_signature sample_mac ''k'' ''{}'' (rq_header sample_request ''X-Hub-Signature-256'')"
  using webhook_delivery_spec [OF sample_served]
  by (auto simp: sample_handler_def sample_request_def effective_limit_def default_max_body_bytes_def
      wrap64_def)

section \<open>Stripe events\<close>

record stripe_event =
  se_id :: bytes
  se_type :: bytes
  se_object :: bytes

record 's stripe_store =
  ss_invoice_paid :: "'s \<Rightarrow> bytes \<Rightarrow> bytes \<Rightarrow> 's \<times> go_error option"
  ss_subscription_updated :: "'s \<Rightarrow> bytes \<Rightarrow> bytes \<Rightarrow> 's \<times> go_error option"

record 's stripe_webhook =
  sw_secret :: bytes
  sw_tolerance :: int
  sw_store :: "'s stripe_store option"

definition max_stripe_event_bytes :: nat where "max_stripe_event_bytes = 1048576"

fun signature_parts :: "int \<Rightarrow> bytes list \<Rightarrow> bytes list \<Rightarrow> (int \<times> bytes list) res" where
  "signature_parts timestamp signatures [] = Inr (timestamp, signatures)"
| "signature_parts timestamp signatures (part # parts) =
     (case cut_at (CHR ''='') (trim_space part) of
        None \<Rightarrow> signature_parts timestamp signatures parts
      | Some (key, value) \<Rightarrow>
          if key = ''t''
          then (case parse_int64 value of
                  None \<Rightarrow> Inl (Msg ''invalid Stripe signature timestamp'')
                | Some n \<Rightarrow> signature_parts n signatures parts)
          else if key = ''v1'' then signature_parts timestamp (signatures @ [value]) parts
          else signature_parts timestamp signatures parts)"

definition parse_stripe_signature :: "bytes \<Rightarrow> (int \<times> bytes list) res" where
  "parse_stripe_signature header =
     (case signature_parts 0 [] (split_on (CHR '','') header) of
        Inl e \<Rightarrow> Inl e
      | Inr (timestamp, signatures) \<Rightarrow>
          if timestamp = 0 \<or> signatures = [] then Inl (Msg ''Stripe signature requires t and v1'')
          else Inr (timestamp, signatures))"

definition effective_tolerance :: "'s stripe_webhook \<Rightarrow> int" where
  "effective_tolerance h = (if sw_tolerance h \<le> 0 then 5 * 60 * second_ns else sw_tolerance h)"

definition stripe_payload :: "int \<Rightarrow> bytes \<Rightarrow> bytes" where
  "stripe_payload timestamp body = dec_int timestamp @ CHR ''.'' # body"

definition stripe_handle ::
    "mac \<Rightarrow> (bytes \<Rightarrow> stripe_event option) \<Rightarrow> int \<Rightarrow> 's stripe_webhook \<Rightarrow> 's \<Rightarrow> bytes \<Rightarrow> bytes
     \<Rightarrow> 's \<times> go_error option" where
  "stripe_handle mac decode now h s body header =
     (case sw_store h of
        None \<Rightarrow> (s, Some (Msg ''Stripe webhook secret and store are required''))
      | Some store \<Rightarrow>
          if sw_secret h = [] then (s, Some (Msg ''Stripe webhook secret and store are required''))
          else if body = [] \<or> length body > max_stripe_event_bytes
          then (s, Some (Msg ''Stripe webhook body is empty or too large''))
          else case parse_stripe_signature header of
            Inl e \<Rightarrow> (s, Some e)
          | Inr (timestamp, signatures) \<Rightarrow>
              let when = timestamp * second_ns in
              if when < now - effective_tolerance h \<or> when > now + effective_tolerance h
              then (s, Some (Msg ''Stripe webhook timestamp is outside tolerance''))
              else if \<not> list_ex (\<lambda>encoded. hex_decode encoded = Some (mac (sw_secret h) (stripe_payload timestamp body)))
                        signatures
              then (s, Some (Msg ''Stripe webhook signature is invalid''))
              else case decode body of
                None \<Rightarrow> (s, Some (Msg ''Stripe webhook event is invalid''))
              | Some event \<Rightarrow>
                  if se_id event = [] \<or> se_object event = []
                  then (s, Some (Msg ''Stripe webhook event is invalid''))
                  else if se_type event = ''invoice.paid''
                  then ss_invoice_paid store s (se_id event) (se_object event)
                  else if se_type event = ''customer.subscription.updated''
                  then ss_subscription_updated store s (se_id event) (se_object event)
                  else (s, None))"

text \<open>
  C38: A Stripe event that is accepted or changes the store was authenticated: the body is between
  one byte and one megabyte, the header carries a timestamp within the tolerance of the clock, and
  one of its \<open>v1\<close> codes is that of the timestamp and the body under the secret.
\<close>

theorem stripe_event_authentic:
  assumes "stripe_handle mac decode now h s body header = (s', err)" and "s' \<noteq> s \<or> err = None"
  shows "\<exists>timestamp signatures code.
      parse_stripe_signature header = Inr (timestamp, signatures) \<and> code \<in> set signatures
    \<and> hex_decode code = Some (mac (sw_secret h) (stripe_payload timestamp body))
    \<and> \<bar>timestamp * second_ns - now\<bar> \<le> effective_tolerance h
    \<and> sw_secret h \<noteq> [] \<and> 1 \<le> length body \<and> length body \<le> max_stripe_event_bytes"
proof -
  obtain store where st: "sw_store h = Some store" and sec: "sw_secret h \<noteq> []"
    using assms by (auto simp: stripe_handle_def split: option.splits if_splits)
  have body: "body \<noteq> []" "length body \<le> max_stripe_event_bytes"
    using assms st sec by (auto simp: stripe_handle_def split: if_splits)
  obtain t sigs where p: "parse_stripe_signature header = Inr (t, sigs)"
    by (cases "parse_stripe_signature header") (use assms st sec body in \<open>auto simp: stripe_handle_def\<close>)
  have window: "\<not> (t * second_ns < now - effective_tolerance h \<or> t * second_ns > now + effective_tolerance h)"
    using assms st sec body p by (auto simp: stripe_handle_def Let_def split: if_splits)
  have "list_ex (\<lambda>c. hex_decode c = Some (mac (sw_secret h) (stripe_payload t body))) sigs"
    using assms st sec body p window by (auto simp: stripe_handle_def Let_def split: if_splits)
  moreover have "\<bar>t * second_ns - now\<bar> \<le> effective_tolerance h" using window by arith
  moreover have "1 \<le> length body" using body(1) by (cases body) simp_all
  ultimately show ?thesis using p body sec by (auto simp: list_ex_iff)
qed

definition sample_stripe :: "bytes list stripe_webhook" where
  "sample_stripe = \<lparr>sw_secret = ''k'', sw_tolerance = 0,
     sw_store = Some \<lparr>ss_invoice_paid = (\<lambda>q i obj. (q @ [i], None)),
                       ss_subscription_updated = (\<lambda>q i obj. (q, None))\<rparr>\<rparr>"

definition sample_stripe_header :: bytes where
  "sample_stripe_header = ''t=12,v1='' @ hex_encode (sample_mac ''k'' [])"

lemma sample_stripe_parsed:
  "parse_stripe_signature sample_stripe_header = Inr (12, [hex_encode (sample_mac ''k'' [])])"
  by code_simp

lemma sample_stripe_handled:
  "stripe_handle sample_mac (\<lambda>_. Some \<lparr>se_id = ''e'', se_type = ''invoice.paid'', se_object = ''o''\<rparr>)
     (13 * second_ns) sample_stripe [] ''{}'' sample_stripe_header = ([''e''], None)"
proof -
  have "hex_decode (hex_encode (sample_mac ''k'' [])) = Some (sample_mac ''k'' (stripe_payload 12 ''{}''))"
    by (simp add: hex_decode_encode sample_mac_def)
  then show ?thesis
    by (simp add: stripe_handle_def sample_stripe_parsed sample_stripe_def max_stripe_event_bytes_def
        effective_tolerance_def second_ns_def)
qed

theorem stripe_event_authentic_witness:
  "\<exists>timestamp signatures. parse_stripe_signature sample_stripe_header = Inr (timestamp, signatures)
     \<and> \<bar>timestamp * second_ns - 13 * second_ns\<bar> \<le> effective_tolerance sample_stripe"
  using stripe_event_authentic [OF sample_stripe_handled] by auto

section \<open>Customers and metered usage\<close>

record 's stripe_client =
  sc_ensure_customer :: "'s \<Rightarrow> int \<Rightarrow> bytes \<Rightarrow> 's \<times> bytes res"
  sc_report_metered_usage :: "'s \<Rightarrow> bytes \<Rightarrow> bytes \<Rightarrow> bytes \<Rightarrow> int \<Rightarrow> int \<Rightarrow> 's \<times> go_error option"
  sc_create_portal_session :: "'s \<Rightarrow> bytes \<Rightarrow> bytes \<Rightarrow> 's \<times> bytes res"

definition provision_customer :: "'s stripe_client option \<Rightarrow> 's \<Rightarrow> int \<Rightarrow> bytes \<Rightarrow> 's \<times> bytes res" where
  "provision_customer client s installation email =
     (case client of
        None \<Rightarrow> (s, Inl (Msg ''Stripe client, tenant, and billing email are required''))
      | Some c \<Rightarrow>
          if installation \<le> 0 \<or> CHR ''@'' \<notin> set email
          then (s, Inl (Msg ''Stripe client, tenant, and billing email are required''))
          else sc_ensure_customer c s installation email)"

definition record_metered_review ::
    "'s stripe_client option \<Rightarrow> 's \<Rightarrow> bytes \<Rightarrow> bytes \<Rightarrow> bytes \<Rightarrow> int \<Rightarrow> int \<Rightarrow> 's \<times> go_error option" where
  "record_metered_review client s customer price event credits occurred =
     (case client of
        None \<Rightarrow> (s, Some (Msg ''Stripe client, customer, metered price, event, positive credits, and occurrence time are required''))
      | Some c \<Rightarrow>
          if \<not> has_prefix ''cus_'' customer \<or> \<not> has_prefix ''price_'' price \<or> event = [] \<or> credits \<le> 0
             \<or> occurred = zero_time
          then (s, Some (Msg ''Stripe client, customer, metered price, event, positive credits, and occurrence time are required''))
          else sc_report_metered_usage c s customer price event credits occurred)"

definition open_customer_portal :: "'s stripe_client option \<Rightarrow> 's \<Rightarrow> bytes \<Rightarrow> bytes \<Rightarrow> 's \<times> bytes res" where
  "open_customer_portal client s customer return_url =
     (case client of
        None \<Rightarrow> (s, Inl (Msg ''Stripe customer and HTTPS return URL are required''))
      | Some c \<Rightarrow>
          if \<not> has_prefix ''cus_'' customer \<or> \<not> has_prefix ''https://'' return_url
          then (s, Inl (Msg ''Stripe customer and HTTPS return URL are required''))
          else sc_create_portal_session c s customer return_url)"

end
