(* ===== verification/GoGlob.thy ===== *)
theory GoGlob
  imports Utf8
begin

text \<open>
  \<open>path.Match\<close> of the Go library, on which the path scopes of suppressions and reference files
  rest: \<open>*\<close> and \<open>?\<close> do not match a slash, classes have ranges and a negation, a backslash escapes,
  and a malformed pattern is an error wherever the match already failed.
\<close>

definition bad_pattern :: go_error where
  "bad_pattern = Msg ''syntax error in pattern''"

text \<open>The prefix of a pattern up to the next star outside a class.\<close>

fun scan_span :: "bool \<Rightarrow> bytes \<Rightarrow> nat" where
  "scan_span inrange [] = 0"
| "scan_span inrange (c # cs) =
     (if c = CHR 0x5C then (case cs of [] \<Rightarrow> 1 | d # ds \<Rightarrow> 2 + scan_span inrange ds)
      else if c = CHR ''['' then 1 + scan_span True cs
      else if c = CHR '']'' then 1 + scan_span False cs
      else if c = CHR ''*'' \<and> \<not> inrange then 0
      else 1 + scan_span inrange cs)"

definition scan_chunk :: "bytes \<Rightarrow> bool \<times> bytes \<times> bytes" where
  "scan_chunk pattern =
     (let rest = dropWhile (\<lambda>c. c = CHR ''*'') pattern; n = scan_span False rest
      in (rest \<noteq> pattern, take n rest, drop n rest))"

definition get_esc :: "bytes \<Rightarrow> (nat \<times> bytes) res" where
  "get_esc chunk =
     (if chunk = [] \<or> hd chunk = CHR ''-'' \<or> hd chunk = CHR '']'' then Inl bad_pattern
      else let chunk = (if hd chunk = CHR 0x5C then tl chunk else chunk) in
        if chunk = [] then Inl bad_pattern
        else let (r, n) = decode_rune chunk; rest = drop n chunk in
          if (r = 65533 \<and> n = 1) \<or> rest = [] then Inl bad_pattern else Inr (r, rest))"

lemma get_esc_shorter: "get_esc chunk = Inr (r, rest) \<Longrightarrow> length rest < length chunk"
  using decode_rune_width [of chunk] decode_rune_width [of "tl chunk"]
  by (cases chunk) (auto simp: get_esc_def Let_def simp del: decode_rune.simps split: if_splits prod.splits)

text \<open>The ranges of a class; at least one is needed before the closing bracket.\<close>

function class_ranges :: "nat \<Rightarrow> bool \<Rightarrow> bool \<Rightarrow> bytes \<Rightarrow> (bool \<times> bytes) res" where
  "class_ranges r matched some chunk =
     (if chunk \<noteq> [] \<and> hd chunk = CHR '']'' \<and> some then Inr (matched, tl chunk)
      else case get_esc chunk of
             Inl e \<Rightarrow> Inl e
           | Inr (lo, chunk1) \<Rightarrow>
               if hd chunk1 = CHR ''-''
               then (case get_esc (tl chunk1) of
                       Inl e \<Rightarrow> Inl e
                     | Inr (hi, chunk2) \<Rightarrow>
                         class_ranges r (matched \<or> (lo \<le> r \<and> r \<le> hi)) True chunk2)
               else class_ranges r (matched \<or> r = lo) True chunk1)"
  by pat_completeness auto
termination
  by (relation "measure (\<lambda>(_, _, _, chunk). length chunk)") (auto dest!: get_esc_shorter)

declare class_ranges.simps [simp del]

lemma class_ranges_shorter: "class_ranges r matched some chunk = Inr (m, rest) \<Longrightarrow> length rest < length chunk"
proof (induction r matched some chunk rule: class_ranges.induct)
  case (1 r matched some chunk)
  show ?case
  proof (cases "chunk \<noteq> [] \<and> hd chunk = CHR '']'' \<and> some")
    case True
    then have "rest = tl chunk" using "1.prems" by (subst (asm) class_ranges.simps) simp
    then show ?thesis using True by (cases chunk) simp_all
  next
    case False
    then obtain lo chunk1 where e1: "get_esc chunk = Inr (lo, chunk1)"
      using "1.prems" by (subst (asm) class_ranges.simps) (auto split: sum.splits prod.splits)
    note l1 = get_esc_shorter [OF e1]
    show ?thesis
    proof (cases "hd chunk1 = CHR ''-''")
      case dash: True
      then obtain hi chunk2 where e2: "get_esc (tl chunk1) = Inr (hi, chunk2)"
        using "1.prems" False e1
        by (subst (asm) class_ranges.simps) (auto split: sum.splits prod.splits if_splits)
      have "class_ranges r (matched \<or> (lo \<le> r \<and> r \<le> hi)) True chunk2 = Inr (m, rest)"
        using "1.prems" False e1 e2 dash by (subst (asm) class_ranges.simps) auto
      then show ?thesis
        using "1.IH"(1) [OF False e1 refl dash e2 refl] l1 get_esc_shorter [OF e2] by simp
    next
      case nodash: False
      have "class_ranges r (matched \<or> r = lo) True chunk1 = Inr (m, rest)"
        using "1.prems" False e1 nodash by (subst (asm) class_ranges.simps) auto
      then show ?thesis using "1.IH"(2) [OF False e1 refl nodash] l1 by simp
    qed
  qed
qed

text \<open>
  One chunk against the front of a name: the rest of the name, or no match. After a mismatch the
  chunk is still read to its end for errors.
\<close>

function match_chunk :: "bool \<Rightarrow> bytes \<Rightarrow> bytes \<Rightarrow> bytes option res" where
  "match_chunk failed chunk s =
     (case chunk of
        [] \<Rightarrow> Inr (if failed then None else Some s)
      | c # cs \<Rightarrow>
          let failed = (failed \<or> s = []) in
          if c = CHR ''['' then
            (let r = (if failed then 0 else fst (decode_rune s));
                 s = (if failed then s else drop (snd (decode_rune s)) s);
                 negated = (cs \<noteq> [] \<and> hd cs = CHR ''^'')
             in case class_ranges r False False (if negated then tl cs else cs) of
                  Inl e \<Rightarrow> Inl e
                | Inr (matched, rest) \<Rightarrow> match_chunk (failed \<or> matched = negated) rest s)
          else if c = CHR ''?'' then
            match_chunk (failed \<or> hd s = CHR ''/'') cs (if failed then s else drop (snd (decode_rune s)) s)
          else if c = CHR 0x5C then
            (case cs of
               [] \<Rightarrow> Inl bad_pattern
             | d # ds \<Rightarrow> match_chunk (failed \<or> d \<noteq> hd s) ds (if failed then s else tl s))
          else match_chunk (failed \<or> c \<noteq> hd s) cs (if failed then s else tl s))"
  by pat_completeness auto
termination
proof (relation "measure (\<lambda>(_, chunk, _). length chunk)", goal_cases)
  case 1
  then show ?case by simp
next
  case (2 failed chunk s c cs f x xa xb y m rest)
  then have "length rest < length (if xb then tl cs else cs)" by (metis class_ranges_shorter)
  then show ?case using 2 by (auto split: if_splits)
qed auto

declare match_chunk.simps [simp del]

lemma scan_chunk_shorter:
  assumes "pattern \<noteq> []" and "scan_chunk pattern = (star, chunk, rest)"
  shows "length rest < length pattern"
proof -
  let ?rest = "dropWhile (\<lambda>c. c = CHR ''*'') pattern"
  have r: "rest = drop (scan_span False ?rest) ?rest" using assms(2) by (auto simp: scan_chunk_def Let_def)
  show ?thesis
  proof (cases ?rest)
    case Nil
    have "rest = []" unfolding r Nil by simp
    then show ?thesis using assms(1) by simp
  next
    case (Cons c cs)
    then have "c \<noteq> CHR ''*''" by (auto simp: dropWhile_eq_Cons_conv)
    then have "0 < scan_span False ?rest" unfolding Cons by (auto split: list.splits)
    moreover have "length ?rest \<le> length pattern" by (rule length_dropWhile_le)
    ultimately show ?thesis using Cons unfolding r by simp
  qed
qed

abbreviation chunk_of :: "bytes \<Rightarrow> bytes" where
  "chunk_of pattern \<equiv> fst (snd (scan_chunk pattern))"

abbreviation after_chunk :: "bytes \<Rightarrow> bytes" where
  "after_chunk pattern \<equiv> snd (snd (scan_chunk pattern))"

lemma after_chunk_shorter: "pattern \<noteq> [] \<Longrightarrow> length (after_chunk pattern) < length pattern"
  by (rule scan_chunk_shorter) (auto simp: prod_eq_iff)

text \<open>The check that the remainder of a pattern is well-formed.\<close>

function rest_error :: "bytes \<Rightarrow> go_error option" where
  "rest_error pattern =
     (if pattern = [] then None
      else case match_chunk False (chunk_of pattern) [] of
             Inl e \<Rightarrow> Some e
           | Inr _ \<Rightarrow> rest_error (after_chunk pattern))"
  by pat_completeness auto
termination
  by (relation "measure length") (auto intro: after_chunk_shorter)

declare rest_error.simps [simp del]

text \<open>After a star: the first suffix of the name, short of a slash, that the chunk matches.\<close>

fun star_search :: "bytes \<Rightarrow> bool \<Rightarrow> bytes \<Rightarrow> bytes option res" where
  "star_search chunk is_last [] = Inr None"
| "star_search chunk is_last (c # cs) =
     (if c = CHR ''/'' then Inr None
      else case match_chunk False chunk cs of
             Inl e \<Rightarrow> Inl e
           | Inr None \<Rightarrow> star_search chunk is_last cs
           | Inr (Some t) \<Rightarrow> if is_last \<and> t \<noteq> [] then star_search chunk is_last cs else Inr (Some t))"

definition no_match :: "bytes \<Rightarrow> bool res" where
  "no_match pattern = (case rest_error pattern of None \<Rightarrow> Inr False | Some e \<Rightarrow> Inl e)"

function path_match :: "bytes \<Rightarrow> bytes \<Rightarrow> bool res" where
  "path_match pattern name =
     (if pattern = [] then Inr (name = [])
      else let star = fst (scan_chunk pattern); chunk = chunk_of pattern; rest = after_chunk pattern in
        if star \<and> chunk = [] then Inr (CHR ''/'' \<notin> set name)
        else case match_chunk False chunk name of
          Inl e \<Rightarrow> Inl e
        | Inr here \<Rightarrow>
            (case (if here \<noteq> None \<and> (here = Some [] \<or> rest \<noteq> []) then Inr here
                   else if star then star_search chunk (rest = []) name else Inr None) of
               Inl e \<Rightarrow> Inl e
             | Inr (Some t) \<Rightarrow> path_match rest t
             | Inr None \<Rightarrow> no_match rest))"
  by pat_completeness auto
termination
  by (relation "measure (\<lambda>(pattern, _). length pattern)") (auto intro: after_chunk_shorter)

declare path_match.simps [simp del]

lemma path_match_examples:
  "path_match ''*.go'' ''a.go'' = Inr True"
  "path_match ''*.go'' ''b/a.go'' = Inr False"
  "path_match ''src/*/[a-c]?.go'' ''src/x/bz.go'' = Inr True"
  "path_match ''[a'' ''a'' = Inl bad_pattern"
  "path_match ''a*b*c'' ''aXbYbZc'' = Inr True"
proof -
  note defs = path_match.simps scan_chunk_def match_chunk.simps class_ranges.simps get_esc_def rest_error.simps
    no_match_def bad_pattern_def
  show "path_match ''*.go'' ''a.go'' = Inr True" by (simp add: defs)
  show "path_match ''*.go'' ''b/a.go'' = Inr False" by (simp add: defs)
  show "path_match ''src/*/[a-c]?.go'' ''src/x/bz.go'' = Inr True" by (simp add: defs)
  show "path_match ''[a'' ''a'' = Inl bad_pattern" by (simp add: defs)
  show "path_match ''a*b*c'' ''aXbYbZc'' = Inr True" by (simp add: defs)
qed

end
