(* ===== verification/Learning.thy ===== *)
theory Learning
  imports GoPath GoGlob GoTime
begin

text \<open>
  The signals that reviewers leave behind: suppression of noisy findings
  (\<open>internal/hosted/learning/suppression.go\<close>), the memories put in a prompt (\<open>memory.go\<close>,
  \<open>catalog.go\<close>) and the weekly metrics of a repository (\<open>metrics.go\<close>). A \<open>time.Time\<close> is its
  nanoseconds since the Unix epoch, a duration its nanoseconds, a float the rational it denotes.
  The memory store and \<open>url.Parse\<close> are parameters.
\<close>

section \<open>Suppression\<close>

record suppression_finding =
  sf_severity :: bytes
  sf_category :: bytes
  sf_path :: bytes

record noise_event =
  ne_id :: int
  ne_category :: bytes
  ne_path :: bytes
  ne_kind :: bytes
  ne_occurred_at :: int

record suppression_config =
  sc_threshold :: int
  sc_window :: int
  sc_path_glob :: bytes

record suppression_decision =
  sd_suppress :: bool
  sd_reason :: bytes
  sd_evidence_ids :: "int list"

definition default_threshold :: int where "default_threshold = 3"

definition default_window :: int where "default_window = 30 * 24 * hour_ns"

definition in_scope :: "bytes \<Rightarrow> bytes \<Rightarrow> bool" where
  "in_scope glob path \<longleftrightarrow> glob = ''**'' \<or> (case path_match glob path of Inl e \<Rightarrow> False | Inr m \<Rightarrow> m)"

definition counts_as_noise :: "suppression_finding \<Rightarrow> bytes \<Rightarrow> int \<Rightarrow> int \<Rightarrow> noise_event \<Rightarrow> bool" where
  "counts_as_noise f glob cutoff now e \<longleftrightarrow>
     \<not> (ne_id e \<le> 0 \<or> ne_category e \<noteq> sf_category f \<or> ne_occurred_at e < cutoff \<or> ne_occurred_at e > now
        \<or> (ne_kind e \<noteq> ''ignored'' \<and> ne_kind e \<noteq> ''thumbs_down''))
     \<and> in_scope glob (ne_path e)"

fun collect_evidence ::
    "suppression_finding \<Rightarrow> bytes \<Rightarrow> int \<Rightarrow> int \<Rightarrow> int set \<Rightarrow> int list \<Rightarrow> noise_event list \<Rightarrow> int list" where
  "collect_evidence f glob cutoff now seen ids [] = ids"
| "collect_evidence f glob cutoff now seen ids (e # es) =
     (if ne_id e \<in> seen \<or> \<not> counts_as_noise f glob cutoff now e
      then collect_evidence f glob cutoff now seen ids es
      else collect_evidence f glob cutoff now (insert (ne_id e) seen) (ids @ [ne_id e]) es)"

definition protected_finding :: "suppression_finding \<Rightarrow> bool" where
  "protected_finding f \<longleftrightarrow> sf_severity f = ''P0'' \<or> sf_category f = ''security'' \<or> sf_category f = ''logic''"

definition no_suppression :: "bytes \<Rightarrow> suppression_decision" where
  "no_suppression reason = \<lparr>sd_suppress = False, sd_reason = reason, sd_evidence_ids = []\<rparr>"

definition threshold_of :: "suppression_config \<Rightarrow> int" where
  "threshold_of config = (if sc_threshold config = 0 then default_threshold else sc_threshold config)"

definition window_of :: "suppression_config \<Rightarrow> int" where
  "window_of config = (if sc_window config = 0 then default_window else sc_window config)"

definition glob_of :: "suppression_config \<Rightarrow> bytes" where
  "glob_of config = (if sc_path_glob config = [] then ''**'' else sc_path_glob config)"

definition judge_evidence :: "int \<Rightarrow> int list \<Rightarrow> suppression_decision" where
  "judge_evidence threshold ids =
     (if int (length ids) \<ge> threshold
      then \<lparr>sd_suppress = True, sd_reason = ''eligible category repeatedly ignored or downvoted in scope'',
             sd_evidence_ids = ids\<rparr>
      else \<lparr>sd_suppress = False, sd_reason = ''feedback threshold not reached'', sd_evidence_ids = ids\<rparr>)"

definition decide_suppression ::
    "suppression_finding \<Rightarrow> noise_event list \<Rightarrow> suppression_config \<Rightarrow> int \<Rightarrow> suppression_decision res" where
  "decide_suppression f events config now =
     (if sf_path f = [] \<or> sf_severity f \<notin> {''P0'', ''P1'', ''P2''} \<or> sf_category f = [] \<or> now = zero_time
      then Inl (Msg ''finding path, severity, category, and current time are required'')
      else if protected_finding f
      then Inr (no_suppression ''protected finding categories are never auto-suppressed'')
      else if threshold_of config < default_threshold
      then Inl (Msg ''suppression threshold cannot be lower than three'')
      else if window_of config \<le> 0 \<or> window_of config > 365 * 24 * hour_ns
      then Inl (Msg ''suppression window is invalid'')
      else case path_match (glob_of config) (sf_path f) of
             Inl e \<Rightarrow> Inl (Msg ''suppression path glob is invalid'')
           | Inr matched \<Rightarrow>
               if \<not> matched \<and> glob_of config \<noteq> ''**''
               then Inr (no_suppression ''finding is outside the configured path scope'')
               else Inr (judge_evidence (threshold_of config)
                 (sort (collect_evidence f (glob_of config) (now - window_of config) now {} [] events))))"

lemma collect_evidence_spec:
  assumes "distinct ids" and "set ids = seen"
  shows "distinct (collect_evidence f glob cutoff now seen ids es)
    \<and> set (collect_evidence f glob cutoff now seen ids es)
      = seen \<union> ne_id ` {e \<in> set es. counts_as_noise f glob cutoff now e}"
  using assms
proof (induction f glob cutoff now seen ids es rule: collect_evidence.induct)
  case (1 f glob cutoff now seen ids)
  then show ?case by simp
next
  case (2 f glob cutoff now seen ids e es)
  show ?case
  proof (cases "ne_id e \<in> seen \<or> \<not> counts_as_noise f glob cutoff now e")
    case True
    then show ?thesis using "2.IH"(1) [OF True "2.prems"] by auto
  next
    case False
    have "distinct (ids @ [ne_id e])" "set (ids @ [ne_id e]) = insert (ne_id e) seen"
      using "2.prems" False by auto
    then show ?thesis using "2.IH"(2) [OF False] False by auto
  qed
qed

text \<open>
  C37: The evidence of a decision is exactly the ids, sorted and each once, of the events that count
  against the finding: events with a positive id, of its category, ignored or voted down, not older than
  the window and not in the future, whose own path is in scope. The finding is suppressed exactly
  when it is neither P0 nor security nor logic, is itself in scope, and the evidence reaches
  the threshold, which is three unless the configuration asks for more; a finding that is protected or
  out of scope gathers no evidence.
\<close>

theorem suppression_spec:
  assumes "decide_suppression f events config now = Inr d"
    and threshold: "threshold = (if sc_threshold config = 0 then 3 else sc_threshold config)"
    and window: "window = (if sc_window config = 0 then 30 * 24 * hour_ns else sc_window config)"
    and scope: "scope = (\<lambda>path. sc_path_glob config = [] \<or> sc_path_glob config = ''**'' \<or> path_match (sc_path_glob config) path = Inr True)"
    and evidence: "evidence = ne_id ` {e \<in> set events. 0 < ne_id e \<and> ne_category e = sf_category f
        \<and> ne_kind e \<in> {''ignored'', ''thumbs_down''} \<and> ne_occurred_at e \<in> {now - window..now} \<and> scope (ne_path e)}"
    and considered: "considered \<longleftrightarrow> sf_severity f \<noteq> ''P0'' \<and> sf_category f \<noteq> ''security'' \<and> sf_category f \<noteq> ''logic'' \<and> scope (sf_path f)"
  shows "sd_evidence_ids d = (if considered then sorted_list_of_set evidence else [])
    \<and> (sd_suppress d \<longleftrightarrow> considered \<and> threshold \<le> int (card evidence))
    \<and> (considered \<longrightarrow> 3 \<le> threshold \<and> 0 < window \<and> window \<le> 365 * 24 * hour_ns)"
proof (cases "protected_finding f")
  case True
  then have "d = no_suppression ''protected finding categories are never auto-suppressed''"
    using assms(1) by (auto simp: decide_suppression_def split: if_splits)
  moreover have "\<not> considered" using True considered by (auto simp: protected_finding_def)
  ultimately show ?thesis by (simp add: no_suppression_def)
next
  case False
  have in_scope: "in_scope (glob_of config) path \<longleftrightarrow> scope path" for path
    by (auto simp: in_scope_def scope glob_of_def split: sum.splits)
  have names: "threshold_of config = threshold" "window_of config = window"
    by (simp_all add: threshold_of_def window_of_def default_threshold_def default_window_def threshold window)
  have considered': "considered \<longleftrightarrow> in_scope (glob_of config) (sf_path f)"
    using False by (auto simp: considered in_scope protected_finding_def)
  let ?ids = "sort (collect_evidence f (glob_of config) (now - window) now {} [] events)"
  have bounds: "3 \<le> threshold \<and> 0 < window \<and> window \<le> 365 * 24 * hour_ns"
    using assms(1) False by (auto simp: decide_suppression_def default_threshold_def names split: if_splits)
  have result: "d = (if considered then judge_evidence threshold ?ids
      else no_suppression ''finding is outside the configured path scope'')"
    using assms(1) False unfolding considered' in_scope_def
    by (auto simp: decide_suppression_def names split: if_splits sum.splits)
  have "distinct ?ids" "set ?ids = ne_id ` {e \<in> set events. counts_as_noise f (glob_of config) (now - window) now e}"
    using collect_evidence_spec [of "[]" "{}" f "glob_of config" "now - window" now events] by simp_all
  moreover have "ne_id ` {e \<in> set events. counts_as_noise f (glob_of config) (now - window) now e} = evidence"
    by (force simp: evidence counts_as_noise_def in_scope)
  ultimately have "?ids = sorted_list_of_set evidence" "length ?ids = card evidence"
    using sorted_list_of_set.idem_if_sorted_distinct [of ?ids] distinct_card [of ?ids] by simp_all
  then show ?thesis using result bounds by (simp add: judge_evidence_def no_suppression_def)
qed

definition noise :: "int \<Rightarrow> bytes \<Rightarrow> noise_event" where
  "noise i kind = \<lparr>ne_id = i, ne_category = ''style'', ne_path = ''a'', ne_kind = kind, ne_occurred_at = 0\<rparr>"

definition sample_noise :: "noise_event list" where
  "sample_noise = [noise 4 ''ignored'', noise 2 ''thumbs_down'', noise 4 ''ignored'', noise 3 ''ignored'',
     noise 9 ''thumbs_up'']"

definition sample_decision :: suppression_decision where
  "sample_decision = \<lparr>sd_suppress = True,
     sd_reason = ''eligible category repeatedly ignored or downvoted in scope'', sd_evidence_ids = [2, 3, 4]\<rparr>"

lemma sample_suppression:
  "decide_suppression \<lparr>sf_severity = ''P2'', sf_category = ''style'', sf_path = ''a''\<rparr> sample_noise
     \<lparr>sc_threshold = 0, sc_window = 0, sc_path_glob = []\<rparr> hour_ns = Inr sample_decision"
proof -
  have "path_match ''**'' ''a'' = Inr True"
    by (simp add: path_match.simps scan_chunk_def)
  then show ?thesis
    by (simp add: decide_suppression_def protected_finding_def threshold_of_def window_of_def glob_of_def
        default_threshold_def default_window_def hour_ns_def zero_time_def sample_noise_def noise_def
        counts_as_noise_def in_scope_def judge_evidence_def sample_decision_def)
qed

theorem suppression_spec_witness:
  "sd_suppress sample_decision \<and> sd_evidence_ids sample_decision = sorted_list_of_set {2, 3, 4}"
proof -
  have ids: "ne_id ` {e \<in> set sample_noise. 0 < ne_id e \<and> ne_category e = ''style'' \<and> (ne_kind e = ''ignored'' \<or> ne_kind e = ''thumbs_down'')
      \<and> - (719 * hour_ns) \<le> ne_occurred_at e \<and> ne_occurred_at e \<le> hour_ns} = {2, 3, 4}"
    unfolding set_filter [symmetric] by (simp add: sample_noise_def noise_def hour_ns_def del: set_filter) auto
  show ?thesis using suppression_spec [OF sample_suppression refl refl refl refl refl] by (simp add: ids)
qed

section \<open>Memories\<close>

record memory =
  me_id :: bytes
  me_scope :: bytes
  me_kind :: bytes
  me_text :: bytes
  me_path_glob :: bytes
  me_language :: bytes
  me_weight :: rat
  me_evidence_links :: "bytes list"
  me_last_confirmed_at :: int

record memory_query =
  mq_installation_id :: int
  mq_repository_id :: int
  mq_path :: bytes
  mq_language :: bytes
  mq_embedding :: "rat list"
  mq_limit :: int

definition max_prompt_memories :: int where "max_prompt_memories = 20"

definition memory_invalid :: "memory \<Rightarrow> bool" where
  "memory_invalid m \<longleftrightarrow> me_id m = [] \<or> blank (me_text m) \<or> me_weight m < 0 \<or> me_weight m > 1"

definition capped_query :: "memory_query \<Rightarrow> memory_query" where
  "capped_query q =
     (let q = q\<lparr>mq_path := clean (mq_path q)\<rparr> in
      if mq_limit q \<le> 0 \<or> mq_limit q > max_prompt_memories then q\<lparr>mq_limit := max_prompt_memories\<rparr> else q)"

definition cap_memories :: "int \<Rightarrow> memory list \<Rightarrow> memory list" where
  "cap_memories limit ms = (if int (length ms) > limit then take (nat limit) ms else ms)"

definition retrieve_memories ::
    "(memory_query \<Rightarrow> memory list res) option \<Rightarrow> memory_query \<Rightarrow> memory list res" where
  "retrieve_memories store q =
     (let clean_path = clean (mq_path q) in
      case store of
        None \<Rightarrow> Inl (Msg ''memory retrieval requires store, tenant, path, language, and embedding'')
      | Some search \<Rightarrow>
          if mq_installation_id q \<le> 0 \<or> mq_repository_id q \<le> 0 \<or> mq_path q = [] \<or> is_abs (mq_path q)
             \<or> clean_path = ''..'' \<or> has_prefix ''../'' clean_path \<or> mq_language q = [] \<or> mq_embedding q = []
          then Inl (Msg ''memory retrieval requires store, tenant, path, language, and embedding'')
          else case search (capped_query q) of
                 Inl e \<Rightarrow> Inl e
               | Inr memories \<Rightarrow>
                   if list_ex memory_invalid (cap_memories (mq_limit (capped_query q)) memories)
                   then Inl (Msg ''memory store returned invalid memory'')
                   else Inr (cap_memories (mq_limit (capped_query q)) memories))"

text \<open>The prompt cap holds whatever the store returns.\<close>

lemma retrieve_memories_bounded:
  assumes "retrieve_memories store q = Inr ms"
  shows "length ms \<le> 20 \<and> (0 < mq_limit q \<longrightarrow> int (length ms) \<le> mq_limit q)
    \<and> (\<forall>m \<in> set ms. me_id m \<noteq> [] \<and> 0 \<le> me_weight m \<and> me_weight m \<le> 1)"
proof -
  obtain raw where ms: "ms = cap_memories (mq_limit (capped_query q)) raw" and ok: "\<not> list_ex memory_invalid ms"
    using assms by (auto simp: retrieve_memories_def Let_def split: option.splits if_splits sum.splits)
  have "0 \<le> mq_limit (capped_query q)" "mq_limit (capped_query q) \<le> 20"
    "0 < mq_limit q \<longrightarrow> mq_limit (capped_query q) \<le> mq_limit q"
    by (auto simp: capped_query_def max_prompt_memories_def Let_def)
  moreover have "int (length (cap_memories l raw)) \<le> l" if "0 \<le> l" for l
    using that by (auto simp: cap_memories_def)
  ultimately have "length ms \<le> 20 \<and> (0 < mq_limit q \<longrightarrow> int (length ms) \<le> mq_limit q)"
    unfolding ms by fastforce
  then show ?thesis using ok by (auto simp: list_ex_iff memory_invalid_def)
qed

record parsed_link =
  li_scheme :: bytes
  li_host :: bytes
  li_path :: bytes

text \<open>
  \<open>strings.EqualFold\<close> against a lower-case ASCII host none of whose letters folds to a
  non-ASCII rune, as is the case for \<open>github.com\<close>.
\<close>

definition equal_fold_host :: "bytes \<Rightarrow> bytes \<Rightarrow> bool" where
  "equal_fold_host s host \<longleftrightarrow> ascii_lowercase s = host"

definition github_link :: "(bytes \<Rightarrow> parsed_link res) \<Rightarrow> bytes \<Rightarrow> bool" where
  "github_link parse raw =
     (case parse raw of
        Inl e \<Rightarrow> False
      | Inr u \<Rightarrow> li_scheme u = ''https'' \<and> equal_fold_host (li_host u) ''github.com'')"

record memory_page =
  mp_items :: "memory list"
  mp_next_after_id :: bytes

definition memory_page_size :: nat where "memory_page_size = 100"

fun check_page :: "(bytes \<Rightarrow> parsed_link res) \<Rightarrow> memory list \<Rightarrow> go_error option" where
  "check_page parse [] = None"
| "check_page parse (m # ms) =
     (if me_id m = [] \<or> blank (me_text m) \<or> me_evidence_links m = []
      then Some (Msg ''visible memory requires id, text, and evidence'')
      else if \<not> list_all (github_link parse) (me_evidence_links m)
      then Some (Msg ''visible memory evidence must be an HTTPS GitHub URL'')
      else check_page parse ms)"

definition visible_memory_page ::
    "(bytes \<Rightarrow> parsed_link res) \<Rightarrow> (int \<Rightarrow> int \<Rightarrow> bytes \<Rightarrow> nat \<Rightarrow> memory list res) option \<Rightarrow> int \<Rightarrow> int \<Rightarrow> bytes
     \<Rightarrow> memory_page res" where
  "visible_memory_page parse store installation repository after =
     (case store of
        None \<Rightarrow> Inl (Msg ''memory catalogue requires store and tenant'')
      | Some list_memories \<Rightarrow>
          if installation \<le> 0 \<or> repository \<le> 0 then Inl (Msg ''memory catalogue requires store and tenant'')
          else case list_memories installation repository after (memory_page_size + 1) of
                 Inl e \<Rightarrow> Inl e
               | Inr memories \<Rightarrow>
                   let page = (if length memories > memory_page_size
                         then \<lparr>mp_items = take memory_page_size memories,
                                mp_next_after_id = me_id (last (take memory_page_size memories))\<rparr>
                         else \<lparr>mp_items = memories, mp_next_after_id = []\<rparr>)
                   in case check_page parse (mp_items page) of
                        Some e \<Rightarrow> Inl e
                      | None \<Rightarrow> Inr page)"

lemma visible_page_bounded:
  assumes "visible_memory_page parse store i r after = Inr page"
  shows "length (mp_items page) \<le> 100"
  using assms
  by (auto simp: visible_memory_page_def memory_page_size_def Let_def split: option.splits if_splits sum.splits)

section \<open>Weekly metrics\<close>

record review_outcome =
  ro_pull_request_id :: bytes
  ro_occurred_at :: int
  ro_comments :: int
  ro_addressed :: int
  ro_downvoted :: int
  ro_suppressed :: int

record weekly_metrics =
  wm_installation_id :: int
  wm_repository_id :: int
  wm_week_start :: int
  wm_pull_requests :: int
  wm_comments :: int
  wm_comments_per_pr :: rat
  wm_addressed_rate :: rat
  wm_downvote_rate :: rat
  wm_suppressed :: int

definition start_of_utc_week :: "int \<Rightarrow> int" where
  "start_of_utc_week t = utc_day (t - (weekday t + 6) mod 7 * day_ns)"

definition outcome_invalid :: "review_outcome \<Rightarrow> bool" where
  "outcome_invalid x \<longleftrightarrow> ro_comments x < 0 \<or> ro_addressed x < 0 \<or> ro_downvoted x < 0 \<or> ro_suppressed x < 0
     \<or> ro_addressed x > ro_comments x \<or> ro_downvoted x > ro_comments x"

definition add_outcome :: "review_outcome \<Rightarrow> weekly_metrics \<Rightarrow> weekly_metrics" where
  "add_outcome x m =
     m\<lparr>wm_pull_requests := wrap64 (wm_pull_requests m + 1),
       wm_comments := wrap64 (wm_comments m + ro_comments x),
       wm_suppressed := wrap64 (wm_suppressed m + ro_suppressed x),
       wm_addressed_rate := wm_addressed_rate m + rat_of_int (ro_addressed x),
       wm_downvote_rate := wm_downvote_rate m + rat_of_int (ro_downvoted x)\<rparr>"

fun metrics_loop :: "int \<Rightarrow> int \<Rightarrow> bytes set \<Rightarrow> weekly_metrics \<Rightarrow> review_outcome list \<Rightarrow> weekly_metrics res" where
  "metrics_loop week_start week_end seen m [] = Inr m"
| "metrics_loop week_start week_end seen m (x # xs) =
     (if ro_pull_request_id x = [] \<or> ro_pull_request_id x \<in> seen \<or> outcome_invalid x
      then Inl (Msg ''weekly review outcome is invalid'')
      else if ro_occurred_at x < week_start \<or> \<not> ro_occurred_at x < week_end
      then metrics_loop week_start week_end seen m xs
      else metrics_loop week_start week_end (insert (ro_pull_request_id x) seen) (add_outcome x m) xs)"

definition finish_metrics :: "weekly_metrics \<Rightarrow> weekly_metrics" where
  "finish_metrics m =
     (let m = (if wm_pull_requests m > 0
               then m\<lparr>wm_comments_per_pr := rat_of_int (wm_comments m) / rat_of_int (wm_pull_requests m)\<rparr> else m)
      in if wm_comments m > 0
         then m\<lparr>wm_addressed_rate := wm_addressed_rate m / rat_of_int (wm_comments m),
                wm_downvote_rate := wm_downvote_rate m / rat_of_int (wm_comments m)\<rparr>
         else m\<lparr>wm_addressed_rate := 0, wm_downvote_rate := 0\<rparr>)"

definition aggregate_weekly_metrics :: "int \<Rightarrow> int \<Rightarrow> int \<Rightarrow> review_outcome list \<Rightarrow> weekly_metrics res" where
  "aggregate_weekly_metrics installation repository week outcomes =
     (if installation \<le> 0 \<or> repository \<le> 0 \<or> week = zero_time then Inl (Msg ''tenant and week are required'')
      else let start = start_of_utc_week week in
        case metrics_loop start (start + 7 * 24 * hour_ns) {}
               \<lparr>wm_installation_id = installation, wm_repository_id = repository, wm_week_start = start,
                wm_pull_requests = 0, wm_comments = 0, wm_comments_per_pr = 0, wm_addressed_rate = 0,
                wm_downvote_rate = 0, wm_suppressed = 0\<rparr> outcomes of
          Inl e \<Rightarrow> Inl e
        | Inr m \<Rightarrow> Inr (finish_metrics m))"

text \<open>The running sums: the rates never exceed the comments delivered, while those fit 64 bits.\<close>

lemma metrics_loop_bounds:
  assumes "metrics_loop ws we seen m xs = Inr m'"
    and "0 \<le> wm_comments m" and "wm_comments m + (\<Sum>x \<leftarrow> xs. max 0 (ro_comments x)) < 2 ^ 63"
    and "0 \<le> wm_addressed_rate m \<and> wm_addressed_rate m \<le> rat_of_int (wm_comments m)"
    and "0 \<le> wm_downvote_rate m \<and> wm_downvote_rate m \<le> rat_of_int (wm_comments m)"
  shows "0 \<le> wm_comments m'
    \<and> 0 \<le> wm_addressed_rate m' \<and> wm_addressed_rate m' \<le> rat_of_int (wm_comments m')
    \<and> 0 \<le> wm_downvote_rate m' \<and> wm_downvote_rate m' \<le> rat_of_int (wm_comments m')"
  using assms
proof (induction ws we seen m xs rule: metrics_loop.induct)
  case (1 ws we seen m)
  then show ?case by simp
next
  case (2 ws we seen m x xs)
  have ok: "\<not> (ro_pull_request_id x = [] \<or> ro_pull_request_id x \<in> seen \<or> outcome_invalid x)"
    using "2.prems"(1) by (auto split: if_splits)
  show ?case
  proof (cases "ro_occurred_at x < ws \<or> \<not> ro_occurred_at x < we")
    case True
    then show ?thesis using "2.IH"(1) [OF ok True] "2.prems" ok by auto
  next
    case False
    have x: "0 \<le> ro_comments x" "0 \<le> ro_addressed x" "ro_addressed x \<le> ro_comments x"
        "0 \<le> ro_downvoted x" "ro_downvoted x \<le> ro_comments x"
      using ok by (auto simp: outcome_invalid_def)
    have rest: "0 \<le> (\<Sum>y \<leftarrow> xs. max 0 (ro_comments y))" by (rule sum_list_nonneg) auto
    have w: "wrap64 (wm_comments m + ro_comments x) = wm_comments m + ro_comments x"
      using "2.prems"(2,3) x rest by (intro wrap64_small) simp_all
    show ?thesis
      using "2.IH"(2) [OF ok False] "2.prems" ok False x by (simp add: add_outcome_def w)
  qed
qed

lemma weekly_rates:
  assumes "aggregate_weekly_metrics i r week outcomes = Inr m"
    and "(\<Sum>x \<leftarrow> outcomes. max 0 (ro_comments x)) < 2 ^ 63"
  shows "0 \<le> wm_addressed_rate m \<and> wm_addressed_rate m \<le> 1 \<and> 0 \<le> wm_downvote_rate m \<and> wm_downvote_rate m \<le> 1"
proof -
  obtain raw where run: "metrics_loop (start_of_utc_week week) (start_of_utc_week week + 7 * 24 * hour_ns) {}
       \<lparr>wm_installation_id = i, wm_repository_id = r, wm_week_start = start_of_utc_week week,
        wm_pull_requests = 0, wm_comments = 0, wm_comments_per_pr = 0, wm_addressed_rate = 0,
        wm_downvote_rate = 0, wm_suppressed = 0\<rparr> outcomes = Inr raw" and m: "m = finish_metrics raw"
    using assms(1) by (auto simp: aggregate_weekly_metrics_def Let_def split: if_splits sum.splits)
  have "0 \<le> wm_comments raw
    \<and> 0 \<le> wm_addressed_rate raw \<and> wm_addressed_rate raw \<le> rat_of_int (wm_comments raw)
    \<and> 0 \<le> wm_downvote_rate raw \<and> wm_downvote_rate raw \<le> rat_of_int (wm_comments raw)"
    by (rule metrics_loop_bounds [OF run]) (use assms(2) in simp_all)
  then show ?thesis by (auto simp: m finish_metrics_def Let_def divide_le_eq)
qed

end
