(* ===== verification/Proposals.thy ===== *)
theory Proposals
  imports Learning Findings
begin

text \<open>
  From feedback to repository rules: the inference of rule proposals from recurring comments
  (\<open>internal/hosted/learning/inference.go\<close>), the queue in which a human edits, rejects or accepts
  them (\<open>proposal_queue.go\<close>), and the classification of replies (\<open>replies.go\<close>). Stores, the
  clusterer, the model, publishers, \<open>url.Parse\<close>, SHA-256 (in hex) and JSON are parameters; what
  acts on the outside world passes its state explicitly.
\<close>

section \<open>Inferring rules\<close>

record review_comment =
  rc_id :: int
  rc_pull_request :: int
  rc_url :: bytes
  rc_text :: bytes
  rc_created_at :: int

record comment_cluster =
  cc_theme :: bytes
  cc_rule_text :: bytes
  cc_comment_ids :: "int list"

definition rule_inference_window :: int where "rule_inference_window = 7 * 24 * hour_ns"

text \<open>A Go map built by ranging over the comments: the last comment of an id wins.\<close>

definition comments_by_id :: "review_comment list \<Rightarrow> (int \<rightharpoonup> review_comment)" where
  "comments_by_id comments = map_of (rev (map (\<lambda>c. (rc_id c, c)) comments))"

fun select_comments ::
    "(int \<rightharpoonup> review_comment) \<Rightarrow> int set \<Rightarrow> int set \<Rightarrow> int list \<Rightarrow> int list \<Rightarrow> int list \<times> int set" where
  "select_comments by_id seen prs selected [] = (selected, prs)"
| "select_comments by_id seen prs selected (i # ids) =
     (case by_id i of
        None \<Rightarrow> select_comments by_id seen prs selected ids
      | Some c \<Rightarrow>
          if i \<in> seen \<or> rc_pull_request c \<le> 0 \<or> \<not> has_prefix ''https://github.com/'' (rc_url c)
          then select_comments by_id seen prs selected ids
          else select_comments by_id (insert i seen) (insert (rc_pull_request c) prs) (selected @ [i]) ids)"

definition unique_cluster_comments :: "int list \<Rightarrow> (int \<rightharpoonup> review_comment) \<Rightarrow> int list \<times> int set" where
  "unique_cluster_comments ids by_id =
     (let (selected, prs) = select_comments by_id {} {} [] ids in (sort selected, prs))"

definition proposal_fingerprint :: "unicode \<Rightarrow> (bytes \<Rightarrow> bytes) \<Rightarrow> bytes \<Rightarrow> bytes \<Rightarrow> bytes" where
  "proposal_fingerprint u digest theme rule_text =
     digest (concat (map (\<lambda>r. encode_rune (u_lower u r))
       (join_runes (fields_func (u_space u) (runes (theme @ CHR 0x0A # rule_text))))))"

definition render_rule_proposal ::
    "comment_cluster \<Rightarrow> int list \<Rightarrow> (int \<rightharpoonup> review_comment) \<Rightarrow> bytes \<Rightarrow> bytes" where
  "render_rule_proposal cluster ids by_id fingerprint =
     ''<!-- px1-rule-proposal:'' @ fingerprint @ '' -->'' @ newline
     @ ''## Proposed review rule'' @ newline @ newline @ trim_space (cc_rule_text cluster) @ newline @ newline
     @ ''## Evidence'' @ newline
     @ concat (map (\<lambda>i. newline @ ''- '' @ (case by_id i of None \<Rightarrow> [] | Some c \<Rightarrow> rc_url c)) ids)
     @ newline @ newline
     @ ''This is a proposal inferred from recurring human comments. Review and edit it like any other repository policy.''
     @ newline"

record 's inference_ops =
  io_human_review_comments :: "'s \<Rightarrow> int \<Rightarrow> int \<Rightarrow> int \<Rightarrow> review_comment list res"
  io_cluster :: "review_comment list \<Rightarrow> comment_cluster list res"
  io_proposal_exists :: "'s \<Rightarrow> int \<Rightarrow> int \<Rightarrow> bytes \<Rightarrow> bool res"
  io_open_rules_pull_request :: "'s \<Rightarrow> int \<Rightarrow> int \<Rightarrow> bytes \<Rightarrow> bytes \<Rightarrow> bytes \<Rightarrow> 's \<times> go_error option"
  io_mark_proposal :: "'s \<Rightarrow> int \<Rightarrow> int \<Rightarrow> bytes \<Rightarrow> int list \<Rightarrow> 's \<times> go_error option"

definition cluster_skipped :: "(int \<rightharpoonup> review_comment) \<Rightarrow> comment_cluster \<Rightarrow> bool" where
  "cluster_skipped by_id cluster \<longleftrightarrow>
     (let (selected, prs) = unique_cluster_comments (cc_comment_ids cluster) by_id;
          theme = trim_space (cc_theme cluster); rule_text = trim_space (cc_rule_text cluster)
      in length selected < 3 \<or> card prs < 2 \<or> theme = [] \<or> length theme > 200
         \<or> rule_text = [] \<or> length rule_text > 8000)"

fun inference_loop ::
    "unicode \<Rightarrow> (bytes \<Rightarrow> bytes) \<Rightarrow> 's inference_ops \<Rightarrow> int \<Rightarrow> int \<Rightarrow> (int \<rightharpoonup> review_comment) \<Rightarrow> 's \<Rightarrow> int
     \<Rightarrow> comment_cluster list \<Rightarrow> 's \<times> int \<times> go_error option" where
  "inference_loop u digest ops i r by_id s opened [] = (s, opened, None)"
| "inference_loop u digest ops i r by_id s opened (cluster # clusters) =
     (let (selected, prs) = unique_cluster_comments (cc_comment_ids cluster) by_id;
          theme = trim_space (cc_theme cluster); rule_text = trim_space (cc_rule_text cluster);
          fingerprint = proposal_fingerprint u digest theme rule_text
      in if cluster_skipped by_id cluster then inference_loop u digest ops i r by_id s opened clusters
      else case io_proposal_exists ops s i r fingerprint of
             Inl e \<Rightarrow> (s, opened, Some e)
           | Inr True \<Rightarrow> inference_loop u digest ops i r by_id s opened clusters
           | Inr False \<Rightarrow>
               (case io_open_rules_pull_request ops s i r ''.px1/rules.md'' (''px1: propose '' @ theme)
                       (render_rule_proposal cluster selected by_id fingerprint) of
                  (s, Some e) \<Rightarrow> (s, opened, Some (Wrapped ''open rule proposal: %w'' [] e))
                | (s, None) \<Rightarrow>
                    (case io_mark_proposal ops s i r fingerprint selected of
                       (s, Some e) \<Rightarrow> (s, opened, Some (Wrapped ''mark rule proposal: %w'' [] e))
                     | (s, None) \<Rightarrow> inference_loop u digest ops i r by_id s (opened + 1) clusters)))"

definition run_rule_inference ::
    "unicode \<Rightarrow> (bytes \<Rightarrow> bytes) \<Rightarrow> 's inference_ops option \<Rightarrow> int \<Rightarrow> 's \<Rightarrow> int \<Rightarrow> int
     \<Rightarrow> 's \<times> int \<times> go_error option" where
  "run_rule_inference u digest ops now s installation repository =
     (case ops of
        None \<Rightarrow> (s, 0, Some (Msg ''rule inference requires store, clusterer, publisher, and tenant''))
      | Some ops \<Rightarrow>
          if installation \<le> 0 \<or> repository \<le> 0
          then (s, 0, Some (Msg ''rule inference requires store, clusterer, publisher, and tenant''))
          else case io_human_review_comments ops s installation repository (now - rule_inference_window) of
                 Inl e \<Rightarrow> (s, 0, Some (Wrapped ''load review comments: %w'' [] e))
               | Inr comments \<Rightarrow>
                   (case io_cluster ops comments of
                      Inl e \<Rightarrow> (s, 0, Some (Wrapped ''cluster review comments: %w'' [] e))
                    | Inr clusters \<Rightarrow>
                        inference_loop u digest ops installation repository (comments_by_id comments) s 0 clusters))"

lemma select_comments_spec:
  assumes "select_comments by_id seen prs selected ids = (selected', prs')"
    and "distinct selected" and "set selected = seen"
    and "prs = {rc_pull_request c | c i. i \<in> seen \<and> by_id i = Some c}"
    and "\<forall>i \<in> seen. \<exists>c. by_id i = Some c \<and> 0 < rc_pull_request c \<and> has_prefix ''https://github.com/'' (rc_url c)"
  shows "distinct selected' \<and> set selected' \<subseteq> seen \<union> set ids
    \<and> prs' = {rc_pull_request c | c i. i \<in> set selected' \<and> by_id i = Some c}
    \<and> (\<forall>i \<in> set selected'. \<exists>c. by_id i = Some c \<and> 0 < rc_pull_request c
          \<and> has_prefix ''https://github.com/'' (rc_url c))"
  using assms
proof (induction by_id seen prs selected ids rule: select_comments.induct)
  case (1 by_id seen prs selected)
  then show ?case by auto
next
  case (2 by_id seen prs selected i ids)
  show ?case
  proof (cases "by_id i")
    case None
    then show ?thesis using "2.IH"(1) [OF None _ "2.prems"(2-5)] "2.prems"(1) by auto
  next
    case (Some c)
    show ?thesis
    proof (cases "i \<in> seen \<or> rc_pull_request c \<le> 0 \<or> \<not> has_prefix ''https://github.com/'' (rc_url c)")
      case True
      then show ?thesis using "2.IH"(2) [OF Some True _ "2.prems"(2-5)] "2.prems"(1) Some by auto
    next
      case False
      have "insert (rc_pull_request c) prs = {rc_pull_request c | c j. j \<in> insert i seen \<and> by_id j = Some c}"
        using Some by (auto simp: "2.prems"(4))
      moreover have "\<forall>j \<in> insert i seen. \<exists>c. by_id j = Some c \<and> 0 < rc_pull_request c
          \<and> has_prefix ''https://github.com/'' (rc_url c)"
        using "2.prems"(5) Some False by auto
      moreover have "distinct (selected @ [i])" "set (selected @ [i]) = insert i seen"
        using "2.prems"(2,3) False by auto
      ultimately show ?thesis
        using "2.IH"(3) [OF Some False] "2.prems"(1) Some False by auto
    qed
  qed
qed

end
