(* ===== verification/Resolve.thy ===== *)
theory Resolve
  imports GoPath
begin

text \<open>
  \<open>internal/hosted/graph/resolve.go\<close>: linking the references of parsed files to symbols. The index
  maps are built entry by entry as the loop does, so a symbol whose file has no extension is
  entered twice under one alias. The theorem states the result by sets of candidate symbols.
\<close>

section \<open>The code\<close>

record graph_symbol =
  gs_id :: int
  gs_path :: bytes
  gs_name :: bytes
  gs_kind :: bytes
  gs_signature :: bytes
  gs_start_line :: int
  gs_end_line :: int

record reference =
  rf_source_symbol_id :: int
  rf_source_path :: bytes
  rf_source_line :: int
  rf_kind :: bytes
  rf_target :: bytes
  rf_target_path :: bytes

record resolved_edge =
  re_source_symbol_id :: int
  re_target_symbol_id :: int
  re_unresolved :: bytes
  re_kind :: bytes
  re_confidence :: rat
  re_source_path :: bytes
  re_source_line :: int

record symbol_index =
  si_by_id :: "int set"
  si_by_path_name :: "bytes \<Rightarrow> graph_symbol list"
  si_by_name :: "bytes \<Rightarrow> graph_symbol list"
  si_file_symbols :: "bytes \<Rightarrow> graph_symbol list"

definition empty_index :: symbol_index where
  "empty_index = \<lparr>si_by_id = {}, si_by_path_name = (\<lambda>_. []), si_by_name = (\<lambda>_. []), si_file_symbols = (\<lambda>_. [])\<rparr>"

definition append_at :: "'a \<Rightarrow> 'b \<Rightarrow> ('a \<Rightarrow> 'b list) \<Rightarrow> 'a \<Rightarrow> 'b list" where
  "append_at k x m = m(k := m k @ [x])"

definition path_aliases :: "graph_symbol \<Rightarrow> bytes list" where
  "path_aliases s = (let p = clean (gs_path s) in [p, trim_suffix (ext p) p])"

definition name_key :: "bytes \<Rightarrow> bytes \<Rightarrow> bytes" where
  "name_key path name = path @ CHR 0x00 # name"

definition add_alias :: "graph_symbol \<Rightarrow> bytes \<Rightarrow> symbol_index \<Rightarrow> symbol_index" where
  "add_alias s alias ix =
     ix\<lparr>si_by_path_name := append_at (name_key alias (gs_name s)) s (si_by_path_name ix),
        si_file_symbols := append_at alias s (si_file_symbols ix)\<rparr>"

fun index_symbols :: "symbol_index \<Rightarrow> graph_symbol list \<Rightarrow> symbol_index res" where
  "index_symbols ix [] = Inr ix"
| "index_symbols ix (s # ss) =
     (if gs_id s \<le> 0 \<or> gs_path s = [] \<or> gs_name s = []
      then Inl (Msg ''symbols require ID, path, and name'')
      else if gs_id s \<in> si_by_id ix then Inl (Msg ''symbol IDs must be unique'')
      else
        let ix = fold (add_alias s) (path_aliases s) (ix\<lparr>si_by_id := insert (gs_id s) (si_by_id ix)\<rparr>) in
        index_symbols (ix\<lparr>si_by_name := append_at (gs_name s) s (si_by_name ix)\<rparr>) ss)"

definition unique_symbols :: "graph_symbol list \<Rightarrow> graph_symbol list" where
  "unique_symbols symbols = sort_by (\<lambda>a b. gs_id a < gs_id b) (dedup_on gs_id {} symbols)"

definition resolve_path :: "bytes \<Rightarrow> bytes \<Rightarrow> bytes" where
  "resolve_path source_path target_path =
     (let cleaned = (if has_prefix ''.'' target_path then clean (path_join (dir source_path) target_path)
                     else trim_prefix ''./'' (clean target_path))
      in trim_suffix (ext cleaned) cleaned)"

definition confidence_for :: "reference \<Rightarrow> rat" where
  "confidence_for r = (if rf_target_path r \<noteq> [] then 9 / 10 else 3 / 4)"

definition candidates_for :: "reference \<Rightarrow> symbol_index \<Rightarrow> graph_symbol list" where
  "candidates_for r ix =
     (if rf_kind r = ''imports'' then
        let target_path = resolve_path (rf_source_path r) (rf_target_path r);
            candidates = si_file_symbols ix target_path
        in unique_symbols (if candidates = [] then si_file_symbols ix (target_path @ ''/index'') else candidates)
      else if rf_target_path r \<noteq> [] then
        unique_symbols (si_by_path_name ix
          (name_key (resolve_path (rf_source_path r) (rf_target_path r)) (rf_target r)))
      else
        let local = si_by_path_name ix (name_key (clean (rf_source_path r)) (rf_target r))
        in if length local = 1 then local else unique_symbols (si_by_name ix (rf_target r)))"

definition resolve_reference :: "symbol_index \<Rightarrow> reference \<Rightarrow> resolved_edge" where
  "resolve_reference ix r =
     (let edge = \<lparr>re_source_symbol_id = rf_source_symbol_id r, re_target_symbol_id = 0, re_unresolved = [],
                  re_kind = rf_kind r, re_confidence = 0, re_source_path = rf_source_path r,
                  re_source_line = rf_source_line r\<rparr>;
          candidates = candidates_for r ix
      in if length candidates = 1
         then edge\<lparr>re_target_symbol_id := gs_id (hd candidates), re_confidence := confidence_for r\<rparr>
         else edge\<lparr>re_unresolved := (if rf_target_path r \<noteq> [] then rf_target_path r @ '':'' @ rf_target r
                                    else rf_target r),
                   re_confidence := 1 / 5\<rparr>)"

fun resolve_references :: "symbol_index \<Rightarrow> resolved_edge list \<Rightarrow> reference list \<Rightarrow> resolved_edge list res" where
  "resolve_references ix edges [] = Inr edges"
| "resolve_references ix edges (r # rs) =
     (if rf_source_symbol_id r \<notin> si_by_id ix \<or> rf_source_path r = [] \<or> rf_source_line r \<le> 0 \<or> rf_target r = []
      then Inl (Msg ''references require a known source, path, line, and target'')
      else if rf_kind r \<noteq> ''calls'' \<and> rf_kind r \<noteq> ''imports''
      then Inl (Msg ''resolver supports calls and imports'')
      else resolve_references ix (edges @ [resolve_reference ix r]) rs)"

definition resolve :: "graph_symbol list \<Rightarrow> reference list \<Rightarrow> resolved_edge list res" where
  "resolve symbols references =
     (case index_symbols empty_index symbols of
        Inl e \<Rightarrow> Inl e
      | Inr ix \<Rightarrow> resolve_references ix [] references)"

section \<open>What the index holds\<close>

lemma append_at_apply [simp]: "append_at k x m j = m j @ (if j = k then [x] else [])"
  by (simp add: append_at_def)

lemma fold_add_alias:
  "si_by_id (fold (add_alias s) as ix) = si_by_id ix"
  "si_by_name (fold (add_alias s) as ix) = si_by_name ix"
  "si_by_path_name (fold (add_alias s) as ix) key =
     si_by_path_name ix key @ map (\<lambda>_. s) (filter (\<lambda>a. key = name_key a (gs_name s)) as)"
  "si_file_symbols (fold (add_alias s) as ix) p =
     si_file_symbols ix p @ map (\<lambda>_. s) (filter (\<lambda>a. p = a) as)"
  by (induction as arbitrary: ix) (simp_all add: add_alias_def)

lemma index_symbols_ok:
  assumes "index_symbols ix symbols = Inr ix'"
  shows "si_by_id ix' = si_by_id ix \<union> gs_id ` set symbols"
    and "si_by_path_name ix' key = si_by_path_name ix key
      @ concat (map (\<lambda>s. map (\<lambda>_. s) (filter (\<lambda>a. key = name_key a (gs_name s)) (path_aliases s))) symbols)"
    and "si_by_name ix' n = si_by_name ix n @ filter (\<lambda>s. gs_name s = n) symbols"
    and "si_file_symbols ix' p = si_file_symbols ix p
      @ concat (map (\<lambda>s. map (\<lambda>_. s) (filter (\<lambda>a. p = a) (path_aliases s))) symbols)"
  using assms
  by (induction symbols arbitrary: ix)
    (auto simp: Let_def fold_add_alias split: if_splits)

definition symbols_ok :: "graph_symbol list \<Rightarrow> bool" where
  "symbols_ok symbols \<longleftrightarrow> distinct (map gs_id symbols)
     \<and> (\<forall>s \<in> set symbols. 0 < gs_id s \<and> gs_path s \<noteq> [] \<and> gs_name s \<noteq> [])"

lemma index_symbols_ok_iff:
  "is_ok (index_symbols ix symbols) \<longleftrightarrow> symbols_ok symbols \<and> gs_id ` set symbols \<inter> si_by_id ix = {}"
proof (induction symbols arbitrary: ix)
  case Nil
  then show ?case by (simp add: symbols_ok_def)
next
  case (Cons s ss)
  show ?case
  proof (cases "gs_id s \<le> 0 \<or> gs_path s = [] \<or> gs_name s = [] \<or> gs_id s \<in> si_by_id ix")
    case True
    then show ?thesis by (auto simp: symbols_ok_def)
  next
    case False
    then show ?thesis by (auto simp: Cons.IH symbols_ok_def Let_def fold_add_alias)
  qed
qed

lemma unique_symbols_set:
  assumes "symbols_ok symbols" and "set xs \<subseteq> set symbols"
  shows "set (unique_symbols xs) = set xs" and "distinct (unique_symbols xs)"
proof -
  have inj: "inj_on gs_id (set symbols)"
    using assms(1) by (simp add: symbols_ok_def distinct_map)
  have "gs_id ` set (dedup_on gs_id {} xs) = gs_id ` set xs" by (simp add: dedup_on_keys(2))
  then have "set (dedup_on gs_id {} xs) = set xs"
    using inj_on_image_eq_iff [OF inj, of "set (dedup_on gs_id {} xs)" "set xs"]
      dedup_on_subset [of gs_id "{}" xs] assms(2) by blast
  then show "set (unique_symbols xs) = set xs" by (simp add: unique_symbols_def)
  have "distinct (dedup_on gs_id {} xs)"
    using dedup_on_keys(1) [of gs_id "{}" xs] by (simp add: distinct_map)
  then show "distinct (unique_symbols xs)" by (simp add: unique_symbols_def)
qed

lemma ext_suffix: "\<exists>w. p = w @ ext p"
proof (cases "CHR ''.'' \<in> set (takeWhile (\<lambda>c. c \<noteq> CHR ''/'') (rev p))")
  case True
  define tail where "tail = takeWhile (\<lambda>c. c \<noteq> CHR ''/'') (rev p)"
  define rest where "rest = dropWhile (\<lambda>c. c \<noteq> CHR ''/'') (rev p)"
  have rest: "rev p = tail @ rest"
    unfolding tail_def rest_def by (rule takeWhile_dropWhile_id [symmetric])
  define drop where "drop = dropWhile (\<lambda>c. c \<noteq> CHR ''.'') tail"
  have "drop \<noteq> []"
    using True unfolding tail_def [symmetric] drop_def by (auto simp: dropWhile_eq_Nil_conv)
  moreover have "hd drop = CHR ''.''"
    using hd_dropWhile [of "\<lambda>c. c \<noteq> CHR ''.''" tail] calculation unfolding drop_def by blast
  ultimately obtain more where "drop = CHR ''.'' # more" by (cases drop) auto
  then have tail: "tail = takeWhile (\<lambda>c. c \<noteq> CHR ''.'') tail @ CHR ''.'' # more"
    unfolding drop_def by (metis takeWhile_dropWhile_id)
  have "p = rev rest @ rev tail" using arg_cong [OF rest, of rev] by simp
  also have "rev tail = rev more @ CHR ''.'' # rev (takeWhile (\<lambda>c. c \<noteq> CHR ''.'') tail)"
    using arg_cong [OF tail, of rev] by simp
  finally have "p = (rev rest @ rev more) @ ext p"
    using True unfolding ext_def tail_def [symmetric] by (simp add: Let_def)
  then show ?thesis by blast
qed (simp add: ext_def Let_def)

lemma trim_suffix_append: "trim_suffix e (w @ e) = w"
  by (simp add: trim_suffix_def has_suffix_def)

lemma aliases_distinct_iff: "distinct (path_aliases s) \<longleftrightarrow> ext (clean (gs_path s)) \<noteq> []"
proof -
  let ?p = "clean (gs_path s)"
  obtain w where w: "?p = w @ ext ?p" using ext_suffix by blast
  then have "trim_suffix (ext ?p) ?p = w"
    using trim_suffix_append [of "ext ?p" w] by argo
  then show ?thesis using w by (auto simp: path_aliases_def Let_def)
qed

lemma length_concat_1:
  assumes "distinct xs"
  shows "length (concat (map f xs)) = 1 \<longleftrightarrow>
    (\<exists>x \<in> set xs. length (f x) = 1 \<and> (\<forall>y \<in> set xs. y \<noteq> x \<longrightarrow> f y = []))"
  using assms
proof (induction xs)
  case (Cons x xs)
  show ?case
  proof (cases "f x = []")
    case True
    then show ?thesis using Cons by auto
  next
    case False
    then have "length (concat (map f (x # xs))) = 1 \<longleftrightarrow> length (f x) = 1 \<and> (\<forall>y \<in> set xs. f y = [])"
      by (cases "f x") auto
    then show ?thesis using Cons.prems False by (metis distinct.simps(2) list.set_intros(1) set_ConsD list.set_intros(2))
  qed
qed simp

section \<open>The candidates as sets\<close>

definition in_file :: "graph_symbol list \<Rightarrow> bytes \<Rightarrow> graph_symbol set" where
  "in_file symbols p = {s \<in> set symbols. p \<in> set (path_aliases s)}"

definition keyed :: "graph_symbol list \<Rightarrow> bytes \<Rightarrow> graph_symbol set" where
  "keyed symbols key = {s \<in> set symbols. \<exists>a \<in> set (path_aliases s). key = name_key a (gs_name s)}"

text \<open>
  What a reference may mean. An import names the symbols of a file or of its index file; a call
  with a path the symbol of that name in the file; any other call the one symbol of that name in
  the calling file, when that file's name has an extension, and else every symbol of the name.
\<close>

definition candidate_set :: "graph_symbol list \<Rightarrow> reference \<Rightarrow> graph_symbol set" where
  "candidate_set symbols r =
     (let target_path = resolve_path (rf_source_path r) (rf_target_path r);
          local = keyed symbols (name_key (clean (rf_source_path r)) (rf_target r))
      in if rf_kind r = ''imports'' then
           (if in_file symbols target_path = {} then in_file symbols (target_path @ ''/index'')
            else in_file symbols target_path)
         else if rf_target_path r \<noteq> [] then keyed symbols (name_key target_path (rf_target r))
         else if card local = 1 \<and> (\<forall>s \<in> local. ext (clean (gs_path s)) \<noteq> []) then local
         else {s \<in> set symbols. gs_name s = rf_target r})"

lemma alias_entries:
  "map (\<lambda>_. s) (filter (\<lambda>a. key = name_key a (gs_name s)) (path_aliases s)) = [] \<longleftrightarrow>
     (\<forall>a \<in> set (path_aliases s). key \<noteq> name_key a (gs_name s))"
  by (auto simp: filter_empty_conv)

lemma one_entry_iff:
  "length (map (\<lambda>_. s) (filter (\<lambda>a. key = name_key a (gs_name s)) (path_aliases s))) = 1 \<longleftrightarrow>
     (\<exists>a \<in> set (path_aliases s). key = name_key a (gs_name s)) \<and> ext (clean (gs_path s)) \<noteq> []"
  unfolding aliases_distinct_iff [symmetric] by (auto simp: path_aliases_def Let_def name_key_def)

lemma candidates_for_set:
  assumes ok: "symbols_ok symbols" and ix: "index_symbols empty_index symbols = Inr ix"
  shows "set (candidates_for r ix) = candidate_set symbols r" and "distinct (candidates_for r ix)"
proof -
  note at = index_symbols_ok [OF ix, unfolded empty_index_def, simplified]
  have files: "set (si_file_symbols ix p) = in_file symbols p" for p
    by (auto simp: at(4) in_file_def)
  have keys: "set (si_by_path_name ix key) = keyed symbols key" for key
    by (auto simp: at(2) keyed_def)
  have uniq: "set (unique_symbols xs) = set xs" "distinct (unique_symbols xs)" if "set xs \<subseteq> set symbols" for xs
    using unique_symbols_set [OF ok that] by auto
  let ?key = "name_key (clean (rf_source_path r)) (rf_target r)"
  let ?local = "si_by_path_name ix ?key"
  have one: "length ?local = 1 \<longleftrightarrow> card (keyed symbols ?key) = 1 \<and> (\<forall>s \<in> keyed symbols ?key. ext (clean (gs_path s)) \<noteq> [])"
  proof -
    have "distinct symbols" using ok by (auto simp: symbols_ok_def distinct_map)
    then have "length ?local = 1 \<longleftrightarrow> (\<exists>s \<in> set symbols. (s \<in> keyed symbols ?key \<and> ext (clean (gs_path s)) \<noteq> [])
        \<and> (\<forall>y \<in> set symbols. y \<noteq> s \<longrightarrow> y \<notin> keyed symbols ?key))"
      unfolding at(2) by (subst length_concat_1) (simp_all only: one_entry_iff alias_entries keyed_def mem_Collect_eq, blast)
    also have "\<dots> \<longleftrightarrow> (\<exists>s. keyed symbols ?key = {s} \<and> ext (clean (gs_path s)) \<noteq> [])"
      unfolding keyed_def by blast
    finally show ?thesis by (auto simp: card_1_singleton_iff)
  qed
  have empty: "si_file_symbols ix p = [] \<longleftrightarrow> in_file symbols p = {}" for p
    using files [of p] by auto
  have sub: "in_file symbols p \<subseteq> set symbols" "keyed symbols k \<subseteq> set symbols" for p k
    by (auto simp: in_file_def keyed_def)
  have named: "set (si_by_name ix n) = {s \<in> set symbols. gs_name s = n}" for n
    by (auto simp: at(3))
  show "set (candidates_for r ix) = candidate_set symbols r"
    by (simp add: candidates_for_def candidate_set_def Let_def empty one [unfolded One_nat_def] uniq files keys sub named)
  have single: "distinct ?local" if "length ?local = 1"
    using that by (cases ?local) auto
  show "distinct (candidates_for r ix)"
    using single by (auto simp: candidates_for_def Let_def uniq(2) files keys sub named)
qed

definition reference_ok :: "graph_symbol list \<Rightarrow> reference \<Rightarrow> bool" where
  "reference_ok symbols r \<longleftrightarrow> rf_source_symbol_id r \<in> gs_id ` set symbols \<and> rf_source_path r \<noteq> []
     \<and> 0 < rf_source_line r \<and> rf_target r \<noteq> [] \<and> rf_kind r \<in> {''calls'', ''imports''}"

definition edge_of :: "graph_symbol list \<Rightarrow> reference \<Rightarrow> resolved_edge" where
  "edge_of symbols r =
     (let found = (card (candidate_set symbols r) = 1) in
      \<lparr>re_source_symbol_id = rf_source_symbol_id r,
       re_target_symbol_id = (if found then gs_id (the_elem (candidate_set symbols r)) else 0),
       re_unresolved = (if found then [] else if rf_target_path r = [] then rf_target r
                        else rf_target_path r @ '':'' @ rf_target r),
       re_kind = rf_kind r,
       re_confidence = (if \<not> found then 1 / 5 else if rf_target_path r = [] then 3 / 4 else 9 / 10),
       re_source_path = rf_source_path r, re_source_line = rf_source_line r\<rparr>)"

lemma resolve_references_iff:
  "resolve_references ix edges rs = Inr edges' \<longleftrightarrow>
     (\<forall>r \<in> set rs. rf_source_symbol_id r \<in> si_by_id ix \<and> rf_source_path r \<noteq> []
        \<and> 0 < rf_source_line r \<and> rf_target r \<noteq> [] \<and> rf_kind r \<in> {''calls'', ''imports''})
     \<and> edges' = edges @ map (resolve_reference ix) rs"
  by (induction rs arbitrary: edges) auto

lemma resolve_reference_eq:
  assumes "symbols_ok symbols" and "index_symbols empty_index symbols = Inr ix"
  shows "resolve_reference ix r = edge_of symbols r"
proof -
  note c = candidates_for_set [OF assms, of r]
  have len: "length (candidates_for r ix) = card (candidate_set symbols r)"
    using distinct_card [OF c(2)] c(1) by simp
  have "hd (candidates_for r ix) = the_elem (candidate_set symbols r)" if "length (candidates_for r ix) = 1"
    using that c(1) by (cases "candidates_for r ix") (auto simp: the_elem_eq simp flip: c(1))
  then show ?thesis
    by (simp add: resolve_reference_def edge_of_def Let_def len confidence_for_def)
qed

text \<open>
  C4: Resolution succeeds exactly on symbols with unique positive ids, paths and names and on
  well-formed references out of known symbols, and it then links each reference, in order, to the
  one symbol it may mean; a reference with no or several candidates stays unresolved under its
  written target with the lowest confidence.
\<close>

theorem resolve_is_candidate_lookup:
  "resolve symbols references = Inr edges \<longleftrightarrow>
     symbols_ok symbols \<and> list_all (reference_ok symbols) references \<and> edges = map (edge_of symbols) references"
proof (cases "index_symbols empty_index symbols")
  case (Inl e)
  then have "\<not> symbols_ok symbols"
    using index_symbols_ok_iff [of empty_index symbols] by (auto simp: empty_index_def)
  then show ?thesis using Inl by (simp add: resolve_def)
next
  case (Inr ix)
  then have ok: "symbols_ok symbols"
    using index_symbols_ok_iff [of empty_index symbols] by (auto simp: empty_index_def)
  have "si_by_id ix = gs_id ` set symbols"
    using index_symbols_ok(1) [OF Inr] by (simp add: empty_index_def)
  then show ?thesis
    using Inr ok resolve_reference_eq [OF ok Inr]
    by (auto simp: resolve_def resolve_references_iff list_all_iff reference_ok_def)
qed

text \<open>
  A call to a symbol of the calling file is ambiguous when the file has no extension and another
  file has a symbol of that name: with an extension the local symbol is preferred.
\<close>

definition twin_symbols :: "bytes \<Rightarrow> graph_symbol list" where
  "twin_symbols file =
     [\<lparr>gs_id = 1, gs_path = file, gs_name = ''build'', gs_kind = ''function'', gs_signature = [],
       gs_start_line = 1, gs_end_line = 2\<rparr>,
      \<lparr>gs_id = 2, gs_path = ''b.sh'', gs_name = ''build'', gs_kind = ''function'', gs_signature = [],
       gs_start_line = 1, gs_end_line = 2\<rparr>]"

definition local_call :: "bytes \<Rightarrow> reference" where
  "local_call file = \<lparr>rf_source_symbol_id = 1, rf_source_path = file, rf_source_line = 1, rf_kind = ''calls'',
     rf_target = ''build'', rf_target_path = []\<rparr>"

lemma resolve_local_needs_extension:
  "map_sum id (map re_target_symbol_id) (resolve (twin_symbols ''a.sh'') [local_call ''a.sh'']) = Inr [1]"
  "map_sum id (map re_target_symbol_id) (resolve (twin_symbols ''Makefile'') [local_call ''Makefile'']) = Inr [0]"
  by code_simp+

theorem resolve_is_candidate_lookup_witness:
  "\<exists>edges. resolve (twin_symbols ''a.sh'') [local_call ''a.sh''] = Inr edges
     \<and> edges = [edge_of (twin_symbols ''a.sh'') (local_call ''a.sh'')]"
proof -
  have "symbols_ok (twin_symbols ''a.sh'')" and "list_all (reference_ok (twin_symbols ''a.sh'')) [local_call ''a.sh'']"
    by (simp_all add: symbols_ok_def twin_symbols_def reference_ok_def local_call_def)
  then show ?thesis
    using resolve_is_candidate_lookup [of "twin_symbols ''a.sh''" "[local_call ''a.sh'']"] by simp
qed

end
