(* ===== verification/Diagram.thy ===== *)
theory Diagram
  imports Tools Utf8
begin

text \<open>
  \<open>internal/hosted/graph/diagram.go\<close>: Mermaid diagrams of a graph slice. The source is the list of
  its lines; regular expressions over single characters are predicates on bytes. What Go knows of
  Unicode white space is a parameter.
\<close>

section \<open>The code\<close>

definition max_diagram_symbols :: nat where "max_diagram_symbols = 50"
definition max_diagram_edges :: nat where "max_diagram_edges = 100"

datatype diagram_kind = Diagram_Sequence | Diagram_ER | Diagram_Class | Diagram_Flow | Diagram_Other bytes

record diagram_edge =
  de_source :: tool_symbol
  de_target :: tool_symbol
  de_kind :: bytes

record diagram =
  dg_kind :: diagram_kind
  dg_mermaid :: bytes
  dg_skipped_reason :: bytes

definition alnum :: "char \<Rightarrow> bool" where
  "alnum c \<longleftrightarrow> (CHR ''A'' \<le> c \<and> c \<le> CHR ''Z'') \<or> (CHR ''a'' \<le> c \<and> c \<le> CHR ''z'')
     \<or> (CHR ''0'' \<le> c \<and> c \<le> CHR ''9'')"

definition label_char :: "char \<Rightarrow> bool" where
  "label_char c \<longleftrightarrow> alnum c \<or> c \<in> set ''_ .+*/()-''"

definition mermaid_char :: "char \<Rightarrow> bool" where
  "mermaid_char c \<longleftrightarrow> alnum c \<or> c \<in> set ''_ ()[]{}|:;.,+*/<>-''"

definition diagram_id :: "int \<Rightarrow> bytes" where
  "diagram_id n = CHR ''s'' # dec_int n"

text \<open>
  \<open>strings.Fields\<close> splits the runes of the value; the regular expression then removes every rune
  outside the class, which holds ASCII only.
\<close>

definition safe_diagram_label :: "unicode \<Rightarrow> bytes \<Rightarrow> bytes" where
  "safe_diagram_label u value =
     (let label = map char_of (filter (\<lambda>r. r < 128 \<and> label_char (char_of r))
            (join_runes (fields_func (u_space u) (runes value))))
      in if label = [] then ''related'' else if length label > 80 then take 80 label else label)"

definition validate_mermaid :: "bytes \<Rightarrow> go_error option" where
  "validate_mermaid value =
     (if length value = 0 \<or> length value > 32000 \<or> contains ''%%'' value \<or> contains ''`'' value
         \<or> contains ''click '' value
      then Some (Msg ''unsafe Mermaid source'')
      else if \<not> list_all (\<lambda>line. line \<noteq> [] \<and> list_all mermaid_char line)
                  (split_on CHR 0x0A (trim_suffix newline value))
      then Some (Msg ''Mermaid contains unsupported characters'')
      else None)"

fun collect_diagram ::
    "(int \<rightharpoonup> tool_symbol) \<Rightarrow> bytes set \<Rightarrow> diagram_edge list \<Rightarrow> ((int \<rightharpoonup> tool_symbol) \<times> bytes set) res" where
  "collect_diagram symbols paths [] = Inr (symbols, paths)"
| "collect_diagram symbols paths (e # es) =
     (if ts_id (de_source e) \<le> 0 \<or> ts_id (de_target e) \<le> 0 \<or> blank (ts_name (de_source e))
         \<or> blank (ts_name (de_target e))
      then Inl (Msg ''diagram edges require named symbols'')
      else collect_diagram
        (symbols(ts_id (de_source e) \<mapsto> de_source e, ts_id (de_target e) \<mapsto> de_target e))
        (insert (ts_path (de_source e)) (insert (ts_path (de_target e)) paths)) es)"

definition edge_less :: "diagram_edge \<Rightarrow> diagram_edge \<Rightarrow> bool" where
  "edge_less a b =
     (if ts_id (de_source a) \<noteq> ts_id (de_source b) then ts_id (de_source a) < ts_id (de_source b)
      else if ts_id (de_target a) \<noteq> ts_id (de_target b) then ts_id (de_target a) < ts_id (de_target b)
      else de_kind a < de_kind b)"

definition diagram_header :: "unicode \<Rightarrow> diagram_kind \<Rightarrow> (int \<rightharpoonup> tool_symbol) \<Rightarrow> bytes list" where
  "diagram_header u kind symbols =
     (case kind of
        Diagram_Sequence \<Rightarrow> ''sequenceDiagram'' #
          map (\<lambda>i. ''  participant '' @ diagram_id i @ '' as '' @ safe_diagram_label u (ts_name (the (symbols i))))
            (sorted_list_of_set (dom symbols))
      | Diagram_ER \<Rightarrow> [''erDiagram'']
      | Diagram_Class \<Rightarrow> [''classDiagram'']
      | _ \<Rightarrow> [''flowchart LR''])"

definition diagram_line :: "unicode \<Rightarrow> diagram_kind \<Rightarrow> diagram_edge \<Rightarrow> bytes" where
  "diagram_line u kind e =
     (let source = diagram_id (ts_id (de_source e)); target = diagram_id (ts_id (de_target e));
          label = safe_diagram_label u (de_kind e)
      in case kind of
           Diagram_Sequence \<Rightarrow> ''  '' @ source @ ''->>'' @ target @ '': '' @ label
         | Diagram_ER \<Rightarrow> ''  '' @ source @ '' ||--o{ '' @ target @ '' : '' @ label
         | Diagram_Class \<Rightarrow> ''  '' @ source @ '' --> '' @ target @ '' : '' @ label
         | _ \<Rightarrow> ''  '' @ source @ ''['' @ safe_diagram_label u (ts_name (de_source e)) @ ''] -->|'' @ label
             @ ''| '' @ target @ ''['' @ safe_diagram_label u (ts_name (de_target e)) @ '']'')"

definition diagram_lines ::
    "unicode \<Rightarrow> diagram_kind \<Rightarrow> (int \<rightharpoonup> tool_symbol) \<Rightarrow> diagram_edge list \<Rightarrow> bytes list" where
  "diagram_lines u kind symbols edges =
     diagram_header u kind symbols @ map (diagram_line u kind) (sort_by edge_less edges)"

definition generate_diagram :: "unicode \<Rightarrow> diagram_kind \<Rightarrow> diagram_edge list \<Rightarrow> diagram res" where
  "generate_diagram u kind edges =
     (if kind \<notin> {Diagram_Sequence, Diagram_ER, Diagram_Class, Diagram_Flow}
      then Inl (Msg ''unsupported diagram kind'')
      else if length edges > max_diagram_edges then Inl (Msg ''diagram edge limit exceeded'')
      else case collect_diagram Map.empty {} edges of
             Inl e \<Rightarrow> Inl e
           | Inr (symbols, paths) \<Rightarrow>
               if card (dom symbols) < 3 \<or> card paths < 2
               then Inr \<lparr>dg_kind = kind, dg_mermaid = [],
                         dg_skipped_reason = ''diagram requires at least three symbols across two files''\<rparr>
               else if card (dom symbols) > max_diagram_symbols then Inl (Msg ''diagram symbol limit exceeded'')
               else let result = unlines (diagram_lines u kind symbols edges) in
                 if validate_mermaid result \<noteq> None
                 then Inr \<lparr>dg_kind = kind, dg_mermaid = [],
                           dg_skipped_reason = ''generated Mermaid failed validation''\<rparr>
                 else Inr \<lparr>dg_kind = kind, dg_mermaid = result, dg_skipped_reason = []\<rparr>)"

lemma edge_less_key:
  "edge_less a b \<longleftrightarrow> (ts_id (de_source a), ts_id (de_target a), de_kind a)
     < (ts_id (de_source b), ts_id (de_target b), de_kind b)"
  by (auto simp: edge_less_def)

interpretation edge_order: weak_order edge_less
  unfolding edge_less_key by (rule weak_order_key)

section \<open>Labels and lines\<close>

lemma safe_diagram_label_ok:
  "safe_diagram_label u value \<noteq> [] \<and> list_all label_char (safe_diagram_label u value)
   \<and> length (safe_diagram_label u value) \<le> 80"
proof -
  define label where "label = map char_of (filter (\<lambda>r. r < 128 \<and> label_char (char_of r))
      (join_runes (fields_func (u_space u) (runes value))))"
  have "list_all label_char label" by (auto simp: label_def list_all_iff)
  moreover have "list_all label_char (take 80 label)"
    using calculation by (auto simp: list_all_iff dest: in_set_takeD)
  moreover have "list_all label_char ''related''" by (simp add: label_char_def alnum_def)
  ultimately show ?thesis
    unfolding safe_diagram_label_def label_def [symmetric] Let_def by simp
qed

lemma label_mermaid: "label_char c \<Longrightarrow> mermaid_char c"
  by (auto simp: label_char_def mermaid_char_def)

lemma diagram_id_ok:
  assumes "0 < n" and "n < 2 ^ 63"
  shows "list_all mermaid_char (diagram_id n)" and "length (diagram_id n) \<le> 20"
proof -
  have n: "dec_int n = dec_nat (nat n)" using assms(1) by (simp add: dec_int_def)
  have "mermaid_char c" if "c \<in> set (dec_nat (nat n))" for c
  proof -
    have "CHR ''0'' \<le> c \<and> c \<le> CHR ''9''"
      using dec_nat_digits [OF that] by (simp add: less_eq_char_def)
    then show ?thesis by (simp add: mermaid_char_def alnum_def)
  qed
  then show "list_all mermaid_char (diagram_id n)"
    by (auto simp: diagram_id_def n list_all_iff mermaid_char_def alnum_def)
  have "nat n < 10 ^ Suc 18" using assms by simp
  then show "length (diagram_id n) \<le> 20"
    using length_dec_nat [of "nat n" 18] by (simp add: diagram_id_def n)
qed

definition mermaid_line :: "bytes \<Rightarrow> bool" where
  "mermaid_line l \<longleftrightarrow> l \<noteq> [] \<and> list_all mermaid_char l"

lemma mermaid_label [simp]:
  "list_all mermaid_char (safe_diagram_label u value)" "safe_diagram_label u value \<noteq> []"
  using safe_diagram_label_ok [of u "value"] label_mermaid by (auto simp: list_all_iff)

definition id64 :: "int \<Rightarrow> bool" where
  "id64 n \<longleftrightarrow> 0 < n \<and> n < 2 ^ 63"

lemma diagram_line_ok:
  assumes "id64 (ts_id (de_source e))" and "id64 (ts_id (de_target e))"
  shows "mermaid_line (diagram_line u kind e)"
    and "length (diagram_line u kind e) \<le> (if kind = Diagram_Sequence then 128 else 293)"
proof -
  note ids = diagram_id_ok [of "ts_id (de_source e)"] diagram_id_ok [of "ts_id (de_target e)"]
  show "mermaid_line (diagram_line u kind e)"
    using ids assms
    by (cases kind) (simp_all add: mermaid_line_def diagram_line_def Let_def id64_def mermaid_char_def alnum_def)
  show "length (diagram_line u kind e) \<le> (if kind = Diagram_Sequence then 128 else 293)"
    using ids assms safe_diagram_label_ok [of u "de_kind e"]
      safe_diagram_label_ok [of u "ts_name (de_source e)"] safe_diagram_label_ok [of u "ts_name (de_target e)"]
    by (cases kind) (simp_all add: diagram_line_def Let_def id64_def)
qed

lemma diagram_header_ok:
  assumes "\<forall>i \<in> dom symbols. id64 i" and "finite (dom symbols)"
  shows "\<forall>l \<in> set (diagram_header u kind symbols). mermaid_line l \<and> length l \<le> 118"
    and "length (diagram_header u kind symbols) \<le> (if kind = Diagram_Sequence then Suc (card (dom symbols)) else 1)"
proof -
  have part: "mermaid_line (''  participant '' @ diagram_id i @ '' as '' @ safe_diagram_label u n)
      \<and> length (''  participant '' @ diagram_id i @ '' as '' @ safe_diagram_label u n) \<le> 118" if "id64 i" for i n
    using diagram_id_ok [of i] safe_diagram_label_ok [of u n] that
    by (simp add: mermaid_line_def id64_def mermaid_char_def alnum_def)
  show "\<forall>l \<in> set (diagram_header u kind symbols). mermaid_line l \<and> length l \<le> 118"
  proof (cases kind)
    case Diagram_Sequence
    have "mermaid_line ''sequenceDiagram''" by (simp add: mermaid_line_def mermaid_char_def alnum_def)
    then show ?thesis using Diagram_Sequence part assms by (simp add: diagram_header_def)
  qed (simp_all add: diagram_header_def mermaid_line_def mermaid_char_def alnum_def)
  show "length (diagram_header u kind symbols) \<le> (if kind = Diagram_Sequence then Suc (card (dom symbols)) else 1)"
    by (cases kind) (simp_all add: diagram_header_def)
qed

lemma length_unlines_le:
  "\<forall>l \<in> set ls. length l \<le> k \<Longrightarrow> length (unlines ls) \<le> length ls * Suc k"
  by (induction ls) (auto simp: newline_def)

lemma diagram_length:
  assumes "\<forall>i \<in> dom symbols. id64 i" and "finite (dom symbols)" and "card (dom symbols) \<le> 50"
    and "\<forall>e \<in> set edges. id64 (ts_id (de_source e)) \<and> id64 (ts_id (de_target e))" and "length edges \<le> 100"
  shows "length (unlines (diagram_lines u kind symbols edges)) \<le> 32000"
proof -
  let ?bound = "if kind = Diagram_Sequence then 128 else 293 :: nat"
  let ?h = "diagram_header u kind symbols" and ?ls = "map (diagram_line u kind) (sort_by edge_less edges)"
  have "length (unlines ?h) \<le> length ?h * 119"
    using length_unlines_le [of ?h 118] diagram_header_ok(1) [OF assms(1,2)] by simp
  also have "\<dots> \<le> (if kind = Diagram_Sequence then 51 else 1) * 119"
    using diagram_header_ok(2) [OF assms(1,2), of u kind] assms(3) by (simp split: if_splits)
  finally have header: "length (unlines ?h) \<le> (if kind = Diagram_Sequence then 51 else 1) * 119" .
  have "length (unlines ?ls) \<le> length ?ls * Suc ?bound"
    by (rule length_unlines_le) (use assms(4) diagram_line_ok(2) in auto)
  also have "\<dots> \<le> 100 * Suc ?bound" using assms(5) by simp
  finally show ?thesis using header by (simp add: diagram_lines_def split: if_splits)
qed

lemma validate_lines:
  assumes "ls \<noteq> []" and "\<forall>l \<in> set ls. mermaid_line l" and "length (unlines ls) \<le> 32000"
  shows "validate_mermaid (unlines ls) = None \<longleftrightarrow> \<not> (\<exists>l \<in> set ls. contains ''click '' l)"
proof -
  have chars: "c \<in> set (unlines ls) \<Longrightarrow> mermaid_char c \<or> c = CHR 0x0A" for c
    using assms(2) by (induction ls) (auto simp: newline_def mermaid_line_def list_all_iff)
  have none: "\<not> contains ''%%'' (unlines ls)" "\<not> contains ''`'' (unlines ls)"
    using contains_set [of "''%%''" "unlines ls"] contains_set [of "''`''" "unlines ls"]
      chars [of "CHR ''%''"] chars [of "CHR 0x60"] by (auto simp: mermaid_char_def alnum_def)
  have no_newline: "\<not> mermaid_char (CHR 0x0A)"
    by (simp add: mermaid_char_def alnum_def less_eq_char_def)
  have "CHR 0x0A \<notin> set l" if "l \<in> set ls" for l
    using that assms(2) no_newline by (auto simp: mermaid_line_def list_all_iff)
  then have "split_on CHR 0x0A (join_with newline ls) = ls"
    unfolding newline_def using assms(1) by (intro split_join) auto
  then have split: "split_on CHR 0x0A (trim_suffix newline (unlines ls)) = ls"
    using assms(1) by (simp add: unlines_join trim_suffix_def has_suffix_def)
  have "unlines ls \<noteq> []" using assms(1) by (cases ls) (simp_all add: newline_def)
  then have "validate_mermaid (unlines ls) = None \<longleftrightarrow> \<not> contains ''click '' (unlines ls)"
    using assms(2,3) none split by (auto simp: validate_mermaid_def mermaid_line_def list_all_iff not_less)
  then show ?thesis by (simp add: contains_unlines)
qed

definition edge_named :: "diagram_edge \<Rightarrow> bool" where
  "edge_named e \<longleftrightarrow> 0 < ts_id (de_source e) \<and> 0 < ts_id (de_target e)
     \<and> \<not> blank (ts_name (de_source e)) \<and> \<not> blank (ts_name (de_target e))"

definition edge_ids :: "diagram_edge list \<Rightarrow> int set" where
  "edge_ids edges = (\<Union>e \<in> set edges. {ts_id (de_source e), ts_id (de_target e)})"

definition edge_paths :: "diagram_edge list \<Rightarrow> bytes set" where
  "edge_paths edges = (\<Union>e \<in> set edges. {ts_path (de_source e), ts_path (de_target e)})"

lemma collect_diagram_ok:
  assumes "list_all edge_named edges"
  shows "\<exists>symbols'. collect_diagram symbols paths edges = Inr (symbols', paths \<union> edge_paths edges)
    \<and> dom symbols' = dom symbols \<union> edge_ids edges"
  using assms
proof (induction edges arbitrary: symbols paths)
  case Nil
  then show ?case by (simp add: edge_paths_def edge_ids_def)
next
  case (Cons e es)
  let ?symbols = "symbols(ts_id (de_source e) \<mapsto> de_source e, ts_id (de_target e) \<mapsto> de_target e)"
  let ?paths = "insert (ts_path (de_source e)) (insert (ts_path (de_target e)) paths)"
  have ids: "edge_ids (e # es) = {ts_id (de_source e), ts_id (de_target e)} \<union> edge_ids es"
    and paths: "edge_paths (e # es) = {ts_path (de_source e), ts_path (de_target e)} \<union> edge_paths es"
    by (simp_all add: edge_ids_def edge_paths_def)
  obtain symbols' where "collect_diagram ?symbols ?paths es = Inr (symbols', ?paths \<union> edge_paths es)"
      "dom symbols' = dom ?symbols \<union> edge_ids es"
    using Cons.IH [of ?symbols ?paths] Cons.prems by (metis list.pred_inject(2))
  moreover have "collect_diagram symbols paths (e # es) = collect_diagram ?symbols ?paths es"
    using Cons.prems by (auto simp: edge_named_def)
  moreover have "?paths \<union> edge_paths es = paths \<union> edge_paths (e # es)" by (auto simp: paths)
  moreover have "dom ?symbols \<union> edge_ids es = dom symbols \<union> edge_ids (e # es)" by (auto simp: ids)
  ultimately show ?case by metis
qed

text \<open>
  C26: For at most a hundred edges between named symbols with 64-bit ids, a diagram of a supported
  kind is refused only when it has more than fifty symbols and is skipped only when it has fewer
  than three symbols or two files, or when one of its lines contains \<open>click \<close>: the sanitised labels
  make every other generated source valid and short enough. Its lines are the header and one line
  per edge, in the order of source, target and kind.
\<close>

theorem diagram_generation:
  assumes "kind \<in> {Diagram_Sequence, Diagram_ER, Diagram_Class, Diagram_Flow}" and "length edges \<le> 100"
    and "list_all edge_named edges" and "\<forall>i \<in> edge_ids edges. i < 2 ^ 63"
  shows "(case generate_diagram u kind edges of
      Inl e \<Rightarrow> 50 < card (edge_ids edges) \<and> 2 \<le> card (edge_paths edges)
    | Inr d \<Rightarrow>
        if card (edge_ids edges) < 3 \<or> card (edge_paths edges) < 2
        then d = \<lparr>dg_kind = kind, dg_mermaid = [],
                  dg_skipped_reason = ''diagram requires at least three symbols across two files''\<rparr>
        else \<exists>symbols edges'. dom symbols = edge_ids edges \<and> mset edges' = mset edges \<and> ordered edge_less edges'
          \<and> (let ls = diagram_header u kind symbols @ map (diagram_line u kind) edges' in
             d = (if \<exists>l \<in> set ls. contains ''click '' l
               then \<lparr>dg_kind = kind, dg_mermaid = [], dg_skipped_reason = ''generated Mermaid failed validation''\<rparr>
               else \<lparr>dg_kind = kind, dg_mermaid = unlines ls, dg_skipped_reason = []\<rparr>)))"
proof -
  obtain symbols where collect: "collect_diagram Map.empty {} edges = Inr (symbols, edge_paths edges)"
      and dom: "dom symbols = edge_ids edges"
    using collect_diagram_ok [OF assms(3), of Map.empty "{}"] by auto
  have ids: "\<forall>i \<in> dom symbols. id64 i"
    using assms(3,4) by (auto simp: dom edge_ids_def id64_def list_all_iff edge_named_def)
  have edges: "\<forall>e \<in> set edges. id64 (ts_id (de_source e)) \<and> id64 (ts_id (de_target e))"
    using ids by (auto simp: dom edge_ids_def)
  have fin: "finite (dom symbols)" by (auto simp: dom edge_ids_def)
  let ?ls = "diagram_lines u kind symbols edges"
  have "?ls \<noteq> []" by (simp add: diagram_lines_def diagram_header_def split: diagram_kind.splits)
  moreover have "\<forall>l \<in> set ?ls. mermaid_line l"
    using diagram_header_ok(1) [OF ids fin, of u kind] diagram_line_ok(1) edges
    by (auto simp: diagram_lines_def)
  ultimately have valid: "validate_mermaid (unlines ?ls) = None \<longleftrightarrow> \<not> (\<exists>l \<in> set ?ls. contains ''click '' l)"
    if "card (dom symbols) \<le> 50"
    using validate_lines diagram_length [OF ids fin that edges assms(2)] by blast
  have order: "ordered edge_less (sort_by edge_less edges)" by (rule edge_order.ordered_sort_by)
  show ?thesis
    using assms(1,2) valid order dom
    by (auto simp: generate_diagram_def collect max_diagram_edges_def max_diagram_symbols_def Let_def
        diagram_lines_def not_less intro!: exI [of _ symbols] exI [of _ "sort_by edge_less edges"])
qed

definition sample_diagram_edges :: "diagram_edge list" where
  "sample_diagram_edges =
     [\<lparr>de_source = tool_fn 2, de_target = (tool_fn 3)\<lparr>ts_path := ''q''\<rparr>, de_kind = ''calls''\<rparr>,
      \<lparr>de_source = tool_fn 1, de_target = tool_fn 2, de_kind = ''calls''\<rparr>]"

lemma sample_diagram_facts:
  "card (edge_ids sample_diagram_edges) = 3" "card (edge_paths sample_diagram_edges) = 2"
  by (simp_all add: edge_ids_def edge_paths_def sample_diagram_edges_def tool_fn_def)

theorem diagram_generation_witness:
  "\<exists>d. generate_diagram ascii_tables Diagram_Class sample_diagram_edges = Inr d \<and> dg_kind d = Diagram_Class
     \<and> dg_skipped_reason d \<in> {[], ''generated Mermaid failed validation''}"
proof -
  have named: "list_all edge_named sample_diagram_edges"
    by (simp add: edge_named_def sample_diagram_edges_def tool_fn_def nonblank_last)
  have "\<forall>i \<in> edge_ids sample_diagram_edges. i < 2 ^ 63" "length sample_diagram_edges \<le> 100"
    by (simp_all add: edge_ids_def sample_diagram_edges_def tool_fn_def)
  from diagram_generation [OF _ this(2) named this(1), of Diagram_Class ascii_tables]
  show ?thesis
    by (cases "generate_diagram ascii_tables Diagram_Class sample_diagram_edges")
      (auto simp: sample_diagram_facts Let_def split: if_splits)
qed

end
