(* ===== verification/Context.thy ===== *)
theory Context
  imports Tools GoPath Ranking
begin

text \<open>
  What a review is given to read (\<open>internal/hosted/review\<close>): the assembly of context under a token
  budget (\<open>context.go\<close>), the repositories that may contribute to it (\<open>cross_repo.go\<close>), and the
  unchanged callers and tests around a change (\<open>blast_radius.go\<close>). The context source, the token
  counter, repository access and the graph reader are parameters.
\<close>

section \<open>Assembling context\<close>

record context_item =
  ci_kind :: bytes
  ci_path :: bytes
  ci_symbol :: bytes
  ci_content :: bytes
  ci_score :: rat

record context_request =
  cr_repository_id :: int
  cr_diff_hunks :: "context_item list"
  cr_functions :: "context_item list"
  cr_changed_paths :: "bytes list"
  cr_rules_markdown :: bytes
  cr_matched_rules :: "bytes list"

record context_source =
  cx_similar :: "int \<Rightarrow> context_item list \<Rightarrow> int \<Rightarrow> context_item list res"
  cx_relationships :: "int \<Rightarrow> bytes list \<Rightarrow> context_item list res"
  cx_tests :: "int \<Rightarrow> bytes list \<Rightarrow> context_item list res"
  cx_summaries :: "int \<Rightarrow> bytes list \<Rightarrow> context_item list res"

record context_bundle =
  cb_items :: "context_item list"
  cb_token_count :: int
  cb_truncated :: bool
  cb_limits :: "bytes list"

record context_assembler =
  ca_source :: "context_source option"
  ca_counter :: "(bytes \<Rightarrow> int) option"
  ca_max_tokens :: int
  ca_top_k :: int

definition effective_top_k :: "context_assembler \<Rightarrow> int" where
  "effective_top_k a = (if ca_top_k a \<le> 0 then 8 else ca_top_k a)"

definition effective_budget :: "context_assembler \<Rightarrow> int" where
  "effective_budget a = (if ca_max_tokens a \<le> 0 then 60000 else ca_max_tokens a)"

definition rule_items :: "context_request \<Rightarrow> context_item list" where
  "rule_items request =
     (if cr_rules_markdown request \<noteq> []
      then [\<lparr>ci_kind = ''rules.md'', ci_path = [], ci_symbol = [], ci_content = cr_rules_markdown request,
             ci_score = 0\<rparr>] else [])
     @ (if cr_matched_rules request \<noteq> []
        then [\<lparr>ci_kind = ''matched_rules'', ci_path = [], ci_symbol = [],
               ci_content = join_with newline (cr_matched_rules request), ci_score = 0\<rparr>] else [])"

text \<open>The items of the request and the source, in the order the prompt has them.\<close>

definition gather_items :: "context_source \<Rightarrow> int \<Rightarrow> context_request \<Rightarrow> context_item list res" where
  "gather_items source top_k request =
     (case cx_similar source (cr_repository_id request) (cr_diff_hunks request) top_k of
        Inl e \<Rightarrow> Inl (Wrapped ''retrieve similar chunks: %w'' [] e)
      | Inr similar \<Rightarrow>
     (case cx_relationships source (cr_repository_id request) (cr_changed_paths request) of
        Inl e \<Rightarrow> Inl e
      | Inr related \<Rightarrow>
     (case cx_tests source (cr_repository_id request) (cr_changed_paths request) of
        Inl e \<Rightarrow> Inl e
      | Inr tests \<Rightarrow>
     (case cx_summaries source (cr_repository_id request) (cr_changed_paths request) of
        Inl e \<Rightarrow> Inl e
      | Inr summaries \<Rightarrow>
          Inr (cr_diff_hunks request @ cr_functions request
            @ (if int (length similar) > top_k then take (nat top_k) similar else similar)
            @ related @ tests @ summaries @ rule_items request)))))"

fun fill_context ::
    "(bytes \<Rightarrow> int) \<Rightarrow> int \<Rightarrow> context_bundle \<Rightarrow> context_item list \<Rightarrow> context_bundle res" where
  "fill_context tokens_of budget b [] = Inr b"
| "fill_context tokens_of budget b (item # items) =
     (let tokens = tokens_of (ci_content item) in
      if tokens < 0 then Inl (Msg ''token counter returned a negative count'')
      else if wrap64 (cb_token_count b + tokens) > budget then Inr (b\<lparr>cb_truncated := True\<rparr>)
      else fill_context tokens_of budget
        (b\<lparr>cb_items := cb_items b @ [item], cb_token_count := wrap64 (cb_token_count b + tokens)\<rparr>) items)"

definition assemble_context :: "context_assembler \<Rightarrow> context_request \<Rightarrow> context_bundle res" where
  "assemble_context a request =
     (case (ca_source a, ca_counter a) of
        (Some source, Some tokens_of) \<Rightarrow>
          if cr_repository_id request \<le> 0
          then Inl (Msg ''context source, token counter, and repository are required'')
          else (case gather_items source (effective_top_k a) request of
             Inl e \<Rightarrow> Inl e
           | Inr items \<Rightarrow>
               fill_context tokens_of (effective_budget a)
                 \<lparr>cb_items = [], cb_token_count = 0, cb_truncated = False,
                  cb_limits = [''top '' @ dec_int (effective_top_k a) @ '' similar chunks'',
                    dec_int (effective_budget a) @ '' token context budget'']\<rparr> items)
      | _ \<Rightarrow> Inl (Msg ''context source, token counter, and repository are required''))"

lemma fill_context_prefix:
  assumes "fill_context tokens_of budget b items = Inr b'"
    and "0 \<le> cb_token_count b" and "cb_token_count b \<le> budget" and "budget < 2 ^ 62"
    and "\<forall>c. tokens_of c < 2 ^ 62" and "\<not> cb_truncated b"
  shows "\<exists>n \<le> length items. cb_items b' = cb_items b @ take n items
    \<and> cb_token_count b' = cb_token_count b + (\<Sum>item \<leftarrow> take n items. tokens_of (ci_content item))
    \<and> cb_token_count b' \<le> budget \<and> (\<forall>item \<in> set (take n items). 0 \<le> tokens_of (ci_content item))
    \<and> (cb_truncated b' \<longleftrightarrow> n < length items)
    \<and> (n < length items \<longrightarrow> budget < cb_token_count b' + tokens_of (ci_content (items ! n)))
    \<and> cb_limits b' = cb_limits b"
  using assms
proof (induction items arbitrary: b)
  case Nil
  then show ?case by simp
next
  case (Cons item items)
  let ?t = "tokens_of (ci_content item)"
  have t: "0 \<le> ?t" "?t < 2 ^ 62" using Cons.prems by (auto simp: Let_def split: if_splits)
  have w: "wrap64 (cb_token_count b + ?t) = cb_token_count b + ?t"
  proof (rule wrap64_small)
    show "- (2 ^ 63) \<le> cb_token_count b + ?t" using Cons.prems(2) t by simp
    have "cb_token_count b + ?t < 2 ^ 62 + 2 ^ 62" using Cons.prems(3,4) t by linarith
    then show "cb_token_count b + ?t < 2 ^ 63" by simp
  qed
  show ?case
  proof (cases "budget < cb_token_count b + ?t")
    case True
    then show ?thesis using Cons.prems t w by (intro exI [of _ 0]) (auto simp: Let_def)
  next
    case False
    let ?b = "b\<lparr>cb_items := cb_items b @ [item], cb_token_count := cb_token_count b + ?t\<rparr>"
    have run: "fill_context tokens_of budget ?b items = Inr b'"
      using Cons.prems(1) t w False by (simp add: Let_def)
    obtain n where n: "n \<le> length items" "cb_items b' = cb_items ?b @ take n items"
        "cb_token_count b' = cb_token_count ?b + (\<Sum>item \<leftarrow> take n items. tokens_of (ci_content item))"
        "cb_token_count b' \<le> budget" "\<forall>item \<in> set (take n items). 0 \<le> tokens_of (ci_content item)"
        "cb_truncated b' \<longleftrightarrow> n < length items"
        "n < length items \<longrightarrow> budget < cb_token_count b' + tokens_of (ci_content (items ! n))"
        "cb_limits b' = cb_limits ?b"
      using Cons.IH [OF run] Cons.prems t False by auto
    then show ?thesis using t by (intro exI [of _ "Suc n"]) auto
  qed
qed

text \<open>
  C22: With token counts and a budget below \<open>2\<^sup>6\<^sup>2\<close>, an assembled context is the longest prefix of the
  gathered items that fits the budget: its token count is the sum of theirs and within the budget,
  it is marked as truncated exactly when an item was left out, and the first item left out would
  not have fitted.
\<close>

theorem context_is_longest_fitting_prefix:
  assumes "assemble_context \<lparr>ca_source = Some source, ca_counter = Some tokens_of, ca_max_tokens = budget, ca_top_k = k\<rparr>
      request = Inr b"
    and "budget < 2 ^ 62" and "\<forall>c. tokens_of c < 2 ^ 62"
  shows "\<exists>items n. gather_items source (if k \<le> 0 then 8 else k) request = Inr items \<and> n \<le> length items
    \<and> cb_items b = take n items \<and> cb_token_count b = (\<Sum>item \<leftarrow> cb_items b. tokens_of (ci_content item))
    \<and> cb_token_count b \<le> (if budget \<le> 0 then 60000 else budget)
    \<and> (cb_truncated b \<longleftrightarrow> n < length items)
    \<and> (n < length items \<longrightarrow>
         (if budget \<le> 0 then 60000 else budget) < cb_token_count b + tokens_of (ci_content (items ! n)))"
proof -
  let ?budget = "if budget \<le> 0 then 60000 else budget"
  let ?b = "\<lparr>cb_items = [], cb_token_count = 0, cb_truncated = False,
      cb_limits = [''top '' @ dec_int (if k \<le> 0 then 8 else k) @ '' similar chunks'',
        dec_int ?budget @ '' token context budget'']\<rparr>"
  obtain items where items: "gather_items source (if k \<le> 0 then 8 else k) request = Inr items"
      and run: "fill_context tokens_of ?budget ?b items = Inr b"
    using assms(1)
    by (cases "gather_items source (if k \<le> 0 then 8 else k) request")
      (simp_all add: assemble_context_def effective_top_k_def effective_budget_def split: if_split_asm)
  have "0 \<le> ?budget" "?budget < 2 ^ 62" using assms(2) by simp_all
  then obtain n where "n \<le> length items" "cb_items b = take n items"
      "cb_token_count b = (\<Sum>item \<leftarrow> take n items. tokens_of (ci_content item))"
      "cb_token_count b \<le> ?budget" "cb_truncated b \<longleftrightarrow> n < length items"
      "n < length items \<longrightarrow> ?budget < cb_token_count b + tokens_of (ci_content (items ! n))"
    using fill_context_prefix [OF run _ _ _ assms(3)] by auto
  then show ?thesis using items by (intro exI [of _ items] exI [of _ n]) simp
qed

definition sample_item :: "bytes \<Rightarrow> context_item" where
  "sample_item c = \<lparr>ci_kind = ''hunk'', ci_path = ''a.go'', ci_symbol = [], ci_content = c, ci_score = 0\<rparr>"

definition sample_source :: context_source where
  "sample_source =
     \<lparr>cx_similar = (\<lambda>_ _ _. Inr [sample_item ''123456'']), cx_relationships = (\<lambda>_ _. Inr []),
      cx_tests = (\<lambda>_ _. Inr [sample_item ''12'']), cx_summaries = (\<lambda>_ _. Inr [])\<rparr>"

definition sample_context_request :: context_request where
  "sample_context_request =
     \<lparr>cr_repository_id = 1, cr_diff_hunks = [sample_item ''12345''], cr_functions = [], cr_changed_paths = [],
      cr_rules_markdown = [], cr_matched_rules = []\<rparr>"

definition sample_count :: "bytes \<Rightarrow> int" where
  "sample_count c = min 1000 (int (length c))"

definition sample_bundle :: context_bundle where
  "sample_bundle = \<lparr>cb_items = [sample_item ''12345''], cb_token_count = 5, cb_truncated = True,
     cb_limits = [''top 8 similar chunks'', ''10 token context budget'']\<rparr>"

lemma sample_context:
  "assemble_context \<lparr>ca_source = Some sample_source, ca_counter = Some sample_count, ca_max_tokens = 10, ca_top_k = 0\<rparr>
     sample_context_request = Inr sample_bundle"
  by code_simp

theorem context_is_longest_fitting_prefix_witness:
  "\<exists>items n. gather_items sample_source 8 sample_context_request = Inr items \<and> n < length items
     \<and> cb_items sample_bundle = take n items \<and> 10 < 5 + sample_count (ci_content (items ! n))"
  using context_is_longest_fitting_prefix [OF sample_context]
  by (fastforce simp: sample_bundle_def sample_count_def)

section \<open>Repositories that contribute context\<close>

definition max_context_repositories :: nat where "max_context_repositories = 10"

record context_repository =
  xr_owner :: bytes
  xr_name :: bytes

definition slug_char :: "char \<Rightarrow> bool" where
  "slug_char c \<longleftrightarrow> (CHR ''a'' \<le> c \<and> c \<le> CHR ''z'') \<or> (CHR ''A'' \<le> c \<and> c \<le> CHR ''Z'')
     \<or> (CHR ''0'' \<le> c \<and> c \<le> CHR ''9'') \<or> c \<in> {CHR ''-'', CHR ''_'', CHR ''.''}"

definition repository_slug :: "bytes \<Rightarrow> bool" where
  "repository_slug value \<longleftrightarrow> value \<noteq> [] \<and> value \<noteq> ''.'' \<and> value \<noteq> ''..'' \<and> list_all slug_char value"

definition repository_key :: "context_repository \<Rightarrow> bytes" where
  "repository_key r = ascii_lowercase (xr_owner r @ ''/'' @ xr_name r)"

fun authorize_loop ::
    "(int \<Rightarrow> bytes \<Rightarrow> bytes \<Rightarrow> bool res) \<Rightarrow> int \<Rightarrow> bytes set \<Rightarrow> context_repository list \<Rightarrow> context_repository list
     \<Rightarrow> context_repository list res" where
  "authorize_loop access installation seen acc [] = Inr acc"
| "authorize_loop access installation seen acc (r # rs) =
     (if \<not> repository_slug (xr_owner r) \<or> \<not> repository_slug (xr_name r)
      then Inl (Msg ''context.repos contains an invalid repository'')
      else if repository_key r \<in> seen then authorize_loop access installation seen acc rs
      else (case access installation (xr_owner r) (xr_name r) of
              Inl e \<Rightarrow> Inl (Wrapped (''authorize context repository '' @ repository_key r @ '': %w'') [] e)
            | Inr allowed \<Rightarrow>
                if \<not> allowed then Inl (MsgStr ''installation cannot read context repository %s'' (repository_key r))
                else authorize_loop access installation (insert (repository_key r) seen) (acc @ [r]) rs))"

definition authorize_context_repositories ::
    "(int \<Rightarrow> bytes \<Rightarrow> bytes \<Rightarrow> bool res) option \<Rightarrow> int \<Rightarrow> context_repository list \<Rightarrow> context_repository list res" where
  "authorize_context_repositories access installation repositories =
     (case access of
        None \<Rightarrow> Inl (Msg ''installation repository access is required'')
      | Some access \<Rightarrow>
          if installation \<le> 0 then Inl (Msg ''installation repository access is required'')
          else if length repositories > max_context_repositories
          then Inl (MsgNum ''context.repos exceeds %d repositories'' [int max_context_repositories])
          else authorize_loop access installation {} [] repositories)"

lemma authorize_loop_ok:
  assumes "authorize_loop access installation seen acc rs = Inr out"
  shows "out = acc @ dedup_on repository_key seen rs
    \<and> (\<forall>r \<in> set (dedup_on repository_key seen rs). access installation (xr_owner r) (xr_name r) = Inr True)"
  using assms
proof (induction rs arbitrary: seen acc)
  case (Cons r rs)
  show ?case
  proof (cases "repository_key r \<in> seen")
    case True
    then show ?thesis using Cons.IH [of seen acc] Cons.prems by (simp split: if_splits)
  next
    case False
    then have "access installation (xr_owner r) (xr_name r) = Inr True"
        "authorize_loop access installation (insert (repository_key r) seen) (acc @ [r]) rs = Inr out"
      using Cons.prems by (auto split: if_splits sum.splits)
    then show ?thesis using Cons.IH [of "insert (repository_key r) seen" "acc @ [r]"] False by simp
  qed
qed simp

text \<open>
  Authorization fails closed: a list that is returned has one repository of every configured name,
  each of which the installation may read.
\<close>

lemma authorized_repositories:
  assumes "authorize_context_repositories (Some access) installation repositories = Inr out"
  shows "repository_key ` set out = repository_key ` set repositories \<and> set out \<subseteq> set repositories
    \<and> distinct (map repository_key out) \<and> length repositories \<le> 10
    \<and> (\<forall>r \<in> set out. access installation (xr_owner r) (xr_name r) = Inr True)"
proof -
  have run: "authorize_loop access installation {} [] repositories = Inr out" and "length repositories \<le> 10"
    using assms by (auto simp: authorize_context_repositories_def max_context_repositories_def split: if_splits)
  then show ?thesis
    using authorize_loop_ok [OF run] dedup_on_keys [of repository_key "{}" repositories]
      dedup_on_subset [of repository_key "{}" repositories] by simp
qed

section \<open>The blast radius\<close>

definition max_blast_radius_items :: nat where "max_blast_radius_items = 20"

record blast_radius_item =
  bi_kind :: bytes
  bi_path :: bytes
  bi_name :: bytes

definition blast_key :: "blast_radius_item \<Rightarrow> bytes" where
  "blast_key x = bi_kind x @ CHR 0x00 # bi_path x @ CHR 0x00 # bi_name x"

fun add_blast_items ::
    "bytes set \<Rightarrow> bytes \<Rightarrow> (bytes \<times> blast_radius_item) list \<Rightarrow> tool_symbol list
     \<Rightarrow> (bytes \<times> blast_radius_item) list" where
  "add_blast_items changed kind items [] = items"
| "add_blast_items changed kind items (s # ss) =
     (let p = clean (ts_path s) in
      if p = ''.'' \<or> has_prefix ''../'' p \<or> p \<in> changed \<or> length items \<ge> max_blast_radius_items
      then add_blast_items changed kind items ss
      else let x = \<lparr>bi_kind = kind, bi_path = p, bi_name = ts_name s\<rparr> in
        add_blast_items changed kind (AList.update (blast_key x) x items) ss)"

definition blast_query :: "int \<Rightarrow> int \<Rightarrow> int \<Rightarrow> tool_query" where
  "blast_query installation repository symbol =
     \<lparr>tq_installation_id = installation, tq_repository_id = repository, tq_symbol_id = symbol, tq_depth = 2,
      tq_limit = int max_blast_radius_items\<rparr>"

fun blast_loop ::
    "graph_reader option \<Rightarrow> int \<Rightarrow> int \<Rightarrow> bytes set \<Rightarrow> (bytes \<times> blast_radius_item) list \<Rightarrow> int list
     \<Rightarrow> (bytes \<times> blast_radius_item) list res" where
  "blast_loop reader installation repository changed items [] = Inr items"
| "blast_loop reader installation repository changed items (i # ids) =
     (case callers reader (blast_query installation repository i) of
        Inl e \<Rightarrow> Inl e
      | Inr found \<Rightarrow>
     (case tests_for reader (blast_query installation repository i) of
        Inl e \<Rightarrow> Inl e
      | Inr tests \<Rightarrow>
          blast_loop reader installation repository changed
            (add_blast_items changed ''test'' (add_blast_items changed ''caller'' items found) tests) ids))"

definition item_less :: "blast_radius_item \<Rightarrow> blast_radius_item \<Rightarrow> bool" where
  "item_less a b =
     (if bi_kind a \<noteq> bi_kind b then bi_kind a < bi_kind b
      else if bi_path a \<noteq> bi_path b then bi_path a < bi_path b
      else bi_name a < bi_name b)"

definition build_blast_radius ::
    "graph_reader option \<Rightarrow> int \<Rightarrow> int \<Rightarrow> int list \<Rightarrow> bytes list \<Rightarrow> blast_radius_item list res" where
  "build_blast_radius reader installation repository symbol_ids changed_paths =
     (if installation \<le> 0 \<or> repository \<le> 0 \<or> symbol_ids = [] \<or> length symbol_ids > 100
      then Inl (Msg ''blast radius requires a bounded tenant-scoped symbol set'')
      else case blast_loop reader installation repository (clean ` set changed_paths) [] symbol_ids of
             Inl e \<Rightarrow> Inl e
           | Inr items \<Rightarrow> Inr (sort_by item_less (map snd items)))"

definition blast_inv ::
    "bytes set \<Rightarrow> (blast_radius_item \<Rightarrow> bool) \<Rightarrow> (bytes \<times> blast_radius_item) list \<Rightarrow> bool" where
  "blast_inv changed from items \<longleftrightarrow> length items \<le> 20 \<and> distinct (map fst items)
     \<and> (\<forall>(k, x) \<in> set items. k = blast_key x \<and> from x \<and> bi_path x \<notin> changed
          \<and> bi_path x \<noteq> ''.'' \<and> \<not> has_prefix ''../'' (bi_path x))"

lemma length_alist_update: "length (AList.update k v al) \<le> Suc (length al)"
  by (induction al) auto

lemma add_blast_items_inv:
  assumes "blast_inv changed from items"
    and "\<And>s. s \<in> set ss \<Longrightarrow> from \<lparr>bi_kind = kind, bi_path = clean (ts_path s), bi_name = ts_name s\<rparr>"
  shows "blast_inv changed from (add_blast_items changed kind items ss)"
  using assms
proof (induction changed kind items ss rule: add_blast_items.induct)
  case (2 changed kind items s ss)
  define p where "p = clean (ts_path s)"
  define x where "x = \<lparr>bi_kind = kind, bi_path = p, bi_name = ts_name s\<rparr>"
  show ?case
  proof (cases "p = ''.'' \<or> has_prefix ''../'' p \<or> p \<in> changed \<or> length items \<ge> max_blast_radius_items")
    case True
    then show ?thesis using 2 by (simp add: p_def Let_def)
  next
    case False
    have "blast_inv changed from (AList.update (blast_key x) x items)"
      unfolding blast_inv_def
    proof (intro conjI ballI)
      show "length (AList.update (blast_key x) x items) \<le> 20"
        using length_alist_update [of "blast_key x" x items] False by (simp add: max_blast_radius_items_def)
      show "distinct (map fst (AList.update (blast_key x) x items))"
        using "2.prems"(1) by (simp add: blast_inv_def distinct_update)
      fix e assume "e \<in> set (AList.update (blast_key x) x items)"
      then have "e = (blast_key x, x) \<or> e \<in> set items" using set_alist_update by fast
      moreover have "from x" using "2.prems"(2) [of s] by (simp add: x_def p_def)
      ultimately show "case e of (k, x) \<Rightarrow> k = blast_key x \<and> from x \<and> bi_path x \<notin> changed
          \<and> bi_path x \<noteq> ''.'' \<and> \<not> has_prefix ''../'' (bi_path x)"
        using "2.prems"(1) False by (auto simp: blast_inv_def x_def)
    qed
    then show ?thesis
      using "2.IH"(2) [OF p_def _ x_def] "2.prems"(2) False by (simp add: p_def x_def Let_def)
  qed
qed simp

definition blast_origin ::
    "graph_reader option \<Rightarrow> int \<Rightarrow> int \<Rightarrow> int list \<Rightarrow> blast_radius_item \<Rightarrow> bool" where
  "blast_origin reader installation repository ids x \<longleftrightarrow>
     (\<exists>i \<in> set ids. \<exists>found s.
        (bi_kind x = ''caller'' \<and> callers reader (blast_query installation repository i) = Inr found
         \<or> bi_kind x = ''test'' \<and> tests_for reader (blast_query installation repository i) = Inr found)
        \<and> s \<in> set found \<and> bi_path x = clean (ts_path s) \<and> bi_name x = ts_name s)"

lemma blast_loop_inv:
  assumes "blast_loop reader installation repository changed items ids = Inr items'"
    and "blast_inv changed (blast_origin reader installation repository all_ids) items"
    and "set ids \<subseteq> set all_ids"
  shows "blast_inv changed (blast_origin reader installation repository all_ids) items'"
  using assms
proof (induction ids arbitrary: items)
  case (Cons i ids)
  obtain found tests where ok: "callers reader (blast_query installation repository i) = Inr found"
      "tests_for reader (blast_query installation repository i) = Inr tests"
    using Cons.prems(1) by (auto split: sum.splits)
  let ?items = "add_blast_items changed ''test'' (add_blast_items changed ''caller'' items found) tests"
  have "i \<in> set all_ids" using Cons.prems(3) by simp
  then have "blast_origin reader installation repository all_ids
        \<lparr>bi_kind = ''caller'', bi_path = clean (ts_path s), bi_name = ts_name s\<rparr>" if "s \<in> set found" for s
    using ok that by (auto simp: blast_origin_def)
  moreover have "blast_origin reader installation repository all_ids
        \<lparr>bi_kind = ''test'', bi_path = clean (ts_path s), bi_name = ts_name s\<rparr>" if "s \<in> set tests" for s
    using ok \<open>i \<in> set all_ids\<close> that by (auto simp: blast_origin_def)
  ultimately have "blast_inv changed (blast_origin reader installation repository all_ids) ?items"
    using Cons.prems(2) by (intro add_blast_items_inv)
  then show ?case using Cons.IH [of ?items] Cons.prems(1,3) ok by simp
qed simp

lemma item_less_key: "item_less a b \<longleftrightarrow> (bi_kind a, bi_path a, bi_name a) < (bi_kind b, bi_path b, bi_name b)"
  by (auto simp: item_less_def)

interpretation item_order: weak_order item_less
  unfolding item_less_key by (rule weak_order_key)

text \<open>
  A blast radius lists at most twenty distinct items, in the order of kind, path and name; each
  is a caller or a test that the graph tools return for one of the changed symbols, in a file
  outside the change and not above the repository.
\<close>

theorem blast_radius_spec:
  assumes "build_blast_radius reader installation repository ids changed = Inr items"
  shows "length items \<le> 20 \<and> distinct items \<and> ordered item_less items
    \<and> (\<forall>x \<in> set items. bi_path x \<notin> clean ` set changed \<and> bi_path x \<noteq> ''.'' \<and> \<not> has_prefix ''../'' (bi_path x)
         \<and> (\<exists>i \<in> set ids. \<exists>found s.
              (bi_kind x = ''caller'' \<and> callers reader (blast_query installation repository i) = Inr found
               \<or> bi_kind x = ''test'' \<and> tests_for reader (blast_query installation repository i) = Inr found)
              \<and> s \<in> set found \<and> bi_path x = clean (ts_path s) \<and> bi_name x = ts_name s))"
proof -
  obtain raw where run: "blast_loop reader installation repository (clean ` set changed) [] ids = Inr raw"
      and items: "items = sort_by item_less (map snd raw)"
    using assms by (auto simp: build_blast_radius_def split: if_splits sum.splits)
  have "blast_inv (clean ` set changed) (blast_origin reader installation repository ids) []"
    by (simp add: blast_inv_def)
  from blast_loop_inv [OF run this] have
    inv: "blast_inv (clean ` set changed) (blast_origin reader installation repository ids) raw" by simp
  then have keys: "map blast_key (map snd raw) = map fst raw" by (auto simp: blast_inv_def)
  have "distinct (map blast_key (map snd raw))" unfolding keys using inv by (simp add: blast_inv_def)
  then have "distinct (map snd raw)" unfolding distinct_map by simp
  then have "distinct items" and "length items \<le> 20" and "ordered item_less items"
    using inv by (simp_all add: items blast_inv_def item_order.ordered_sort_by)
  moreover have "bi_path x \<notin> clean ` set changed \<and> bi_path x \<noteq> ''.'' \<and> \<not> has_prefix ''../'' (bi_path x)
      \<and> blast_origin reader installation repository ids x" if "x \<in> set items" for x
    using that inv by (auto simp: items blast_inv_def)
  ultimately show ?thesis unfolding blast_origin_def by blast
qed

lemma sample_blast:
  "build_blast_radius (Some (edge_list_reader sample_edges)) 1 1 [1] [] =
     Inr [\<lparr>bi_kind = ''caller'', bi_path = ''p'', bi_name = ''f''\<rparr>]"
  by code_simp

theorem blast_radius_spec_witness:
  "distinct [\<lparr>bi_kind = ''caller'', bi_path = ''p'', bi_name = ''f''\<rparr>]
   \<and> (\<exists>found s. callers (Some (edge_list_reader sample_edges)) (blast_query 1 1 1) = Inr found
        \<and> s \<in> set found \<and> clean (ts_path s) = ''p'')"
  using blast_radius_spec [OF sample_blast] by fastforce

text \<open>A symbol whose path cleans to \<open>..\<close> itself passes the filter.\<close>

lemma blast_radius_accepts_parent:
  "add_blast_items {} ''caller'' [] [(tool_fn 1)\<lparr>ts_path := ''..''\<rparr>]
   = [(blast_key \<lparr>bi_kind = ''caller'', bi_path = ''..'', bi_name = ''f''\<rparr>,
       \<lparr>bi_kind = ''caller'', bi_path = ''..'', bi_name = ''f''\<rparr>)]"
  by code_simp

end
