(* ===== verification/RefFiles.thy ===== *)
theory RefFiles
  imports Findings GoGlob
begin

text \<open>
  \<open>internal/hosted/review/reference_files.go\<close>: the files a repository names as context for a review,
  and the selection of those in scope of a changed path. The strict JSON decoder is a parameter;
  \<open>path.Match\<close> is \<open>path_match\<close>.
\<close>

definition max_reference_file_bytes :: nat where "max_reference_file_bytes = 65536"

record reference_file =
  rf_path :: bytes
  rf_for :: "bytes list"
  rf_description :: bytes

record reference_files =
  rs_version :: int
  rs_files :: "reference_file list"

definition safe_repo_path :: "bytes \<Rightarrow> bool" where
  "safe_repo_path value \<longleftrightarrow> value \<noteq> [] \<and> value = clean value \<and> value \<noteq> ''.''
     \<and> \<not> has_prefix ''/'' value \<and> value \<noteq> ''..'' \<and> \<not> has_prefix ''../'' value"

definition safe_pattern :: "bytes \<Rightarrow> bool" where
  "safe_pattern value \<longleftrightarrow>
     (if value = [] \<or> has_prefix ''/'' value \<or> contains ''..'' value
         \<or> contains_any [CHR 0x5C, CHR 0x00] value
      then False
      else is_ok (path_match (replace_all ''**'' ''*'' value) ''probe''))"

definition glob_match :: "bytes \<Rightarrow> bytes \<Rightarrow> bool" where
  "glob_match pattern value \<longleftrightarrow>
     (if has_suffix ''/**'' pattern then has_prefix (trim_suffix ''**'' pattern) value
      else path_match pattern value = Inr True)"

fun check_reference_files :: "nat \<Rightarrow> bytes set \<Rightarrow> reference_file list \<Rightarrow> go_error option" where
  "check_reference_files i seen [] = None"
| "check_reference_files i seen (f # fs) =
     (if \<not> safe_repo_path (rf_path f) \<or> rf_path f \<in> seen \<or> rf_for f = [] \<or> length (rf_for f) > 20
         \<or> length (rf_description f) > 500
      then Some (MsgNum ''files.json entry %d is invalid'' [int i])
      else if \<not> list_all safe_pattern (rf_for f)
      then Some (MsgNum ''files.json entry %d has invalid scope'' [int i])
      else check_reference_files (Suc i) (insert (rf_path f) seen) fs)"

definition decode_reference_files ::
    "(bytes \<Rightarrow> (reference_files \<times> bytes) res) \<Rightarrow> bytes \<Rightarrow> reference_files res" where
  "decode_reference_files decode data =
     (if length data > max_reference_file_bytes then Inl (Msg ''files.json exceeds 64 KiB'')
      else case decode data of
             Inl e \<Rightarrow> Inl (Wrapped ''decode files.json: %w'' [] e)
           | Inr (config, rest) \<Rightarrow>
               if \<not> list_all json_space rest then Inl (Msg ''files.json contains trailing data'')
               else if rs_version config \<noteq> 1 \<or> length (rs_files config) > 100
               then Inl (Msg ''files.json requires version 1 and at most 100 files'')
               else case check_reference_files 0 {} (rs_files config) of
                      Some e \<Rightarrow> Inl e
                    | None \<Rightarrow> Inr config)"

definition for_path :: "reference_files \<Rightarrow> bytes \<Rightarrow> reference_file list" where
  "for_path config changed =
     (if \<not> safe_repo_path changed then []
      else filter (\<lambda>f. safe_repo_path (rf_path f) \<and> list_ex (\<lambda>p. glob_match p changed) (rf_for f))
             (rs_files config))"

lemma check_reference_files_ok:
  assumes "check_reference_files i seen fs = None"
  shows "distinct (map rf_path fs) \<and> seen \<inter> rf_path ` set fs = {}
    \<and> (\<forall>f \<in> set fs. safe_repo_path (rf_path f) \<and> list_all safe_pattern (rf_for f))"
  using assms by (induction i seen fs rule: check_reference_files.induct) (auto split: if_splits)

lemma safe_repo_path_no_dotdot:
  assumes "safe_repo_path p"
  shows "''..'' \<notin> set (split_on CHR ''/'' p) \<and> \<not> is_abs p"
proof -
  have "\<not> is_abs p" using assms by (cases p) (auto simp: safe_repo_path_def is_abs_def has_prefix_def)
  then show ?thesis using assms inside_repo_no_dotdot [of p] by (auto simp: safe_repo_path_def outside_repo_def)
qed

text \<open>
  Whatever the decoder reads, a file selected for a changed path is one of the listed files, is
  named by a clean path inside the repository, and has a scope that the changed path matches.
\<close>

lemma for_path_inside_repo:
  assumes "decode_reference_files decode data = Inr config" and "f \<in> set (for_path config changed)"
  shows "f \<in> set (rs_files config) \<and> ''..'' \<notin> set (split_on CHR ''/'' (rf_path f)) \<and> \<not> is_abs (rf_path f)
    \<and> ''..'' \<notin> set (split_on CHR ''/'' changed) \<and> (\<exists>p \<in> set (rf_for f). safe_pattern p \<and> glob_match p changed)"
proof -
  have ok: "check_reference_files 0 {} (rs_files config) = None"
    using assms(1) by (auto simp: decode_reference_files_def split: if_splits sum.splits option.splits)
  have f: "f \<in> set (rs_files config)" "safe_repo_path (rf_path f)" "safe_repo_path changed"
      "list_ex (\<lambda>p. glob_match p changed) (rf_for f)"
    using assms(2) by (auto simp: for_path_def split: if_splits)
  have "list_all safe_pattern (rf_for f)" using check_reference_files_ok [OF ok] f(1) by simp
  then show ?thesis
    using f safe_repo_path_no_dotdot by (fastforce simp: list_all_iff list_ex_iff)
qed

text \<open>
  A wildcard before the final \<open>/**\<close> of a scope is accepted and then compared literally, so such a
  scope selects nothing.
\<close>

lemma glob_prefix_is_literal:
  assumes "CHR ''*'' \<notin> set value"
  shows "\<not> glob_match (CHR ''*'' # p @ ''/**'') value"
  using assms by (auto simp: glob_match_def has_suffix_def has_prefix_iff trim_suffix_def)

lemma glob_prefix_accepted: "safe_pattern ''*/api/**''"
  by (simp add: safe_pattern_def has_prefix_def contains_any_def path_match.simps scan_chunk_def match_chunk.simps
      class_ranges.simps get_esc_def rest_error.simps no_match_def bad_pattern_def)

end
