(* ===== verification/Summary.thy ===== *)
theory Summary
  imports Learning Confidence Context
begin

text \<open>
  \<open>internal/hosted/review/summary.go\<close>: the summary comment of a hosted review. The body is the list
  of its lines; \<open>url.Parse\<close> and \<open>URL.String\<close> are parameters. A deterministic signal is quoted in a
  fence that grows until the text does not contain it.
\<close>

section \<open>Verbatim blocks\<close>

text \<open>The loop of \<open>writeVerbatim\<close>; a fence longer than the value is never contained in it.\<close>

lemma contains_length: "contains sub s \<Longrightarrow> length sub \<le> length s"
  by (auto simp: contains_iff)

function grow_fence :: "bytes \<Rightarrow> bytes \<Rightarrow> bytes" where
  "grow_fence value fence = (if contains fence value then grow_fence value (fence @ [CHR 0x60]) else fence)"
  by pat_completeness auto
termination
  by (relation "measure (\<lambda>(value, fence). Suc (length value) - length fence)")
    (auto dest: contains_length)

declare grow_fence.simps [simp del]

definition verbatim_lines :: "bytes \<Rightarrow> bytes list" where
  "verbatim_lines value = (let fence = grow_fence value (replicate 3 (CHR 0x60)) in [fence, value, fence])"

lemma grow_fence_spec:
  assumes "grow_fence value (replicate n (CHR 0x60)) = fence"
  shows "\<exists>m \<ge> n. fence = replicate m (CHR 0x60) \<and> \<not> contains fence value
    \<and> (\<forall>k. n \<le> k \<and> k < m \<longrightarrow> contains (replicate k (CHR 0x60)) value)"
  using assms
proof (induction "value" "replicate n (CHR 0x60)" arbitrary: n rule: grow_fence.induct)
  case (1 "value")
  let ?fence = "replicate n (CHR 0x60)"
  show ?case
  proof (cases "contains ?fence value")
    case True
    have step: "?fence @ [CHR 0x60] = replicate (Suc n) (CHR 0x60)" by (simp add: replicate_append_same)
    have "grow_fence value (replicate (Suc n) (CHR 0x60)) = fence"
      using "1.prems" True by (subst (asm) grow_fence.simps) (simp add: step del: replicate.simps)
    from "1.hyps" [OF True step this] obtain m where m: "Suc n \<le> m" "fence = replicate m (CHR 0x60)"
        "\<not> contains fence value" "\<forall>k. Suc n \<le> k \<and> k < m \<longrightarrow> contains (replicate k (CHR 0x60)) value"
      by blast
    then have "\<forall>k. n \<le> k \<and> k < m \<longrightarrow> contains (replicate k (CHR 0x60)) value"
      using True by (metis not_less_eq_eq le_antisym)
    then show ?thesis using m by (intro exI [of _ m]) simp
  next
    case False
    then have "fence = ?fence" using "1.prems" by (subst (asm) grow_fence.simps) simp
    then show ?thesis using False by (intro exI [of _ n]) auto
  qed
qed

text \<open>
  C31: A verbatim block terminates and is unambiguous: its fence is the shortest run of at least
  three backticks that does not occur in the quoted text, so the text cannot close the block.
\<close>

theorem verbatim_fence_minimal:
  "\<exists>m \<ge> 3. verbatim_lines value = [replicate m (CHR 0x60), value, replicate m (CHR 0x60)]
    \<and> \<not> contains (replicate m (CHR 0x60)) value
    \<and> (\<forall>k. 3 \<le> k \<and> k < m \<longrightarrow> contains (replicate k (CHR 0x60)) value)"
  using grow_fence_spec [of "value" 3] by (auto simp: verbatim_lines_def Let_def)

theorem verbatim_fence_minimal_witness:
  "\<exists>m \<ge> 5. verbatim_lines (replicate 4 (CHR 0x60)) = [replicate m (CHR 0x60), replicate 4 (CHR 0x60), replicate m (CHR 0x60)]"
proof -
  obtain m where m: "3 \<le> m" "verbatim_lines (replicate 4 (CHR 0x60)) =
        [replicate m (CHR 0x60), replicate 4 (CHR 0x60), replicate m (CHR 0x60)]"
      "\<not> contains (replicate m (CHR 0x60)) (replicate 4 (CHR 0x60))"
    using verbatim_fence_minimal [of "replicate 4 (CHR 0x60)"] by blast
  have "contains (replicate 3 (CHR 0x60)) (replicate 4 (CHR 0x60))"
      "contains (replicate 4 (CHR 0x60)) (replicate 4 (CHR 0x60))"
    by code_simp+
  then have "m \<noteq> 3" "m \<noteq> 4" using m(3) by auto
  then show ?thesis using m(1,2) by (intro exI [of _ m]) simp
qed

section \<open>The summary\<close>

definition hosted_summary_marker :: bytes where
  "hosted_summary_marker = ''<!-- px1-hosted-review -->''"

record deterministic_signal =
  ds_label :: bytes
  ds_detail :: bytes

record summary_input =
  sm_head_sha :: bytes
  sm_changed_files :: int
  sm_partial_index :: bool
  sm_verification :: bytes
  sm_report_url :: bytes
  sm_model_summary :: bytes
  sm_findings :: "finding list"
  sm_signals :: "deterministic_signal list"
  sm_blast_radius :: "blast_radius_item list"
  sm_confidence :: "confidence_score option"

definition is_hex :: "bytes \<Rightarrow> bool" where
  "is_hex value \<longleftrightarrow> list_all (\<lambda>c. (CHR ''0'' \<le> c \<and> c \<le> CHR ''9'') \<or> (CHR ''a'' \<le> c \<and> c \<le> CHR ''f'')
     \<or> (CHR ''A'' \<le> c \<and> c \<le> CHR ''F'')) value"

definition finding_place :: "finding \<Rightarrow> bytes" where
  "finding_place f = f_path f @ '':'' @ dec_int (f_start f) @ ''-'' @ dec_int (f_end f)"

definition build_summary_prompt :: "int \<Rightarrow> finding list \<Rightarrow> bool \<Rightarrow> bytes" where
  "build_summary_prompt changed_files findings partial_index =
     unlines ([''Write a neutral 3-6 sentence orientation to this pull request review.'',
         ''Do not approve the change, claim safety, or invent evidence.'',
         ''Changed files: '' @ dec_int changed_files,
         ''Repository index partial: '' @ (if partial_index then ''true'' else ''false''),
         ''Verified findings:'']
       @ map (\<lambda>f. ''- '' @ f_severity f @ '' '' @ finding_place f @ '': '' @ f_title f) findings)"

definition signed_int :: "int \<Rightarrow> bytes" where
  "signed_int n = (if n < 0 then dec_int n else CHR ''+'' # dec_int n)"

definition confidence_lines :: "confidence_score \<Rightarrow> bytes list" where
  "confidence_lines s =
     [[], ''### Review confidence: '' @ dec_int (cs_value s) @ ''/5'',
      ''This deterministic score summarizes available evidence; it is not approval or proof of correctness.'']
     @ map (\<lambda>r. ''- '' @ CHR 0x60 # cr_input r @ CHR 0x60 # '' ('' @ signed_int (cr_impact r) @ ''): '' @ cr_detail r)
         (cs_reasons s)"

definition signal_lines :: "deterministic_signal \<Rightarrow> bytes list" where
  "signal_lines s = [[], ''**'' @ ds_label s @ ''**'', []] @ verbatim_lines (ds_detail s)"

definition summary_lines :: "(bytes \<Rightarrow> bytes) \<Rightarrow> summary_input \<Rightarrow> bytes list" where
  "summary_lines show_url i =
     [hosted_summary_marker, ''## px1 hosted review'', [],
      ''Review for commit '' @ CHR 0x60 # sm_head_sha i @ CHR 0x60 # ''. '' @ dec_int (sm_changed_files i)
        @ '' changed files; '' @ dec_int (int (length (sm_findings i))) @ '' verified findings.'']
     @ (if sm_partial_index i
        then [[], ''> Repository context was partial because the index limit was reached.''] else [])
     @ (if blank (sm_model_summary i) then [] else [[], trim_space (sm_model_summary i)])
     @ (case sm_confidence i of None \<Rightarrow> [] | Some s \<Rightarrow> confidence_lines s)
     @ (if sm_findings i = [] then []
        else [[], ''### Findings''] @ map (\<lambda>f. ''- **'' @ f_severity f @ ''** '' @ CHR 0x60 # finding_place f
               @ CHR 0x60 # '' '' @ [CHR 0xE2, CHR 0x80, CHR 0x94] @ '' '' @ f_title f) (sm_findings i))
     @ (if sm_signals i = [] then []
        else [[], ''### Deterministic signals (verbatim)''] @ concat (map signal_lines (sm_signals i)))
     @ (if sm_blast_radius i = [] then []
        else [[], ''### Blast radius (unchanged related code)'',
              ''These relationships are inspection pointers, not claims that the files are broken.'']
             @ map (\<lambda>x. ''- **'' @ bi_kind x @ ''** '' @ CHR 0x60 # bi_path x @ CHR 0x60 # '' ''
                 @ [CHR 0xE2, CHR 0x80, CHR 0x94] @ '' '' @ bi_name x) (sm_blast_radius i))
     @ [[], ''**Verification:** '' @ (if blank (sm_verification i) then ''not available''
                                       else trim_space (sm_verification i)), [],
        ''[Open the commit-pinned review report]('' @ show_url (trim_space (sm_report_url i)) @ '')'']"

definition render_summary ::
    "(bytes \<Rightarrow> parsed_link res) \<Rightarrow> (bytes \<Rightarrow> bytes) \<Rightarrow> summary_input \<Rightarrow> bytes res" where
  "render_summary parse show_url i =
     (if length (sm_head_sha i) \<noteq> 40 \<or> \<not> is_hex (sm_head_sha i)
      then Inl (Msg ''head SHA must be a full commit hash'')
      else case parse (trim_space (sm_report_url i)) of
             Inl e \<Rightarrow> Inl (Msg ''report URL must be absolute HTTP(S)'')
           | Inr u \<Rightarrow>
               if (li_scheme u \<noteq> ''https'' \<and> li_scheme u \<noteq> ''http'') \<or> li_host u = []
               then Inl (Msg ''report URL must be absolute HTTP(S)'')
               else (case sm_confidence i of
                       None \<Rightarrow> Inr (unlines (summary_lines show_url i))
                     | Some s \<Rightarrow>
                         (case validate_score s of
                            Inl e \<Rightarrow> Inl e
                          | Inr _ \<Rightarrow> Inr (unlines (summary_lines show_url i)))))"

end
