(* ===== verification/Language.thy ===== *)
theory Language
  imports GoPath Utf8
begin

text \<open>
  \<open>internal/hosted/indexer/language.go\<close>: language detection and the parser registry, which falls back
  to windows of lines. Go ranges over the shebang markers in an order of its own choice: that order
  is a parameter. Parsers and the state of the context are parameters too.
\<close>

section \<open>Detection\<close>

datatype language =
    Lang_Unknown | Lang_Go | Lang_JavaScript | Lang_TypeScript | Lang_TSX | Lang_Python | Lang_Ruby
  | Lang_Rust | Lang_Java | Lang_C | Lang_CSharp | Lang_CPP | Lang_PHP

definition extension_languages :: "(bytes \<times> language) list" where
  "extension_languages =
     [(''.go'', Lang_Go), (''.js'', Lang_JavaScript), (''.jsx'', Lang_JavaScript),
      (''.mjs'', Lang_JavaScript), (''.cjs'', Lang_JavaScript), (''.ts'', Lang_TypeScript),
      (''.mts'', Lang_TypeScript), (''.cts'', Lang_TypeScript), (''.tsx'', Lang_TSX),
      (''.py'', Lang_Python), (''.rb'', Lang_Ruby), (''.rs'', Lang_Rust),
      (''.java'', Lang_Java), (''.c'', Lang_C), (''.h'', Lang_C),
      (''.cs'', Lang_CSharp), (''.cc'', Lang_CPP), (''.cpp'', Lang_CPP),
      (''.cxx'', Lang_CPP), (''.hh'', Lang_CPP), (''.hpp'', Lang_CPP), (''.php'', Lang_PHP)]"

definition shebang_markers :: "(bytes \<times> language) list" where
  "shebang_markers =
     [(''python'', Lang_Python), (''ruby'', Lang_Ruby), (''node'', Lang_JavaScript), (''php'', Lang_PHP)]"

definition shebang_language :: "(bytes \<times> language) list \<Rightarrow> bytes \<Rightarrow> language" where
  "shebang_language order line =
     (case find (\<lambda>(marker, l). contains marker line) order of None \<Rightarrow> Lang_Unknown | Some (marker, l) \<Rightarrow> l)"

definition detect_language :: "unicode \<Rightarrow> (bytes \<times> language) list \<Rightarrow> bytes \<Rightarrow> bytes \<Rightarrow> language" where
  "detect_language u order path content =
     (case map_of extension_languages (to_lower u (ext path)) of
        Some l \<Rightarrow> l
      | None \<Rightarrow>
          let name = to_lower u (base path) in
          if name = ''gemfile'' \<or> name = ''rakefile'' then Lang_Ruby
          else let first_line = takeWhile (\<lambda>c. c \<noteq> CHR 0x0A) content in
            if has_prefix ''#!'' first_line then shebang_language order (to_lower u first_line)
            else Lang_Unknown)"

text \<open>
  A line with at most one marker has one language; with two markers it depends on the order in
  which Go happens to range over the map.
\<close>

lemma shebang_one_marker:
  assumes "set order = set shebang_markers" and "(marker, l) \<in> set shebang_markers"
    and "contains marker line" and "\<And>m k. (m, k) \<in> set shebang_markers \<Longrightarrow> contains m line \<Longrightarrow> m = marker"
  shows "shebang_language order line = l"
proof -
  have "\<exists>p. find (\<lambda>(m, k). contains m line) order = Some p"
    using assms(1-3) by (cases "find (\<lambda>(m, k). contains m line) order") (auto simp: find_None_iff)
  then obtain m k where f: "find (\<lambda>(m, k). contains m line) order = Some (m, k)" by auto
  then have "(m, k) \<in> set shebang_markers" "contains m line"
    unfolding find_Some_iff assms(1) [symmetric] by (metis nth_mem, auto)
  then have "m = marker" using assms(4) by blast
  then have "k = l" using \<open>(m, k) \<in> set shebang_markers\<close> assms(2) by (auto simp: shebang_markers_def)
  then show ?thesis using f by (simp add: shebang_language_def)
qed

lemma shebang_order_matters:
  "shebang_language shebang_markers ''#!/opt/python/bin/node'' = Lang_Python"
  "shebang_language (rev shebang_markers) ''#!/opt/python/bin/node'' = Lang_JavaScript"
  by code_simp+

section \<open>The parser registry\<close>

record syntax_node =
  sx_kind :: bytes
  sx_name :: bytes
  sx_start_byte :: nat
  sx_end_byte :: nat
  sx_start_line :: nat
  sx_end_line :: nat

record parse_result =
  pr_language :: language
  pr_mode :: bytes
  pr_reason :: bytes
  pr_nodes :: "syntax_node list"

record parser_registry =
  pg_parsers :: "language \<Rightarrow> (bytes \<Rightarrow> syntax_node list res) option"
  pg_max_bytes :: int
  pg_window_lines :: int
  pg_max_windows :: int

fun split_after :: "char \<Rightarrow> bytes \<Rightarrow> bytes list" where
  "split_after c [] = [[]]"
| "split_after c (x # xs) =
     (if x = c then [x] # split_after c xs
      else (case split_after c xs of [] \<Rightarrow> [[x]] | w # ws \<Rightarrow> (x # w) # ws))"

definition effective_window :: "parser_registry \<Rightarrow> nat" where
  "effective_window r = (if pg_window_lines r \<le> 0 then 200 else nat (pg_window_lines r))"

definition effective_windows :: "parser_registry \<Rightarrow> nat" where
  "effective_windows r = (if pg_max_windows r \<le> 0 then 500 else nat (pg_max_windows r))"

text \<open>The loop over the lines not yet in a window; \<open>limit\<close> counts the windows still allowed.\<close>

fun window_loop :: "nat \<Rightarrow> nat \<Rightarrow> nat \<Rightarrow> nat \<Rightarrow> bytes list \<Rightarrow> syntax_node list" where
  "window_loop window 0 start offset lines = []"
| "window_loop window (Suc limit) start offset lines =
     (if lines = [] then []
      else let taken = take window lines; len = length (concat taken) in
        \<lparr>sx_kind = ''line_window'', sx_name = [], sx_start_byte = offset, sx_end_byte = offset + len,
         sx_start_line = start + 1, sx_end_line = start + length taken\<rparr>
        # window_loop window limit (start + window) (offset + len) (drop window lines))"

definition line_windows :: "parser_registry \<Rightarrow> bytes \<Rightarrow> syntax_node list" where
  "line_windows r content =
     (if content = [] then []
      else window_loop (effective_window r) (effective_windows r) 0 0 (split_after (CHR 0x0A) content))"

definition parse_source ::
    "unicode \<Rightarrow> (bytes \<times> language) list \<Rightarrow> parser_registry \<Rightarrow> go_error option \<Rightarrow> bytes \<Rightarrow> bytes \<Rightarrow> parse_result res" where
  "parse_source u order r ctx_err path content =
     (if int (length content) > (if pg_max_bytes r \<le> 0 then 1048576 else pg_max_bytes r)
      then Inl (Msg ''source exceeds parser byte limit'')
      else if CHR 0x00 \<in> set content then Inl (Msg ''binary content is not parsed'')
      else let language = detect_language u order path content in
        case pg_parsers r language of
          Some parse \<Rightarrow>
            (case parse content of
               Inr nodes \<Rightarrow> Inr \<lparr>pr_language = language, pr_mode = ''tree-sitter'', pr_reason = [], pr_nodes = nodes\<rparr>
             | Inl e \<Rightarrow>
                 (case ctx_err of
                    Some cancelled \<Rightarrow> Inl cancelled
                  | None \<Rightarrow> Inr \<lparr>pr_language = language, pr_mode = ''line-window'',
                      pr_reason = ''tree-sitter parse failed'', pr_nodes = line_windows r content\<rparr>))
        | None \<Rightarrow> Inr \<lparr>pr_language = language, pr_mode = ''line-window'',
            pr_reason = (if language \<noteq> Lang_Unknown then ''tree-sitter parser is not registered''
                         else ''language is not supported''),
            pr_nodes = line_windows r content\<rparr>)"

section \<open>Windows tile the file\<close>

lemma concat_split_after [simp]: "concat (split_after c s) = s"
  by (induction s) (auto split: list.splits)

lemma split_after_nonempty [simp]: "split_after c s \<noteq> []"
  by (induction s) (auto split: list.splits)

text \<open>
  The windows follow each other without gap or overlap, in bytes and in lines, and they reach the
  end of the file unless their number is limited.
\<close>

fun tiles :: "nat \<Rightarrow> nat \<Rightarrow> syntax_node list \<Rightarrow> bool" where
  "tiles line offset [] \<longleftrightarrow> True"
| "tiles line offset (n # ns) \<longleftrightarrow> sx_start_byte n = offset \<and> sx_start_line n = Suc line
     \<and> offset \<le> sx_end_byte n \<and> line < sx_end_line n \<and> tiles (sx_end_line n) (sx_end_byte n) ns"

lemma tiles_lines_Nil: "window_loop window limit start offset [] = []"
  by (cases limit) simp_all

lemma window_loop_tiles:
  assumes "0 < window"
  shows "tiles start offset (window_loop window limit start offset lines)"
    and "length (window_loop window limit start offset lines) \<le> limit"
    and "lines \<noteq> [] \<Longrightarrow> length (window_loop window limit start offset lines) < limit \<Longrightarrow>
      sx_end_byte (last (window_loop window limit start offset lines)) = offset + length (concat lines)
      \<and> sx_end_line (last (window_loop window limit start offset lines)) = start + length lines"
  using assms
proof (induction window limit start offset lines rule: window_loop.induct)
  case (2 window limit start offset lines)
  let ?len = "length (concat (take window lines))"
  let ?rest = "window_loop window limit (start + window) (offset + ?len) (drop window lines)"
  note IH = "2.IH" [OF _ refl refl]
  {
    case 1
    have "tiles (start + length (take window lines)) (offset + ?len) ?rest" if "lines \<noteq> []"
    proof (cases "length lines \<le> window")
      case True
      then show ?thesis by (simp add: tiles_lines_Nil)
    next
      case False
      then show ?thesis using IH(1) [OF that] 1 by (simp add: min_def)
    qed
    then show ?case using 1 by (auto simp: Let_def)
  next
    case 2
    then show ?case using IH(2) by (cases "lines = []") (simp_all add: Let_def)
  next
    case 3
    show ?case
    proof (cases "length lines \<le> window")
      case True
      then show ?thesis using 3 by (simp add: tiles_lines_Nil Let_def)
    next
      case False
      then have d: "drop window lines \<noteq> []" by simp
      have split: "concat (take window lines) @ concat (drop window lines) = concat lines"
        by (metis append_take_drop_id concat_append)
      have ne: "lines \<noteq> []" using False by auto
      have less: "length ?rest < limit" and w: "0 < window" using 3 ne by (simp_all add: Let_def)
      have "?rest \<noteq> []" using d less by (cases limit) (simp_all add: Let_def)
      then show ?thesis
        using IH(3) [OF ne d less w] False arg_cong [OF split, of length] ne by (simp add: Let_def)
    qed
  }
qed simp_all

lemma line_windows_tile:
  assumes "content \<noteq> []"
  shows "tiles 0 0 (line_windows r content) \<and> length (line_windows r content) \<le> effective_windows r
    \<and> (length (line_windows r content) < effective_windows r \<longrightarrow>
         sx_end_byte (last (line_windows r content)) = length content)"
proof -
  have "0 < effective_window r" by (simp add: effective_window_def)
  from window_loop_tiles [OF this] show ?thesis using assms by (simp add: line_windows_def)
qed

text \<open>
  A file of one complete line, in windows of one line, has a second window: no byte of the file is
  in it, and it names a line the file does not have.
\<close>

lemma line_windows_phantom:
  "line_windows \<lparr>pg_parsers = \<lambda>_. None, pg_max_bytes = 0, pg_window_lines = 1, pg_max_windows = 0\<rparr> [CHR ''a'', CHR 0x0A]
   = [\<lparr>sx_kind = ''line_window'', sx_name = [], sx_start_byte = 0, sx_end_byte = 2, sx_start_line = 1, sx_end_line = 1\<rparr>,
      \<lparr>sx_kind = ''line_window'', sx_name = [], sx_start_byte = 2, sx_end_byte = 2, sx_start_line = 2, sx_end_line = 2\<rparr>]"
  by code_simp

end
