(* ===== verification/Config.thy ===== *)
theory Config
  imports Findings
begin

text \<open>
  \<open>config_cascade.go\<close> and \<open>validate_config.go\<close>: the configuration in force for a path is the cascade
  of the \<open>.px1/config.json\<close> files from the root of the repository down to its directory. The strict
  JSON decoder and the reader of files are parameters. Repository names are lowered only once they
  are known to be ASCII.
\<close>

section \<open>One file\<close>

definition config_file_limit :: nat where "config_file_limit = 65536"
definition config_depth_limit :: nat where "config_depth_limit = 20"

record config_input =
  in_version :: int
  in_strictness :: "int option"
  in_comment_types :: "bytes list option"
  in_disabled_rules :: "bytes list"
  in_max_inline_comments :: "int option"
  in_fail_on_p0 :: "bool option"
  in_context_repos :: "bytes list option"

record resolved_config =
  rs_sources :: "bytes list"
  rs_strictness :: int
  rs_comment_types :: "bytes list"
  rs_disabled_rules :: "bytes list"
  rs_max_inline_comments :: int
  rs_fail_on_p0 :: bool
  rs_context_repos :: "bytes list"

definition config_slug_char :: "char \<Rightarrow> bool" where
  "config_slug_char c \<longleftrightarrow> (CHR ''a'' \<le> c \<and> c \<le> CHR ''z'') \<or> (CHR ''A'' \<le> c \<and> c \<le> CHR ''Z'')
     \<or> (CHR ''0'' \<le> c \<and> c \<le> CHR ''9'') \<or> c \<in> {CHR ''-'', CHR ''_'', CHR ''.''}"

definition config_slug :: "bytes \<Rightarrow> bool" where
  "config_slug value \<longleftrightarrow> value \<noteq> [] \<and> value \<noteq> ''.'' \<and> value \<noteq> ''..'' \<and> list_all config_slug_char value"

fun check_comment_types :: "bytes set \<Rightarrow> bytes list \<Rightarrow> go_error option" where
  "check_comment_types seen [] = None"
| "check_comment_types seen (k # ks) =
     (if k \<notin> {''logic'', ''syntax'', ''style'', ''security''} \<or> k \<in> seen
      then Some (Msg ''commentTypes contains an invalid or duplicate value'')
      else check_comment_types (insert k seen) ks)"

fun check_disabled_rules :: "bytes set \<Rightarrow> bytes list \<Rightarrow> go_error option" where
  "check_disabled_rules seen [] = None"
| "check_disabled_rules seen (k # ks) =
     (if blank k \<or> length k > 80 then Some (Msg ''disabledRules contains an invalid id'')
      else if k \<in> seen then Some (Msg ''disabledRules contains a duplicate id'')
      else check_disabled_rules (insert k seen) ks)"

fun check_context_repos :: "bytes set \<Rightarrow> bytes list \<Rightarrow> go_error option" where
  "check_context_repos seen [] = None"
| "check_context_repos seen (k # ks) =
     (let parts = split_on CHR ''/'' k; key = ascii_lowercase k in
      if length parts \<noteq> 2 \<or> \<not> config_slug (parts ! 0) \<or> \<not> config_slug (parts ! 1) \<or> key \<in> seen
      then Some (Msg ''context.repos contains an invalid or duplicate owner/repository'')
      else check_context_repos (insert key seen) ks)"

definition config_input_error :: "config_input \<Rightarrow> go_error option" where
  "config_input_error i =
     (if in_version i \<noteq> 1 then Some (Msg ''version must be 1'')
      else if (case in_strictness i of None \<Rightarrow> False | Some n \<Rightarrow> n < 1 \<or> n > 3)
      then Some (Msg ''strictness must be between 1 and 3'')
      else if (case in_max_inline_comments i of None \<Rightarrow> False | Some n \<Rightarrow> n < 1 \<or> n > 50)
      then Some (Msg ''maxInlineComments must be between 1 and 50'')
      else case check_comment_types {} (case in_comment_types i of None \<Rightarrow> [] | Some ks \<Rightarrow> ks) of
        Some e \<Rightarrow> Some e
      | None \<Rightarrow>
     (case check_disabled_rules {} (in_disabled_rules i) of
        Some e \<Rightarrow> Some e
      | None \<Rightarrow>
     (case in_context_repos i of
        None \<Rightarrow> None
      | Some repos \<Rightarrow>
          if length repos > 10 then Some (Msg ''context.repos cannot exceed 10 repositories'')
          else check_context_repos {} repos)))"

definition decode_config :: "(bytes \<Rightarrow> (config_input \<times> bytes) res) \<Rightarrow> bytes \<Rightarrow> config_input res" where
  "decode_config decode body =
     (if body = [] \<or> length body > config_file_limit
      then Inl (Msg ''config must be non-empty and at most 64 KiB'')
      else case decode body of
             Inl e \<Rightarrow> Inl e
           | Inr (i, rest) \<Rightarrow>
               if \<not> list_all json_space rest then Inl (Msg ''config contains trailing data'')
               else (case config_input_error i of Some e \<Rightarrow> Inl e | None \<Rightarrow> Inr i))"

section \<open>The cascade\<close>

definition config_candidates :: "bytes \<Rightarrow> bytes list" where
  "config_candidates target =
     (let d = dir target in
      ''.px1/config.json'' #
        (if d = ''.'' then []
         else let parts = split_on CHR ''/'' d in
           map (\<lambda>i. join_with ''/'' (take (Suc i) parts) @ ''/.px1/config.json'') [0..<length parts]))"

record cascade =
  ca_result :: resolved_config
  ca_disabled :: "bytes set"
  ca_repos :: "bytes set"

definition start_cascade :: cascade where
  "start_cascade =
     \<lparr>ca_result = \<lparr>rs_sources = [], rs_strictness = 2,
        rs_comment_types = [''logic'', ''security'', ''style'', ''syntax''], rs_disabled_rules = [],
        rs_max_inline_comments = 15, rs_fail_on_p0 = False, rs_context_repos = []\<rparr>,
      ca_disabled = {}, ca_repos = {}\<rparr>"

definition in_repos :: "config_input \<Rightarrow> bytes list" where
  "in_repos i = (case in_context_repos i of None \<Rightarrow> [] | Some rs \<Rightarrow> rs)"

definition apply_config :: "bytes \<Rightarrow> config_input \<Rightarrow> cascade \<Rightarrow> cascade" where
  "apply_config source i c =
     (let r = ca_result c;
          r = r\<lparr>rs_sources := rs_sources r @ [source]\<rparr>;
          r = (case in_strictness i of
                 Some n \<Rightarrow> if n > rs_strictness r then r\<lparr>rs_strictness := n\<rparr> else r | None \<Rightarrow> r);
          r = (if in_fail_on_p0 i = Some True then r\<lparr>rs_fail_on_p0 := True\<rparr> else r);
          r = (case in_max_inline_comments i of Some n \<Rightarrow> r\<lparr>rs_max_inline_comments := n\<rparr> | None \<Rightarrow> r);
          r = (case in_comment_types i of Some ks \<Rightarrow> r\<lparr>rs_comment_types := ks\<rparr> | None \<Rightarrow> r)
      in \<lparr>ca_result = r, ca_disabled = ca_disabled c \<union> set (in_disabled_rules i),
          ca_repos = ca_repos c \<union> ascii_lowercase ` set (in_repos i)\<rparr>)"

fun cascade_loop ::
    "(bytes \<Rightarrow> (config_input \<times> bytes) res) \<Rightarrow> (bytes \<rightharpoonup> bytes) \<Rightarrow> cascade \<Rightarrow> bytes list \<Rightarrow> cascade res" where
  "cascade_loop decode files c [] = Inr c"
| "cascade_loop decode files c (candidate # candidates) =
     (case files candidate of
        None \<Rightarrow> cascade_loop decode files c candidates
      | Some body \<Rightarrow>
          (case decode_config decode body of
             Inl e \<Rightarrow> Inl (Wrapped (candidate @ '': %w'') [] e)
           | Inr i \<Rightarrow> cascade_loop decode files (apply_config candidate i c) candidates))"

definition resolve_cascading_config ::
    "(bytes \<Rightarrow> (config_input \<times> bytes) res) \<Rightarrow> bytes \<Rightarrow> (bytes \<rightharpoonup> bytes) \<Rightarrow> resolved_config res" where
  "resolve_cascading_config decode target files =
     (let cleaned = clean target in
      if target = [] \<or> is_abs target \<or> cleaned = ''.'' \<or> cleaned = ''..'' \<or> has_prefix ''../'' cleaned
      then Inl (Msg ''config target must be a repository-relative file'')
      else if length (split_on CHR ''/'' (dir cleaned)) > config_depth_limit
      then Inl (Msg ''config target exceeds directory depth limit'')
      else case cascade_loop decode files start_cascade (config_candidates cleaned) of
             Inl e \<Rightarrow> Inl e
           | Inr c \<Rightarrow>
               if card (ca_repos c) > 10 then Inl (Msg ''resolved context.repos cannot exceed 10 repositories'')
               else Inr ((ca_result c)\<lparr>rs_disabled_rules := sorted_list_of_set (ca_disabled c),
                           rs_context_repos := sorted_list_of_set (ca_repos c)\<rparr>))"

text \<open>\<open>read_file\<close> answers \<open>None\<close> for a file that does not exist.\<close>

fun read_candidates :: "(bytes \<Rightarrow> bytes option res) \<Rightarrow> (bytes \<rightharpoonup> bytes) \<Rightarrow> bytes list \<Rightarrow> (bytes \<rightharpoonup> bytes) res" where
  "read_candidates read_file files [] = Inr files"
| "read_candidates read_file files (candidate # candidates) =
     (case read_file candidate of
        Inl e \<Rightarrow> Inl (Wrapped (''read '' @ candidate @ '': %w'') [] e)
      | Inr None \<Rightarrow> read_candidates read_file files candidates
      | Inr (Some body) \<Rightarrow> read_candidates read_file (files(candidate \<mapsto> body)) candidates)"

definition validate_config ::
    "(bytes \<Rightarrow> (config_input \<times> bytes) res) \<Rightarrow> (bytes \<Rightarrow> bytes option res) \<Rightarrow> bytes \<Rightarrow> resolved_config res" where
  "validate_config decode read_file target =
     (case resolve_cascading_config decode target Map.empty of
        Inl e \<Rightarrow> Inl e
      | Inr _ \<Rightarrow>
     (case read_candidates read_file Map.empty (config_candidates target) of
        Inl e \<Rightarrow> Inl e
      | Inr files \<Rightarrow> resolve_cascading_config decode target files))"

section \<open>What the cascade computes\<close>

text \<open>The files that apply, with what they say.\<close>

definition applied :: "(bytes \<Rightarrow> (config_input \<times> bytes) res) \<Rightarrow> (bytes \<rightharpoonup> bytes) \<Rightarrow> bytes list \<Rightarrow> config_input set" where
  "applied decode files candidates =
     {i. \<exists>k \<in> set candidates. \<exists>body. files k = Some body \<and> decode_config decode body = Inr i}"

definition cascade_inv ::
    "config_input set \<Rightarrow> cascade \<Rightarrow> bool" where
  "cascade_inv S c \<longleftrightarrow>
     rs_strictness (ca_result c) \<in> insert 2 {n. \<exists>i \<in> S. in_strictness i = Some n}
     \<and> 2 \<le> rs_strictness (ca_result c)
     \<and> (\<forall>i \<in> S. \<forall>n. in_strictness i = Some n \<longrightarrow> n \<le> rs_strictness (ca_result c))
     \<and> (rs_fail_on_p0 (ca_result c) \<longleftrightarrow> (\<exists>i \<in> S. in_fail_on_p0 i = Some True))
     \<and> ca_disabled c = (\<Union>i \<in> S. set (in_disabled_rules i))
     \<and> ca_repos c = (\<Union>i \<in> S. ascii_lowercase ` set (in_repos i))
     \<and> rs_max_inline_comments (ca_result c) \<in> insert 15 {n. \<exists>i \<in> S. in_max_inline_comments i = Some n}
     \<and> rs_comment_types (ca_result c) \<in>
         insert [''logic'', ''security'', ''style'', ''syntax''] {ks. \<exists>i \<in> S. in_comment_types i = Some ks}"

lemma start_cascade_inv: "cascade_inv {} start_cascade"
  by (simp add: cascade_inv_def start_cascade_def)

lemma apply_config_inv:
  assumes "cascade_inv S c"
  shows "cascade_inv (insert i S) (apply_config k i c)"
proof -
  let ?c = "apply_config k i c"
  have strict: "rs_strictness (ca_result ?c) = (case in_strictness i of None \<Rightarrow> rs_strictness (ca_result c)
        | Some n \<Rightarrow> max n (rs_strictness (ca_result c)))"
    and fail: "rs_fail_on_p0 (ca_result ?c) \<longleftrightarrow> rs_fail_on_p0 (ca_result c) \<or> in_fail_on_p0 i = Some True"
    and disabled: "ca_disabled ?c = ca_disabled c \<union> set (in_disabled_rules i)"
    and repos: "ca_repos ?c = ca_repos c \<union> ascii_lowercase ` set (in_repos i)"
    and inline: "rs_max_inline_comments (ca_result ?c) = (case in_max_inline_comments i of
        None \<Rightarrow> rs_max_inline_comments (ca_result c) | Some n \<Rightarrow> n)"
    and types: "rs_comment_types (ca_result ?c) = (case in_comment_types i of
        None \<Rightarrow> rs_comment_types (ca_result c) | Some ks \<Rightarrow> ks)"
    by (auto simp: apply_config_def Let_def max_def split: option.splits)
  show ?thesis
    unfolding cascade_inv_def strict fail disabled repos inline types
    using assms unfolding cascade_inv_def
    by (intro conjI; elim conjE; cases "in_strictness i"; cases "in_max_inline_comments i"; cases "in_comment_types i";
        auto simp: max_def split: if_splits)
qed

lemma cascade_loop_inv:
  assumes "cascade_loop decode files c candidates = Inr c'" and "cascade_inv S c"
  shows "cascade_inv (S \<union> applied decode files candidates) c'
    \<and> rs_sources (ca_result c') = rs_sources (ca_result c) @ filter (\<lambda>k. files k \<noteq> None) candidates"
  using assms
proof (induction candidates arbitrary: c S)
  case Nil
  then show ?case by (simp add: applied_def)
next
  case (Cons k ks)
  show ?case
  proof (cases "files k")
    case None
    then have "applied decode files (k # ks) = applied decode files ks" by (auto simp: applied_def)
    then show ?thesis using Cons.IH [of c S] Cons.prems None by simp
  next
    case (Some body)
    then obtain i where i: "decode_config decode body = Inr i"
        and run: "cascade_loop decode files (apply_config k i c) ks = Inr c'"
      using Cons.prems(1) by (auto split: sum.splits)
    have "applied decode files (k # ks) = insert i (applied decode files ks)"
      using Some i by (auto simp: applied_def)
    moreover have "rs_sources (ca_result (apply_config k i c)) = rs_sources (ca_result c) @ [k]"
      by (simp add: apply_config_def Let_def split: option.splits)
    ultimately show ?thesis
      using Cons.IH [OF run apply_config_inv [OF Cons.prems(2)]] Some by simp
  qed
qed

lemma resolve_config_ok:
  assumes "resolve_cascading_config decode target files = Inr r"
  obtains c where "cascade_inv (applied decode files (config_candidates (clean target))) c"
    and "rs_sources r = filter (\<lambda>k. files k \<noteq> None) (config_candidates (clean target))"
    and "card (ca_repos c) \<le> 10"
    and "r = (ca_result c)\<lparr>rs_disabled_rules := sorted_list_of_set (ca_disabled c),
      rs_context_repos := sorted_list_of_set (ca_repos c)\<rparr>"
proof -
  obtain c where run: "cascade_loop decode files start_cascade (config_candidates (clean target)) = Inr c"
      and r: "card (ca_repos c) \<le> 10" "r = (ca_result c)\<lparr>rs_disabled_rules := sorted_list_of_set (ca_disabled c),
        rs_context_repos := sorted_list_of_set (ca_repos c)\<rparr>"
    using assms by (auto simp: resolve_cascading_config_def Let_def split: if_splits sum.splits)
  have "rs_sources (ca_result c) = filter (\<lambda>k. files k \<noteq> None) (config_candidates (clean target))"
    using cascade_loop_inv [OF run start_cascade_inv] by (simp add: start_cascade_def)
  then show thesis
    using that [of c] cascade_loop_inv [OF run start_cascade_inv] r by simp
qed

lemma finite_applied: "finite (applied decode files candidates)"
proof (rule finite_subset)
  show "applied decode files candidates \<subseteq>
      (\<lambda>k. projr (decode_config decode (the (files k)))) ` set candidates"
    by (auto simp: applied_def intro!: image_eqI)
  show "finite ((\<lambda>k. projr (decode_config decode (the (files k)))) ` set candidates)" by simp
qed

lemma cascade_finite:
  assumes "cascade_inv S c" and "finite S"
  shows "finite (ca_disabled c)" and "finite (ca_repos c)"
  using assms by (simp_all add: cascade_inv_def)

lemma cascade_invD:
  assumes "cascade_inv S c"
  shows "rs_strictness (ca_result c) = 2 \<or> (\<exists>i \<in> S. in_strictness i = Some (rs_strictness (ca_result c)))"
    and "2 \<le> rs_strictness (ca_result c)"
    and "\<forall>i \<in> S. \<forall>n. in_strictness i = Some n \<longrightarrow> n \<le> rs_strictness (ca_result c)"
    and "rs_fail_on_p0 (ca_result c) \<longleftrightarrow> (\<exists>i \<in> S. in_fail_on_p0 i = Some True)"
    and "ca_disabled c = (\<Union>i \<in> S. set (in_disabled_rules i))"
    and "ca_repos c = (\<Union>i \<in> S. ascii_lowercase ` set (in_repos i))"
  using assms by (simp_all add: cascade_inv_def)

lemma cascade_mono:
  assumes "cascade_inv S c" and "cascade_inv S' c'" and "S \<subseteq> S'"
  shows "rs_strictness (ca_result c) \<le> rs_strictness (ca_result c')"
    and "rs_fail_on_p0 (ca_result c) \<Longrightarrow> rs_fail_on_p0 (ca_result c')"
    and "ca_disabled c \<subseteq> ca_disabled c'" and "ca_repos c \<subseteq> ca_repos c'"
proof -
  show "rs_strictness (ca_result c) \<le> rs_strictness (ca_result c')"
    using cascade_invD(1) [OF assms(1)] cascade_invD(2,3) [OF assms(2)] assms(3) by (metis subsetD)
  show "rs_fail_on_p0 (ca_result c')" if "rs_fail_on_p0 (ca_result c)"
    using that cascade_invD(4) [OF assms(1)] cascade_invD(4) [OF assms(2)] assms(3) by (metis subsetD)
  show "ca_disabled c \<subseteq> ca_disabled c'"
    unfolding cascade_invD(5) [OF assms(1)] cascade_invD(5) [OF assms(2)] by (rule UN_mono [OF assms(3) subset_refl])
  show "ca_repos c \<subseteq> ca_repos c'"
    unfolding cascade_invD(6) [OF assms(1)] cascade_invD(6) [OF assms(2)] by (rule UN_mono [OF assms(3) subset_refl])
qed

lemma decode_config_bounds:
  assumes "decode_config decode body = Inr i"
  shows "in_strictness i = Some n \<Longrightarrow> 1 \<le> n \<and> n \<le> 3"
    and "in_max_inline_comments i = Some n \<Longrightarrow> 1 \<le> n \<and> n \<le> 50"
  using assms by (auto simp: decode_config_def config_input_error_def split: if_splits sum.splits option.splits)

text \<open>
  C34: Adding configuration files never loosens what gates a review: the resolved strictness does not
  fall, a gate on P0 findings stays, and no disabled rule or context repository of the smaller
  cascade is lost; and every resolved configuration is within the documented ranges.
\<close>

theorem config_only_tightens:
  assumes "resolve_cascading_config decode target files = Inr r"
    and "resolve_cascading_config decode target files' = Inr r'" and "files \<subseteq>\<^sub>m files'"
  shows "rs_strictness r \<le> rs_strictness r' \<and> (rs_fail_on_p0 r \<longrightarrow> rs_fail_on_p0 r')
    \<and> set (rs_disabled_rules r) \<subseteq> set (rs_disabled_rules r')
    \<and> set (rs_context_repos r) \<subseteq> set (rs_context_repos r')
    \<and> 2 \<le> rs_strictness r' \<and> rs_strictness r' \<le> 3
    \<and> 1 \<le> rs_max_inline_comments r' \<and> rs_max_inline_comments r' \<le> 50
    \<and> length (rs_context_repos r') \<le> 10"
proof -
  let ?S = "applied decode files (config_candidates (clean target))"
    and ?S' = "applied decode files' (config_candidates (clean target))"
  obtain c where c: "cascade_inv ?S c" "r = (ca_result c)\<lparr>rs_disabled_rules := sorted_list_of_set (ca_disabled c),
      rs_context_repos := sorted_list_of_set (ca_repos c)\<rparr>"
    using resolve_config_ok [OF assms(1)] by blast
  obtain c' where c': "cascade_inv ?S' c'" "card (ca_repos c') \<le> 10"
      "r' = (ca_result c')\<lparr>rs_disabled_rules := sorted_list_of_set (ca_disabled c'),
        rs_context_repos := sorted_list_of_set (ca_repos c')\<rparr>"
    using resolve_config_ok [OF assms(2)] by blast
  have sub: "?S \<subseteq> ?S'" using assms(3) by (fastforce simp: applied_def map_le_def dom_def)
  have fin: "finite (ca_disabled c)" "finite (ca_repos c)" "finite (ca_disabled c')" "finite (ca_repos c')"
    using cascade_finite [OF c(1) finite_applied] cascade_finite [OF c'(1) finite_applied] by simp_all
  note mono = cascade_mono [OF c(1) c'(1) sub]
  have "rs_strictness (ca_result c') \<le> 3"
    using c'(1) decode_config_bounds(1) by (fastforce simp: cascade_inv_def applied_def)
  moreover have "1 \<le> rs_max_inline_comments (ca_result c') \<and> rs_max_inline_comments (ca_result c') \<le> 50"
    using c'(1) decode_config_bounds(2) by (fastforce simp: cascade_inv_def applied_def)
  moreover have "2 \<le> rs_strictness (ca_result c')" using c'(1) by (simp add: cascade_inv_def)
  ultimately show ?thesis using c(2) c'(2,3) fin mono by simp
qed

definition sample_input :: config_input where
  "sample_input =
     \<lparr>in_version = 1, in_strictness = Some 3, in_comment_types = None, in_disabled_rules = [''r1''],
      in_max_inline_comments = Some 5, in_fail_on_p0 = None, in_context_repos = None\<rparr>"

definition sample_decode :: "bytes \<Rightarrow> (config_input \<times> bytes) res" where
  "sample_decode body = Inr (sample_input, [])"

definition sample_config :: resolved_config where
  "sample_config =
     \<lparr>rs_sources = [''web/.px1/config.json''], rs_strictness = 3,
      rs_comment_types = [''logic'', ''security'', ''style'', ''syntax''], rs_disabled_rules = [''r1''],
      rs_max_inline_comments = 5, rs_fail_on_p0 = False, rs_context_repos = []\<rparr>"

lemma sample_candidates: "config_candidates (clean ''web/a.ts'') = [''.px1/config.json'', ''web/.px1/config.json'']"
  by code_simp

lemma sample_target: "clean ''web/a.ts'' = ''web/a.ts''" "dir ''web/a.ts'' = ''web''"
  by code_simp+

lemma sample_cascades:
  "resolve_cascading_config sample_decode ''web/a.ts'' Map.empty = Inr (ca_result start_cascade)"
  "resolve_cascading_config sample_decode ''web/a.ts'' [''web/.px1/config.json'' \<mapsto> ''{}''] = Inr sample_config"
  by (simp_all add: resolve_cascading_config_def Let_def sample_candidates [unfolded sample_target(1)] sample_target
      is_abs_def has_prefix_def config_depth_limit_def start_cascade_def decode_config_def config_file_limit_def
      sample_decode_def sample_input_def config_input_error_def nonblank_last apply_config_def in_repos_def sample_config_def)

theorem config_only_tightens_witness:
  "rs_strictness (ca_result start_cascade) \<le> rs_strictness sample_config
   \<and> set (rs_disabled_rules (ca_result start_cascade)) \<subseteq> set (rs_disabled_rules sample_config)
   \<and> rs_strictness sample_config \<le> 3"
  using config_only_tightens [OF sample_cascades] by simp

end
