(* ===== verification/Tokens.thy ===== *)
theory Tokens
  imports GoTime
begin

text \<open>
  The cache of installation tokens of \<open>internal/hosted/githubapp/client.go\<close>, under any interleaving
  of its callers. The two sections that run under the mutex are one function each; a step relation
  interleaves them with the minter, the clock and cancellation, which are not determined. A
  \<open>*mintCall\<close> is an address into the calls of the state; the closed channel is its \<open>mc_done\<close>.
\<close>

section \<open>The cache\<close>

record token =
  tk_value :: bytes
  tk_expires_at :: int

record mint_call =
  mc_done :: bool
  mc_token :: token
  mc_err :: "go_error option"

record token_cache =
  tc_tokens :: "int \<rightharpoonup> token"
  tc_inflight :: "int \<rightharpoonup> nat"
  tc_calls :: "nat \<rightharpoonup> mint_call"
  tc_next :: nat

definition no_token :: token where
  "no_token = \<lparr>tk_value = [], tk_expires_at = zero_time\<rparr>"

definition effective_skew :: "int \<Rightarrow> int" where
  "effective_skew skew = (if skew \<le> 0 then 120 * second_ns else skew)"

definition fresh_token :: "int \<Rightarrow> int \<Rightarrow> token \<Rightarrow> bool" where
  "fresh_token skew now t \<longleftrightarrow> tk_value t \<noteq> [] \<and> now + skew < tk_expires_at t"

datatype token_entry = Cached token | Join nat | Lead nat

definition cached_token :: "int \<Rightarrow> int \<Rightarrow> int \<Rightarrow> token_cache \<Rightarrow> token option" where
  "cached_token skew now installation s =
     (case tc_tokens s installation of
        Some t \<Rightarrow> if fresh_token skew now t then Some t else None
      | None \<Rightarrow> None)"

definition start_call :: "int \<Rightarrow> token_cache \<Rightarrow> token_cache" where
  "start_call installation s =
     s\<lparr>tc_inflight := (tc_inflight s)(installation \<mapsto> tc_next s),
       tc_calls := (tc_calls s)(tc_next s \<mapsto> \<lparr>mc_done = False, mc_token = no_token, mc_err = None\<rparr>),
       tc_next := Suc (tc_next s)\<rparr>"

text \<open>The first section under the lock: answer from the cache, wait for a call, or lead a new one.\<close>

definition token_enter :: "int \<Rightarrow> int \<Rightarrow> int \<Rightarrow> token_cache \<Rightarrow> token_entry \<times> token_cache" where
  "token_enter skew now installation s =
     (case cached_token skew now installation s of
        Some t \<Rightarrow> (Cached t, s)
      | None \<Rightarrow>
          (case tc_inflight s installation of
             Some c \<Rightarrow> (Join c, s)
           | None \<Rightarrow> (Lead (tc_next s), start_call installation s)))"

text \<open>What the minter returned is checked against a second reading of the clock.\<close>

definition token_check :: "int \<Rightarrow> int \<Rightarrow> token \<Rightarrow> go_error option \<Rightarrow> go_error option" where
  "token_check skew now t err =
     (if err = None \<and> \<not> fresh_token skew now t
      then Some (Msg ''github returned an empty or already-expiring installation token'') else err)"

text \<open>The second section under the lock: store the token, publish the result, end the call.\<close>

definition token_finish :: "int \<Rightarrow> nat \<Rightarrow> token \<Rightarrow> go_error option \<Rightarrow> token_cache \<Rightarrow> token_cache" where
  "token_finish installation c t err s =
     s\<lparr>tc_tokens := (if err = None then (tc_tokens s)(installation \<mapsto> t) else tc_tokens s),
       tc_calls := (tc_calls s)(c \<mapsto> \<lparr>mc_done = True, mc_token = t, mc_err = err\<rparr>),
       tc_inflight := (tc_inflight s)(installation := None)\<rparr>"

text \<open>
  A caller that runs alone: the two readings of the clock are \<open>now\<close> and \<open>later\<close>. A source without a minter
  refuses every caller. A call that nobody will end is waited for until the context is cancelled.
\<close>

definition token_alone ::
    "(int \<Rightarrow> token \<times> go_error option) option \<Rightarrow> int \<Rightarrow> int \<Rightarrow> int \<Rightarrow> int \<Rightarrow> token_cache
     \<Rightarrow> token_cache \<times> token \<times> go_error option" where
  "token_alone minter skew now later installation s =
     (case minter of
        None \<Rightarrow> (s, no_token, Some (Msg ''github app token minter is required''))
      | Some mint \<Rightarrow>
     (case token_enter (effective_skew skew) now installation s of
        (Cached t, s') \<Rightarrow> (s', t, None)
      | (Join c, s') \<Rightarrow> (s', no_token, Some (Msg ''context canceled''))
      | (Lead c, s') \<Rightarrow>
          (let (t, minted) = mint installation; err = token_check (effective_skew skew) later t minted
           in (token_finish installation c t err s', t, err))))"

section \<open>Callers that run together\<close>

datatype caller =
    Entering
  | Minting nat
  | Minted nat token "go_error option"
  | Waiting nat
  | Returned token "go_error option"

text \<open>
  The system: the cache, where each caller stands, and, as history only, which token was minted for
  which installation. Caller \<open>r\<close> asks for \<open>inst r\<close>. The source has a minter: without one \<open>Token\<close> returns
  before it touches the cache, which \<open>token_alone\<close> says.
\<close>

record token_system =
  sy_cache :: token_cache
  sy_pc :: "nat \<Rightarrow> caller"
  sy_minted :: "(int \<times> token) set"

definition token_start :: token_system where
  "token_start =
     \<lparr>sy_cache = \<lparr>tc_tokens = Map.empty, tc_inflight = Map.empty, tc_calls = Map.empty, tc_next = 0\<rparr>,
      sy_pc = (\<lambda>_. Entering), sy_minted = {}\<rparr>"

inductive token_step :: "(nat \<Rightarrow> int) \<Rightarrow> int \<Rightarrow> token_system \<Rightarrow> token_system \<Rightarrow> bool"
  for inst :: "nat \<Rightarrow> int" and skew :: int where
  cached: "sy_pc s r = Entering \<Longrightarrow> token_enter skew now (inst r) (sy_cache s) = (Cached t, k) \<Longrightarrow>
     token_step inst skew s (s\<lparr>sy_cache := k, sy_pc := (sy_pc s)(r := Returned t None)\<rparr>)"
| join: "sy_pc s r = Entering \<Longrightarrow> token_enter skew now (inst r) (sy_cache s) = (Join c, k) \<Longrightarrow>
     token_step inst skew s (s\<lparr>sy_cache := k, sy_pc := (sy_pc s)(r := Waiting c)\<rparr>)"
| lead: "sy_pc s r = Entering \<Longrightarrow> token_enter skew now (inst r) (sy_cache s) = (Lead c, k) \<Longrightarrow>
     token_step inst skew s (s\<lparr>sy_cache := k, sy_pc := (sy_pc s)(r := Minting c)\<rparr>)"
| mint: "sy_pc s r = Minting c \<Longrightarrow>
     token_step inst skew s (s\<lparr>sy_pc := (sy_pc s)(r := Minted c t (token_check skew now t err)),
       sy_minted := insert (inst r, t) (sy_minted s)\<rparr>)"
| finish: "sy_pc s r = Minted c t err \<Longrightarrow>
     token_step inst skew s (s\<lparr>sy_cache := token_finish (inst r) c t err (sy_cache s),
       sy_pc := (sy_pc s)(r := Returned t err)\<rparr>)"
| receive: "sy_pc s r = Waiting c \<Longrightarrow> tc_calls (sy_cache s) c = Some call \<Longrightarrow> mc_done call \<Longrightarrow>
     token_step inst skew s (s\<lparr>sy_pc := (sy_pc s)(r := Returned (mc_token call) (mc_err call))\<rparr>)"
| cancelled: "sy_pc s r = Waiting c \<Longrightarrow>
     token_step inst skew s (s\<lparr>sy_pc := (sy_pc s)(r := Returned no_token (Some ctx_err))\<rparr>)"

inductive token_reaches :: "(nat \<Rightarrow> int) \<Rightarrow> int \<Rightarrow> token_system \<Rightarrow> bool"
  for inst :: "nat \<Rightarrow> int" and skew :: int where
  init: "token_reaches inst skew token_start"
| more: "token_reaches inst skew s \<Longrightarrow> token_step inst skew s s' \<Longrightarrow> token_reaches inst skew s'"

section \<open>The invariant\<close>

fun leads :: "caller \<Rightarrow> nat option" where
  "leads (Minting c) = Some c"
| "leads (Minted c t err) = Some c"
| "leads _ = None"

definition good_token :: "token_system \<Rightarrow> int \<Rightarrow> token \<Rightarrow> bool" where
  "good_token s installation t \<longleftrightarrow> (installation, t) \<in> sy_minted s \<and> tk_value t \<noteq> []"

text \<open>
  A call in flight has exactly one caller that leads it, for that installation, and is not done; a
  caller waits on a call that is in flight for its own installation or is done; every token kept,
  published or returned without an error was minted for its installation.
\<close>

definition leaders_ok :: "(nat \<Rightarrow> int) \<Rightarrow> (nat \<Rightarrow> nat option) \<Rightarrow> (int \<rightharpoonup> nat) \<Rightarrow> bool" where
  "leaders_ok inst L inflight \<longleftrightarrow>
     (\<forall>r c. L r = Some c \<longrightarrow> inflight (inst r) = Some c)
   \<and> (\<forall>r q c. L r = Some c \<longrightarrow> L q = Some c \<longrightarrow> r = q)
   \<and> (\<forall>i c. inflight i = Some c \<longrightarrow> (\<exists>r. L r = Some c \<and> inst r = i))"

abbreviation leaders :: "token_system \<Rightarrow> nat \<Rightarrow> nat option" where
  "leaders s \<equiv> \<lambda>r. leads (sy_pc s r)"

definition calls_ok :: "(nat \<Rightarrow> int) \<Rightarrow> token_system \<Rightarrow> bool" where
  "calls_ok inst s \<longleftrightarrow>
     (\<forall>i c. tc_inflight (sy_cache s) i = Some c \<longrightarrow> (\<exists>call. tc_calls (sy_cache s) c = Some call \<and> \<not> mc_done call))
   \<and> (\<forall>c call. tc_calls (sy_cache s) c = Some call \<longrightarrow> c < tc_next (sy_cache s))
   \<and> (\<forall>r c. sy_pc s r = Waiting c \<longrightarrow> (\<exists>call. tc_calls (sy_cache s) c = Some call
        \<and> (if mc_done call then mc_err call = None \<longrightarrow> good_token s (inst r) (mc_token call)
           else tc_inflight (sy_cache s) (inst r) = Some c)))"

definition tokens_ok :: "(nat \<Rightarrow> int) \<Rightarrow> token_system \<Rightarrow> bool" where
  "tokens_ok inst s \<longleftrightarrow>
     (\<forall>i t. tc_tokens (sy_cache s) i = Some t \<longrightarrow> good_token s i t)
   \<and> (\<forall>r c t. sy_pc s r = Minted c t None \<longrightarrow> good_token s (inst r) t)
   \<and> (\<forall>r t. sy_pc s r = Returned t None \<longrightarrow> good_token s (inst r) t)"

lemma token_enter_cases:
  assumes "token_enter skew now i s = (e, s')"
  obtains (Cached) t where "e = Cached t" "s' = s" "tc_tokens s i = Some t" "fresh_token skew now t"
    | (Join) c where "e = Join c" "s' = s" "tc_inflight s i = Some c"
    | (Lead) "e = Lead (tc_next s)" "tc_inflight s i = None" "s' = start_call i s"
proof (cases "cached_token skew now i s")
  case (Some t)
  then show ?thesis
    using assms Cached [of t] by (auto simp: token_enter_def cached_token_def split: option.splits if_splits)
next
  case None
  show ?thesis
  proof (cases "tc_inflight s i")
    case None
    then show ?thesis using assms Lead \<open>cached_token skew now i s = None\<close> by (simp add: token_enter_def)
  next
    case (Some c)
    then show ?thesis using assms Join [of c] \<open>cached_token skew now i s = None\<close> by (simp add: token_enter_def)
  qed
qed

lemma calls_okD:
  assumes "calls_ok inst s"
  shows "tc_inflight (sy_cache s) i = Some c \<Longrightarrow> \<exists>call. tc_calls (sy_cache s) c = Some call \<and> \<not> mc_done call"
    and "tc_calls (sy_cache s) c = Some call \<Longrightarrow> c < tc_next (sy_cache s)"
    and "sy_pc s r = Waiting c \<Longrightarrow> \<exists>call. tc_calls (sy_cache s) c = Some call
      \<and> (if mc_done call then mc_err call = None \<longrightarrow> good_token s (inst r) (mc_token call)
         else tc_inflight (sy_cache s) (inst r) = Some c)"
  using assms by (simp_all add: calls_ok_def)

lemma leaders_okD:
  assumes "leaders_ok inst L I"
  shows "L r = Some c \<Longrightarrow> I (inst r) = Some c"
    and "L r = Some c \<Longrightarrow> L q = Some c \<Longrightarrow> r = q"
    and "I i = Some c \<Longrightarrow> \<exists>r. L r = Some c \<and> inst r = i"
  using assms by (simp_all add: leaders_ok_def)

lemma leaders_okI:
  assumes "\<And>r c. L r = Some c \<Longrightarrow> I (inst r) = Some c"
    and "\<And>r q c. L r = Some c \<Longrightarrow> L q = Some c \<Longrightarrow> r = q"
    and "\<And>i c. I i = Some c \<Longrightarrow> \<exists>r. L r = Some c \<and> inst r = i"
  shows "leaders_ok inst L I"
  using assms by (simp add: leaders_ok_def)

lemma leaders_lead:
  assumes ok: "leaders_ok inst L I" and none: "I (inst r) = None" and new: "\<forall>q. L q \<noteq> Some c"
  shows "leaders_ok inst (L(r := Some c)) (I(inst r \<mapsto> c))"
proof (rule leaders_okI)
  fix q d assume "(L(r := Some c)) q = Some d"
  then show "(I(inst r \<mapsto> c)) (inst q) = Some d"
    using leaders_okD(1) [OF ok, of q d] none by (auto split: if_splits)
next
  fix p q d assume "(L(r := Some c)) p = Some d" "(L(r := Some c)) q = Some d"
  then show "p = q" using leaders_okD(2) [OF ok, of p d q] new by (auto split: if_splits)
next
  fix i d assume i: "(I(inst r \<mapsto> c)) i = Some d"
  show "\<exists>q. (L(r := Some c)) q = Some d \<and> inst q = i"
  proof (cases "i = inst r")
    case True
    then show ?thesis using i by (intro exI [of _ r]) simp
  next
    case False
    then obtain q where "L q = Some d" "inst q = i" using leaders_okD(3) [OF ok, of i d] i by auto
    then show ?thesis using False by (intro exI [of _ q]) auto
  qed
qed

lemma leaders_finish:
  assumes ok: "leaders_ok inst L I" and r: "L r = Some c"
  shows "leaders_ok inst (L(r := None)) (I(inst r := None))"
proof (rule leaders_okI)
  fix q d assume q: "(L(r := None)) q = Some d"
  then have "I (inst q) = Some d" "q \<noteq> r" "L q = Some d" using leaders_okD(1) [OF ok, of q d] by (auto split: if_splits)
  moreover have "inst q \<noteq> inst r"
    using leaders_okD(1) [OF ok r] leaders_okD(2) [OF ok r, of q] calculation by auto
  ultimately show "(I(inst r := None)) (inst q) = Some d" by simp
next
  fix p q d assume "(L(r := None)) p = Some d" "(L(r := None)) q = Some d"
  then show "p = q" using leaders_okD(2) [OF ok, of p d q] by (auto split: if_splits)
next
  fix i d assume i: "(I(inst r := None)) i = Some d"
  then obtain q where "L q = Some d" "inst q = i" "i \<noteq> inst r"
    using leaders_okD(3) [OF ok, of i d] by (auto split: if_splits)
  then show "\<exists>q. (L(r := None)) q = Some d \<and> inst q = i" by (intro exI [of _ q]) auto
qed

lemma token_step_leaders:
  assumes "token_step inst skew s s'" and "leaders_ok inst (leaders s) (tc_inflight (sy_cache s))" and "calls_ok inst s"
  shows "leaders_ok inst (leaders s') (tc_inflight (sy_cache s'))"
  using assms(1)
proof cases
  case (cached r now t k)
  then have "k = sy_cache s" by (auto elim: token_enter_cases)
  moreover have "leaders s' = leaders s" using cached by (auto simp: fun_eq_iff)
  ultimately show ?thesis using assms(2) cached(1) by simp
next
  case (join r now c k)
  then have "k = sy_cache s" by (auto elim: token_enter_cases)
  moreover have "leaders s' = leaders s" using join by (auto simp: fun_eq_iff)
  ultimately show ?thesis using assms(2) join(1) by simp
next
  case (lead r now c k)
  then have k: "c = tc_next (sy_cache s)" "k = start_call (inst r) (sy_cache s)"
      and none: "tc_inflight (sy_cache s) (inst r) = None"
    by (auto elim: token_enter_cases)
  have "\<forall>q. leads (sy_pc s q) \<noteq> Some c"
    using leaders_okD(1) [OF assms(2)] calls_okD(1,2) [OF assms(3)] k(1) by (metis less_irrefl)
  moreover have "leaders s' = (leaders s)(r := Some c)" using lead(1) by (auto simp: fun_eq_iff)
  moreover have "tc_inflight (sy_cache s') = (tc_inflight (sy_cache s))(inst r \<mapsto> c)"
    using lead(1) k by (simp add: start_call_def)
  ultimately show ?thesis using leaders_lead [OF assms(2) none] by simp
next
  case (mint r c t err)
  moreover have "leaders s' = leaders s" using mint by (auto simp: fun_eq_iff)
  ultimately show ?thesis using assms(2) by simp
next
  case (finish r c t err)
  have "leaders s' = (leaders s)(r := None)" using finish(1) by (auto simp: fun_eq_iff)
  moreover have "tc_inflight (sy_cache s') = (tc_inflight (sy_cache s))(inst r := None)"
    using finish(1) by (simp add: token_finish_def)
  ultimately show ?thesis using leaders_finish [OF assms(2), of r c] finish(2) by simp
next
  case (receive r c call)
  then have "leaders s' = leaders s" by (auto simp: fun_eq_iff)
  then show ?thesis using assms(2) receive(1) by simp
next
  case (cancelled r c err)
  then have "leaders s' = leaders s" by (auto simp: fun_eq_iff)
  then show ?thesis using assms(2) cancelled(1) by simp
qed

text \<open>The calls: addresses are fresh, and what a waiter will read is right.\<close>

lemma token_step_tokens:
  assumes "token_step inst skew s s'" and "tokens_ok inst s" and "calls_ok inst s"
  shows "tokens_ok inst s'"
  using assms(1)
proof cases
  case (cached r now t k)
  then have "k = sy_cache s" "tc_tokens (sy_cache s) (inst r) = Some t" by (auto elim: token_enter_cases)
  then show ?thesis using assms(2) cached by (auto simp: tokens_ok_def good_token_def)
next
  case (join r now c k)
  then have "k = sy_cache s" by (auto elim: token_enter_cases)
  then show ?thesis using assms(2) join by (auto simp: tokens_ok_def good_token_def)
next
  case (lead r now c k)
  then have "k = start_call (inst r) (sy_cache s)" by (auto elim: token_enter_cases)
  then show ?thesis using assms(2) lead by (auto simp: tokens_ok_def good_token_def start_call_def)
next
  case (mint r c t err)
  then show ?thesis
    using assms(2) by (auto simp: tokens_ok_def good_token_def token_check_def fresh_token_def split: if_splits)
next
  case (finish r c t err)
  then show ?thesis using assms(2) by (auto simp: tokens_ok_def good_token_def token_finish_def)
next
  case (receive r c call)
  then have "mc_err call = None \<longrightarrow> good_token s (inst r) (mc_token call)"
    using calls_okD(3) [OF assms(3), of r c] by auto
  then show ?thesis using assms(2) receive by (auto simp: tokens_ok_def good_token_def)
next
  case (cancelled r c err)
  then show ?thesis using assms(2) by (auto simp: tokens_ok_def good_token_def)
qed

lemma calls_okI:
  assumes "\<And>i c. tc_inflight (sy_cache s) i = Some c \<Longrightarrow> \<exists>call. tc_calls (sy_cache s) c = Some call \<and> \<not> mc_done call"
    and "\<And>c call. tc_calls (sy_cache s) c = Some call \<Longrightarrow> c < tc_next (sy_cache s)"
    and "\<And>r c. sy_pc s r = Waiting c \<Longrightarrow> \<exists>call. tc_calls (sy_cache s) c = Some call
      \<and> (if mc_done call then mc_err call = None \<longrightarrow> good_token s (inst r) (mc_token call)
         else tc_inflight (sy_cache s) (inst r) = Some c)"
  shows "calls_ok inst s"
  using assms by (simp add: calls_ok_def)

text \<open>A step that leaves the cache alone and lets a caller wait only on a call in flight.\<close>

lemma calls_ok_same_cache:
  assumes ok: "calls_ok inst s" and cache: "sy_cache s' = sy_cache s" and minted: "sy_minted s \<subseteq> sy_minted s'"
    and pc: "\<And>r c. sy_pc s' r = Waiting c \<Longrightarrow> sy_pc s r = Waiting c \<or> tc_inflight (sy_cache s) (inst r) = Some c"
  shows "calls_ok inst s'"
proof (rule calls_okI)
  fix r c assume "sy_pc s' r = Waiting c"
  then consider "sy_pc s r = Waiting c" | "tc_inflight (sy_cache s) (inst r) = Some c" using pc by blast
  then show "\<exists>call. tc_calls (sy_cache s') c = Some call
      \<and> (if mc_done call then mc_err call = None \<longrightarrow> good_token s' (inst r) (mc_token call)
         else tc_inflight (sy_cache s') (inst r) = Some c)"
  proof cases
    case 1
    then show ?thesis using calls_okD(3) [OF ok, of r c] minted by (auto simp: cache good_token_def split: if_splits)
  next
    case 2
    then show ?thesis using calls_okD(1) [OF ok, of "inst r" c] by (auto simp: cache)
  qed
qed (use calls_okD(1,2) [OF ok] cache in auto)

lemma calls_ok_finish:
  assumes calls: "calls_ok inst s" and tokens: "tokens_ok inst s"
    and leaders: "leaders_ok inst (leaders s) (tc_inflight (sy_cache s))" and r: "sy_pc s r = Minted c t err"
  shows "calls_ok inst (s\<lparr>sy_cache := token_finish (inst r) c t err (sy_cache s), sy_pc := (sy_pc s)(r := Returned t err)\<rparr>)"
    (is "calls_ok inst ?s")
proof -
  have c: "tc_inflight (sy_cache s) (inst r) = Some c" using leaders_okD(1) [OF leaders, of r c] r by simp
  have only: "i = inst r" if i: "tc_inflight (sy_cache s) i = Some c" for i
    using leaders_okD(3) [OF leaders i] leaders_okD(2) [OF leaders, of r c] r by auto
  obtain call where call: "tc_calls (sy_cache s) c = Some call" "\<not> mc_done call"
    using calls_okD(1) [OF calls c] by blast
  show ?thesis
  proof (rule calls_okI)
    fix i d assume "tc_inflight (sy_cache ?s) i = Some d"
    then have i: "i \<noteq> inst r" "tc_inflight (sy_cache s) i = Some d" by (auto simp: token_finish_def split: if_splits)
    then have "d \<noteq> c" using only by blast
    then show "\<exists>call. tc_calls (sy_cache ?s) d = Some call \<and> \<not> mc_done call"
      using calls_okD(1) [OF calls i(2)] by (simp add: token_finish_def)
  next
    fix d e assume "tc_calls (sy_cache ?s) d = Some e"
    then show "d < tc_next (sy_cache ?s)"
      using calls_okD(2) [OF calls] call(1) by (auto simp: token_finish_def split: if_splits)
  next
    fix q d assume "sy_pc ?s q = Waiting d"
    then have q: "q \<noteq> r" "sy_pc s q = Waiting d" by (auto split: if_splits)
    show "\<exists>call. tc_calls (sy_cache ?s) d = Some call
        \<and> (if mc_done call then mc_err call = None \<longrightarrow> good_token ?s (inst q) (mc_token call)
           else tc_inflight (sy_cache ?s) (inst q) = Some d)"
    proof (cases "d = c")
      case True
      then have "tc_inflight (sy_cache s) (inst q) = Some c" using calls_okD(3) [OF calls q(2)] call by auto
      then have "inst q = inst r" by (rule only)
      then show ?thesis using True tokens r by (auto simp: token_finish_def tokens_ok_def good_token_def)
    next
      case False
      then show ?thesis
        using calls_okD(3) [OF calls q(2)] c by (fastforce simp: token_finish_def good_token_def split: if_splits)
    qed
  qed
qed

lemma calls_ok_lead:
  assumes calls: "calls_ok inst s" and none: "tc_inflight (sy_cache s) (inst r) = None"
  shows "calls_ok inst (s\<lparr>sy_cache := start_call (inst r) (sy_cache s), sy_pc := (sy_pc s)(r := Minting c)\<rparr>)"
    (is "calls_ok inst ?s")
proof (rule calls_okI)
  fix i d assume "tc_inflight (sy_cache ?s) i = Some d"
  then have i: "((tc_inflight (sy_cache s))(inst r \<mapsto> tc_next (sy_cache s))) i = Some d" by (simp add: start_call_def)
  show "\<exists>call. tc_calls (sy_cache ?s) d = Some call \<and> \<not> mc_done call"
  proof (cases "i = inst r")
    case True
    then show ?thesis using i by (simp add: start_call_def)
  next
    case False
    then have "tc_inflight (sy_cache s) i = Some d" using i by simp
    then obtain call where "tc_calls (sy_cache s) d = Some call" "\<not> mc_done call" using calls_okD(1) [OF calls] by blast
    then show ?thesis using calls_okD(2) [OF calls, of d call] by (simp add: start_call_def)
  qed
next
  fix d e assume "tc_calls (sy_cache ?s) d = Some e"
  then show "d < tc_next (sy_cache ?s)"
    using calls_okD(2) [OF calls, of d e] by (auto simp: start_call_def split: if_splits)
next
  fix q d assume "sy_pc ?s q = Waiting d"
  then have q: "sy_pc s q = Waiting d" by (auto split: if_splits)
  obtain call where call: "tc_calls (sy_cache s) d = Some call"
      "if mc_done call then mc_err call = None \<longrightarrow> good_token s (inst q) (mc_token call)
       else tc_inflight (sy_cache s) (inst q) = Some d"
    using calls_okD(3) [OF calls q] by blast
  then have "d \<noteq> tc_next (sy_cache s)" using calls_okD(2) [OF calls] by blast
  then show "\<exists>call. tc_calls (sy_cache ?s) d = Some call
      \<and> (if mc_done call then mc_err call = None \<longrightarrow> good_token ?s (inst q) (mc_token call)
         else tc_inflight (sy_cache ?s) (inst q) = Some d)"
    using call none by (auto simp: start_call_def good_token_def split: if_splits)
qed

lemma token_step_calls:
  assumes "token_step inst skew s s'" and "leaders_ok inst (leaders s) (tc_inflight (sy_cache s))"
    and "calls_ok inst s" and "tokens_ok inst s"
  shows "calls_ok inst s'"
  using assms(1)
proof cases
  case (cached r now t k)
  then have "k = sy_cache s" by (auto elim: token_enter_cases)
  then show ?thesis using cached(1) by (intro calls_ok_same_cache [OF assms(3)]) (auto split: if_splits)
next
  case (join r now c k)
  then have "k = sy_cache s" "tc_inflight (sy_cache s) (inst r) = Some c" by (auto elim: token_enter_cases)
  then show ?thesis using join(1) by (intro calls_ok_same_cache [OF assms(3)]) (auto split: if_splits)
next
  case (lead r now c k)
  then have "k = start_call (inst r) (sy_cache s)" "tc_inflight (sy_cache s) (inst r) = None"
    by (auto elim: token_enter_cases)
  then show ?thesis using calls_ok_lead [OF assms(3)] lead(1) by simp
next
  case (mint r c t err)
  then show ?thesis by (intro calls_ok_same_cache [OF assms(3)]) (auto split: if_splits)
next
  case (finish r c t err)
  then show ?thesis using calls_ok_finish [OF assms(3,4,2) finish(2)] by simp
next
  case (receive r c call)
  then show ?thesis by (intro calls_ok_same_cache [OF assms(3)]) (auto split: if_splits)
next
  case (cancelled r c err)
  then show ?thesis by (intro calls_ok_same_cache [OF assms(3)]) (auto split: if_splits)
qed

lemma token_reaches_inv:
  "token_reaches inst skew s \<Longrightarrow>
     leaders_ok inst (leaders s) (tc_inflight (sy_cache s)) \<and> calls_ok inst s \<and> tokens_ok inst s"
proof (induction rule: token_reaches.induct)
  case init
  show ?case by (simp add: leaders_ok_def calls_ok_def tokens_ok_def token_start_def)
next
  case (more s s')
  then show ?case using token_step_leaders token_step_calls token_step_tokens by blast
qed

text \<open>
  A run of a number of steps in which no caller is cancelled: one that stops waiting has received what
  the call it waited on published.
\<close>

definition uncancelled :: "token_system \<Rightarrow> token_system \<Rightarrow> bool" where
  "uncancelled s s' \<longleftrightarrow>
     (\<forall>r c. sy_pc s r = Waiting c \<longrightarrow> sy_pc s' r = Waiting c
        \<or> (\<exists>call. tc_calls (sy_cache s) c = Some call \<and> mc_done call \<and> sy_pc s' r = Returned (mc_token call) (mc_err call)))"

inductive quiet_run :: "(nat \<Rightarrow> int) \<Rightarrow> int \<Rightarrow> nat \<Rightarrow> token_system \<Rightarrow> token_system \<Rightarrow> bool"
  for inst :: "nat \<Rightarrow> int" and skew :: int where
  stop: "quiet_run inst skew 0 s s"
| go: "token_step inst skew s s' \<Longrightarrow> uncancelled s s' \<Longrightarrow> quiet_run inst skew n s' s'' \<Longrightarrow> quiet_run inst skew (Suc n) s s''"

lemma finished_call_served:
  assumes "sy_pc s r = Waiting c" and "tc_calls (sy_cache s) c = Some call" and "mc_done call"
  shows "\<exists>s'. quiet_run inst skew 1 s s' \<and> sy_pc s' r = Returned (mc_token call) (mc_err call)"
proof -
  let ?s = "s\<lparr>sy_pc := (sy_pc s)(r := Returned (mc_token call) (mc_err call))\<rparr>"
  have "uncancelled s ?s" using assms by (auto simp: uncancelled_def)
  then have "quiet_run inst skew (Suc 0) s ?s" by (rule quiet_run.go [OF token_step.receive [OF assms] _ quiet_run.stop])
  then show ?thesis by (intro exI [of _ ?s]) simp
qed

lemma minted_call_served:
  assumes "sy_pc s l = Minted c t err" and "sy_pc s r = Waiting c"
  shows "\<exists>s'. quiet_run inst skew 2 s s' \<and> sy_pc s' r = Returned t err"
proof -
  let ?s = "s\<lparr>sy_cache := token_finish (inst l) c t err (sy_cache s), sy_pc := (sy_pc s)(l := Returned t err)\<rparr>"
  have step: "token_step inst skew s ?s" by (rule token_step.finish [OF assms(1)])
  have quiet: "uncancelled s ?s" using assms by (auto simp: uncancelled_def)
  have "sy_pc ?s r = Waiting c" using assms by auto
  moreover have "tc_calls (sy_cache ?s) c = Some \<lparr>mc_done = True, mc_token = t, mc_err = err\<rparr>"
    by (simp add: token_finish_def)
  ultimately obtain s' where s': "quiet_run inst skew 1 ?s s'" "sy_pc s' r = Returned t err"
    using finished_call_served [of ?s r c _ inst skew] by fastforce
  have "quiet_run inst skew (Suc 1) s s'" by (rule quiet_run.go [OF step quiet s'(1)])
  then show ?thesis using s'(2) by (auto simp: numeral_2_eq_2)
qed

lemma minting_call_served:
  assumes "sy_pc s l = Minting c" and "sy_pc s r = Waiting c"
  shows "\<exists>s'. quiet_run inst skew 3 s s' \<and> sy_pc s' r = Returned t (token_check skew now t err)"
proof -
  let ?s = "s\<lparr>sy_pc := (sy_pc s)(l := Minted c t (token_check skew now t err)), sy_minted := insert (inst l, t) (sy_minted s)\<rparr>"
  have pc: "sy_pc ?s l = Minted c t (token_check skew now t err)" "sy_pc ?s r = Waiting c" using assms by auto
  have step: "token_step inst skew s ?s" by (rule token_step.mint [OF assms(1)])
  have quiet: "uncancelled s ?s" using assms by (auto simp: uncancelled_def)
  obtain s' where s': "quiet_run inst skew 2 ?s s'" "sy_pc s' r = Returned t (token_check skew now t err)"
    using minted_call_served [OF pc, of inst skew] by blast
  have "quiet_run inst skew (Suc 2) s s'" by (rule quiet_run.go [OF step quiet s'(1)])
  then show ?thesis using s'(2) by (auto simp: eval_nat_numeral)
qed

text \<open>
  C23: A caller that waits is never stuck: in every state the system can reach, the call it waits on
  exists; if it is done, one step without a cancellation serves the caller with its result; if not,
  another caller for the same installation leads it, and however the minter answers that leader,
  a run of at most three steps without a cancellation serves the waiting caller with that answer
  as it was checked.
\<close>

theorem waiting_caller_served:
  assumes "token_reaches inst skew s" and "sy_pc s r = Waiting c"
  shows "\<exists>call. tc_calls (sy_cache s) c = Some call \<and>
    (if mc_done call then \<exists>s'. quiet_run inst skew 1 s s' \<and> sy_pc s' r = Returned (mc_token call) (mc_err call)
     else \<exists>l. l \<noteq> r \<and> inst l = inst r \<and>
       (case sy_pc s l of
          Minting d \<Rightarrow> d = c \<and> (\<forall>t err now. \<exists>s'. quiet_run inst skew 3 s s' \<and> sy_pc s' r = Returned t (token_check skew now t err))
        | Minted d t err \<Rightarrow> d = c \<and> (\<exists>s'. quiet_run inst skew 2 s s' \<and> sy_pc s' r = Returned t err)
        | _ \<Rightarrow> False))"
proof -
  have leaders: "leaders_ok inst (leaders s) (tc_inflight (sy_cache s))" and calls: "calls_ok inst s"
    using token_reaches_inv [OF assms(1)] by blast+
  obtain call where call: "tc_calls (sy_cache s) c = Some call"
      "mc_done call \<or> tc_inflight (sy_cache s) (inst r) = Some c"
    using calls_okD(3) [OF calls assms(2)] by (auto split: if_splits)
  show ?thesis
  proof (cases "mc_done call")
    case True
    then show ?thesis using finished_call_served [OF assms(2) call(1)] call(1) by auto
  next
    case False
    then obtain l where l: "leads (sy_pc s l) = Some c" "inst l = inst r"
      using call leaders_okD(3) [OF leaders, of "inst r" c] by blast
    then have "l \<noteq> r" using assms(2) by auto
    moreover have "case sy_pc s l of
          Minting d \<Rightarrow> d = c \<and> (\<forall>t err now. \<exists>s'. quiet_run inst skew 3 s s' \<and> sy_pc s' r = Returned t (token_check skew now t err))
        | Minted d t err \<Rightarrow> d = c \<and> (\<exists>s'. quiet_run inst skew 2 s s' \<and> sy_pc s' r = Returned t err)
        | _ \<Rightarrow> False"
      using l(1) minting_call_served [OF _ assms(2)] minted_call_served [OF _ assms(2)] by (cases "sy_pc s l") auto
    ultimately show ?thesis using call(1) False l(2) by (intro exI [of _ call]) auto
  qed
qed

text \<open>
  Two callers for installation 1: the first mints \<open>t\<close>, with \<open>err\<close> from the minter, the second joins it.
\<close>

lemma joined_run:
  assumes "err' = token_check skew 0 t err"
  shows "\<exists>s. token_reaches (\<lambda>_. 1) skew s \<and> sy_pc s 0 = Returned t err' \<and> sy_pc s 1 = Returned t err'"
proof -
  let ?inst = "\<lambda>_ :: nat. 1 :: int"
  let ?k0 = "sy_cache token_start"
  let ?k1 = "start_call 1 ?k0"
  let ?s1 = "token_start\<lparr>sy_cache := ?k1, sy_pc := (sy_pc token_start)(0 := Minting 0)\<rparr>"
  let ?s2 = "?s1\<lparr>sy_cache := ?k1, sy_pc := (sy_pc ?s1)(1 := Waiting 0)\<rparr>"
  let ?s3 = "?s2\<lparr>sy_pc := (sy_pc ?s2)(0 := Minted 0 t (token_check skew 0 t err)),
    sy_minted := insert (1, t) (sy_minted ?s2)\<rparr>"
  let ?s4 = "?s3\<lparr>sy_cache := token_finish 1 0 t err' (sy_cache ?s3), sy_pc := (sy_pc ?s3)(0 := Returned t err')\<rparr>"
  let ?s5 = "?s4\<lparr>sy_pc := (sy_pc ?s4)(1 := Returned t err')\<rparr>"
  have "token_step ?inst skew token_start ?s1"
    by (rule token_step.lead [of _ _ _ 0]) (simp_all add: token_start_def token_enter_def cached_token_def start_call_def)
  with token_reaches.init have r1: "token_reaches ?inst skew ?s1" by (rule token_reaches.more)
  have "token_step ?inst skew ?s1 ?s2"
    by (rule token_step.join [of _ _ _ 0]) (simp_all add: token_start_def token_enter_def cached_token_def start_call_def)
  with r1 have r2: "token_reaches ?inst skew ?s2" by (rule token_reaches.more)
  have "token_step ?inst skew ?s2 ?s3" by (rule token_step.mint) simp
  with r2 have r3: "token_reaches ?inst skew ?s3" by (rule token_reaches.more)
  have "token_step ?inst skew ?s3 ?s4" by (rule token_step.finish) (simp add: assms)
  with r3 have r4: "token_reaches ?inst skew ?s4" by (rule token_reaches.more)
  have "token_step ?inst skew ?s4
      (?s4\<lparr>sy_pc := (sy_pc ?s4)(1 := Returned (mc_token \<lparr>mc_done = True, mc_token = t, mc_err = err'\<rparr>)
        (mc_err \<lparr>mc_done = True, mc_token = t, mc_err = err'\<rparr>))\<rparr>)"
    by (rule token_step.receive [of _ _ 0]) (simp_all add: token_finish_def)
  with r4 have "token_reaches ?inst skew ?s5" by (auto intro: token_reaches.more)
  then show ?thesis by (intro exI [of _ ?s5]) simp
qed

lemma waiting_run: "\<exists>s. token_reaches (\<lambda>_. 1) skew s \<and> sy_pc s 1 = Waiting 0 \<and> (\<forall>call. tc_calls (sy_cache s) 0 = Some call \<longrightarrow> \<not> mc_done call)
    \<and> sy_pc s 0 = Minting 0 \<and> (\<forall>l. l \<noteq> 0 \<and> l \<noteq> 1 \<longrightarrow> sy_pc s l = Entering)"
proof -
  let ?inst = "\<lambda>_ :: nat. 1 :: int"
  let ?k1 = "start_call 1 (sy_cache token_start)"
  let ?s1 = "token_start\<lparr>sy_cache := ?k1, sy_pc := (sy_pc token_start)(0 := Minting 0)\<rparr>"
  let ?s2 = "?s1\<lparr>sy_cache := ?k1, sy_pc := (sy_pc ?s1)(1 := Waiting 0)\<rparr>"
  have "token_step ?inst skew token_start ?s1"
    by (rule token_step.lead [of _ _ _ 0]) (simp_all add: token_start_def token_enter_def cached_token_def start_call_def)
  with token_reaches.init have r1: "token_reaches ?inst skew ?s1" by (rule token_reaches.more)
  have "token_step ?inst skew ?s1 ?s2"
    by (rule token_step.join [of _ _ _ 0]) (simp_all add: token_start_def token_enter_def cached_token_def start_call_def)
  with r1 have "token_reaches ?inst skew ?s2" by (rule token_reaches.more)
  then show ?thesis by (intro exI [of _ ?s2]) (simp add: token_start_def start_call_def)
qed

theorem waiting_caller_served_witness:
  "\<exists>s s'. token_reaches (\<lambda>_. 1) 5 s \<and> sy_pc s 1 = Waiting 0 \<and> quiet_run (\<lambda>_. 1) 5 3 s s'
     \<and> sy_pc s' 1 = Returned \<lparr>tk_value = ''t'', tk_expires_at = 9\<rparr> None"
proof -
  let ?t = "\<lparr>tk_value = ''t'', tk_expires_at = 9\<rparr>"
  obtain s where s: "token_reaches (\<lambda>_. 1) 5 s" "sy_pc s 1 = Waiting 0"
      "\<forall>call. tc_calls (sy_cache s) 0 = Some call \<longrightarrow> \<not> mc_done call"
      "sy_pc s 0 = Minting 0" "\<forall>l. l \<noteq> 0 \<and> l \<noteq> 1 \<longrightarrow> sy_pc s l = Entering"
    using waiting_run by blast
  obtain l where l: "l \<noteq> 1" "case sy_pc s l of
          Minting d \<Rightarrow> d = 0 \<and> (\<forall>t err now. \<exists>s'. quiet_run (\<lambda>_. 1) 5 3 s s' \<and> sy_pc s' 1 = Returned t (token_check 5 now t err))
        | Minted d t err \<Rightarrow> d = 0 \<and> (\<exists>s'. quiet_run (\<lambda>_. 1) 5 2 s s' \<and> sy_pc s' 1 = Returned t err)
        | _ \<Rightarrow> False"
    using waiting_caller_served [OF s(1,2)] s(3) by auto
  then have "l = 0" using s(5) by (cases "l = 0") auto
  then have "\<exists>s'. quiet_run (\<lambda>_. 1) 5 3 s s' \<and> sy_pc s' 1 = Returned ?t (token_check 5 0 ?t None)" using l(2) s(4) by simp
  moreover have "token_check 5 0 ?t None = None" by (simp add: token_check_def fresh_token_def)
  ultimately show ?thesis using s(1,2) by metis
qed

text \<open>
  The mint runs under the context of the caller that leads it: when that caller is cancelled, every
  caller that joined gets its error, whatever the state of its own context.
\<close>

lemma leader_error_reaches_waiters:
  "\<exists>s. token_reaches (\<lambda>_. 1) skew s \<and> sy_pc s 1 = Returned no_token (Some (Msg ''context canceled''))"
  using joined_run [of "Some (Msg ''context canceled'')" skew no_token "Some (Msg ''context canceled'')"]
  by (auto simp: token_check_def)

text \<open>
  C6: Whatever the interleaving of its callers, the token cache has at most one mint under way for an
  installation; a caller that waits can proceed, because the call it waits on is done or another
  caller for the same installation is minting; and a token returned without an error is not empty
  and was minted for the installation of the caller it is returned to.
\<close>

theorem token_cache_coalesces:
  assumes "token_reaches inst skew s"
  shows "(leads (sy_pc s r) \<noteq> None \<and> leads (sy_pc s q) \<noteq> None \<and> inst r = inst q \<longrightarrow> r = q)
    \<and> (sy_pc s r = Waiting c \<longrightarrow> (\<exists>call. tc_calls (sy_cache s) c = Some call
         \<and> (mc_done call \<or> (\<exists>l. l \<noteq> r \<and> inst l = inst r \<and> leads (sy_pc s l) = Some c))))
    \<and> (sy_pc s r = Returned t None \<longrightarrow> (inst r, t) \<in> sy_minted s \<and> tk_value t \<noteq> [])"
proof -
  have leaders: "leaders_ok inst (leaders s) (tc_inflight (sy_cache s))" and calls: "calls_ok inst s"
      and tokens: "tokens_ok inst s"
    using token_reaches_inv [OF assms] by blast+
  have "r = q" if "leads (sy_pc s r) = Some c" "leads (sy_pc s q) = Some d" "inst r = inst q" for c d
    using leaders_okD(1) [OF leaders that(1)] leaders_okD(1) [OF leaders that(2)] leaders_okD(2) [OF leaders that(1), of q] that
    by auto
  moreover have "\<exists>call. tc_calls (sy_cache s) c = Some call
      \<and> (mc_done call \<or> (\<exists>l. l \<noteq> r \<and> inst l = inst r \<and> leads (sy_pc s l) = Some c))" if w: "sy_pc s r = Waiting c"
  proof -
    obtain call where call: "tc_calls (sy_cache s) c = Some call"
        "mc_done call \<or> tc_inflight (sy_cache s) (inst r) = Some c"
      using calls_okD(3) [OF calls w] by (auto split: if_splits)
    have "l \<noteq> r" if "leads (sy_pc s l) = Some c" for l using that w by auto
    then show ?thesis using call leaders_okD(3) [OF leaders, of "inst r" c] by blast
  qed
  moreover have "(inst r, t) \<in> sy_minted s \<and> tk_value t \<noteq> []" if "sy_pc s r = Returned t None"
    using tokens that by (auto simp: tokens_ok_def good_token_def)
  ultimately show ?thesis by auto
qed

theorem token_cache_coalesces_witness:
  "\<exists>s. token_reaches (\<lambda>_. 1) 5 s \<and> sy_pc s 1 = Returned \<lparr>tk_value = ''t'', tk_expires_at = 9\<rparr> None
     \<and> (1, \<lparr>tk_value = ''t'', tk_expires_at = 9\<rparr>) \<in> sy_minted s"
proof -
  let ?t = "\<lparr>tk_value = ''t'', tk_expires_at = 9\<rparr>"
  have "None = token_check 5 0 ?t None" by (simp add: token_check_def fresh_token_def)
  then obtain s where s: "token_reaches (\<lambda>_. 1) 5 s" "sy_pc s 1 = Returned ?t None" using joined_run by blast
  then show ?thesis using token_cache_coalesces [OF s(1), of 1 1 0 ?t] by blast
qed

section \<open>A caller that runs alone\<close>

text \<open>
  With no call in flight a caller's result is fresh at one of its readings of the clock, and the next
  caller for the installation gets the same token without a mint for as long as it stays fresh.
\<close>

lemma token_alone_fresh:
  assumes "tc_inflight s = Map.empty" and "token_alone (Some mint) skew now later installation s = (s', t, None)"
  shows "tc_tokens s' installation = Some t \<and> tc_inflight s' = Map.empty
    \<and> (fresh_token (effective_skew skew) now t \<or> fresh_token (effective_skew skew) later t)"
proof (cases "token_enter (effective_skew skew) now installation s")
  case (Pair e k)
  then show ?thesis
  proof (cases rule: token_enter_cases)
    case (Cached u)
    then show ?thesis using assms Pair by (auto simp: token_alone_def)
  next
    case (Join c)
    then show ?thesis using assms(1) by simp
  next
    case Lead
    obtain u err where "mint installation = (u, err)" by fastforce
    then show ?thesis
      using assms Pair Lead
      by (auto simp: token_alone_def token_check_def token_finish_def start_call_def Let_def fun_eq_iff split: if_splits)
  qed
qed

lemma token_alone_reuses:
  assumes "tc_tokens s installation = Some t" and "fresh_token (effective_skew skew) now t"
  shows "token_alone (Some mint) skew now later installation s = (s, t, None)"
  using assms by (simp add: token_alone_def token_enter_def cached_token_def)

end
