(* ===== verification/GoHttp.thy ===== *)
theory GoHttp
  imports GoTime
begin

text \<open>
  What the HTTP clients use of Go's library: requests and responses (\<open>net/http\<close>), \<open>url.PathEscape\<close>,
  base64 in the unpadded URL alphabet (\<open>encoding/base64\<close>) and the differences of two instants.
  A header is looked up under the one spelling the code uses for it.
\<close>

section \<open>Requests and responses\<close>

text \<open>A body to send is a reader: its bytes, or the error of reading it. \<open>None\<close> is a nil body.\<close>

record api_request =
  aq_method :: bytes
  aq_url :: bytes
  aq_headers :: "bytes \<rightharpoonup> bytes"
  aq_body :: "bytes res option"

record api_response =
  ar_status :: int
  ar_headers :: "bytes \<rightharpoonup> bytes"
  ar_body :: bytes

definition header_get :: "(bytes \<rightharpoonup> bytes) \<Rightarrow> bytes \<Rightarrow> bytes" where
  "header_get h key = (case h key of None \<Rightarrow> [] | Some v \<Rightarrow> v)"

text \<open>\<open>http.NewRequestWithContext\<close> with a constant method fails only on an endpoint it cannot parse.\<close>

definition new_request :: "(bytes \<Rightarrow> go_error option) \<Rightarrow> bytes \<Rightarrow> bytes \<Rightarrow> bytes option \<Rightarrow> api_request res" where
  "new_request url_error method url body =
     (case url_error url of
        Some e \<Rightarrow> Inl e
      | None \<Rightarrow> Inr \<lparr>aq_method = method, aq_url = url, aq_headers = Map.empty, aq_body = map_option Inr body\<rparr>)"

abbreviation set_header :: "bytes \<Rightarrow> bytes \<Rightarrow> api_request \<Rightarrow> api_request" where
  "set_header key v r \<equiv> r\<lparr>aq_headers := (aq_headers r)(key \<mapsto> v)\<rparr>"

definition trim_right :: "char \<Rightarrow> bytes \<Rightarrow> bytes" where
  "trim_right c s = rev (dropWhile (\<lambda>x. x = c) (rev s))"

definition api_base :: "bytes \<Rightarrow> bytes \<Rightarrow> bytes" where
  "api_base standard given =
     (let trimmed = trim_right CHR ''/'' given in if trimmed = [] then standard else trimmed)"

definition ok_status :: "int \<Rightarrow> bool" where
  "ok_status status \<longleftrightarrow> 200 \<le> status \<and> status < 300"

text \<open>\<open>io.LimitReader\<close> over a body that is then decoded.\<close>

definition limited :: "nat \<Rightarrow> bytes \<Rightarrow> bytes" where
  "limited n body = take n body"

section \<open>Path segments\<close>

definition alnum_char :: "char \<Rightarrow> bool" where
  "alnum_char c \<longleftrightarrow> ascii_upper c \<or> ascii_lower c \<or> ascii_digit c"

definition upper_hex :: "nat \<Rightarrow> char" where
  "upper_hex n = (if n < 10 then char_of (48 + n) else char_of (55 + n))"

definition segment_char :: "char \<Rightarrow> bool" where
  "segment_char c \<longleftrightarrow> alnum_char c \<or> c \<in> set ''-_.~$&+:=@''"

definition path_escape :: "bytes \<Rightarrow> bytes" where
  "path_escape s =
     concat (map (\<lambda>c. if segment_char c then [c]
       else [CHR ''%'', upper_hex (of_char c div 16), upper_hex (of_char c mod 16)]) s)"

text \<open>
  The names of owners, repositories and users: the same loop stands in several packages. Ranging
  over runes rejects whatever is not ASCII, as ranging over bytes does.
\<close>

definition slug_char :: "char \<Rightarrow> bool" where
  "slug_char c \<longleftrightarrow> alnum_char c \<or> c = CHR ''-'' \<or> c = CHR ''_'' \<or> c = CHR ''.''"

definition slug_name :: "bytes \<Rightarrow> bool" where
  "slug_name s \<longleftrightarrow> s \<noteq> [] \<and> s \<noteq> ''.'' \<and> s \<noteq> ''..'' \<and> list_all slug_char s"

definition hex_char :: "char \<Rightarrow> bool" where
  "hex_char c \<longleftrightarrow> ascii_digit c \<or> (CHR ''a'' \<le> c \<and> c \<le> CHR ''f'') \<or> (CHR ''A'' \<le> c \<and> c \<le> CHR ''F'')"

definition hex_sha :: "bytes \<Rightarrow> bool" where
  "hex_sha s \<longleftrightarrow> length s = 40 \<and> list_all hex_char s"

text \<open>A slug is one path segment and needs no escape, so an endpoint built from slugs has the segments it spells.\<close>

lemma path_escape_slug: "slug_name s \<Longrightarrow> path_escape s = s"
proof -
  assume "slug_name s"
  then have "\<forall>c \<in> set s. segment_char c" by (auto simp: slug_name_def list_all_iff slug_char_def segment_char_def)
  then show ?thesis unfolding path_escape_def by (induction s) simp_all
qed

lemma slug_no_slash: "slug_name s \<Longrightarrow> CHR ''/'' \<notin> set s"
  by (auto simp: slug_name_def list_all_iff slug_char_def alnum_char_def ascii_upper_def ascii_lower_def
      ascii_digit_def less_eq_char_def)

lemma upper_hex_no_slash: "upper_hex n \<noteq> CHR ''/''" if "n < 16"
proof
  assume "upper_hex n = CHR ''/''"
  then have "(of_char (upper_hex n) :: nat) = 47" by simp
  then show False using that by (simp add: upper_hex_def split: if_splits)
qed

lemma path_escape_no_slash: "CHR ''/'' \<notin> set (path_escape s)"
proof -
  have "(of_char c :: nat) div 16 < 16" for c
    using nat_of_char_less_256 [of c] by (simp add: div_less_iff_less_mult)
  then have "CHR ''/'' \<noteq> upper_hex (of_char c div 16)" "CHR ''/'' \<noteq> upper_hex (of_char c mod 16)" for c
    using upper_hex_no_slash by (metis, metis mod_less_divisor zero_less_numeral)
  moreover have "\<not> segment_char CHR ''/''" by code_simp
  ultimately show ?thesis unfolding path_escape_def by (induction s) auto
qed

section \<open>Base64\<close>

definition b64_char :: "nat \<Rightarrow> char" where
  "b64_char n =
     (if n < 26 then char_of (65 + n) else if n < 52 then char_of (71 + n) else if n < 62 then char_of (n - 4)
      else if n = 62 then CHR ''-'' else CHR ''_'')"

definition b64_value :: "char \<Rightarrow> nat option" where
  "b64_value c =
     (let b = (of_char c :: nat) in
      if 65 \<le> b \<and> b \<le> 90 then Some (b - 65)
      else if 97 \<le> b \<and> b \<le> 122 then Some (b - 71)
      else if 48 \<le> b \<and> b \<le> 57 then Some (b + 4)
      else if b = 45 then Some 62 else if b = 95 then Some 63 else None)"

fun b64_encode :: "bytes \<Rightarrow> bytes" where
  "b64_encode [] = []"
| "b64_encode [a] = [b64_char (of_char a div 4), b64_char (of_char a mod 4 * 16)]"
| "b64_encode [a, b] =
     [b64_char (of_char a div 4), b64_char (of_char a mod 4 * 16 + of_char b div 16), b64_char (of_char b mod 16 * 4)]"
| "b64_encode (a # b # c # s) =
     [b64_char (of_char a div 4), b64_char (of_char a mod 4 * 16 + of_char b div 16),
      b64_char (of_char b mod 16 * 4 + of_char c div 64), b64_char (of_char c mod 64)] @ b64_encode s"

text \<open>The decoder skips carriage returns and newlines and ignores the bits a last short group leaves over.\<close>

fun b64_groups :: "bytes \<Rightarrow> bytes option" where
  "b64_groups [] = Some []"
| "b64_groups [a] = None"
| "b64_groups [a, b] =
     (case (b64_value a, b64_value b) of (Some x, Some y) \<Rightarrow> Some [char_of (x * 4 + y div 16)] | _ \<Rightarrow> None)"
| "b64_groups [a, b, c] =
     (case (b64_value a, b64_value b, b64_value c) of
        (Some x, Some y, Some z) \<Rightarrow> Some [char_of (x * 4 + y div 16), char_of (y mod 16 * 16 + z div 4)] | _ \<Rightarrow> None)"
| "b64_groups (a # b # c # d # s) =
     (case (b64_value a, b64_value b, b64_value c, b64_value d, b64_groups s) of
        (Some x, Some y, Some z, Some w, Some r) \<Rightarrow>
          Some ([char_of (x * 4 + y div 16), char_of (y mod 16 * 16 + z div 4), char_of (z mod 4 * 64 + w)] @ r)
      | _ \<Rightarrow> None)"

definition b64_decode :: "bytes \<Rightarrow> bytes option" where
  "b64_decode s = b64_groups (filter (\<lambda>c. c \<noteq> CHR 0x0D \<and> c \<noteq> CHR 0x0A) s)"

lemma b64_value_char: "n < 64 \<Longrightarrow> b64_value (b64_char n) = Some n"
  by (auto simp: b64_value_def b64_char_def Let_def)

lemma b64_alphabet: "c \<in> set (b64_encode s) \<Longrightarrow> \<exists>n. c = b64_char n"
  by (induction s rule: b64_encode.induct) auto

lemma b64_char_not: "b64_char n \<noteq> CHR ''.''" "b64_char n \<noteq> CHR 0x0D" "b64_char n \<noteq> CHR 0x0A"
proof -
  have "(of_char (b64_char n) :: nat) \<noteq> 46 \<and> (of_char (b64_char n) :: nat) \<noteq> 13 \<and> (of_char (b64_char n) :: nat) \<noteq> 10"
    by (simp add: b64_char_def) arith
  then show "b64_char n \<noteq> CHR ''.''" "b64_char n \<noteq> CHR 0x0D" "b64_char n \<noteq> CHR 0x0A" by auto
qed

lemma char_parts [simp]:
  "(of_char c :: nat) div 4 < 64" "(of_char c :: nat) div 16 < 16" "(of_char c :: nat) div 64 < 4"
  using nat_of_char_less_256 [of c] by (simp_all add: div_less_iff_less_mult)

lemma b64_joins:
  "(of_char a :: nat) mod 4 * 16 + of_char b div 16 < 64" "(of_char b :: nat) mod 16 * 4 + of_char c div 64 < 64"
  "(of_char a :: nat) mod 4 * 16 < 64" "(of_char b :: nat) mod 16 * 4 < 64"
proof -
  have "(of_char a :: nat) mod 4 < 4" "(of_char b :: nat) mod 16 < 16" by simp_all
  then show "(of_char a :: nat) mod 4 * 16 + of_char b div 16 < 64" "(of_char b :: nat) mod 16 * 4 + of_char c div 64 < 64"
    "(of_char a :: nat) mod 4 * 16 < 64" "(of_char b :: nat) mod 16 * 4 < 64"
    using char_parts(2) [of b] char_parts(3) [of c] by linarith+
qed

lemma b64_groups_encode: "b64_groups (b64_encode s) = Some s"
proof (induction s rule: b64_encode.induct)
  case (4 a b c s)
  then show ?case by (simp add: b64_value_char b64_joins)
qed (simp_all add: b64_value_char b64_joins)

lemma b64_decode_encode: "b64_decode (b64_encode s) = Some s"
proof -
  have "filter (\<lambda>c. c \<noteq> CHR 0x0D \<and> c \<noteq> CHR 0x0A) (b64_encode s) = b64_encode s"
    using b64_alphabet b64_char_not by (fastforce simp: filter_id_conv)
  then show ?thesis by (simp add: b64_decode_def b64_groups_encode)
qed

section \<open>Instants\<close>

text \<open>\<open>Time.Sub\<close> saturates; \<open>time.Unix\<close> shifts the seconds to its own epoch in 64 bits.\<close>

definition time_sub :: "int \<Rightarrow> int \<Rightarrow> int" where
  "time_sub t u = max (- (2 ^ 63)) (min (2 ^ 63 - 1) (t - u))"

definition unix_time :: "int \<Rightarrow> int" where
  "unix_time sec = (wrap64 (sec + 62135596800) - 62135596800) * second_ns"

definition unix_seconds :: "int \<Rightarrow> int" where
  "unix_seconds t = t div second_ns"

lemma unix_seconds_time: "- (2 ^ 62) \<le> sec \<Longrightarrow> sec < 2 ^ 62 \<Longrightarrow> unix_seconds (unix_time sec) = sec"
  by (simp add: unix_seconds_def unix_time_def wrap64_small second_ns_def)

end
