(* ===== verification/GithubClient.thy ===== *)
theory GithubClient
  imports Tokens GoHttp
begin

text \<open>
  The GitHub client of \<open>internal/hosted/githubapp/client.go\<close>: \<open>Client.Do\<close> with its retries and delays,
  and \<open>AppMinter\<close>, which mints installation tokens. The token source, the HTTP client, the clock and
  the sleep act on a state \<open>'s\<close>; \<open>http.ParseTime\<close>, JSON and the RSA signature are parameters.
  Durations wrap in 64 bits as Go's do.
\<close>

section \<open>Requests with retries\<close>

record 's github_client =
  gc_http :: "'s \<Rightarrow> api_request \<Rightarrow> 's \<times> api_response res"
  gc_tokens :: "('s \<Rightarrow> int \<Rightarrow> 's \<times> token res) option"
  gc_max_retries :: int
  gc_now :: "'s \<Rightarrow> int"
  gc_sleep :: "'s \<Rightarrow> int \<Rightarrow> 's \<times> go_error option"

definition backoff :: "nat \<Rightarrow> int" where
  "backoff attempt = 2 ^ (min attempt 5) * second_ns"

definition retry_delay ::
    "(bytes \<Rightarrow> int option) \<Rightarrow> int \<Rightarrow> api_response \<Rightarrow> nat \<Rightarrow> int \<times> bool" where
  "retry_delay parse_time now response attempt =
     (let status = ar_status response; get = header_get (ar_headers response) in
      if status \<noteq> 429 \<and> status \<noteq> 403 \<and> status < 500 then (0, False)
      else case (if get ''Retry-After'' = [] then None
                 else case parse_int64 (get ''Retry-After'') of
                        Some seconds \<Rightarrow> Some (max (wrap64 (seconds * second_ns)) 0)
                      | None \<Rightarrow> map_option (\<lambda>t. max (time_sub t now) 0) (parse_time (get ''Retry-After''))) of
             Some delay \<Rightarrow> (delay, True)
           | None \<Rightarrow>
          (case (if get ''X-RateLimit-Remaining'' = ''0'' then parse_int64 (get ''X-RateLimit-Reset'') else None) of
             Some epoch \<Rightarrow> (max (time_sub (unix_time epoch) now) 0, True)
           | None \<Rightarrow> if status = 429 \<or> status \<ge> 500 then (backoff attempt, True) else (0, False)))"

definition authorized :: "token \<Rightarrow> api_request \<Rightarrow> api_request" where
  "authorized t r =
     set_header ''X-GitHub-Api-Version'' ''2022-11-28''
       (set_header ''Accept'' ''application/vnd.github+json''
         (set_header ''Authorization'' (''Bearer '' @ tk_value t) r))"

definition retryable :: "api_request \<Rightarrow> bool" where
  "retryable r \<longleftrightarrow> aq_method r = ''GET'' \<or> aq_method r = ''HEAD'' \<or> aq_method r = ''OPTIONS''
     \<or> header_get (aq_headers r) ''X-GitHub-Idempotency-Key'' \<noteq> []"

text \<open>The loop over attempts; \<open>may_retry\<close> is the request's, \<open>limit\<close> the number of retries.\<close>

function do_loop ::
    "(bytes \<Rightarrow> int option) \<Rightarrow> 's github_client \<Rightarrow> ('s \<Rightarrow> int \<Rightarrow> 's \<times> token res) \<Rightarrow> int \<Rightarrow> api_request \<Rightarrow> bool
     \<Rightarrow> nat \<Rightarrow> nat \<Rightarrow> 's \<Rightarrow> 's \<times> api_response res" where
  "do_loop parse_time c tokens installation request may_retry limit attempt s =
     (case tokens s installation of
        (s1, Inl e) \<Rightarrow> (s1, Inl e)
      | (s1, Inr t) \<Rightarrow>
     (case gc_http c s1 (authorized t request) of
        (s2, Inl e) \<Rightarrow>
          if \<not> may_retry \<or> attempt \<ge> limit then (s2, Inl e)
          else (case gc_sleep c s2 (backoff attempt) of
                  (s3, Some e') \<Rightarrow> (s3, Inl e')
                | (s3, None) \<Rightarrow> do_loop parse_time c tokens installation request may_retry limit (Suc attempt) s3)
      | (s2, Inr response) \<Rightarrow>
          let (wait, is_limited) = retry_delay parse_time (gc_now c s2) response attempt in
          if \<not> is_limited \<or> \<not> may_retry \<or> attempt \<ge> limit then (s2, Inr response)
          else (case gc_sleep c s2 wait of
                  (s3, Some e') \<Rightarrow> (s3, Inl e')
                | (s3, None) \<Rightarrow> do_loop parse_time c tokens installation request may_retry limit (Suc attempt) s3)))"
  by pat_completeness auto
termination
  by (relation "measure (\<lambda>(p, c, tokens, i, r, may_retry, limit, attempt, s). limit - attempt)") auto

declare do_loop.simps [simp del]

definition read_body :: "api_request \<Rightarrow> api_request res" where
  "read_body r =
     (case aq_body r of
        Some (Inl e) \<Rightarrow> Inl (Wrapped ''read GitHub request body: %w'' [] e)
      | _ \<Rightarrow> Inr r)"

definition client_do ::
    "(bytes \<Rightarrow> int option) \<Rightarrow> 's github_client \<Rightarrow> int \<Rightarrow> api_request option \<Rightarrow> 's \<Rightarrow> 's \<times> api_response res" where
  "client_do parse_time c installation request s =
     (case request of
        None \<Rightarrow> (s, Inl (Msg ''github request is required''))
      | Some r \<Rightarrow>
     (case gc_tokens c of
        None \<Rightarrow> (s, Inl (Msg ''github installation token source is required''))
      | Some tokens \<Rightarrow>
     (case read_body r of
        Inl e \<Rightarrow> (s, Inl e)
      | Inr r' \<Rightarrow> do_loop parse_time c tokens installation r' (retryable r')
          (if gc_max_retries c \<le> 0 then 3 else nat (gc_max_retries c)) 0 s)))"

section \<open>Minting\<close>

record 's app_minter =
  am_app_id :: bytes
  am_sign :: "(bytes \<Rightarrow> bytes res) option"
  am_base_url :: bytes
  am_http :: "'s \<Rightarrow> api_request \<Rightarrow> 's \<times> api_response res"
  am_now :: "'s \<Rightarrow> int"

definition sign_app_jwt :: "(int \<Rightarrow> int \<Rightarrow> bytes \<Rightarrow> bytes) \<Rightarrow> (bytes \<Rightarrow> bytes res) \<Rightarrow> bytes \<Rightarrow> int \<Rightarrow> bytes res" where
  "sign_app_jwt claims sign app_id now =
     (let header = b64_encode ''{\"alg\":\"RS256\",\"typ\":\"JWT\"}'';
          payload = claims (unix_seconds (now - 30 * second_ns)) (unix_seconds (now + 540 * second_ns)) app_id;
          unsigned = header @ ''.'' @ b64_encode payload
      in case sign unsigned of
           Inl e \<Rightarrow> Inl (Wrapped ''sign GitHub App JWT: %w'' [] e)
         | Inr signature \<Rightarrow> Inr (unsigned @ ''.'' @ b64_encode signature))"

definition mint ::
    "(bytes \<Rightarrow> go_error option) \<Rightarrow> (int \<Rightarrow> int \<Rightarrow> bytes \<Rightarrow> bytes) \<Rightarrow> (bytes \<Rightarrow> token res) \<Rightarrow> 's app_minter
     \<Rightarrow> int \<Rightarrow> 's \<Rightarrow> 's \<times> token res" where
  "mint url_error claims decode m installation s =
     (case am_sign m of
        None \<Rightarrow> (s, Inl (Msg ''GitHub App ID, private key, and installation ID are required''))
      | Some sign \<Rightarrow>
          if am_app_id m = [] \<or> installation \<le> 0
          then (s, Inl (Msg ''GitHub App ID, private key, and installation ID are required''))
          else (case sign_app_jwt claims sign (am_app_id m) (am_now m s) of
            Inl e \<Rightarrow> (s, Inl e)
          | Inr jwt \<Rightarrow>
         (case new_request url_error ''POST''
                 (api_base ''https://api.github.com'' (am_base_url m) @ ''/app/installations/'' @ dec_int installation
                    @ ''/access_tokens'') None of
            Inl e \<Rightarrow> (s, Inl e)
          | Inr request \<Rightarrow>
         (case am_http m s (authorized \<lparr>tk_value = jwt, tk_expires_at = zero_time\<rparr> request) of
            (s', Inl e) \<Rightarrow> (s', Inl e)
          | (s', Inr response) \<Rightarrow>
              if \<not> ok_status (ar_status response)
              then (s', Inl (MsgNum ''mint GitHub installation token: status %d'' [ar_status response]))
              else (case decode (limited 1048576 (ar_body response)) of
                      Inl e \<Rightarrow> (s', Inl (Wrapped ''decode GitHub installation token: %w'' [] e))
                    | Inr t \<Rightarrow> (s', Inr t))))))"

section \<open>What is sent\<close>

text \<open>
  A world that records what is sent and slept. Answers, tokens, the clock and the context are arbitrary
  functions of how much has been sent or slept, so every run of the client is a run in some world.
\<close>

record world =
  wd_sent :: "api_request list"
  wd_slept :: "int list"

definition scripted_client ::
    "(nat \<Rightarrow> api_request \<Rightarrow> api_response res) \<Rightarrow> (nat \<Rightarrow> int \<Rightarrow> token res) \<Rightarrow> (nat \<Rightarrow> int) \<Rightarrow> (nat \<Rightarrow> go_error option)
     \<Rightarrow> int \<Rightarrow> world github_client" where
  "scripted_client answers tokens clock cancelled max_retries =
     \<lparr>gc_http = (\<lambda>w r. (w\<lparr>wd_sent := wd_sent w @ [r]\<rparr>, answers (length (wd_sent w)) r)),
      gc_tokens = Some (\<lambda>w i. (w, tokens (length (wd_sent w)) i)),
      gc_max_retries = max_retries,
      gc_now = (\<lambda>w. clock (length (wd_sent w))),
      gc_sleep = (\<lambda>w d. (w\<lparr>wd_slept := wd_slept w @ [d]\<rparr>, cancelled (length (wd_slept w))))\<rparr>"

lemma backoff_pos: "0 < backoff attempt" "backoff attempt \<le> 32 * second_ns"
proof -
  have "(2 :: int) ^ min attempt 5 \<le> 2 ^ 5" by (rule power_increasing) auto
  then show "0 < backoff attempt" "backoff attempt \<le> 32 * second_ns" by (simp_all add: backoff_def second_ns_def)
qed

lemma retry_delay_nonneg: "retry_delay parse_time now response attempt = (wait, is_limited) \<Longrightarrow> 0 \<le> wait"
  using backoff_pos [of attempt]
  by (auto simp: retry_delay_def Let_def split: if_splits option.splits)

text \<open>What a run adds to the record, from attempt \<open>attempt\<close> on.\<close>

definition run_adds :: "int \<Rightarrow> (nat \<Rightarrow> int \<Rightarrow> token res) \<Rightarrow> api_request \<Rightarrow> nat \<Rightarrow> world \<Rightarrow> world \<Rightarrow> bool" where
  "run_adds i tokens request retries w w' \<longleftrightarrow>
     (\<exists>sent slept. wd_sent w' = wd_sent w @ sent \<and> wd_slept w' = wd_slept w @ slept
        \<and> length sent \<le> Suc retries \<and> length slept \<le> retries \<and> (\<forall>d \<in> set slept. 0 \<le> d)
        \<and> (\<forall>r \<in> set sent. \<exists>n t. tokens n i = Inr t \<and> r = authorized t request))"

lemma run_adds_refl: "run_adds i tokens request n w w"
  by (auto simp: run_adds_def)

lemma run_adds_send:
  assumes "tokens k i = Inr t"
  shows "run_adds i tokens request n w (w\<lparr>wd_sent := wd_sent w @ [authorized t request]\<rparr>)"
  using assms by (auto simp: run_adds_def)

lemma run_adds_sleep:
  assumes "tokens k i = Inr t" and "0 \<le> d"
  shows "run_adds i tokens request (Suc n) w (w\<lparr>wd_sent := wd_sent w @ [authorized t request], wd_slept := wd_slept w @ [d]\<rparr>)"
  using assms by (auto simp: run_adds_def)

lemma run_adds_more:
  assumes "run_adds i tokens request n (w\<lparr>wd_sent := wd_sent w @ [authorized t request], wd_slept := wd_slept w @ [d]\<rparr>) w'"
    and "tokens k i = Inr t" and "0 \<le> d"
  shows "run_adds i tokens request (Suc n) w w'"
proof -
  obtain sent slept where "wd_sent w' = (wd_sent w @ [authorized t request]) @ sent" "wd_slept w' = (wd_slept w @ [d]) @ slept"
      "length sent \<le> Suc n" "length slept \<le> n" "\<forall>d \<in> set slept. 0 \<le> d"
      "\<forall>r \<in> set sent. \<exists>n t. tokens n i = Inr t \<and> r = authorized t request"
    using assms(1) by (auto simp: run_adds_def)
  then show ?thesis
    unfolding run_adds_def using assms(2,3)
    by (intro exI [of _ "authorized t request # sent"] exI [of _ "d # slept"]) auto
qed

lemma do_loop_cases:
  fixes answers tokens clock cancelled max_retries
  defines "c \<equiv> scripted_client answers tokens clock cancelled max_retries"
  assumes "do_loop parse_time c (the (gc_tokens c)) i request may_retry limit attempt w = (w', r)"
  obtains (no_token) "w' = w"
    | (answered) k t where "tokens k i = Inr t" "w' = w\<lparr>wd_sent := wd_sent w @ [authorized t request]\<rparr>"
    | (stopped) k t d where "tokens k i = Inr t" "0 \<le> d" "may_retry" "attempt < limit"
        "w' = w\<lparr>wd_sent := wd_sent w @ [authorized t request], wd_slept := wd_slept w @ [d]\<rparr>"
    | (again) k t d where "tokens k i = Inr t" "0 \<le> d" "may_retry" "attempt < limit"
        "do_loop parse_time c (the (gc_tokens c)) i request may_retry limit (Suc attempt)
           (w\<lparr>wd_sent := wd_sent w @ [authorized t request], wd_slept := wd_slept w @ [d]\<rparr>) = (w', r)"
proof (cases "tokens (length (wd_sent w)) i")
  case (Inl e)
  then show ?thesis using assms no_token by (subst (asm) do_loop.simps) (simp add: scripted_client_def)
next
  case t: (Inr t)
  let ?w = "w\<lparr>wd_sent := wd_sent w @ [authorized t request]\<rparr>"
  let ?more = "\<lambda>d. (case cancelled (length (wd_slept w)) of
      Some e \<Rightarrow> (?w\<lparr>wd_slept := wd_slept w @ [d]\<rparr>, Inl e)
    | None \<Rightarrow> do_loop parse_time c (the (gc_tokens c)) i request may_retry limit (Suc attempt) (?w\<lparr>wd_slept := wd_slept w @ [d]\<rparr>))"
  have sleep: thesis if "0 \<le> d" "may_retry" "attempt < limit" "?more d = (w', r)" for d
    using that stopped [OF t, of d] again [OF t, of d] by (auto split: option.splits)
  show ?thesis
  proof (cases "answers (length (wd_sent w)) (authorized t request)")
    case (Inl e)
    show ?thesis
    proof (cases "\<not> may_retry \<or> attempt \<ge> limit")
      case True
      then show ?thesis using assms(2) t Inl answered [OF t]
        by (subst (asm) do_loop.simps) (simp add: c_def scripted_client_def)
    next
      case False
      then have "?more (backoff attempt) = (w', r)"
        using assms(2) t Inl by (subst (asm) (1) do_loop.simps) (simp add: c_def scripted_client_def split: option.splits)
      then show ?thesis using False backoff_pos(1) [of attempt] by (intro sleep) auto
    qed
  next
    case (Inr response)
    obtain wait is_limited where d: "retry_delay parse_time (clock (Suc (length (wd_sent w)))) response attempt = (wait, is_limited)"
      by fastforce
    show ?thesis
    proof (cases "\<not> is_limited \<or> \<not> may_retry \<or> attempt \<ge> limit")
      case True
      then show ?thesis using assms(2) t Inr d answered [OF t]
        by (subst (asm) do_loop.simps) (auto simp: c_def scripted_client_def Let_def)
    next
      case False
      then have "?more wait = (w', r)"
        using assms(2) t Inr d
        by (subst (asm) (1) do_loop.simps) (simp add: c_def scripted_client_def Let_def split: option.splits)
      then show ?thesis using False retry_delay_nonneg [OF d] by (intro sleep) auto
    qed
  qed
qed

lemma do_loop_adds:
  fixes answers tokens clock cancelled max_retries
  defines "c \<equiv> scripted_client answers tokens clock cancelled max_retries"
  assumes "do_loop parse_time c (the (gc_tokens c)) i request may_retry limit attempt w = (w', r)"
  shows "run_adds i tokens request (if may_retry then limit - attempt else 0) w w'"
  using assms(2)
proof (induction "limit - attempt" arbitrary: attempt w)
  note run = do_loop_cases [of parse_time answers tokens clock cancelled max_retries, folded c_def]
  {
    case 0
    from run [OF 0(2)] show ?case
      using 0(1) by cases (auto intro: run_adds_refl run_adds_send)
  next
    case (Suc n)
    have left: "n = limit - Suc attempt" "limit - attempt = Suc n" using Suc.hyps(2) by auto
    from run [OF Suc.prems] show ?case
    proof cases
      case (4 k t d)
      then show ?thesis using Suc.hyps(1) [OF left(1) 4(5)] left by (auto intro: run_adds_more)
    qed (use left in \<open>auto intro: run_adds_refl run_adds_send run_adds_sleep\<close>)
  }
qed

text \<open>
  C13: A call of the client sends at most one request more than its retries, and a request that may not
  be repeated (not GET, HEAD or OPTIONS, no idempotency key) is sent at most once; each is the caller's
  request with the token of the caller's installation and nothing else changed but its headers; and it
  never sleeps for a negative time.
\<close>

theorem client_do_bounded:
  "\<exists>sent slept. wd_sent (fst (client_do parse_time (scripted_client answers tokens clock cancelled max_retries) i request w))
       = wd_sent w @ sent
     \<and> wd_slept (fst (client_do parse_time (scripted_client answers tokens clock cancelled max_retries) i request w))
       = wd_slept w @ slept
     \<and> length sent \<le> (if max_retries \<le> 0 then 4 else Suc (nat max_retries)) \<and> list_all (\<lambda>d. 0 \<le> d) slept
     \<and> (if retryable (the request) then True else length sent \<le> 1 \<and> slept = [])
     \<and> list_all (\<lambda>r. \<exists>n t. tokens n i = Inr t \<and> r = authorized t (the request)) sent"
  (is "\<exists>sent slept. wd_sent (fst ?out) = _ \<and> _")
proof -
  let ?c = "scripted_client answers tokens clock cancelled max_retries"
  consider "fst ?out = w" | req where "request = Some req" "read_body req = Inr req"
      "?out = do_loop parse_time ?c (the (gc_tokens ?c)) i req (retryable req) (if max_retries \<le> 0 then 3 else nat max_retries) 0 w"
  proof (cases request)
    case None
    then show ?thesis using that(1) by (simp add: client_do_def)
  next
    case (Some req)
    show ?thesis
    proof (cases "read_body req")
      case (Inl e)
      then show ?thesis using that(1) Some by (simp add: client_do_def scripted_client_def)
    next
      case (Inr req')
      then have "req' = req" by (auto simp: read_body_def split: option.splits sum.splits)
      then show ?thesis using that(2) [of req] Some Inr by (simp add: client_do_def scripted_client_def)
    qed
  qed
  then show ?thesis
  proof cases
    case 1
    then show ?thesis by (intro exI [of _ "[]"]) simp
  next
    case (2 req)
    obtain w' r where out: "?out = (w', r)" by fastforce
    have "run_adds i tokens req (if retryable req then (if max_retries \<le> 0 then 3 else nat max_retries) - 0 else 0) w w'"
      by (rule do_loop_adds [where parse_time = parse_time and r = r and attempt = 0]) (use 2(3) out in simp)
    then obtain sent slept where *: "wd_sent w' = wd_sent w @ sent" "wd_slept w' = wd_slept w @ slept"
        "length sent \<le> Suc (if retryable req then (if max_retries \<le> 0 then 3 else nat max_retries) else 0)"
        "length slept \<le> (if retryable req then (if max_retries \<le> 0 then 3 else nat max_retries) else 0)"
        "\<forall>d \<in> set slept. 0 \<le> d" "\<forall>r \<in> set sent. \<exists>n t. tokens n i = Inr t \<and> r = authorized t req"
      unfolding run_adds_def diff_zero by auto
    have "length sent \<le> (if max_retries \<le> 0 then 4 else Suc (nat max_retries))"
      using *(3) by (auto split: if_splits)
    moreover have "if retryable req then True else length sent \<le> 1 \<and> slept = []" using *(3,4) by (auto split: if_splits)
    ultimately show ?thesis
      using * 2(1) out by (intro exI [of _ sent] exI [of _ slept]) (simp add: list_all_iff)
  qed
qed

text \<open>
  The conversion of \<open>Retry-After\<close> wraps: a server that asks for a wait of 10000000000 seconds is asked
  again at once.
\<close>

lemma retry_after_overflow:
  "retry_delay parse_time now \<lparr>ar_status = 429, ar_headers = [''Retry-After'' \<mapsto> ''10000000000''], ar_body = []\<rparr> attempt
   = (0, True)"
proof -
  have "parse_int64 ''10000000000'' = Some 10000000000" by code_simp
  then show ?thesis by (simp add: retry_delay_def header_get_def wrap64_def second_ns_def)
qed

end
