(* ===== verification/Commands.thy ===== *)
theory Commands
  imports Learning GoPath GoHttp
begin

text \<open>
  Commands in comments and the reactions to them: \<open>internal/hosted/githubapp/commands.go\<close>,
  \<open>remember.go\<close>, \<open>forget.go\<close> and \<open>reactions.go\<close>. The GitHub client is an operation on a state \<open>'s\<close>; JSON,
  \<open>url.Parse\<close>, the Unicode tables and the stores are parameters.
\<close>

type_synonym 's api_client = "'s \<Rightarrow> int \<Rightarrow> api_request \<Rightarrow> 's \<times> api_response res"

section \<open>Parsing a command\<close>

record command =
  cm_name :: bytes
  cm_path :: bytes
  cm_text :: bytes
  cm_memory_id :: bytes

abbreviation named_command :: "bytes \<Rightarrow> command" where
  "named_command name \<equiv> \<lparr>cm_name = name, cm_path = [], cm_text = [], cm_memory_id = []\<rparr>"

text \<open>\<open>strings.Fields\<close>: the pieces between white space. No white space stands inside another rune.\<close>

function fields_from :: "bytes \<Rightarrow> bytes \<Rightarrow> bytes list" where
  "fields_from cur s =
     (if s = [] then (if cur = [] then [] else [cur])
      else if strip_width space_encodings s > 0
      then (if cur = [] then [] else [cur]) @ fields_from [] (drop (strip_width space_encodings s) s)
      else fields_from (cur @ [hd s]) (tl s))"
  by pat_completeness auto
termination by (relation "measure (\<lambda>(cur, s). length s)") auto

declare fields_from.simps [simp del]

definition space_fields :: "bytes \<Rightarrow> bytes list" where
  "space_fields s = fields_from [] s"

definition first_line :: "bytes \<Rightarrow> bytes" where
  "first_line body =
     (case find (\<lambda>l. \<not> blank l) (split_on (CHR 0x0A) body) of None \<Rightarrow> [] | Some l \<Rightarrow> trim_space l)"

definition valid_memory_id :: "bytes \<Rightarrow> bool" where
  "valid_memory_id value \<longleftrightarrow> length value = 36
     \<and> (\<forall>i < 36. if i \<in> {8, 13, 18, 23} then value ! i = CHR ''-'' else hex_char (value ! i))"

definition valid_command_path :: "bytes \<Rightarrow> bool" where
  "valid_command_path value \<longleftrightarrow>
     (let cleaned = clean value in
      value \<noteq> [] \<and> \<not> is_abs value \<and> cleaned \<noteq> ''.'' \<and> cleaned \<noteq> ''..'' \<and> \<not> has_prefix ''../'' cleaned)"

definition parse_command :: "unicode \<Rightarrow> bytes \<Rightarrow> command option" where
  "parse_command u body =
     (let fields = space_fields (first_line body) in
      if length fields < 2 \<or> ascii_lowercase (fields ! 0) \<noteq> ''@px1'' then None
      else let verb = to_lower u (fields ! 1) in
        if verb = ''review'' \<or> verb = ''ignore'' \<or> verb = ''why''
        then (if length fields \<noteq> 2 then None else Some (named_command verb))
        else if verb = ''explain''
        then (if length fields \<noteq> 3 \<or> \<not> valid_command_path (fields ! 2) then None
              else Some ((named_command ''explain'')\<lparr>cm_path := clean (fields ! 2)\<rparr>))
        else if verb = ''remember''
        then (if length fields < 3 then None
              else let text = trim_space (join_with '' '' (drop 2 fields)) in
                if text = [] \<or> length text > 2000 then None
                else Some ((named_command ''remember'')\<lparr>cm_text := text\<rparr>))
        else if verb = ''forget''
        then (if length fields \<noteq> 3 \<or> \<not> valid_memory_id (fields ! 2) then None
              else Some ((named_command ''forget'')\<lparr>cm_memory_id := to_lower u (fields ! 2)\<rparr>))
        else None)"

section \<open>Authorising it\<close>

record 's command_authorizer =
  cz_client :: "'s api_client option"
  cz_base_url :: bytes

definition permission_endpoint :: "bytes \<Rightarrow> bytes \<Rightarrow> bytes \<Rightarrow> bytes \<Rightarrow> bytes" where
  "permission_endpoint base_url owner repo actor =
     api_base ''https://api.github.com'' base_url @ ''/repos/'' @ path_escape owner @ ''/'' @ path_escape repo
       @ ''/collaborators/'' @ path_escape actor @ ''/permission''"

definition write_permissions :: "bytes set" where
  "write_permissions = {''write'', ''maintain'', ''admin''}"

definition authorize_command ::
    "unicode \<Rightarrow> (bytes \<Rightarrow> go_error option) \<Rightarrow> (bytes \<Rightarrow> bytes res) \<Rightarrow> 's command_authorizer \<Rightarrow> int \<Rightarrow> bytes \<Rightarrow> bytes
     \<Rightarrow> bytes \<Rightarrow> bytes \<Rightarrow> 's \<Rightarrow> 's \<times> command res" where
  "authorize_command u url_error decode a installation owner repo actor body s =
     (case parse_command u body of
        None \<Rightarrow> (s, Inl (Msg ''comment does not contain a supported px1 command''))
      | Some command \<Rightarrow>
     (case cz_client a of
        None \<Rightarrow> (s, Inl (Msg ''GitHub client and valid command identity are required''))
      | Some api \<Rightarrow>
          if installation \<le> 0 \<or> \<not> slug_name owner \<or> \<not> slug_name repo \<or> \<not> slug_name actor
          then (s, Inl (Msg ''GitHub client and valid command identity are required''))
          else (case new_request url_error ''GET'' (permission_endpoint (cz_base_url a) owner repo actor) None of
             Inl e \<Rightarrow> (s, Inl e)
           | Inr request \<Rightarrow>
          (case api s installation request of
             (s', Inl e) \<Rightarrow> (s', Inl (Wrapped ''check command permission: %w'' [] e))
           | (s', Inr response) \<Rightarrow>
               if ar_status response \<noteq> 200
               then (s', Inl (MsgNum ''check command permission: status %d'' [ar_status response]))
               else (case decode (limited 1048576 (ar_body response)) of
                       Inl e \<Rightarrow> (s', Inl (Wrapped ''decode command permission: %w'' [] e))
                     | Inr permission \<Rightarrow>
                         if permission \<notin> write_permissions
                         then (s', Inl (Msg ''commenter does not have repository write access''))
                         else (s', Inr command))))))"

text \<open>What a parsed command can be: its path stays in the repository, its text and id are bounded.\<close>

lemma parse_command_cases:
  assumes "parse_command u body = Some c"
  shows "(cm_name c = ''review'' \<or> cm_name c = ''ignore'' \<or> cm_name c = ''why'')
    \<or> (cm_name c = ''explain'' \<and> (\<exists>p. cm_path c = clean p \<and> valid_command_path p))
    \<or> (cm_name c = ''remember'' \<and> cm_text c \<noteq> [] \<and> length (cm_text c) \<le> 2000)
    \<or> (cm_name c = ''forget'' \<and> (\<exists>i. cm_memory_id c = to_lower u i \<and> valid_memory_id i))"
  using assms by (auto simp: parse_command_def Let_def split: if_splits)

lemma valid_command_path_inside:
  "valid_command_path p \<Longrightarrow> ''..'' \<notin> set (split_on CHR ''/'' (clean p)) \<and> \<not> is_abs (clean p)"
  by (rule inside_repo_no_dotdot) (auto simp: valid_command_path_def Let_def outside_repo_def)

text \<open>
  C19: A command is accepted only when the comment parses as one and GitHub answered 200, to a request
  for the permission of exactly this commenter on exactly this repository, with write, maintain or
  admin access; and the path of an accepted \<open>explain\<close> cannot leave the repository.
\<close>

theorem command_needs_write_access:
  assumes "authorize_command u url_error decode a installation owner repo actor body s = (s', Inr c)"
  shows "parse_command u body = Some c \<and> 0 < installation
    \<and> (\<exists>api request response permission. cz_client a = Some api \<and> aq_method request = ''GET''
         \<and> aq_url request = api_base ''https://api.github.com'' (cz_base_url a) @ ''/repos/'' @ owner @ ''/'' @ repo
              @ ''/collaborators/'' @ actor @ ''/permission''
         \<and> CHR ''/'' \<notin> set owner \<union> set repo \<union> set actor
         \<and> api s installation request = (s', Inr response) \<and> ar_status response = 200
         \<and> decode (take 1048576 (ar_body response)) = Inr permission
         \<and> (permission = ''write'' \<or> permission = ''maintain'' \<or> permission = ''admin''))
    \<and> (cm_name c = ''explain'' \<longrightarrow> ''..'' \<notin> set (split_on CHR ''/'' (cm_path c)) \<and> \<not> is_abs (cm_path c))"
proof -
  obtain api request response permission where
      parsed: "parse_command u body = Some c" and api: "cz_client a = Some api"
      and slugs: "0 < installation" "slug_name owner" "slug_name repo" "slug_name actor"
      and request: "new_request url_error ''GET'' (permission_endpoint (cz_base_url a) owner repo actor) None = Inr request"
      and answer: "api s installation request = (s', Inr response)" "ar_status response = 200"
        "decode (take 1048576 (ar_body response)) = Inr permission" "permission \<in> write_permissions"
    using assms
    by (auto simp: authorize_command_def limited_def split: option.splits sum.splits if_splits prod.splits)
  have "aq_method request = ''GET''" "aq_url request = permission_endpoint (cz_base_url a) owner repo actor"
    using request by (auto simp: new_request_def split: option.splits)
  moreover have "''..'' \<notin> set (split_on CHR ''/'' (cm_path c)) \<and> \<not> is_abs (cm_path c)" if "cm_name c = ''explain''"
    using parse_command_cases [OF parsed] that valid_command_path_inside by fastforce
  ultimately show ?thesis
    using parsed api slugs answer slug_no_slash
    by (auto simp: permission_endpoint_def path_escape_slug write_permissions_def)
qed

lemma sample_command: "parse_command ascii_tables ''@px1 why'' = Some (named_command ''why'')"
proof -
  have "space_fields (first_line ''@px1 why'') = [''@px1'', ''why'']" by code_simp
  moreover have "map char_of [119, 104, 121 :: nat] = ''why''" by code_simp
  then have "to_lower ascii_tables ''why'' = ''why''"
    by (simp add: to_lower_def runes_ascii ascii_tables_def encode_rune_def)
  moreover have "ascii_lowercase ''@px1'' = ''@px1''" by code_simp
  ultimately show ?thesis by (simp add: parse_command_def)
qed

theorem command_needs_write_access_witness:
  "parse_command ascii_tables ''@px1 why'' = Some (named_command ''why'')
   \<and> (\<exists>request :: api_request. aq_url request = ''https://api.github.com/repos/o/r/collaborators/a/permission'')"
proof -
  let ?api = "\<lambda>(s :: unit) (i :: int) (r :: api_request).
    (s, Inr \<lparr>ar_status = 200, ar_headers = Map.empty, ar_body = ''admin''\<rparr> :: api_response res)"
  have "slug_name ''o''" "slug_name ''r''" "slug_name ''a''" by code_simp+
  then have "authorize_command ascii_tables (\<lambda>_. None) (\<lambda>b. Inr b) \<lparr>cz_client = Some ?api, cz_base_url = []\<rparr> 1 ''o'' ''r'' ''a''
      ''@px1 why'' () = ((), Inr (named_command ''why''))"
    by (simp add: authorize_command_def sample_command new_request_def limited_def write_permissions_def)
  from command_needs_write_access [OF this] show ?thesis
    by (auto simp: api_base_def trim_right_def)
qed

section \<open>Remember and forget\<close>

record explicit_memory =
  em_installation_id :: int
  em_repository_id :: int
  em_finding_id :: bytes
  em_thread_id :: bytes
  em_actor_id :: int
  em_text :: bytes
  em_evidence_url :: bytes
  em_created_at :: int

type_synonym 's memory_writer = "'s \<Rightarrow> explicit_memory \<Rightarrow> 's \<times> go_error option"
type_synonym 's memory_deleter = "'s \<Rightarrow> int \<Rightarrow> int \<Rightarrow> bytes \<Rightarrow> int \<Rightarrow> 's \<times> bool res"

definition handle_remember ::
    "(bytes \<Rightarrow> parsed_link res) \<Rightarrow> 's memory_writer option \<Rightarrow> int \<Rightarrow> command \<Rightarrow> explicit_memory \<Rightarrow> 's \<Rightarrow> 's \<times> go_error option" where
  "handle_remember parse store now c m s =
     (case store of
        None \<Rightarrow> (s, Some (Msg ''authorized remember command and memory store are required''))
      | Some write \<Rightarrow>
          if cm_name c \<noteq> ''remember'' \<or> blank (cm_text c)
          then (s, Some (Msg ''authorized remember command and memory store are required''))
          else if em_installation_id m \<le> 0 \<or> em_repository_id m \<le> 0 \<or> em_finding_id m = [] \<or> em_thread_id m = []
            \<or> em_actor_id m \<le> 0 \<or> em_evidence_url m = []
          then (s, Some (Msg ''remember requires tenant-scoped thread evidence''))
          else if (case parse (em_evidence_url m) of
                     Inl e \<Rightarrow> True
                   | Inr l \<Rightarrow> li_scheme l \<noteq> ''https'' \<or> \<not> equal_fold_host (li_host l) ''github.com'')
          then (s, Some (Msg ''remember evidence must be an HTTPS GitHub URL''))
          else write s (m\<lparr>em_text := cm_text c, em_created_at := now\<rparr>))"

definition handle_forget ::
    "'s memory_deleter option \<Rightarrow> command \<Rightarrow> int \<Rightarrow> int \<Rightarrow> int \<Rightarrow> 's \<Rightarrow> 's \<times> bool res" where
  "handle_forget store c installation repository actor s =
     (case store of
        None \<Rightarrow> (s, Inl (Msg ''authorized forget command and tenant-scoped memory are required''))
      | Some delete \<Rightarrow>
          if cm_name c \<noteq> ''forget'' \<or> \<not> valid_memory_id (cm_memory_id c) \<or> installation \<le> 0 \<or> repository \<le> 0 \<or> actor \<le> 0
          then (s, Inl (Msg ''authorized forget command and tenant-scoped memory are required''))
          else delete s installation repository (cm_memory_id c) actor)"

section \<open>Reactions\<close>

definition reaction_poll_interval :: int where "reaction_poll_interval = 900 * second_ns"

definition reaction_poll_window :: int where "reaction_poll_window = 14 * day_ns"

definition max_reaction_pages :: nat where "max_reaction_pages = 10"

record reaction_comment =
  rn_installation_id :: int
  rn_repository_id :: int
  rn_owner :: bytes
  rn_repository :: bytes
  rn_comment_id :: int
  rn_review_created_at :: int

record reaction_feedback =
  rf_reaction_id :: int
  rf_actor_id :: int
  rf_kind :: bytes
  rf_occurred_at :: int

record api_reaction =
  ax_id :: int
  ax_content :: bytes
  ax_created_at :: int
  ax_user_id :: int

record 's reaction_store =
  ro_due :: "'s \<Rightarrow> int \<Rightarrow> 's \<times> reaction_comment list res"
  ro_save :: "'s \<Rightarrow> reaction_comment \<Rightarrow> reaction_feedback list \<Rightarrow> int \<Rightarrow> bool \<Rightarrow> 's \<times> go_error option"

record 's reaction_poller =
  rp_client :: "'s api_client option"
  rp_store :: "'s reaction_store option"
  rp_base_url :: bytes

definition validate_reaction_comment :: "reaction_comment \<Rightarrow> go_error option" where
  "validate_reaction_comment c =
     (if rn_installation_id c \<le> 0 \<or> rn_repository_id c \<le> 0 \<or> rn_comment_id c \<le> 0 \<or> \<not> slug_name (rn_owner c)
        \<or> \<not> slug_name (rn_repository c) \<or> rn_review_created_at c = zero_time
      then Some (Msg ''reaction comment requires tenant, repository, comment, and review time'')
      else None)"

definition reaction_kind :: "bytes \<Rightarrow> bytes" where
  "reaction_kind content =
     (if content = ''-1'' then ''thumbs_down'' else if content = ''+1'' then ''thumbs_up'' else [])"

definition collect_reactions :: "api_reaction list \<Rightarrow> reaction_feedback list" where
  "collect_reactions rs =
     [\<lparr>rf_reaction_id = ax_id r, rf_actor_id = ax_user_id r, rf_kind = reaction_kind (ax_content r),
       rf_occurred_at = ax_created_at r\<rparr>.
      r \<leftarrow> rs, reaction_kind (ax_content r) \<noteq> [] \<and> ax_id r > 0 \<and> ax_user_id r > 0 \<and> ax_created_at r \<noteq> zero_time]"

definition reactions_endpoint :: "bytes \<Rightarrow> reaction_comment \<Rightarrow> nat \<Rightarrow> bytes" where
  "reactions_endpoint base_url c page =
     api_base ''https://api.github.com'' base_url @ ''/repos/'' @ path_escape (rn_owner c) @ ''/''
       @ path_escape (rn_repository c) @ ''/pulls/comments/'' @ dec_int (rn_comment_id c)
       @ ''/reactions?per_page=100&page='' @ dec_nat page"

text \<open>The loop over the pages still allowed.\<close>

fun fetch_pages ::
    "(bytes \<Rightarrow> go_error option) \<Rightarrow> (bytes \<Rightarrow> api_reaction list res) \<Rightarrow> 's api_client \<Rightarrow> bytes \<Rightarrow> reaction_comment
     \<Rightarrow> reaction_feedback list \<Rightarrow> nat list \<Rightarrow> 's \<Rightarrow> 's \<times> reaction_feedback list res" where
  "fetch_pages url_error decode api base_url c feedback [] s = (s, Inr feedback)"
| "fetch_pages url_error decode api base_url c feedback (page # pages) s =
     (case new_request url_error ''GET'' (reactions_endpoint base_url c page) None of
        Inl e \<Rightarrow> (s, Inl e)
      | Inr request \<Rightarrow>
     (case api s (rn_installation_id c) request of
        (s', Inl e) \<Rightarrow> (s', Inl (Wrapped ''list GitHub reactions: %w'' [] e))
      | (s', Inr response) \<Rightarrow>
          if \<not> ok_status (ar_status response)
          then (s', Inl (MsgNum ''list GitHub reactions: status %d'' [ar_status response]))
          else (case decode (limited 2097152 (ar_body response)) of
             Inl e \<Rightarrow> (s', Inl (Wrapped ''decode GitHub reactions: %w'' [] e))
           | Inr reactions \<Rightarrow>
               if length reactions < 100 then (s', Inr (feedback @ collect_reactions reactions))
               else if page = max_reaction_pages
               then (s', Inl (Msg ''GitHub reaction result exceeded bounded page limit''))
               else fetch_pages url_error decode api base_url c (feedback @ collect_reactions reactions) pages s')))"

definition fetch_reactions ::
    "(bytes \<Rightarrow> go_error option) \<Rightarrow> (bytes \<Rightarrow> api_reaction list res) \<Rightarrow> 's api_client \<Rightarrow> bytes \<Rightarrow> reaction_comment
     \<Rightarrow> 's \<Rightarrow> 's \<times> reaction_feedback list res" where
  "fetch_reactions url_error decode api base_url c s =
     fetch_pages url_error decode api base_url c [] [1..<Suc max_reaction_pages] s"

fun poll_comments ::
    "(bytes \<Rightarrow> go_error option) \<Rightarrow> (bytes \<Rightarrow> api_reaction list res) \<Rightarrow> 's api_client \<Rightarrow> 's reaction_store \<Rightarrow> bytes
     \<Rightarrow> int \<Rightarrow> reaction_comment list \<Rightarrow> 's \<Rightarrow> 's \<times> go_error option" where
  "poll_comments url_error decode api store base_url now [] s = (s, None)"
| "poll_comments url_error decode api store base_url now (c # cs) s =
     (case validate_reaction_comment c of
        Some e \<Rightarrow> (s, Some e)
      | None \<Rightarrow>
          let expires = rn_review_created_at c + reaction_poll_window in
          if \<not> now < expires
          then (case ro_save store s c [] zero_time True of
                  (s', Some e) \<Rightarrow> (s', Some e)
                | (s', None) \<Rightarrow> poll_comments url_error decode api store base_url now cs s')
          else (case fetch_reactions url_error decode api base_url c s of
                  (s', Inl e) \<Rightarrow> (s', Some e)
                | (s', Inr feedback) \<Rightarrow>
                    let next = (if now + reaction_poll_interval > expires then expires else now + reaction_poll_interval) in
                    (case ro_save store s' c feedback next False of
                       (s'', Some e) \<Rightarrow> (s'', Some (Wrapped ''save reaction poll: %w'' [] e))
                     | (s'', None) \<Rightarrow> poll_comments url_error decode api store base_url now cs s'')))"

definition poll_reactions ::
    "(bytes \<Rightarrow> go_error option) \<Rightarrow> (bytes \<Rightarrow> api_reaction list res) \<Rightarrow> 's reaction_poller \<Rightarrow> int \<Rightarrow> 's \<Rightarrow> 's \<times> go_error option" where
  "poll_reactions url_error decode p now s =
     (case (rp_client p, rp_store p) of
        (Some api, Some store) \<Rightarrow>
          (case ro_due store s now of
             (s', Inl e) \<Rightarrow> (s', Some (Wrapped ''list reaction polls: %w'' [] e))
           | (s', Inr comments) \<Rightarrow> poll_comments url_error decode api store (rp_base_url p) now comments s')
      | _ \<Rightarrow> (s, Some (Msg ''GitHub client and reaction store are required'')))"

text \<open>
  A world that records what is saved and requested; answers are arbitrary functions of how much has
  been requested, and saving succeeds.
\<close>

record poll_world =
  pw_saved :: "(reaction_comment \<times> reaction_feedback list \<times> int \<times> bool) list"
  pw_requested :: nat

definition recording_api :: "(nat \<Rightarrow> api_request \<Rightarrow> api_response res) \<Rightarrow> poll_world api_client" where
  "recording_api answers w i r = (w\<lparr>pw_requested := Suc (pw_requested w)\<rparr>, answers (pw_requested w) r)"

definition recording_store :: "reaction_comment list \<Rightarrow> poll_world reaction_store" where
  "recording_store due =
     \<lparr>ro_due = (\<lambda>w now. (w, Inr due)),
      ro_save = (\<lambda>w c feedback next expired. (w\<lparr>pw_saved := pw_saved w @ [(c, feedback, next, expired)]\<rparr>, None))\<rparr>"

definition feedback_ok :: "reaction_feedback \<Rightarrow> bool" where
  "feedback_ok f \<longleftrightarrow> (rf_kind f = ''thumbs_up'' \<or> rf_kind f = ''thumbs_down'') \<and> 0 < rf_reaction_id f \<and> 0 < rf_actor_id f"

text \<open>A save is right for the time of the poll.\<close>

definition save_ok :: "int \<Rightarrow> reaction_comment \<times> reaction_feedback list \<times> int \<times> bool \<Rightarrow> bool" where
  "save_ok now saved \<longleftrightarrow>
     (let (c, feedback, next, expired) = saved; expires = rn_review_created_at c + reaction_poll_window in
      if expired then expires \<le> now \<and> feedback = []
      else now < next \<and> next \<le> now + reaction_poll_interval \<and> next \<le> expires \<and> list_all feedback_ok feedback)"

lemma collect_reactions_ok: "list_all feedback_ok (collect_reactions rs)"
  by (auto simp: collect_reactions_def list_all_iff feedback_ok_def reaction_kind_def split: if_splits)

lemma fetch_pages_recorded:
  assumes "fetch_pages url_error decode (recording_api answers) base_url c feedback pages w = (w', r)"
    and "list_all feedback_ok feedback"
  shows "pw_saved w' = pw_saved w \<and> pw_requested w' \<le> pw_requested w + length pages
    \<and> (\<forall>fs. r = Inr fs \<longrightarrow> list_all feedback_ok fs)"
  using assms
proof (induction pages arbitrary: feedback w)
  case (Cons page pages)
  let ?w = "w\<lparr>pw_requested := Suc (pw_requested w)\<rparr>"
  have more: "list_all feedback_ok (feedback @ collect_reactions rs)" for rs
    using Cons.prems(2) collect_reactions_ok by simp
  show ?case
  proof (cases "new_request url_error ''GET'' (reactions_endpoint base_url c page) None")
    case (Inl e)
    then show ?thesis using Cons.prems(1) by auto
  next
    case request: (Inr request)
    show ?thesis
    proof (cases "answers (pw_requested w) request")
      case (Inl e)
      then show ?thesis using Cons.prems(1) request by (auto simp: recording_api_def)
    next
      case response: (Inr response)
      then have api: "recording_api answers w (rn_installation_id c) request = (?w, Inr response)"
        by (simp add: recording_api_def)
      show ?thesis
      proof (cases "decode (limited 2097152 (ar_body response))")
        case (Inl e)
        then show ?thesis using Cons.prems(1) request response by (auto simp: recording_api_def split: if_splits)
      next
        case (Inr rs)
        then consider "w' = ?w" "\<forall>fs. r = Inr fs \<longrightarrow> fs = feedback @ collect_reactions rs"
          | "fetch_pages url_error decode (recording_api answers) base_url c (feedback @ collect_reactions rs) pages ?w = (w', r)"
          using Cons.prems(1) request api by (auto split: if_splits)
        then show ?thesis
        proof cases
          case 1
          then show ?thesis using more [of rs] by auto
        next
          case 2
          then show ?thesis using Cons.IH [OF 2 more] by simp
        qed
      qed
    qed
  qed
qed auto

lemma fetch_reactions_recorded:
  assumes "fetch_reactions url_error decode (recording_api answers) base_url c w = (w', r)"
  shows "pw_saved w' = pw_saved w \<and> pw_requested w' \<le> pw_requested w + 10
    \<and> (\<forall>fs. r = Inr fs \<longrightarrow> list_all feedback_ok fs)"
proof -
  have "length [1..<Suc max_reaction_pages] = 10" by (simp add: max_reaction_pages_def)
  then show ?thesis using fetch_pages_recorded [OF assms [unfolded fetch_reactions_def]] by simp
qed

lemma poll_comments_recorded:
  assumes "poll_comments url_error decode (recording_api answers) (recording_store due) base_url now cs w = (w', err)"
  shows "\<exists>saves. pw_saved w' = pw_saved w @ saves \<and> map fst saves = take (length saves) cs
    \<and> (err = None \<longrightarrow> length saves = length cs) \<and> list_all (save_ok now) saves
    \<and> pw_requested w' \<le> pw_requested w + 10 * length cs"
  using assms
proof (induction cs arbitrary: w)
  case (Cons c cs)
  let ?expires = "rn_review_created_at c + reaction_poll_window"
  show ?case
  proof (cases "validate_reaction_comment c")
    case (Some e)
    then have "w' = w" "err = Some e" using Cons.prems by simp_all
    then show ?thesis by (intro exI [of _ "[]"]) simp
  next
    case valid: None
    have step: ?thesis
      if run: "poll_comments url_error decode (recording_api answers) (recording_store due) base_url now cs
            (v\<lparr>pw_saved := pw_saved v @ [save]\<rparr>) = (w', err)"
        and v: "pw_saved v = pw_saved w" "pw_requested v \<le> pw_requested w + 10" "fst save = c" "save_ok now save" for v save
    proof -
      obtain saves where "pw_saved w' = (pw_saved v @ [save]) @ saves" "map fst saves = take (length saves) cs"
          "err = None \<longrightarrow> length saves = length cs" "list_all (save_ok now) saves"
          "pw_requested w' \<le> pw_requested v + 10 * length cs"
        using Cons.IH [OF run] by auto
      then show ?thesis using v by (intro exI [of _ "save # saves"]) auto
    qed
    show ?thesis
    proof (cases "now < ?expires")
      case False
      then show ?thesis
        using Cons.prems valid by (intro step [of w "(c, [], zero_time, True)"]) (simp_all add: recording_store_def save_ok_def)
    next
      case True
      obtain v r where fetch: "fetch_reactions url_error decode (recording_api answers) base_url c w = (v, r)" by fastforce
      note v = fetch_reactions_recorded [OF fetch]
      show ?thesis
      proof (cases r)
        case (Inl e)
        then show ?thesis using Cons.prems valid True fetch v by (intro exI [of _ "[]"]) (auto simp: Let_def)
      next
        case (Inr fs)
        let ?next = "if now + reaction_poll_interval > ?expires then ?expires else now + reaction_poll_interval"
        have "save_ok now (c, fs, ?next, False)"
          using True v Inr by (simp add: save_ok_def reaction_poll_interval_def second_ns_def)
        then show ?thesis
          using Cons.prems valid True fetch v Inr
          by (intro step [of v "(c, fs, ?next, False)"]) (simp_all add: recording_store_def Let_def)
      qed
    qed
  qed
qed simp

text \<open>
  A poll saves the due comments in order up to the first failure, all of them when it reports
  none; a comment is expired exactly when its window is over, and otherwise is polled again within
  the interval and not after the window; only thumbs of real users are kept; and at most ten pages
  are fetched for a comment.
\<close>

theorem reactions_polled_in_order:
  "let (w', err) = poll_reactions url_error decode
         \<lparr>rp_client = Some (recording_api answers), rp_store = Some (recording_store due), rp_base_url = base_url\<rparr> now w
   in \<exists>saves. pw_saved w' = pw_saved w @ saves \<and> map fst saves = take (length saves) due
     \<and> (if err = None then length saves = length due else True) \<and> list_all (save_ok now) saves
     \<and> pw_requested w' \<le> pw_requested w + 10 * length due"
proof -
  obtain w' err where run: "poll_comments url_error decode (recording_api answers) (recording_store due) base_url now due w = (w', err)"
    by fastforce
  have "ro_due (recording_store due) w now = (w, Inr due)" by (simp add: recording_store_def)
  then show ?thesis using poll_comments_recorded [OF run] by (simp add: poll_reactions_def run if_bool_eq_conj)
qed

end
