(* ===== verification/Access.thy ===== *)
theory Access
  imports Learning GoHttp
begin

text \<open>
  Who may read a hosted report: \<open>internal/hosted/report/access.go\<close>. The signed state of the OAuth flow
  and the check of a reader's access. HMAC-SHA256, SHA-256, random bytes, JSON, \<open>url.Parse\<close>, the clock
  and the HTTP client are parameters.
\<close>

record 's oauth_flow =
  of_client_id :: bytes
  of_client_secret :: bytes
  of_callback_url :: bytes
  of_state_key :: bytes
  of_http :: "'s \<Rightarrow> api_request \<Rightarrow> 's \<times> api_response res"
  of_authorize_url :: bytes
  of_token_url :: bytes

record oauth_state =
  os_redirect :: bytes
  os_expires :: int
  os_nonce :: bytes
  os_binding :: bytes

text \<open>What the flow calls: HMAC and SHA-256, and the two directions of JSON for its state.\<close>

record oauth_library =
  ol_hmac :: "bytes \<Rightarrow> bytes \<Rightarrow> bytes"
  ol_sha256 :: "bytes \<Rightarrow> bytes"
  ol_marshal :: "oauth_state \<Rightarrow> bytes"
  ol_unmarshal :: "bytes \<Rightarrow> oauth_state option"

section \<open>The signed state\<close>

definition sign_state :: "oauth_library \<Rightarrow> bytes \<Rightarrow> bytes \<Rightarrow> bytes" where
  "sign_state lib payload key = b64_encode payload @ ''.'' @ b64_encode (ol_hmac lib key payload)"

definition binding_hash :: "oauth_library \<Rightarrow> bytes \<Rightarrow> bytes" where
  "binding_hash lib value = b64_encode (ol_sha256 lib value)"

definition safe_redirect :: "bytes \<Rightarrow> bool" where
  "safe_redirect value \<longleftrightarrow> has_prefix ''/'' value \<and> \<not> has_prefix ''//'' value \<and> CHR 0x0D \<notin> set value \<and> CHR 0x0A \<notin> set value"

definition http_url :: "(bytes \<Rightarrow> parsed_link res) \<Rightarrow> bytes \<Rightarrow> bool" where
  "http_url parse value =
     (case parse value of
        Inl e \<Rightarrow> False
      | Inr l \<Rightarrow> (li_scheme l = ''https'' \<or> li_scheme l = ''http'') \<and> li_host l \<noteq> [])"

text \<open>\<open>url.QueryEscape\<close>, and \<open>url.Values.Encode\<close> on pairs in the order of their keys.\<close>

definition query_escape :: "bytes \<Rightarrow> bytes" where
  "query_escape s =
     concat (map (\<lambda>c. if alnum_char c \<or> c \<in> set ''-_.~'' then [c] else if c = CHR '' '' then ''+''
       else [CHR ''%'', upper_hex (of_char c div 16), upper_hex (of_char c mod 16)]) s)"

definition query_encode :: "(bytes \<times> bytes) list \<Rightarrow> bytes" where
  "query_encode kvs = join_with ''&'' (map (\<lambda>(k, v). query_escape k @ ''='' @ query_escape v) kvs)"

definition flow_state :: "oauth_library \<Rightarrow> int \<Rightarrow> bytes \<Rightarrow> bytes \<Rightarrow> bytes \<Rightarrow> oauth_state" where
  "flow_state lib now nonce redirect session_binding =
     \<lparr>os_redirect = redirect, os_expires = unix_seconds (now + 600 * second_ns),
      os_nonce = b64_encode nonce, os_binding = binding_hash lib session_binding\<rparr>"

definition begin_flow ::
    "oauth_library \<Rightarrow> (bytes \<Rightarrow> parsed_link res) \<Rightarrow> bytes res \<Rightarrow> 's oauth_flow \<Rightarrow> int \<Rightarrow> bytes \<Rightarrow> bytes \<Rightarrow> bytes res" where
  "begin_flow lib parse random f now redirect session_binding =
     (if of_client_id f = [] \<or> \<not> http_url parse (of_callback_url f) \<or> length (of_state_key f) < 32
        \<or> \<not> safe_redirect redirect \<or> length session_binding < 16
      then Inl (Msg ''OAuth client, callback, state key, and safe redirect are required'')
      else case random of
             Inl e \<Rightarrow> Inl e
           | Inr nonce \<Rightarrow>
               let state = sign_state lib (ol_marshal lib (flow_state lib now nonce redirect session_binding)) (of_state_key f);
                   start = (if of_authorize_url f = [] then ''https://github.com/login/oauth/authorize'' else of_authorize_url f)
               in Inr (start @ ''?'' @ query_encode
                    [(''client_id'', of_client_id f), (''redirect_uri'', of_callback_url f), (''scope'', ''read:user repo''),
                     (''state'', state)]))"

definition validate_state :: "oauth_library \<Rightarrow> 's oauth_flow \<Rightarrow> int \<Rightarrow> bytes \<Rightarrow> bytes \<Rightarrow> bytes res" where
  "validate_state lib f now state session_binding =
     (case split_on CHR ''.'' state of
        [first, second] \<Rightarrow>
          (case b64_decode first of
             None \<Rightarrow> Inl (Msg ''invalid OAuth state'')
           | Some payload \<Rightarrow>
               if b64_decode second \<noteq> Some (ol_hmac lib (of_state_key f) payload) then Inl (Msg ''invalid OAuth state'')
               else (case ol_unmarshal lib payload of
                  None \<Rightarrow> Inl (Msg ''invalid OAuth state'')
                | Some v \<Rightarrow>
                    if os_nonce v = [] \<or> \<not> safe_redirect (os_redirect v) \<or> os_binding v \<noteq> binding_hash lib session_binding
                    then Inl (Msg ''invalid OAuth state'')
                    else if unix_seconds now > os_expires v then Inl (Msg ''expired OAuth state'')
                    else Inr (os_redirect v)))
      | _ \<Rightarrow> Inl (Msg ''invalid OAuth state''))"

section \<open>Exchange and access\<close>

text \<open>\<open>encode\<close> and \<open>decode\<close> are JSON; \<open>decode\<close> yields the \<open>access_token\<close>, empty when it is absent.\<close>

definition exchange_code ::
    "(bytes \<Rightarrow> go_error option) \<Rightarrow> ((bytes \<times> bytes) list \<Rightarrow> bytes) \<Rightarrow> (bytes \<Rightarrow> bytes option) \<Rightarrow> 's oauth_flow
     \<Rightarrow> bytes \<Rightarrow> 's \<Rightarrow> 's \<times> bytes res" where
  "exchange_code url_error encode decode f code s =
     (if of_client_id f = [] \<or> of_client_secret f = [] \<or> blank code
      then (s, Inl (Msg ''OAuth code and client credentials are required''))
      else let endpoint = (if of_token_url f = [] then ''https://github.com/login/oauth/access_token'' else of_token_url f) in
        case new_request url_error ''POST'' endpoint
               (Some (encode [(''client_id'', of_client_id f), (''client_secret'', of_client_secret f), (''code'', code),
                  (''redirect_uri'', of_callback_url f)])) of
          Inl e \<Rightarrow> (s, Inl e)
        | Inr request \<Rightarrow>
       (case of_http f s (set_header ''Content-Type'' ''application/json'' (set_header ''Accept'' ''application/json'' request)) of
          (s', Inl e) \<Rightarrow> (s', Inl e)
        | (s', Inr response) \<Rightarrow>
            (case (if ar_status response \<noteq> 200 then None else decode (limited 1048576 (ar_body response))) of
               Some access \<Rightarrow>
                 if access = [] then (s', Inl (MsgNum ''GitHub OAuth exchange failed: status %d'' [ar_status response]))
                 else (s', Inr access)
             | None \<Rightarrow> (s', Inl (MsgNum ''GitHub OAuth exchange failed: status %d'' [ar_status response])))))"

record 's access_authorizer =
  aa_http :: "'s \<Rightarrow> api_request \<Rightarrow> 's \<times> api_response res"
  aa_base_url :: bytes

definition can_read ::
    "(bytes \<Rightarrow> go_error option) \<Rightarrow> 's access_authorizer \<Rightarrow> bytes \<Rightarrow> bytes \<Rightarrow> bytes \<Rightarrow> 's \<Rightarrow> 's \<times> bool res" where
  "can_read url_error a oauth_token owner repo s =
     (if oauth_token = [] \<or> \<not> slug_name owner \<or> \<not> slug_name repo
      then (s, Inl (Msg ''OAuth token and valid repository are required''))
      else case new_request url_error ''GET''
             (api_base ''https://api.github.com'' (aa_base_url a) @ ''/repos/'' @ path_escape owner @ ''/'' @ path_escape repo) None of
        Inl e \<Rightarrow> (s, Inl e)
      | Inr request \<Rightarrow>
     (case aa_http a s (set_header ''Accept'' ''application/vnd.github+json''
             (set_header ''Authorization'' (''Bearer '' @ oauth_token) request)) of
        (s', Inl e) \<Rightarrow> (s', Inl e)
      | (s', Inr response) \<Rightarrow>
          if ar_status response = 200 then (s', Inr True)
          else if ar_status response = 403 \<or> ar_status response = 404 then (s', Inr False)
          else (s', Inl (MsgNum ''check GitHub repository access: status %d'' [ar_status response]))))"

text \<open>
  A browser reads a backslash in a redirect as a slash: \<open>safeRedirect\<close> refuses \<open>//host\<close> but lets the same
  host through when it follows a slash and a backslash.
\<close>

lemma safe_redirect_backslash: "safe_redirect (CHR ''/'' # CHR 0x5C # ''evil.example'')"
  by code_simp

section \<open>What the state guarantees\<close>

text \<open>
  C14: A state is accepted only if its second part is the HMAC, under the server's key, of its first;
  it carries a nonce, is bound to the session that presents it, and has not expired. Its redirect
  starts with one slash that no second slash follows and holds neither a carriage return nor a
  newline. That is not yet a path of this site: \<open>safe_redirect_backslash\<close> passes a slash and a backslash,
  which browsers read as the start of another host.
\<close>

theorem validate_state_authentic:
  assumes "validate_state lib f now state session_binding = Inr redirect"
  shows "\<exists>first second payload v rest. state = first @ ''.'' @ second \<and> b64_decode first = Some payload
    \<and> b64_decode second = Some (ol_hmac lib (of_state_key f) payload) \<and> ol_unmarshal lib payload = Some v
    \<and> os_nonce v \<noteq> [] \<and> os_binding v = binding_hash lib session_binding \<and> unix_seconds now \<le> os_expires v
    \<and> os_redirect v = redirect \<and> redirect = CHR ''/'' # rest \<and> \<not> has_prefix ''/'' rest
    \<and> CHR 0x0D \<notin> set redirect \<and> CHR 0x0A \<notin> set redirect"
proof -
  obtain first second payload v where parts: "split_on CHR ''.'' state = [first, second]"
      and v: "b64_decode first = Some payload" "b64_decode second = Some (ol_hmac lib (of_state_key f) payload)"
        "ol_unmarshal lib payload = Some v" "os_nonce v \<noteq> []" "os_redirect v = redirect"
        "os_binding v = binding_hash lib session_binding" "unix_seconds now \<le> os_expires v"
      and safe: "safe_redirect redirect"
    using assms by (auto simp: validate_state_def split: list.splits option.splits if_splits)
  have "state = first @ ''.'' @ second" using join_split [of "CHR ''.''" state] parts by simp
  moreover obtain rest where "redirect = CHR ''/'' # rest" "\<not> has_prefix ''/'' rest"
    using safe by (cases redirect) (auto simp: safe_redirect_def has_prefix_iff)
  ultimately show ?thesis using v safe by (auto simp: safe_redirect_def)
qed

text \<open>
  The state that \<open>Begin\<close> puts into its URL is accepted for the same session during the next ten
  minutes, yields the redirect it was made for, and is refused as expired after them.
\<close>

theorem begun_state_validates:
  assumes "begin_flow lib parse (Inr nonce) f now redirect session_binding = Inr url" and "nonce \<noteq> []"
    and json: "ol_unmarshal lib (ol_marshal lib (flow_state lib now nonce redirect session_binding))
      = Some (flow_state lib now nonce redirect session_binding)"
  shows "\<exists>state p. url = p @ ''&state='' @ query_escape state
    \<and> validate_state lib f later state session_binding =
        (if unix_seconds later \<le> unix_seconds (now + 600 * second_ns) then Inr redirect else Inl (Msg ''expired OAuth state''))"
proof -
  let ?payload = "ol_marshal lib (flow_state lib now nonce redirect session_binding)"
  let ?state = "sign_state lib ?payload (of_state_key f)"
  let ?v = "flow_state lib now nonce redirect session_binding"
  have fields: "os_redirect ?v = redirect" "os_expires ?v = unix_seconds (now + 600 * second_ns)"
      "os_nonce ?v = b64_encode nonce" "os_binding ?v = binding_hash lib session_binding"
    by (simp_all add: flow_state_def)
  have "CHR ''.'' \<notin> set (b64_encode s)" for s using b64_alphabet b64_char_not(1) by fastforce
  then have split: "split_on CHR ''.'' ?state = [b64_encode ?payload, b64_encode (ol_hmac lib (of_state_key f) ?payload)]"
    by (simp add: sign_state_def split_on_append split_on_sepfree)
  have "safe_redirect redirect" using assms(1) by (auto simp: begin_flow_def split: if_splits)
  moreover have "b64_encode nonce \<noteq> []" using assms(2) by (cases nonce rule: b64_encode.cases) auto
  ultimately have "validate_state lib f later ?state session_binding =
      (if unix_seconds later \<le> unix_seconds (now + 600 * second_ns) then Inr redirect else Inl (Msg ''expired OAuth state''))"
    using json fields by (simp add: validate_state_def split b64_decode_encode del: not_le)
  moreover have "\<exists>p. url = p @ ''&state='' @ query_escape ?state"
    using assms(1) by (auto simp: begin_flow_def Let_def query_encode_def query_escape_def alnum_char_def
        ascii_lower_def less_eq_char_def split: if_splits)
  ultimately show ?thesis by blast
qed

definition sample_library :: oauth_library where
  "sample_library =
     \<lparr>ol_hmac = (\<lambda>key payload. key), ol_sha256 = (\<lambda>s. s), ol_marshal = (\<lambda>v. ''j''),
      ol_unmarshal = (\<lambda>s. if s = ''j'' then Some \<lparr>os_redirect = ''/r'', os_expires = 600, os_nonce = b64_encode ''n'',
        os_binding = b64_encode ''session-binding-1''\<rparr> else None)\<rparr>"

definition sample_flow :: "unit oauth_flow" where
  "sample_flow =
     \<lparr>of_client_id = ''c'', of_client_secret = ''s'', of_callback_url = ''https://h/cb'',
      of_state_key = replicate 32 CHR ''k'', of_http = (\<lambda>s r. (s, Inl (Msg ''offline''))),
      of_authorize_url = ''https://h/a'', of_token_url = []\<rparr>"

definition sample_link :: "bytes \<Rightarrow> parsed_link res" where
  "sample_link s = Inr \<lparr>li_scheme = ''https'', li_host = ''h'', li_path = ''/cb''\<rparr>"

theorem validate_state_authentic_witness:
  "os_redirect (the (ol_unmarshal sample_library ''j'')) = ''/r''
   \<and> (\<exists>first second payload. ''ag.'' @ b64_encode (replicate 32 CHR ''k'') = first @ ''.'' @ second
       \<and> b64_decode first = Some payload \<and> b64_decode second = Some (ol_hmac sample_library (replicate 32 CHR ''k'') payload))"
proof -
  have "validate_state sample_library sample_flow 0 (''ag.'' @ b64_encode (replicate 32 CHR ''k'')) ''session-binding-1'' = Inr ''/r''"
    by code_simp
  from validate_state_authentic [OF this] show ?thesis by (auto simp: sample_library_def sample_flow_def)
qed

theorem begun_state_validates_witness:
  "\<exists>state. validate_state sample_library sample_flow (600 * second_ns) state ''session-binding-1'' = Inr ''/r''"
proof -
  have begun: "is_ok (begin_flow sample_library sample_link (Inr ''n'') sample_flow 0 ''/r'' ''session-binding-1'')"
    by code_simp
  then obtain url where url: "begin_flow sample_library sample_link (Inr ''n'') sample_flow 0 ''/r'' ''session-binding-1'' = Inr url"
    by (auto simp: is_ok_iff)
  have json: "ol_unmarshal sample_library (ol_marshal sample_library (flow_state sample_library 0 ''n'' ''/r'' ''session-binding-1''))
      = Some (flow_state sample_library 0 ''n'' ''/r'' ''session-binding-1'')"
    by code_simp
  have "unix_seconds (600 * second_ns) \<le> unix_seconds (0 + 600 * second_ns)" by simp
  then show ?thesis using begun_state_validates [OF url _ json, of "600 * second_ns"] by auto
qed

end
