(* ===== verification/Bundle.thy ===== *)
theory Bundle
  imports GoHttp
begin

text \<open>
  Publishing a report bundle: \<open>internal/hosted/report/publish.go\<close>. The exporter, the file system and
  the object store act on a state \<open>'s\<close>; SHA-256 (in hex) is a parameter.
\<close>

record export_request =
  er_root :: bytes
  er_base_sha :: bytes
  er_head_sha :: bytes

record stored_object =
  ob_key :: bytes
  ob_content_type :: bytes
  ob_sha256 :: bytes
  ob_body :: bytes
  ob_size :: int
  ob_immutable :: bool

record 's file_system =
  fy_mkdir_temp :: "'s \<Rightarrow> 's \<times> bytes res"
  fy_remove_all :: "'s \<Rightarrow> bytes \<Rightarrow> 's"
  fy_lstat :: "'s \<Rightarrow> bytes \<Rightarrow> (bool \<times> int) res"
  fy_read_file :: "'s \<Rightarrow> bytes \<Rightarrow> bytes res"

record 's report_publisher =
  rb_exporter :: "('s \<Rightarrow> export_request \<Rightarrow> bytes \<Rightarrow> 's \<times> go_error option) option"
  rb_store :: "('s \<Rightarrow> stored_object \<Rightarrow> 's \<times> go_error option) option"
  rb_max_bundle_bytes :: int

definition max_bundle_bytes :: int where "max_bundle_bytes = 52428800"

definition valid_object_slug :: "bytes \<Rightarrow> bool" where
  "valid_object_slug value \<longleftrightarrow> slug_name value"

definition bundle_sha :: "bytes \<Rightarrow> bool" where
  "bundle_sha value \<longleftrightarrow> hex_sha value"

definition bundle_files :: "(bytes \<times> bytes) list" where
  "bundle_files =
     [(''index.html'', ''text/html; charset=utf-8''), (''review.json'', ''application/json''),
      (''checksums.sha256'', ''text/plain; charset=utf-8'')]"

definition object_key :: "bytes \<Rightarrow> bytes \<Rightarrow> bytes \<Rightarrow> bytes \<Rightarrow> bytes" where
  "object_key owner repo sha name = join_with ''/'' [''reports'', owner, repo, sha, name]"

text \<open>The loop over the files; \<open>used\<close> is an \<open>int64\<close>.\<close>

fun collect_objects ::
    "(bytes \<Rightarrow> bytes) \<Rightarrow> 's file_system \<Rightarrow> 's \<Rightarrow> int \<Rightarrow> bytes \<Rightarrow> (bytes \<Rightarrow> bytes) \<Rightarrow> int \<Rightarrow> (bytes \<times> bytes) list
     \<Rightarrow> stored_object list res" where
  "collect_objects digest fs s limit d key used [] = Inr []"
| "collect_objects digest fs s limit d key used ((name, content_type) # files) =
     (let path = d @ ''/'' @ name in
      case fy_lstat fs s path of
        Inl e \<Rightarrow> Inl (MsgStr ''report output %s is missing or not regular'' name)
      | Inr (regular, sz) \<Rightarrow>
          if \<not> regular then Inl (MsgStr ''report output %s is missing or not regular'' name)
          else let used' = wrap64 (used + sz) in
            if used' > limit then Inl (MsgNum ''report bundle exceeds %d bytes'' [limit])
            else (case fy_read_file fs s path of
               Inl e \<Rightarrow> Inl e
             | Inr body \<Rightarrow>
                 (case collect_objects digest fs s limit d key used' files of
                    Inl e \<Rightarrow> Inl e
                  | Inr objects \<Rightarrow>
                      Inr (\<lparr>ob_key = key name, ob_content_type = content_type, ob_sha256 = digest body, ob_body = body,
                            ob_size = int (length body), ob_immutable = True\<rparr> # objects))))"

fun put_objects ::
    "('s \<Rightarrow> stored_object \<Rightarrow> 's \<times> go_error option) \<Rightarrow> (bytes \<times> bytes) list \<Rightarrow> stored_object list \<Rightarrow> 's
     \<Rightarrow> 's \<times> go_error option" where
  "put_objects put files [] s = (s, None)"
| "put_objects put [] (object # objects) s = (s, None)"
| "put_objects put ((name, content_type) # files) (object # objects) s =
     (case put s object of
        (s', Some e) \<Rightarrow> (s', Some (Wrapped (''upload '' @ name @ '': %w'') [] e))
      | (s', None) \<Rightarrow> put_objects put files objects s')"

definition publish_bundle ::
    "(bytes \<Rightarrow> bytes) \<Rightarrow> 's file_system \<Rightarrow> 's report_publisher \<Rightarrow> bytes \<Rightarrow> bytes \<Rightarrow> export_request \<Rightarrow> 's
     \<Rightarrow> 's \<times> bytes list res" where
  "publish_bundle digest fs p owner repo request s =
     (case (rb_exporter p, rb_store p) of
        (Some export, Some put) \<Rightarrow>
          if \<not> valid_object_slug owner \<or> \<not> valid_object_slug repo \<or> \<not> bundle_sha (er_head_sha request)
            \<or> \<not> bundle_sha (er_base_sha request) \<or> er_root request = []
          then (s, Inl (Msg ''exporter, store, repository, root, and full SHAs are required''))
          else (case fy_mkdir_temp fs s of
             (s1, Inl e) \<Rightarrow> (s1, Inl e)
           | (s1, Inr d) \<Rightarrow>
          (case export s1 request d of
             (s2, Some e) \<Rightarrow> (fy_remove_all fs s2 d, Inl e)
           | (s2, None) \<Rightarrow>
          (case collect_objects digest fs s2 (if rb_max_bundle_bytes p \<le> 0 then max_bundle_bytes else rb_max_bundle_bytes p)
                  d (object_key owner repo (er_head_sha request)) 0 bundle_files of
             Inl e \<Rightarrow> (fy_remove_all fs s2 d, Inl e)
           | Inr objects \<Rightarrow>
          (case put_objects put bundle_files objects s2 of
             (s3, Some e) \<Rightarrow> (fy_remove_all fs s3 d, Inl e)
           | (s3, None) \<Rightarrow> (fy_remove_all fs s3 d, Inr (map ob_key objects))))))
      | _ \<Rightarrow> (s, Inl (Msg ''exporter, store, repository, root, and full SHAs are required'')))"

section \<open>What is uploaded\<close>

text \<open>
  A world of files and uploads: temporary directories that exist, files by path and the uploads
  in order. \<open>os.MkdirTemp\<close> may fail, \<open>os.RemoveAll\<close> may fail and its error is dropped; the exporter and
  the failures of the store are arbitrary.
\<close>

record bundle_world =
  bw_dirs :: "bytes set"
  bw_files :: "bytes \<rightharpoonup> bytes"
  bw_uploads :: "stored_object list"

definition clean_up :: "bool \<Rightarrow> bytes \<Rightarrow> bundle_world \<Rightarrow> bundle_world" where
  "clean_up removes d w = (if removes then w\<lparr>bw_dirs := bw_dirs w - {d}\<rparr> else w)"

definition world_fs :: "go_error option \<Rightarrow> bool \<Rightarrow> bytes \<Rightarrow> bundle_world file_system" where
  "world_fs mkdir_error removes d =
     \<lparr>fy_mkdir_temp = (\<lambda>w. case mkdir_error of Some e \<Rightarrow> (w, Inl e) | None \<Rightarrow> (w\<lparr>bw_dirs := insert d (bw_dirs w)\<rparr>, Inr d)),
      fy_remove_all = (\<lambda>w p. clean_up removes p w),
      fy_lstat = (\<lambda>w p. case bw_files w p of None \<Rightarrow> Inl (Msg ''not exist'') | Some b \<Rightarrow> Inr (True, int (length b))),
      fy_read_file = (\<lambda>w p. case bw_files w p of None \<Rightarrow> Inl (Msg ''not exist'') | Some b \<Rightarrow> Inr b)\<rparr>"

definition world_put :: "(stored_object \<Rightarrow> go_error option) \<Rightarrow> bundle_world \<Rightarrow> stored_object \<Rightarrow> bundle_world \<times> go_error option" where
  "world_put fails w ob =
     (case fails ob of Some e \<Rightarrow> (w, Some e) | None \<Rightarrow> (w\<lparr>bw_uploads := bw_uploads w @ [ob]\<rparr>, None))"

definition world_publisher ::
    "(bundle_world \<Rightarrow> export_request \<Rightarrow> bytes \<Rightarrow> (bytes \<rightharpoonup> bytes) \<times> go_error option) \<Rightarrow> (stored_object \<Rightarrow> go_error option)
     \<Rightarrow> int \<Rightarrow> bundle_world report_publisher" where
  "world_publisher writes fails limit =
     \<lparr>rb_exporter = Some (\<lambda>w r d. case writes w r d of (files, e) \<Rightarrow> (w\<lparr>bw_files := files\<rparr>, e)),
      rb_store = Some (world_put fails), rb_max_bundle_bytes = limit\<rparr>"

text \<open>
  The specification: the object a file of the exported directory becomes, and the bundle, which exists
  when every file does. The limit is on all of them together.
\<close>

definition object_of ::
    "(bytes \<Rightarrow> bytes) \<Rightarrow> bytes \<Rightarrow> bytes \<Rightarrow> bytes \<Rightarrow> (bytes \<rightharpoonup> bytes) \<Rightarrow> bytes \<Rightarrow> bytes \<times> bytes \<Rightarrow> stored_object option" where
  "object_of digest owner repo sha files d f =
     map_option (\<lambda>body. \<lparr>ob_key = ''reports/'' @ owner @ ''/'' @ repo @ ''/'' @ sha @ ''/'' @ fst f, ob_content_type = snd f,
        ob_sha256 = digest body, ob_body = body, ob_size = int (length body), ob_immutable = True\<rparr>)
       (files (d @ ''/'' @ fst f))"

definition wanted_bundle ::
    "(bytes \<Rightarrow> bytes) \<Rightarrow> bytes \<Rightarrow> bytes \<Rightarrow> bytes \<Rightarrow> int \<Rightarrow> (bytes \<rightharpoonup> bytes) \<Rightarrow> bytes \<Rightarrow> stored_object list" where
  "wanted_bundle digest owner repo sha limit files d =
     (case those (map (object_of digest owner repo sha files d)
             [(''index.html'', ''text/html; charset=utf-8''), (''review.json'', ''application/json''),
              (''checksums.sha256'', ''text/plain; charset=utf-8'')]) of
        None \<Rightarrow> []
      | Some objects \<Rightarrow>
          if sum_list (map ob_size objects) \<le> (if limit \<le> 0 then 52428800 else limit) then objects else [])"

lemma object_key_path: "object_key owner repo sha name = ''reports/'' @ owner @ ''/'' @ repo @ ''/'' @ sha @ ''/'' @ name"
  by (simp add: object_key_def)

lemma collect_objects_iff:
  assumes "0 \<le> used" and "used \<le> limit" and "limit < 2 ^ 62"
    and small: "\<And>p b. bw_files w p = Some b \<Longrightarrow> int (length b) < 2 ^ 62"
  shows "collect_objects digest (world_fs mk rm d') w limit d (object_key owner repo sha) used files = Inr objects \<longleftrightarrow>
    those (map (object_of digest owner repo sha (bw_files w) d) files) = Some objects
    \<and> used + sum_list (map ob_size objects) \<le> limit"
  using assms(1,2)
proof (induction files arbitrary: used objects)
  case (Cons f files)
  obtain name content_type where f: "f = (name, content_type)" by fastforce
  show ?case
  proof (cases "bw_files w (d @ ''/'' @ name)")
    case None
    then show ?thesis by (simp add: f world_fs_def object_of_def Let_def)
  next
    case (Some body)
    let ?rest = "collect_objects digest (world_fs mk rm d') w limit d (object_key owner repo sha) (used + int (length body)) files"
    let ?ob = "\<lparr>ob_key = object_key owner repo sha name, ob_content_type = content_type, ob_sha256 = digest body,
        ob_body = body, ob_size = int (length body), ob_immutable = True\<rparr>"
    have wrap: "wrap64 (used + int (length body)) = used + int (length body)"
      using small [OF Some] Cons.prems assms(3) by (intro wrap64_small) auto
    have step: "collect_objects digest (world_fs mk rm d') w limit d (object_key owner repo sha) used (f # files) =
        (if used + int (length body) > limit then Inl (MsgNum ''report bundle exceeds %d bytes'' [limit])
         else case ?rest of Inl e \<Rightarrow> Inl e | Inr objects \<Rightarrow> Inr (?ob # objects))"
      using Some wrap by (simp add: f world_fs_def Let_def)
    have ob: "object_of digest owner repo sha (bw_files w) d f = Some ?ob"
      using Some by (simp add: f object_of_def object_key_path)
    have sizes: "0 \<le> sum_list (map ob_size objects)"
      if "those (map (object_of digest owner repo sha (bw_files w) d) files) = Some objects" for objects
      using that by (induction files arbitrary: objects) (auto simp: object_of_def split: option.splits)
    show ?thesis
    proof (cases "used + int (length body) > limit")
      case True
      then show ?thesis using step ob sizes by (fastforce split: option.splits)
    next
      case False
      have ih: "?rest = Inr os \<longleftrightarrow> those (map (object_of digest owner repo sha (bw_files w) d) files) = Some os
          \<and> used + int (length body) + sum_list (map ob_size os) \<le> limit" for os
        using False Cons.prems by (intro Cons.IH) auto
      have "collect_objects digest (world_fs mk rm d') w limit d (object_key owner repo sha) used (f # files) = Inr objects \<longleftrightarrow>
          (\<exists>os. ?rest = Inr os \<and> objects = ?ob # os)"
        unfolding step using False by (auto split: sum.split)
      also have "\<dots> \<longleftrightarrow> those (map (object_of digest owner repo sha (bw_files w) d) (f # files)) = Some objects
          \<and> used + sum_list (map ob_size objects) \<le> limit"
        unfolding ih by (auto simp: ob split: option.splits)
      finally show ?thesis .
    qed
  qed
qed auto

lemma put_objects_until_failure:
  assumes "length files = length objects"
  shows "put_objects (world_put fails) files objects w = (w', err) \<Longrightarrow>
    w' = w\<lparr>bw_uploads := bw_uploads w @ takeWhile (\<lambda>ob. fails ob = None) objects\<rparr>
    \<and> (err = None \<longleftrightarrow> list_all (\<lambda>ob. fails ob = None) objects)"
  using assms
proof (induction files objects arbitrary: w rule: list_induct2)
  case (Cons f files ob objects)
  obtain name content_type where f: "f = (name, content_type)" by fastforce
  show ?case
  proof (cases "fails ob")
    case None
    then have "world_put fails w ob = (w\<lparr>bw_uploads := bw_uploads w @ [ob]\<rparr>, None)" by (simp add: world_put_def)
    then have "put_objects (world_put fails) files objects (w\<lparr>bw_uploads := bw_uploads w @ [ob]\<rparr>) = (w', err)"
      using Cons.prems by (simp add: f)
    from Cons.IH [OF this] show ?thesis using None by simp
  next
    case (Some e)
    then have "world_put fails w ob = (w, Some e)" by (simp add: world_put_def)
    then show ?thesis using Cons.prems Some by (auto simp: f)
  qed
qed auto

lemma publish_bundle_run:
  assumes "slug_name owner" "slug_name repo" "hex_sha (er_head_sha request)" "hex_sha (er_base_sha request)" "er_root request \<noteq> []"
    and writes: "writes (w\<lparr>bw_dirs := insert d (bw_dirs w)\<rparr>) request d = (files, e)"
  shows "publish_bundle digest (world_fs None removes d) (world_publisher writes fails limit) owner repo request w =
    (let w2 = w\<lparr>bw_dirs := insert d (bw_dirs w), bw_files := files\<rparr> in
     case e of
       Some err \<Rightarrow> (clean_up removes d w2, Inl err)
     | None \<Rightarrow>
    (case collect_objects digest (world_fs None removes d) w2 (if limit \<le> 0 then max_bundle_bytes else limit) d
            (object_key owner repo (er_head_sha request)) 0 bundle_files of
       Inl err \<Rightarrow> (clean_up removes d w2, Inl err)
     | Inr objects \<Rightarrow>
    (case put_objects (world_put fails) bundle_files objects w2 of
       (w3, Some err) \<Rightarrow> (clean_up removes d w3, Inl err)
     | (w3, None) \<Rightarrow> (clean_up removes d w3, Inr (map ob_key objects)))))"
proof -
  have guard: "\<not> (\<not> valid_object_slug owner \<or> \<not> valid_object_slug repo \<or> \<not> bundle_sha (er_head_sha request)
      \<or> \<not> bundle_sha (er_base_sha request) \<or> er_root request = [])"
    using assms(1-5) by (simp add: valid_object_slug_def bundle_sha_def)
  have fs: "fy_mkdir_temp (world_fs None removes d) w = (w\<lparr>bw_dirs := insert d (bw_dirs w)\<rparr>, Inr d)"
      "\<And>v. fy_remove_all (world_fs None removes d) v d = clean_up removes d v"
    by (simp_all add: world_fs_def)
  have p: "rb_exporter (world_publisher writes fails limit) = Some (\<lambda>w r d. case writes w r d of (files, e) \<Rightarrow> (w\<lparr>bw_files := files\<rparr>, e))"
      "rb_store (world_publisher writes fails limit) = Some (world_put fails)"
      "rb_max_bundle_bytes (world_publisher writes fails limit) = limit"
    by (simp_all add: world_publisher_def)
  show ?thesis
    by (simp only: publish_bundle_def p fs option.case prod.case if_not_P [OF guard] sum.case writes Let_def)
qed

lemma publish_bundle_refused:
  assumes "\<not> (slug_name owner \<and> slug_name repo \<and> hex_sha (er_head_sha request) \<and> hex_sha (er_base_sha request) \<and> er_root request \<noteq> [])
    \<or> mk \<noteq> None"
  shows "\<exists>err. publish_bundle digest (world_fs mk removes d) (world_publisher writes fails limit) owner repo request w = (w, Inl err)"
proof (cases "slug_name owner \<and> slug_name repo \<and> hex_sha (er_head_sha request) \<and> hex_sha (er_base_sha request) \<and> er_root request \<noteq> []")
  case True
  then obtain e where "mk = Some e" using assms by auto
  then show ?thesis using True
    by (simp add: publish_bundle_def world_publisher_def valid_object_slug_def bundle_sha_def world_fs_def)
next
  case False
  then show ?thesis by (auto simp: publish_bundle_def world_publisher_def valid_object_slug_def bundle_sha_def)
qed


definition sample_request :: export_request where
  "sample_request = \<lparr>er_root = ''/r'', er_base_sha = replicate 40 CHR ''a'', er_head_sha = replicate 40 CHR ''b''\<rparr>"

definition sample_writes :: "bundle_world \<Rightarrow> export_request \<Rightarrow> bytes \<Rightarrow> (bytes \<rightharpoonup> bytes) \<times> go_error option" where
  "sample_writes w r d =
     ([''t/index.html'' \<mapsto> ''h'', ''t/review.json'' \<mapsto> ''{}'', ''t/checksums.sha256'' \<mapsto> ''s''], None)"


end
