(* ===== verification/Rules.thy ===== *)
theory Rules
  imports Webhooks Utf8
begin

text \<open>
  Team review rules: \<open>artifact_rules.go\<close> (globs, validation, parsing of \<open>.px1/rules.json\<close>) and
  \<open>validate_rules.go\<close>. Regular expressions that users write are compiled by a parameter, whose result
  is the leftmost match of a text; JSON, SHA-256 and the file system are parameters too.
\<close>

definition rule_pattern_max :: nat where "rule_pattern_max = 300"

definition rule_glob_max :: nat where "rule_glob_max = 200"

definition rule_message_max :: nat where "rule_message_max = 400"

definition rule_team_file :: bytes where "rule_team_file = ''.px1/rules.json''"

type_synonym pattern = "bytes \<Rightarrow> (nat \<times> nat) option"
type_synonym compiler = "bytes \<Rightarrow> pattern res"

section \<open>Clipping and quoting\<close>

definition ellipsis :: bytes where "ellipsis = [CHR 0xE2, CHR 0x80, CHR 0xA6]"

definition clip :: "bytes \<Rightarrow> nat \<Rightarrow> bytes" where
  "clip s limit =
     (let s = trim_space s in if length s \<le> limit then s else trim_space (take limit s) @ ellipsis)"

definition meta_chars :: bytes where "meta_chars = CHR 0x5C # ''.+*?()|[]{}^$''"

text \<open>\<open>regexp.QuoteMeta\<close>.\<close>

definition quote_meta :: "bytes \<Rightarrow> bytes" where
  "quote_meta s = concat (map (\<lambda>c. if c \<in> set meta_chars then [CHR 0x5C, c] else [c]) s)"

section \<open>Globs\<close>

text \<open>
  The pieces \<open>globRegexp\<close> writes: \<open>(?:.*/)?\<close>, \<open>.*\<close>, \<open>[^/]*\<close>, \<open>[^/]\<close> and a quoted rune. The code quotes
  \<open>string(c)\<close> of a byte \<open>c\<close>, which is the rune of that number.
\<close>

datatype glob_item = Glob_Dirs | Glob_Any | Glob_Segment | Glob_One | Glob_Rune nat

fun glob_items :: "bytes \<Rightarrow> glob_item list" where
  "glob_items [] = []"
| "glob_items (c # cs) =
     (if has_prefix ''**/'' (c # cs) then Glob_Dirs # glob_items (drop 2 cs)
      else if has_prefix ''**'' (c # cs) then Glob_Any # glob_items (drop 1 cs)
      else if c = CHR ''*'' then Glob_Segment # glob_items cs
      else if c = CHR ''?'' then Glob_One # glob_items cs
      else Glob_Rune (of_char c) # glob_items cs)"

text \<open>No glob is refused; a blank one has no expression.\<close>

definition glob_regexp :: "bytes \<Rightarrow> glob_item list option" where
  "glob_regexp glob =
     (let g = trim_space glob in
      if g = [] then None else Some (glob_items (if CHR ''/'' \<notin> set g then ''**/'' @ g else g)))"

text \<open>A dot matches every rune but a newline.\<close>

definition splits :: "(nat \<Rightarrow> bool) \<Rightarrow> nat list \<Rightarrow> nat list" where
  "splits p rs = filter (\<lambda>k. list_all p (take k rs)) [0..<Suc (length rs)]"

fun glob_runes :: "glob_item list \<Rightarrow> nat list \<Rightarrow> bool" where
  "glob_runes [] rs \<longleftrightarrow> rs = []"
| "glob_runes (Glob_Rune r # g) rs \<longleftrightarrow> rs \<noteq> [] \<and> hd rs = r \<and> glob_runes g (tl rs)"
| "glob_runes (Glob_One # g) rs \<longleftrightarrow> rs \<noteq> [] \<and> hd rs \<noteq> 47 \<and> glob_runes g (tl rs)"
| "glob_runes (Glob_Segment # g) rs \<longleftrightarrow> list_ex (\<lambda>k. glob_runes g (drop k rs)) (splits (\<lambda>r. r \<noteq> 47) rs)"
| "glob_runes (Glob_Any # g) rs \<longleftrightarrow> list_ex (\<lambda>k. glob_runes g (drop k rs)) (splits (\<lambda>r. r \<noteq> 10) rs)"
| "glob_runes (Glob_Dirs # g) rs \<longleftrightarrow> glob_runes g rs
     \<or> list_ex (\<lambda>k. k < length rs \<and> rs ! k = 47 \<and> glob_runes g (drop (Suc k) rs)) (splits (\<lambda>r. r \<noteq> 10) rs)"

definition glob_match :: "glob_item list \<Rightarrow> bytes \<Rightarrow> bool" where
  "glob_match g path = glob_runes g (runes path)"

section \<open>Rules\<close>

record rule_input =
  ri_id :: bytes
  ri_title :: bytes
  ri_description :: bytes
  ri_severity :: bytes
  ri_languages :: "bytes list"
  ri_globs :: "bytes list"
  ri_match_kind :: bytes
  ri_match_pattern :: bytes
  ri_why :: bytes
  ri_pattern :: bytes
  ri_glob :: bytes
  ri_message :: bytes
  ri_origin :: bytes

record review_rule =
  rr_id :: bytes
  rr_title :: bytes
  rr_why :: bytes
  rr_severity :: bytes
  rr_match_kind :: bytes
  rr_pattern :: bytes
  rr_glob :: bytes
  rr_globs :: "bytes list"
  rr_message :: bytes
  rr_enabled :: bool
  rr_source :: bytes
  rr_origin :: bytes

record rule_hit =
  rh_key :: bytes
  rh_rule_id :: bytes
  rh_message :: bytes
  rh_title :: bytes
  rh_why :: bytes
  rh_severity :: bytes
  rh_source :: bytes
  rh_origin :: bytes
  rh_path :: bytes
  rh_line :: int
  rh_text :: bytes

text \<open>\<open>^[a-zA-Z0-9][a-zA-Z0-9._-]{0,79}$\<close>\<close>

definition id_char :: "char \<Rightarrow> bool" where
  "id_char c \<longleftrightarrow> ascii_upper c \<or> ascii_lower c \<or> ascii_digit c"

definition valid_rule_id :: "bytes \<Rightarrow> bool" where
  "valid_rule_id s \<longleftrightarrow> s \<noteq> [] \<and> length s \<le> 80 \<and> id_char (hd s)
     \<and> list_all (\<lambda>c. id_char c \<or> c \<in> set ''._-'') (tl s)"

definition normalize_rule :: "unicode \<Rightarrow> rule_input \<Rightarrow> rule_input" where
  "normalize_rule u i =
     i\<lparr>ri_id := trim_space (ri_id i), ri_title := clip (ri_title i) rule_message_max,
       ri_description := clip (ri_description i) rule_message_max, ri_why := clip (ri_why i) rule_message_max,
       ri_severity := to_lower u (trim_space (ri_severity i)),
       ri_match_kind := to_lower u (trim_space (ri_match_kind i)),
       ri_match_pattern := trim_space (ri_match_pattern i)\<rparr>"

definition match_to_pattern :: "rule_input \<Rightarrow> rule_input res" where
  "match_to_pattern i =
     (if ri_match_pattern i \<noteq> [] then
        if ri_pattern i \<noteq> [] then Inl (Msg ''use pattern or match, not both'')
        else if ri_match_kind i = ''text'' \<or> ri_match_kind i = ''block-text''
        then Inr (i\<lparr>ri_pattern := quote_meta (ri_match_pattern i)\<rparr>)
        else if ri_match_kind i \<noteq> ''regex'' \<and> ri_match_kind i \<noteq> ''block-regex''
        then Inl (Msg ''match.kind must be regex, text, block-regex, or block-text'')
        else Inr (i\<lparr>ri_pattern := ri_match_pattern i\<rparr>)
      else if ri_match_kind i \<noteq> [] then Inl (Msg ''match.pattern is required'')
      else Inr i)"

fun trim_globs :: "nat \<Rightarrow> bytes list \<Rightarrow> bytes list res" where
  "trim_globs n [] = Inr []"
| "trim_globs n (g # gs) =
     (let t = trim_space g in
      if length t > rule_glob_max then Inl (MsgNum ''globs[%d] must be at most %d bytes'' [int n, int rule_glob_max])
      else (case trim_globs (Suc n) gs of Inl e \<Rightarrow> Inl e | Inr ts \<Rightarrow> Inr (t # ts)))"

definition default_rule :: "rule_input \<Rightarrow> rule_input" where
  "default_rule i =
     (let i = i\<lparr>ri_title := (if ri_title i = [] then ri_message i else ri_title i),
                ri_why := (if ri_why i = [] then ri_description i else ri_why i)\<rparr>
      in if ri_globs i = [] \<and> ri_glob i \<noteq> [] then i\<lparr>ri_globs := [ri_glob i]\<rparr> else i)"

definition finish_rule :: "rule_input \<Rightarrow> rule_input res" where
  "finish_rule i =
     (let i = i\<lparr>ri_severity := (if ri_severity i = [] then ''warning'' else ri_severity i),
                ri_match_kind := (if ri_match_kind i = [] then ''regex'' else ri_match_kind i)\<rparr> in
      if ri_severity i \<noteq> ''info'' \<and> ri_severity i \<noteq> ''warning'' \<and> ri_severity i \<noteq> ''error''
      then Inl (Msg ''severity must be info, warning, or error'')
      else let i = default_rule i in
        if length (ri_globs i) > 20 then Inl (Msg ''globs must contain at most 20 entries'')
        else (case trim_globs 0 (ri_globs i) of Inl e \<Rightarrow> Inl e | Inr globs \<Rightarrow> Inr (i\<lparr>ri_globs := globs\<rparr>)))"

definition validate_rule :: "unicode \<Rightarrow> compiler \<Rightarrow> rule_input \<Rightarrow> rule_input res" where
  "validate_rule u compile input =
     (case match_to_pattern (normalize_rule u input) of
        Inl e \<Rightarrow> Inl e
      | Inr i \<Rightarrow>
          let i = i\<lparr>ri_pattern := trim_space (ri_pattern i), ri_glob := trim_space (ri_glob i),
                    ri_message := clip (ri_message i) rule_message_max, ri_origin := clip (ri_origin i) rule_glob_max\<rparr> in
          if ri_pattern i = [] \<or> length (ri_pattern i) > rule_pattern_max
          then Inl (MsgNum ''pattern must be between 1 and %d bytes'' [int rule_pattern_max])
          else (case compile (ri_pattern i) of
            Inl e \<Rightarrow> Inl (Wrapped ''pattern: %w'' [] e)
          | Inr re \<Rightarrow>
              if re [] \<noteq> None then Inl (Msg ''pattern matches every line'')
              else if length (ri_glob i) > rule_glob_max
              then Inl (MsgNum ''glob must be at most %d bytes'' [int rule_glob_max])
              else if ri_message i = [] then Inl (Msg ''rule needs a message'')
              else if ri_id i \<noteq> [] \<and> \<not> valid_rule_id (ri_id i)
              then Inl (Msg ''id must contain only letters, numbers, dot, underscore, or dash'')
              else finish_rule i))"

definition team_rule :: "bytes \<Rightarrow> rule_input \<Rightarrow> review_rule" where
  "team_rule rule_id i =
     \<lparr>rr_id = rule_id, rr_title = ri_title i, rr_why = ri_why i, rr_severity = ri_severity i,
      rr_match_kind = ri_match_kind i, rr_pattern = ri_pattern i, rr_glob = ri_glob i, rr_globs = ri_globs i,
      rr_message = ri_message i, rr_enabled = True, rr_source = ''team'', rr_origin = ri_origin i\<rparr>"

fun team_rules :: "unicode \<Rightarrow> compiler \<Rightarrow> nat \<Rightarrow> bytes set \<Rightarrow> rule_input list \<Rightarrow> review_rule list \<times> go_error option" where
  "team_rules u compile n seen [] = ([], None)"
| "team_rules u compile n seen (input # inputs) =
     (case validate_rule u compile input of
        Inl e \<Rightarrow> ([], Some (Wrapped (rule_team_file @ '' rule %d: %w'') [int n + 1] e))
      | Inr i \<Rightarrow>
          let rule_id = (if ri_id i = [] then ''team-'' @ dec_nat (n + 1) else ri_id i) in
          if rule_id \<in> seen
          then ([], Some (MsgStr (rule_team_file @ '' rule '' @ dec_nat (n + 1) @ '': duplicate id %q'') rule_id))
          else (case team_rules u compile (Suc n) (insert rule_id seen) inputs of
                  (rules, err) \<Rightarrow> (team_rule rule_id i # rules, err)))"

definition parse_team_rules ::
    "unicode \<Rightarrow> compiler \<Rightarrow> (bytes \<Rightarrow> (int \<times> rule_input list) res) \<Rightarrow> bytes \<Rightarrow> review_rule list \<times> go_error option" where
  "parse_team_rules u compile decode body =
     (case decode body of
        Inl e \<Rightarrow> ([], Some (Wrapped (rule_team_file @ '': %w'') [] e))
      | Inr (version, inputs) \<Rightarrow>
          if version \<noteq> 0 \<and> version \<noteq> 1
          then ([], Some (MsgNum (rule_team_file @ '': unsupported version %d'') [version]))
          else team_rules u compile 0 {} inputs)"

definition rule_hit_key :: "(bytes \<Rightarrow> bytes) \<Rightarrow> bytes \<Rightarrow> bytes \<Rightarrow> bytes \<Rightarrow> bytes" where
  "rule_hit_key sha rule_id path text =
     rule_id @ '':'' @ path @ '':'' @ hex_encode (take 8 (sha (trim_space text)))"

section \<open>The validation command\<close>

record rule_validation =
  rv_valid :: bool
  rv_file :: bytes
  rv_rules :: nat
  rv_info :: nat
  rv_warnings :: nat
  rv_errors :: nat

fun count_severities :: "review_rule list \<Rightarrow> rule_validation \<Rightarrow> rule_validation" where
  "count_severities [] v = v"
| "count_severities (r # rs) v =
     count_severities rs
       (if rr_severity r = ''error'' then v\<lparr>rv_errors := Suc (rv_errors v)\<rparr>
        else if rr_severity r = ''info'' then v\<lparr>rv_info := Suc (rv_info v)\<rparr>
        else v\<lparr>rv_warnings := Suc (rv_warnings v)\<rparr>)"

definition validate_rules_path ::
    "unicode \<Rightarrow> compiler \<Rightarrow> (bytes \<Rightarrow> (int \<times> rule_input list) res) \<Rightarrow> (bytes \<Rightarrow> bytes res) \<Rightarrow> (bytes \<Rightarrow> bytes res)
     \<Rightarrow> bytes \<Rightarrow> rule_validation res" where
  "validate_rules_path u compile decode absolute read_file path =
     (case absolute path of
        Inl e \<Rightarrow> Inl (Wrapped ''resolve rules file: %w'' [] e)
      | Inr full \<Rightarrow>
     (case read_file full of
        Inl e \<Rightarrow> Inl (Wrapped (''read rules file '' @ path @ '': %w'') [] e)
      | Inr body \<Rightarrow>
     (case parse_team_rules u compile decode body of
        (rules, Some e) \<Rightarrow> Inl e
      | (rules, None) \<Rightarrow> Inr (count_severities rules
          \<lparr>rv_valid = True, rv_file = path, rv_rules = length rules, rv_info = 0, rv_warnings = 0, rv_errors = 0\<rparr>))))"

text \<open>What the command prints, \<open>encode\<close> being the JSON of the summary.\<close>

definition validate_rules_output :: "(rule_validation \<Rightarrow> bytes res) \<Rightarrow> bool \<Rightarrow> rule_validation \<Rightarrow> bytes res" where
  "validate_rules_output encode json v =
     (if json then
        (case encode v of Inl e \<Rightarrow> Inl (Wrapped ''encode validation summary: %w'' [] e) | Inr b \<Rightarrow> Inr (b @ newline))
      else Inr (rv_file v @ '' is valid: '' @ dec_nat (rv_rules v) @ '' rules ('' @ dec_nat (rv_errors v) @ '' error, ''
             @ dec_nat (rv_warnings v) @ '' warning, '' @ dec_nat (rv_info v) @ '' info)'' @ newline))"

section \<open>What an accepted rule is\<close>

definition rule_ok :: "compiler \<Rightarrow> review_rule \<Rightarrow> bool" where
  "rule_ok compile r \<longleftrightarrow>
     (\<exists>re. compile (rr_pattern r) = Inr re \<and> re [] = None) \<and> rr_pattern r \<noteq> [] \<and> length (rr_pattern r) \<le> 300
     \<and> rr_message r \<noteq> [] \<and> length (rr_message r) \<le> 403 \<and> rr_title r \<noteq> [] \<and> length (rr_title r) \<le> 403
     \<and> rr_severity r \<in> {''info'', ''warning'', ''error''} \<and> length (rr_globs r) \<le> 20
     \<and> (\<forall>g \<in> set (rr_globs r). length g \<le> 200) \<and> rr_enabled r \<and> rr_source r = ''team''"

lemma length_strip_front: "length (strip_front encs s) \<le> length s"
proof (induction encs s rule: strip_front.induct)
  case (1 encs s)
  show ?case
  proof (cases "strip_width encs s = 0")
    case True
    then show ?thesis by (simp add: strip_front.simps [of encs s])
  next
    case False
    then show ?thesis
      using le_trans [OF "1.IH" [OF False]] by (simp add: strip_front.simps [of encs s])
  qed
qed

lemma if_Inl_eq_Inr: "(if b then Inl e else k) = Inr x \<longleftrightarrow> \<not> b \<and> k = Inr x"
  by simp

lemma case_Inl_eq_Inr: "(case s of Inl e \<Rightarrow> Inl (f e) | Inr y \<Rightarrow> k y) = Inr x \<longleftrightarrow> (\<exists>y. s = Inr y \<and> k y = Inr x)"
  by (cases s) simp_all

lemma length_trim_space: "length (trim_space s) \<le> length s"
  using length_strip_front [of space_encodings s]
    length_strip_front [of "map rev space_encodings" "rev (strip_front space_encodings s)"]
  by (simp add: trim_space_def)

lemma length_clip: "length (clip s limit) \<le> limit + 3"
  using length_trim_space [of "take limit (trim_space s)"] by (auto simp: clip_def Let_def ellipsis_def)

lemma trim_globs_ok: "trim_globs n gs = Inr ts \<Longrightarrow> length ts = length gs \<and> (\<forall>t \<in> set ts. length t \<le> rule_glob_max)"
  by (induction n gs arbitrary: ts rule: trim_globs.induct) (auto simp: Let_def split: if_splits sum.splits)

lemma finish_rule_ok:
  assumes "finish_rule i = Inr j"
  shows "ri_id j = ri_id i \<and> ri_pattern j = ri_pattern i \<and> ri_message j = ri_message i
    \<and> ri_title j = (if ri_title i = [] then ri_message i else ri_title i)
    \<and> ri_severity j \<in> {''info'', ''warning'', ''error''} \<and> length (ri_globs j) \<le> 20
    \<and> (\<forall>g \<in> set (ri_globs j). length g \<le> 200)"
proof -
  define k where "k = i\<lparr>ri_severity := (if ri_severity i = [] then ''warning'' else ri_severity i),
    ri_match_kind := (if ri_match_kind i = [] then ''regex'' else ri_match_kind i)\<rparr>"
  obtain globs where *: "ri_severity k \<in> {''info'', ''warning'', ''error''}" "length (ri_globs (default_rule k)) \<le> 20"
      "trim_globs 0 (ri_globs (default_rule k)) = Inr globs" "j = default_rule k\<lparr>ri_globs := globs\<rparr>"
    using assms unfolding finish_rule_def k_def [symmetric] Let_def if_Inl_eq_Inr case_Inl_eq_Inr by auto
  have "ri_id k = ri_id i" "ri_pattern k = ri_pattern i" "ri_message k = ri_message i" "ri_title k = ri_title i"
    by (simp_all add: k_def)
  then show ?thesis
    using *(1,2,4) trim_globs_ok [OF *(3)] by (simp add: default_rule_def Let_def rule_glob_max_def)
qed

lemma validate_rule_ok:
  assumes "validate_rule u compile input = Inr i"
  shows "rule_ok compile (team_rule rule_id i) \<and> (ri_id i = [] \<or> valid_rule_id (ri_id i))"
proof -
  obtain m where m: "match_to_pattern (normalize_rule u input) = Inr m"
    using assms by (auto simp: validate_rule_def split: sum.splits)
  define k where "k = m\<lparr>ri_pattern := trim_space (ri_pattern m), ri_glob := trim_space (ri_glob m),
    ri_message := clip (ri_message m) rule_message_max, ri_origin := clip (ri_origin m) rule_glob_max\<rparr>"
  have title: "length (ri_title k) \<le> 403"
    using m length_clip [of "ri_title input" 400]
    by (auto simp: k_def match_to_pattern_def normalize_rule_def rule_message_max_def split: if_splits)
  have message: "length (ri_message k) \<le> 403"
    using length_clip [of "ri_message m" 400] by (simp add: k_def rule_message_max_def)
  obtain re where *: "compile (ri_pattern k) = Inr re" "re [] = None" "ri_pattern k \<noteq> []"
      "length (ri_pattern k) \<le> 300" "ri_message k \<noteq> []" "ri_id k = [] \<or> valid_rule_id (ri_id k)" "finish_rule k = Inr i"
    using assms unfolding validate_rule_def m Let_def sum.case k_def [symmetric] if_Inl_eq_Inr case_Inl_eq_Inr
    by (auto simp: rule_pattern_max_def simp del: not_None_eq)
  show ?thesis
    using *(1-6) finish_rule_ok [OF *(7)] title message by (auto simp: rule_ok_def team_rule_def)
qed

lemma team_rules_ok:
  assumes "team_rules u compile n seen inputs = (rules, err)"
  shows "list_all (rule_ok compile) rules \<and> distinct (map rr_id rules) \<and> set (map rr_id rules) \<inter> seen = {}
    \<and> (err = None \<longrightarrow> length rules = length inputs)"
  using assms
proof (induction u compile n seen inputs arbitrary: rules rule: team_rules.induct)
  case (2 u compile n seen input inputs)
  show ?case
  proof (cases "validate_rule u compile input")
    case (Inl e)
    then show ?thesis using "2.prems" by auto
  next
    case (Inr i)
    let ?id = "if ri_id i = [] then ''team-'' @ dec_nat (n + 1) else ri_id i"
    show ?thesis
    proof (cases "?id \<in> seen")
      case True
      then show ?thesis using "2.prems" Inr by (auto simp: Let_def)
    next
      case False
      obtain rest where rest: "team_rules u compile (Suc n) (insert ?id seen) inputs = (rest, err)" "rules = team_rule ?id i # rest"
        using "2.prems" Inr False by (auto simp: Let_def split: prod.splits)
      have "rr_id (team_rule ?id i) = ?id" by (simp add: team_rule_def)
      then show ?thesis
        using "2.IH" [OF Inr refl False rest(1)] validate_rule_ok [OF Inr, of ?id] rest(2) False by auto
    qed
  qed
qed auto

text \<open>
  C32: Every team rule the parser returns has a pattern that compiles, is at most 300 bytes long and does
  not match the empty line, a message and a title, a known severity and at most twenty globs of at
  most 200 bytes, and no two have the same id; and when it reports no error, no rule of the file is
  missing.
\<close>

theorem team_rules_well_formed:
  assumes "parse_team_rules u compile decode body = (rules, err)"
  shows "list_all (rule_ok compile) rules \<and> distinct (map rr_id rules)
    \<and> (err = None \<longrightarrow> (\<exists>version inputs. decode body = Inr (version, inputs) \<and> length rules = length inputs))"
  using assms team_rules_ok [of u compile 0 "{}"]
  by (auto simp: parse_team_rules_def split: sum.splits prod.splits if_splits)

definition sample_rule :: rule_input where
  "sample_rule =
     \<lparr>ri_id = [], ri_title = [], ri_description = ''why'', ri_severity = ''Error'', ri_languages = [], ri_globs = [],
      ri_match_kind = ''text'', ri_match_pattern = ''a.b'', ri_why = [], ri_pattern = [], ri_glob = ''*.go'',
      ri_message = ''no dots'', ri_origin = []\<rparr>"

definition sample_pattern :: pattern where
  "sample_pattern s = (if s = [] then None else Some (0, 1))"

lemma lower_Error: "to_lower ascii_tables ''Error'' = ''error''" by (simp add: to_lower_def runes_ascii ascii_tables_def encode_rune_def char_of_def bit_0)
lemma quote_a_b: "quote_meta ''a.b'' = [CHR ''a'', CHR 0x5C, CHR ''.'', CHR ''b'']" by code_simp
lemma lower_text: "to_lower ascii_tables ''text'' = ''text''" by (simp add: to_lower_def runes_ascii ascii_tables_def encode_rune_def char_of_def bit_0)
lemma lower_Nil: "to_lower ascii_tables [] = []" by (simp add: to_lower_def runes_ascii ascii_tables_def encode_rune_def char_of_def bit_0)
lemma sample_rules_parse:
  "parse_team_rules ascii_tables (\<lambda>p. Inr sample_pattern) (\<lambda>b. Inr (1, [sample_rule])) [] =
   ([\<lparr>rr_id = ''team-1'', rr_title = ''no dots'', rr_why = ''why'', rr_severity = ''error'', rr_match_kind = ''text'',
      rr_pattern = [CHR ''a'', CHR 0x5C, CHR ''.'', CHR ''b''], rr_glob = ''*.go'', rr_globs = [''*.go''],
      rr_message = ''no dots'', rr_enabled = True, rr_source = ''team'', rr_origin = []\<rparr>], None)"
  by (simp add: parse_team_rules_def validate_rule_def finish_rule_def match_to_pattern_def normalize_rule_def default_rule_def sample_rule_def
    clip_def trim_space_visible visible_def lower_Error quote_a_b lower_text lower_Nil sample_pattern_def rule_pattern_max_def rule_glob_max_def rule_message_max_def
    team_rule_def rule_team_file_def dec_nat.simps char_of_def bit_0)

theorem team_rules_well_formed_witness:
  "\<exists>rules. parse_team_rules ascii_tables (\<lambda>p. Inr sample_pattern) (\<lambda>b. Inr (1, [sample_rule])) [] = (rules, None)
     \<and> list_all (rule_ok (\<lambda>p. Inr sample_pattern)) rules \<and> rules \<noteq> []"
  using team_rules_well_formed [OF sample_rules_parse] sample_rules_parse by auto

section \<open>What a glob without wildcards matches\<close>

definition literal_char :: "char \<Rightarrow> bool" where
  "literal_char c \<longleftrightarrow> byte c < 128 \<and> c \<noteq> CHR ''*'' \<and> c \<noteq> CHR ''?'' \<and> c \<noteq> CHR ''/''"

lemma glob_items_literal: "list_all literal_char g \<Longrightarrow> glob_items g = map (Glob_Rune \<circ> of_char) g"
  by (induction g) (auto simp: literal_char_def has_prefix_iff)

lemma glob_items_dirs:
  "list_all literal_char g \<Longrightarrow> glob_items (''**/'' @ g) = Glob_Dirs # map (Glob_Rune \<circ> of_char) g"
  using has_prefix_iff [of "''**/''" "''**/'' @ g"] by (simp add: glob_items_literal)

lemma glob_runes_literal: "glob_runes (map (Glob_Rune \<circ> of_char) g) rs \<longleftrightarrow> rs = map of_char g"
proof (induction g arbitrary: rs)
  case (Cons c g)
  then show ?case by (cases rs) auto
qed simp

lemma map_of_char_eq: "(map of_char a :: nat list) = map of_char b \<longleftrightarrow> a = b"
  by (simp add: inj_map_eq_map inj_on_def)

lemma of_char_slash: "(of_char c :: nat) = 47 \<longleftrightarrow> c = CHR ''/''"
  using of_char_eq_iff [of c "CHR ''/''", where 'a = nat] by simp

lemma of_char_newline: "(of_char c :: nat) = 10 \<longleftrightarrow> c = CHR 0x0A"
  using of_char_eq_iff [of c "CHR 0x0A", where 'a = nat] by simp

lemma glob_dirs_ascii:
  assumes "list_all (\<lambda>c. byte c < 128) path"
  shows "glob_match (Glob_Dirs # map (Glob_Rune \<circ> of_char) g) path \<longleftrightarrow>
      path = g \<or> (\<exists>k < length path. path ! k = CHR ''/'' \<and> CHR 0x0A \<notin> set (take k path) \<and> drop (Suc k) path = g)"
proof -
  have ok: "list_all (\<lambda>r. r \<noteq> 10) (take k (map of_char path :: nat list)) \<longleftrightarrow> CHR 0x0A \<notin> set (take k path)" for k
    by (auto simp: list_all_iff take_map of_char_newline)
  have drop: "drop (Suc k) (map of_char path :: nat list) = map of_char g \<longleftrightarrow> drop (Suc k) path = g" for k
    by (simp add: drop_map map_of_char_eq)
  show ?thesis
    unfolding glob_match_def runes_ascii [OF assms] glob_runes.simps glob_runes_literal map_of_char_eq splits_def
      list_ex_iff ok drop
    by (auto simp: of_char_slash)
qed

text \<open>
  A glob of plain ASCII characters with neither wildcard nor slash selects exactly the files of
  that name, in whatever directory they are, as long as no directory's name holds a newline.
\<close>

theorem literal_glob_matches_base_name:
  assumes "list_all literal_char g" "trim_space g = g" "g \<noteq> []" "list_all (\<lambda>c. byte c < 128) path"
  shows "\<exists>items. glob_regexp g = Some items
    \<and> glob_match items path = (path = g \<or> (\<exists>dirs. path = dirs @ ''/'' @ g \<and> CHR 0x0A \<notin> set dirs))"
proof -
  have "CHR ''/'' \<notin> set g" using assms(1) by (auto simp: list_all_iff literal_char_def)
  then have items: "glob_regexp g = Some (Glob_Dirs # map (Glob_Rune \<circ> of_char) g)"
    using assms glob_items_dirs [OF assms(1)] by (simp add: glob_regexp_def)
  have "(\<exists>k < length path. path ! k = CHR ''/'' \<and> CHR 0x0A \<notin> set (take k path) \<and> drop (Suc k) path = g)
      \<longleftrightarrow> (\<exists>dirs. path = dirs @ ''/'' @ g \<and> CHR 0x0A \<notin> set dirs)" (is "?l \<longleftrightarrow> ?r")
  proof
    assume ?l
    then obtain k where k: "k < length path" "path ! k = CHR ''/''" "CHR 0x0A \<notin> set (take k path)" "drop (Suc k) path = g"
      by blast
    then show ?r using id_take_nth_drop [OF k(1)] by (intro exI [of _ "take k path"]) simp
  next
    assume ?r
    then obtain dirs where "path = dirs @ ''/'' @ g" "CHR 0x0A \<notin> set dirs" by blast
    then show ?l by (intro exI [of _ "length dirs"]) simp
  qed
  then show ?thesis using items glob_dirs_ascii [OF assms(4), of g] by simp
qed

theorem literal_glob_matches_base_name_witness:
  "\<exists>items. glob_regexp ''go.mod'' = Some items \<and> glob_match items ''cmd/go.mod''"
  using literal_glob_matches_base_name [of "''go.mod''" "''cmd/go.mod''"]
  by (auto simp: literal_char_def trim_space_visible visible_def)

text \<open>
  A glob with a rune outside ASCII matches nothing: its bytes are quoted as runes of their own, and
  the path is matched rune by rune.
\<close>

lemma non_ascii_glob_misses_its_file:
  "glob_items [CHR 0xC3, CHR 0xA9] = [Glob_Rune 195, Glob_Rune 169] \<and> runes [CHR 0xC3, CHR 0xA9] = [233]
   \<and> \<not> glob_match (glob_items [CHR 0xC3, CHR 0xA9]) [CHR 0xC3, CHR 0xA9]"
proof -
  have r: "runes [CHR 0xC3, CHR 0xA9] = [233]"
    by (subst runes.simps) (simp add: decode_tail_def second_range_def cont_in_def bad_rune_def Let_def)
  then show ?thesis by (simp add: glob_match_def has_prefix_iff)
qed

end
