(* ===== verification/Diffs.thy ===== *)
theory Diffs
  imports Rules "HOL-Library.AList"
begin

text \<open>
  Reading unified diffs for the static report: \<open>staticDiffPath\<close>, \<open>staticDiffStatus\<close>,
  \<open>parseStaticReviewHunks\<close>, \<open>addedLinesByPath\<close> and \<open>staticContextBlocksByPath\<close> of \<open>export.go\<close>. A Go map
  is an association list with one entry per key. \<open>sha\<close> is SHA-256.
\<close>

section \<open>Splitting\<close>

text \<open>\<open>strings.Split\<close> at a separator that is not empty.\<close>

fun cut_str :: "bytes \<Rightarrow> bytes \<Rightarrow> (bytes \<times> bytes) option" where
  "cut_str sep [] = None"
| "cut_str sep (c # cs) =
     (if has_prefix sep (c # cs) then Some ([], drop (length sep) (c # cs))
      else map_option (\<lambda>(a, b). (c # a, b)) (cut_str sep cs))"

lemma cut_str_Some: "cut_str sep s = Some (a, b) \<Longrightarrow> s = a @ sep @ b"
proof (induction sep s arbitrary: a b rule: cut_str.induct)
  case (2 sep c cs)
  show ?case
  proof (cases "has_prefix sep (c # cs)")
    case True
    then show ?thesis using "2.prems" by (auto simp: has_prefix_iff)
  next
    case False
    then show ?thesis using "2.prems" "2.IH" [OF False] by auto
  qed
qed simp

function split_str :: "bytes \<Rightarrow> bytes \<Rightarrow> bytes list" where
  "split_str sep s =
     (case (if sep = [] then None else cut_str sep s) of None \<Rightarrow> [s] | Some (a, b) \<Rightarrow> a # split_str sep b)"
  by pat_completeness auto
termination
proof (relation "measure (\<lambda>(sep, s). length s)", goal_cases)
  case (2 sep s p a b)
  then have "cut_str sep s = Some (a, b)" "sep \<noteq> []" by (auto split: if_splits)
  then show ?case by (auto dest: cut_str_Some)
qed simp

declare split_str.simps [simp del]

section \<open>Files of a diff\<close>

abbreviation lines_of :: "bytes \<Rightarrow> bytes list" where
  "lines_of \<equiv> split_on (CHR 0x0A)"

definition git_header :: bytes where "git_header = ''diff --git ''"

text \<open>The loop the report's functions share: the non-blank blocks, each with its header put back.\<close>

definition diff_blocks :: "bytes \<Rightarrow> bytes list" where
  "diff_blocks diff = map ((@) git_header) (filter (\<lambda>b. \<not> blank b) (split_str git_header diff))"

fun path_of_lines :: "bytes \<Rightarrow> bytes list \<Rightarrow> bytes" where
  "path_of_lines deleted [] = deleted"
| "path_of_lines deleted (l # ls) =
     (if has_prefix ''+++ b/'' l then trim_prefix ''+++ b/'' l
      else path_of_lines (if has_prefix ''--- a/'' l then trim_prefix ''--- a/'' l else deleted) ls)"

definition static_diff_path :: "bytes \<Rightarrow> bytes" where
  "static_diff_path diff = path_of_lines [] (lines_of diff)"

fun status_of_lines :: "bytes list \<Rightarrow> bytes" where
  "status_of_lines [] = ''M''"
| "status_of_lines (l # ls) =
     (if has_prefix ''new file mode'' l then ''A''
      else if has_prefix ''deleted file mode'' l then ''D'' else status_of_lines ls)"

definition static_diff_status :: "bytes \<Rightarrow> bytes" where
  "static_diff_status diff = status_of_lines (lines_of diff)"

section \<open>Hunk headers\<close>

text \<open>\<open>\d+(?:,\d+)?\<close>: the first number and what follows.\<close>

definition header_range :: "bytes \<Rightarrow> (bytes \<times> bytes) option" where
  "header_range s =
     (let d = takeWhile ascii_digit s; r = dropWhile ascii_digit s; t = drop 1 r in
      if d = [] then None
      else if has_prefix '','' r \<and> takeWhile ascii_digit t \<noteq> [] then Some (d, dropWhile ascii_digit t)
      else Some (d, r))"

text \<open>The two numbers \<open>^@@ -(\d+)(?:,\d+)? \+(\d+)(?:,\d+)? @@\<close> captures.\<close>

definition hunk_header :: "bytes \<Rightarrow> (bytes \<times> bytes) option" where
  "hunk_header s =
     (if \<not> has_prefix ''@@ -'' s then None
      else (case header_range (drop 4 s) of
        None \<Rightarrow> None
      | Some (old, r) \<Rightarrow>
          if \<not> has_prefix '' +'' r then None
          else (case header_range (drop 2 r) of
            None \<Rightarrow> None
          | Some (new, t) \<Rightarrow> if has_prefix '' @@'' t then Some (old, new) else None)))"

text \<open>\<open>strconv.Atoi\<close> of digits with its error ignored: out of range it is the largest \<open>int\<close>.\<close>

definition atoi_digits :: "bytes \<Rightarrow> int" where
  "atoi_digits d = (case digits_value d of None \<Rightarrow> 0 | Some n \<Rightarrow> min n (2 ^ 63 - 1))"

section \<open>Hunks of the report\<close>

datatype line_kind = Context_Line | Added_Line | Removed_Line

record report_line =
  rl_old :: int
  rl_new :: int
  rl_kind :: line_kind
  rl_text :: bytes

record report_hunk =
  rk_id :: bytes
  rk_header :: bytes
  rk_lines :: "report_line list"

text \<open>\<open>current\<close> is always the last of \<open>hunks\<close>.\<close>

record hunk_parser =
  hp_hunks :: "report_hunk list"
  hp_old :: int
  hp_new :: int

definition push_line :: "report_line \<Rightarrow> report_hunk list \<Rightarrow> report_hunk list" where
  "push_line l hs = butlast hs @ [(last hs)\<lparr>rk_lines := rk_lines (last hs) @ [l]\<rparr>]"

definition hunk_step :: "(bytes \<Rightarrow> bytes) \<Rightarrow> bytes \<Rightarrow> bytes \<Rightarrow> hunk_parser \<Rightarrow> hunk_parser" where
  "hunk_step sha path raw p =
     (case hunk_header raw of
        Some (old, new) \<Rightarrow>
          \<lparr>hp_hunks = hp_hunks p @ [\<lparr>rk_id = ''diff-'' @ hex_encode (take 8 (sha (path @ [CHR 0x00] @ raw))),
                                    rk_header = raw, rk_lines = []\<rparr>],
           hp_old = atoi_digits old, hp_new = atoi_digits new\<rparr>
      | None \<Rightarrow>
          if hp_hunks p = [] \<or> raw = [] \<or> hd raw = CHR 0x5C then p
          else if hd raw = CHR '' ''
          then p\<lparr>hp_hunks := push_line \<lparr>rl_old = hp_old p, rl_new = hp_new p, rl_kind = Context_Line, rl_text = tl raw\<rparr> (hp_hunks p),
                 hp_old := wrap64 (hp_old p + 1), hp_new := wrap64 (hp_new p + 1)\<rparr>
          else if hd raw = CHR ''-''
          then p\<lparr>hp_hunks := push_line \<lparr>rl_old = hp_old p, rl_new = 0, rl_kind = Removed_Line, rl_text = tl raw\<rparr> (hp_hunks p),
                 hp_old := wrap64 (hp_old p + 1)\<rparr>
          else if hd raw = CHR ''+''
          then p\<lparr>hp_hunks := push_line \<lparr>rl_old = 0, rl_new = hp_new p, rl_kind = Added_Line, rl_text = tl raw\<rparr> (hp_hunks p),
                 hp_new := wrap64 (hp_new p + 1)\<rparr>
          else p)"

definition parse_hunk_lines :: "(bytes \<Rightarrow> bytes) \<Rightarrow> bytes \<Rightarrow> bytes list \<Rightarrow> hunk_parser \<Rightarrow> hunk_parser" where
  "parse_hunk_lines sha path = fold (hunk_step sha path)"

definition parse_static_hunks :: "(bytes \<Rightarrow> bytes) \<Rightarrow> bytes \<Rightarrow> bytes \<Rightarrow> report_hunk list" where
  "parse_static_hunks sha path diff =
     hp_hunks (parse_hunk_lines sha path (lines_of diff) \<lparr>hp_hunks = [], hp_old = 0, hp_new = 0\<rparr>)"

section \<open>Added lines\<close>

text \<open>The guard of the code tests for two backslashes, since its string is a raw one.\<close>

definition added_step :: "bytes \<Rightarrow> int \<times> (int \<times> bytes) list \<Rightarrow> int \<times> (int \<times> bytes) list" where
  "added_step raw st =
     (case st of (line, added) \<Rightarrow>
      (case hunk_header raw of
         Some (old, new) \<Rightarrow> (atoi_digits new, added)
       | None \<Rightarrow>
           if line = 0 \<or> raw = [] \<or> has_prefix [CHR 0x5C, CHR 0x5C] raw \<or> has_prefix ''+++'' raw \<or> has_prefix ''---'' raw
           then (line, added)
           else if hd raw = CHR ''+'' then (wrap64 (line + 1), AList.update line (tl raw) added)
           else if hd raw = CHR '' '' then (wrap64 (line + 1), added)
           else (line, added)))"

definition added_lines :: "bytes \<Rightarrow> (int \<times> bytes) list" where
  "added_lines block = snd (fold added_step (lines_of block) (0, []))"

text \<open>The review's own files, and blocks with no path, are left out.\<close>

definition reviewed_path :: "bytes \<Rightarrow> bool" where
  "reviewed_path path \<longleftrightarrow> path \<noteq> [] \<and> \<not> has_prefix ''.px1/'' path"

definition added_block :: "bytes \<Rightarrow> (bytes \<times> (int \<times> bytes) list) list \<Rightarrow> (bytes \<times> (int \<times> bytes) list) list" where
  "added_block block out =
     (let path = static_diff_path block in
      if reviewed_path path then AList.update path (added_lines block) out else out)"

definition added_lines_by_path :: "bytes \<Rightarrow> (bytes \<times> (int \<times> bytes) list) list" where
  "added_lines_by_path diff = fold added_block (diff_blocks diff) []"

section \<open>Context of a hit\<close>

record context_line =
  cx_number :: int
  cx_kind :: line_kind
  cx_text :: bytes

type_synonym context_blocks = "context_line list list"

definition flush_context :: "context_line list \<Rightarrow> context_blocks \<Rightarrow> context_blocks" where
  "flush_context ls out = (if ls = [] then out else out @ [ls])"

definition context_step ::
    "bytes \<Rightarrow> int \<times> context_line list \<times> context_blocks \<Rightarrow> int \<times> context_line list \<times> context_blocks" where
  "context_step raw st =
     (case st of (number, ls, out) \<Rightarrow>
      (case hunk_header raw of
         Some (old, new) \<Rightarrow> (atoi_digits new, [], flush_context ls out)
       | None \<Rightarrow>
           if number = 0 \<or> raw = [] \<or> hd raw = CHR 0x5C then st
           else if hd raw = CHR ''+''
           then if has_prefix ''+++'' raw then st
                else (wrap64 (number + 1), ls @ [\<lparr>cx_number = number, cx_kind = Added_Line, cx_text = tl raw\<rparr>], out)
           else if hd raw = CHR ''-''
           then if has_prefix ''---'' raw then st
                else (number, ls @ [\<lparr>cx_number = 0, cx_kind = Removed_Line, cx_text = tl raw\<rparr>], out)
           else if hd raw = CHR '' ''
           then (wrap64 (number + 1), ls @ [\<lparr>cx_number = number, cx_kind = Context_Line, cx_text = tl raw\<rparr>], out)
           else st))"

definition context_of_block :: "bytes \<Rightarrow> context_blocks" where
  "context_of_block block = (case fold context_step (lines_of block) (0, [], []) of (_, ls, out) \<Rightarrow> flush_context ls out)"

fun static_context_blocks :: "bytes \<Rightarrow> bytes list \<Rightarrow> context_blocks" where
  "static_context_blocks path [] = []"
| "static_context_blocks path (b # bs) =
     (if static_diff_path b = path \<and> reviewed_path path then context_of_block b else []) @ static_context_blocks path bs"

definition context_of_hit :: "context_blocks \<Rightarrow> int \<Rightarrow> context_line list" where
  "context_of_hit blocks line =
     (let target = (\<lambda>ls. find (\<lambda>i. cx_kind (ls ! i) = Added_Line \<and> cx_number (ls ! i) = line) [0..<length ls]) in
      case find (\<lambda>ls. target ls \<noteq> None) blocks of
        None \<Rightarrow> []
      | Some ls \<Rightarrow> (case target ls of None \<Rightarrow> []
                   | Some i \<Rightarrow> drop (i - 2) (take (i + 3) ls)))"

section \<open>What the report's hunks hold\<close>

definition diff_line :: "report_line \<Rightarrow> bytes" where
  "diff_line l =
     (case rl_kind l of Context_Line \<Rightarrow> CHR '' '' | Added_Line \<Rightarrow> CHR ''+'' | Removed_Line \<Rightarrow> CHR ''-'') # rl_text l"

definition hunk_text :: "report_hunk \<Rightarrow> bytes list" where
  "hunk_text h = rk_header h # map diff_line (rk_lines h)"

definition diff_body_line :: "bytes \<Rightarrow> bool" where
  "diff_body_line l \<longleftrightarrow> hunk_header l \<noteq> None \<or> (l \<noteq> [] \<and> hd l \<in> set '' +-'')"

lemma hunk_header_head: "hunk_header l = Some p \<Longrightarrow> l \<noteq> [] \<and> hd l = CHR ''@''"
  by (auto simp: hunk_header_def has_prefix_iff split: if_splits)

lemma hunk_text_push: "hs \<noteq> [] \<Longrightarrow> concat (map hunk_text (push_line l hs)) = concat (map hunk_text hs) @ [diff_line l]"
  by (cases hs rule: rev_cases) (simp_all add: push_line_def hunk_text_def)

lemma push_line_nonempty [simp]: "push_line l hs \<noteq> []"
  by (simp add: push_line_def)

lemma hunk_step_text:
  "concat (map hunk_text (hp_hunks (hunk_step sha path raw p))) =
   concat (map hunk_text (hp_hunks p)) @
     (if diff_body_line raw \<and> (hp_hunks p \<noteq> [] \<or> hunk_header raw \<noteq> None) then [raw] else [])"
  and hunk_step_empty: "hp_hunks (hunk_step sha path raw p) = [] \<longleftrightarrow> hp_hunks p = [] \<and> hunk_header raw = None"
  by (cases raw; auto simp: hunk_step_def diff_body_line_def hunk_text_push hunk_text_def diff_line_def
      split: option.splits)+

lemma parse_hunk_lines_text:
  "concat (map hunk_text (hp_hunks (parse_hunk_lines sha path ls p))) =
   concat (map hunk_text (hp_hunks p)) @
     filter diff_body_line (if hp_hunks p = [] then dropWhile (\<lambda>l. hunk_header l = None) ls else ls)"
proof (induction ls arbitrary: p)
  case (Cons l ls)
  have "diff_body_line l" if "hunk_header l \<noteq> None" using that by (simp add: diff_body_line_def)
  then show ?case
    using Cons.IH [of "hunk_step sha path l p"]
    by (simp add: parse_hunk_lines_def hunk_step_text hunk_step_empty)
qed (simp add: parse_hunk_lines_def)

text \<open>
  C15: Reading a file's diff into hunks loses nothing and invents nothing: writing the hunks out again,
  each header followed by its lines with their markers, gives back, in order, every line from the
  first hunk header on that is a header or begins with a space, a plus or a minus.
\<close>

theorem hunks_render_back:
  "concat (map hunk_text (parse_static_hunks sha path diff)) =
   filter diff_body_line (dropWhile (\<lambda>l. hunk_header l = None) (lines_of diff))"
  by (simp add: parse_static_hunks_def parse_hunk_lines_text)

text \<open>The line numbers: how many lines of one side come before a line of its hunk.\<close>

definition old_before :: "report_line list \<Rightarrow> int" where
  "old_before ls = int (length (filter (\<lambda>l. rl_kind l \<noteq> Added_Line) ls))"

definition new_before :: "report_line list \<Rightarrow> int" where
  "new_before ls = int (length (filter (\<lambda>l. rl_kind l \<noteq> Removed_Line) ls))"

definition line_numbered :: "int \<Rightarrow> int \<Rightarrow> report_line list \<Rightarrow> nat \<Rightarrow> bool" where
  "line_numbered old new ls i \<longleftrightarrow>
     rl_old (ls ! i) = (if rl_kind (ls ! i) = Added_Line then 0 else wrap64 (old + old_before (take i ls)))
     \<and> rl_new (ls ! i) = (if rl_kind (ls ! i) = Removed_Line then 0 else wrap64 (new + new_before (take i ls)))"

definition hunk_numbered :: "report_hunk \<Rightarrow> bool" where
  "hunk_numbered h \<longleftrightarrow>
     (case hunk_header (rk_header h) of
        None \<Rightarrow> False
      | Some (old, new) \<Rightarrow>
          list_all (line_numbered (atoi_digits old) (atoi_digits new) (rk_lines h)) [0..<length (rk_lines h)])"

definition parser_numbered :: "hunk_parser \<Rightarrow> bool" where
  "parser_numbered p \<longleftrightarrow>
     list_all hunk_numbered (hp_hunks p)
     \<and> (hp_hunks p \<noteq> [] \<longrightarrow> (\<exists>old new. hunk_header (rk_header (last (hp_hunks p))) = Some (old, new)
         \<and> hp_old p = wrap64 (atoi_digits old + old_before (rk_lines (last (hp_hunks p))))
         \<and> hp_new p = wrap64 (atoi_digits new + new_before (rk_lines (last (hp_hunks p))))))"

lemma wrap64_add: "wrap64 (wrap64 a + b) = wrap64 (a + b)"
proof -
  have "(((a + 2 ^ 63) mod 2 ^ 64 - 2 ^ 63) + b + 2 ^ 63) mod 2 ^ 64 = (a + b + 2 ^ 63) mod (2 ^ 64 :: int)"
    by (simp add: algebra_simps mod_simps)
  then show ?thesis by (simp add: wrap64_def)
qed

lemma wrap64_add_left: "wrap64 (b + wrap64 a) = wrap64 (b + a)"
  using wrap64_add [of a b] by (simp add: add.commute)

lemma digits_value_nonneg: "digits_value d = Some n \<Longrightarrow> 0 \<le> n"
proof -
  assume d: "digits_value d = Some n"
  then have all: "\<forall>c \<in> set d. 48 \<le> (of_char c :: nat)"
    by (auto simp: digits_value_def list_all_iff ascii_digit_def less_eq_char_def split: if_splits)
  show "0 \<le> n" using d digits_value_nat [OF all, of 0] by (auto simp: digits_value_def split: if_splits)
qed

lemma atoi_digits_range: "0 \<le> atoi_digits d \<and> atoi_digits d < 2 ^ 63"
  by (auto simp: atoi_digits_def dest: digits_value_nonneg split: option.splits)

lemma wrap64_atoi [simp]: "wrap64 (atoi_digits d) = atoi_digits d"
  using atoi_digits_range [of d] by (intro wrap64_small) simp_all

lemma line_numbered_append: "i < length ls \<Longrightarrow> line_numbered old new (ls @ ms) i \<longleftrightarrow> line_numbered old new ls i"
  by (simp add: line_numbered_def nth_append)

lemma line_numbered_last:
  "line_numbered old new (ls @ [l]) (length ls) \<longleftrightarrow>
     rl_old l = (if rl_kind l = Added_Line then 0 else wrap64 (old + old_before ls))
     \<and> rl_new l = (if rl_kind l = Removed_Line then 0 else wrap64 (new + new_before ls))"
  by (simp add: line_numbered_def)

lemma hunk_numbered_push:
  assumes "list_all hunk_numbered hs" "hs \<noteq> []" "hunk_header (rk_header (last hs)) = Some (old, new)"
    "rl_old l = (if rl_kind l = Added_Line then 0 else wrap64 (atoi_digits old + old_before (rk_lines (last hs))))"
    "rl_new l = (if rl_kind l = Removed_Line then 0 else wrap64 (atoi_digits new + new_before (rk_lines (last hs))))"
  shows "list_all hunk_numbered (push_line l hs)"
proof -
  obtain ks h where hs: "hs = ks @ [h]" using assms(2) by (cases hs rule: rev_cases) auto
  have "list_all (line_numbered (atoi_digits old) (atoi_digits new) (rk_lines h)) [0..<length (rk_lines h)]"
    using assms(1,3) hs by (simp add: hunk_numbered_def)
  then have "list_all (line_numbered (atoi_digits old) (atoi_digits new) (rk_lines h @ [l])) [0..<length (rk_lines h)]"
    by (simp add: list_all_iff line_numbered_append)
  then show ?thesis
    using assms hs by (simp add: push_line_def hunk_numbered_def line_numbered_last)
qed

lemma hunk_step_numbered: "parser_numbered p \<Longrightarrow> parser_numbered (hunk_step sha path raw p)"
proof (cases "hunk_header raw")
  case (Some on)
  assume "parser_numbered p"
  then show ?thesis
    using Some by (cases on) (simp add: parser_numbered_def hunk_step_def hunk_numbered_def old_before_def new_before_def)
next
  case None
  assume p: "parser_numbered p"
  show ?thesis
  proof (cases "hp_hunks p = [] \<or> raw = [] \<or> hd raw \<notin> set '' +-''")
    case True
    then show ?thesis using p None by (auto simp: hunk_step_def)
  next
    case False
    obtain old new where n: "hunk_header (rk_header (last (hp_hunks p))) = Some (old, new)"
        "hp_old p = wrap64 (atoi_digits old + old_before (rk_lines (last (hp_hunks p))))"
        "hp_new p = wrap64 (atoi_digits new + new_before (rk_lines (last (hp_hunks p))))"
      using p False by (auto simp: parser_numbered_def)
    have all: "list_all hunk_numbered (hp_hunks p)" using p by (simp add: parser_numbered_def)
    have last: "last (push_line l (hp_hunks p)) = (last (hp_hunks p))\<lparr>rk_lines := rk_lines (last (hp_hunks p)) @ [l]\<rparr>" for l
      by (simp add: push_line_def)
    show ?thesis
      using False None n hunk_numbered_push [OF all _ n(1)]
      by (auto simp: hunk_step_def parser_numbered_def last old_before_def new_before_def wrap64_add_left algebra_simps)
  qed
qed

text \<open>
  C16: Every line of every hunk of the report carries its own line numbers: the old side's start of the
  hunk plus the number of context and removed lines before it, the new side's plus the number of
  context and added lines before it, and no number on the side the line does not exist on.
\<close>

theorem hunk_lines_numbered: "list_all hunk_numbered (parse_static_hunks sha path diff)"
proof -
  have "parser_numbered (fold (hunk_step sha path) ls p)" if "parser_numbered p" for ls p
    using that by (induction ls arbitrary: p) (simp_all add: hunk_step_numbered)
  from this [of "\<lparr>hp_hunks = [], hp_old = 0, hp_new = 0\<rparr>" "lines_of diff"] show ?thesis
    by (simp add: parse_static_hunks_def parse_hunk_lines_def parser_numbered_def)
qed

section \<open>The two readings of a diff\<close>

text \<open>The lines added according to the hunks of the report.\<close>

definition added_in_hunks :: "report_hunk list \<Rightarrow> (int \<times> bytes) list" where
  "added_in_hunks hs =
     concat (map (\<lambda>h. map (\<lambda>l. (rl_new l, rl_text l)) (filter (\<lambda>l. rl_kind l = Added_Line) (rk_lines h))) hs)"

text \<open>A body line no guard of \<open>addedLinesByPath\<close> skips, and a hunk that starts inside the file.\<close>

definition readable_line :: "nat \<Rightarrow> bytes \<Rightarrow> bool" where
  "readable_line n l \<longleftrightarrow> \<not> has_prefix ''+++'' l
     \<and> (case hunk_header l of None \<Rightarrow> True | Some (old, new) \<Rightarrow> 0 < atoi_digits new \<and> atoi_digits new + int n < 2 ^ 63)"

definition same_reading :: "nat \<Rightarrow> hunk_parser \<Rightarrow> int \<times> (int \<times> bytes) list \<Rightarrow> bool" where
  "same_reading n p st \<longleftrightarrow> 0 < hp_new p \<and> hp_new p + int n < 2 ^ 63 \<and> fst st = hp_new p \<and> hp_hunks p \<noteq> []
     \<and> map_of (snd st) = map_of (rev (added_in_hunks (hp_hunks p)))"

lemma added_in_hunks_push:
  "hs \<noteq> [] \<Longrightarrow> added_in_hunks (push_line l hs) =
     added_in_hunks hs @ (if rl_kind l = Added_Line then [(rl_new l, rl_text l)] else [])"
  by (cases hs rule: rev_cases) (simp_all add: push_line_def added_in_hunks_def)

lemma map_of_snoc_rev: "map_of (rev (xs @ [(k, v)])) = (map_of (rev xs))(k \<mapsto> v)"
  by simp

lemma step_same_reading:
  assumes "same_reading (Suc n) p st" "readable_line n l"
  shows "same_reading n (hunk_step sha path l p) (added_step l st)"
proof (cases "hunk_header l")
  case (Some on)
  then show ?thesis
    using assms by (cases on; cases st) (simp add: same_reading_def readable_line_def hunk_step_def added_step_def added_in_hunks_def)
next
  case None
  obtain line added where st: "st = (line, added)" by (cases st)
  have p: "0 < hp_new p" "hp_new p + int n + 1 < 2 ^ 63" "line = hp_new p" "hp_hunks p \<noteq> []"
      "map_of added = map_of (rev (added_in_hunks (hp_hunks p)))"
    using assms(1) st by (simp_all add: same_reading_def)
  have w: "wrap64 (hp_new p + 1) = hp_new p + 1" using p(1,2) by (intro wrap64_small) simp_all
  have plain: "\<not> has_prefix ''+++'' l" using assms(2) by (simp add: readable_line_def)
  consider "l = [] \<or> hd l \<notin> set '' +-''" | "l \<noteq> []" "hd l = CHR '' ''" | "l \<noteq> []" "hd l = CHR ''-''" | "l \<noteq> []" "hd l = CHR ''+''"
    by auto
  then show ?thesis
  proof cases
    case 1
    then show ?thesis
      using p None st by (auto simp: same_reading_def hunk_step_def added_step_def)
  next
    case 2
    then have "\<not> has_prefix ''---'' l" "\<not> has_prefix [CHR 0x5C, CHR 0x5C] l" by (auto simp: has_prefix_iff)
    then show ?thesis
      using 2 p None plain st w by (simp add: same_reading_def hunk_step_def added_step_def added_in_hunks_push)
  next
    case 3
    then show ?thesis
      using p None plain st by (simp add: same_reading_def hunk_step_def added_step_def added_in_hunks_push)
  next
    case 4
    then have "\<not> has_prefix ''---'' l" "\<not> has_prefix [CHR 0x5C, CHR 0x5C] l" by (auto simp: has_prefix_iff)
    then show ?thesis
      using 4 p None plain st w by (simp add: same_reading_def hunk_step_def added_step_def added_in_hunks_push update_conv')
  qed
qed

lemma fold_same_reading:
  "same_reading (length ls + n) p st \<Longrightarrow> list_all (readable_line (length ls + n)) ls \<Longrightarrow>
   same_reading n (fold (hunk_step sha path) ls p) (fold added_step ls st)"
proof (induction ls arbitrary: p st)
  case (Cons l ls)
  have weak: "readable_line m x" if "readable_line (Suc m) x" for m x
    using that by (auto simp: readable_line_def split: option.splits)
  have "same_reading (length ls + n) (hunk_step sha path l p) (added_step l st)"
    using Cons.prems weak by (intro step_same_reading) simp_all
  moreover have "list_all (readable_line (length ls + n)) ls" using Cons.prems(2) weak by (simp add: list_all_iff)
  ultimately show ?case using Cons.IH by simp
qed simp

lemma fold_dropWhile: "(\<And>l. P l \<Longrightarrow> f l x = x) \<Longrightarrow> fold f ls x = fold f (dropWhile P ls) x"
  by (induction ls) auto

lemma before_first_hunk:
  "hp_hunks p = [] \<Longrightarrow> fold (hunk_step sha path) ls p = fold (hunk_step sha path) (dropWhile (\<lambda>l. hunk_header l = None) ls) p"
  "fold added_step ls (0, added) = fold added_step (dropWhile (\<lambda>l. hunk_header l = None) ls) (0, added)"
  by (rule fold_dropWhile; simp add: hunk_step_def added_step_def)+

text \<open>
  C29: The lines rules are matched against are those the report shows as added, under the same numbers,
  as long as no line of a hunk starts with three plus signs, each hunk starts at a line from 1 on, and
  the numbers of its lines stay below the largest 64-bit integer.
\<close>

theorem added_lines_agree_with_hunks:
  assumes "list_all (readable_line (length (lines_of block))) (dropWhile (\<lambda>l. hunk_header l = None) (lines_of block))"
  shows "map_of (added_lines block) = map_of (rev (added_in_hunks (parse_static_hunks sha path block)))"
proof -
  let ?p = "\<lparr>hp_hunks = [], hp_old = 0, hp_new = 0\<rparr>"
  show ?thesis
  proof (cases "dropWhile (\<lambda>l. hunk_header l = None) (lines_of block)")
    case Nil
    then show ?thesis
      using before_first_hunk(1) [of ?p sha path "lines_of block"] before_first_hunk(2) [of "lines_of block" "[]"]
      by (simp add: added_lines_def parse_static_hunks_def parse_hunk_lines_def added_in_hunks_def del: dropWhile_eq_Nil_conv)
  next
    case (Cons h ls)
    have "hunk_header h \<noteq> None" using Cons by (metis (mono_tags) dropWhile_eq_Cons_conv)
    then obtain old new where h: "hunk_header h = Some (old, new)" by auto
    have len: "length ls < length (lines_of block)"
      using length_dropWhile_le [of "\<lambda>l. hunk_header l = None" "lines_of block"] Cons by simp
    have weak: "readable_line m x" if "readable_line n x" "m \<le> n" for m n x
      using that by (auto simp: readable_line_def split: option.splits)
    have all: "readable_line (length (lines_of block)) h" "list_all (readable_line (length ls + 0)) ls"
      using assms Cons len weak by (auto simp: list_all_iff less_imp_le)
    have "same_reading (length ls + 0) (hunk_step sha path h ?p) (added_step h (0, []))"
      using all(1) h len
      by (simp add: same_reading_def hunk_step_def added_step_def readable_line_def added_in_hunks_def)
    from fold_same_reading [OF this all(2), of sha path] show ?thesis
      using Cons before_first_hunk(1) [of ?p sha path "lines_of block"] before_first_hunk(2) [of "lines_of block" "[]"]
      by (simp add: added_lines_def parse_static_hunks_def parse_hunk_lines_def same_reading_def)
  qed
qed

definition sample_diff :: "bytes list \<Rightarrow> bytes" where
  "sample_diff body = join_with newline ([''diff --git a/x b/x'', ''--- a/x'', ''+++ b/x'', ''@@ -1,2 +1,4 @@''] @ body)"

theorem added_lines_agree_with_hunks_witness:
  "map_of (added_lines (sample_diff ['' a'', ''+b''])) 2 = Some ''b''"
proof -
  have "list_all (readable_line (length (lines_of (sample_diff ['' a'', ''+b'']))))
      (dropWhile (\<lambda>l. hunk_header l = None) (lines_of (sample_diff ['' a'', ''+b''])))" by code_simp
  from added_lines_agree_with_hunks [OF this, of "\<lambda>_. []" "''x''"]
  have "map_of (added_lines (sample_diff ['' a'', ''+b''])) =
    map_of (rev (added_in_hunks (parse_static_hunks (\<lambda>_. []) ''x'' (sample_diff ['' a'', ''+b'']))))" .
  moreover have "map_of (rev (added_in_hunks (parse_static_hunks (\<lambda>_. []) ''x'' (sample_diff ['' a'', ''+b''])))) 2 = Some ''b''"
    by code_simp
  ultimately show ?thesis by simp
qed

text \<open>
  An added line that itself starts with two plus signs is skipped and not counted: the rules never
  see it, and every later line of the hunk is matched under the number before its own.
\<close>

theorem plus_plus_line_shifts_numbers:
  "added_lines (sample_diff ['' a'', ''+++i'', ''+b'']) = [(2, ''b'')]
   \<and> added_in_hunks (parse_static_hunks (\<lambda>_. []) ''x'' (sample_diff ['' a'', ''+++i'', ''+b''])) = [(2, ''++i''), (3, ''b'')]"
  by code_simp

end
