(* ===== verification/RuleHits.thy ===== *)
theory RuleHits
  imports Diffs GoPath
begin

text \<open>
  Team rules against the added lines of a diff: \<open>matchStaticRuleAdditions\<close>, \<open>contiguousAddedBlocks\<close>,
  \<open>matchesAnyGlob\<close> and \<open>addStaticReviewContexts\<close> of \<open>export.go\<close>.
\<close>

definition rule_max_hits :: nat where "rule_max_hits = 500"

definition rule_max_hits_per_key :: nat where "rule_max_hits_per_key = 20"

definition matches_any_glob :: "glob_item list list \<Rightarrow> bytes \<Rightarrow> bool" where
  "matches_any_glob globs path \<longleftrightarrow> list_ex (\<lambda>g. glob_match g path \<or> glob_match g (base path)) globs"

text \<open>Runs of consecutive line numbers.\<close>

fun add_to_runs :: "int \<Rightarrow> int list list \<Rightarrow> int list list" where
  "add_to_runs line runs =
     (if runs = [] \<or> line > wrap64 (last (last runs) + 1) then runs @ [[line]]
      else butlast runs @ [last runs @ [line]])"

definition contiguous_added_blocks :: "int list \<Rightarrow> int list list" where
  "contiguous_added_blocks lines = fold add_to_runs lines []"

section \<open>Active rules\<close>

record compiled_rule =
  cr_rule :: review_rule
  cr_match :: pattern
  cr_globs :: "glob_item list list"

definition compile_rule :: "compiler \<Rightarrow> review_rule \<Rightarrow> compiled_rule option" where
  "compile_rule compile r =
     (if \<not> rr_enabled r then None
      else (case compile (rr_pattern r) of
        Inl e \<Rightarrow> None
      | Inr re \<Rightarrow>
          let patterns = (if rr_globs r = [] \<and> rr_glob r \<noteq> [] then [rr_glob r] else rr_globs r)
          in Some \<lparr>cr_rule = r, cr_match = re, cr_globs = List.map_filter glob_regexp patterns\<rparr>))"

definition new_rule_hit :: "review_rule \<Rightarrow> bytes \<Rightarrow> bytes \<Rightarrow> int \<Rightarrow> bytes \<Rightarrow> rule_hit" where
  "new_rule_hit r key path line text =
     \<lparr>rh_key = key, rh_rule_id = rr_id r, rh_message = rr_message r, rh_title = rr_title r, rh_why = rr_why r,
      rh_severity = rr_severity r, rh_source = rr_source r, rh_origin = rr_origin r, rh_path = path,
      rh_line = line, rh_text = text\<rparr>"

text \<open>\<open>additions[p][line]\<close> of a Go map: the zero value when the key is missing.\<close>

definition text_at :: "(int \<times> bytes) list \<Rightarrow> int \<Rightarrow> bytes" where
  "text_at added line = (case map_of added line of None \<Rightarrow> [] | Some t \<Rightarrow> t)"

section \<open>The loops\<close>

text \<open>Each loop returns as soon as the hits reach the maximum, which ends the loops around it too.\<close>

definition block_text :: "(int \<times> bytes) list \<Rightarrow> int list \<Rightarrow> bytes" where
  "block_text added block = join_with newline (map (text_at added) block)"

fun match_blocks ::
    "(bytes \<Rightarrow> bytes) \<Rightarrow> compiled_rule \<Rightarrow> bytes \<Rightarrow> (int \<times> bytes) list \<Rightarrow> int list list \<Rightarrow> rule_hit list \<Rightarrow> rule_hit list" where
  "match_blocks sha c path added [] hits = hits"
| "match_blocks sha c path added (block # blocks) hits =
     (let joined = block_text added block in
      case cr_match c joined of
        None \<Rightarrow> match_blocks sha c path added blocks hits
      | Some (start, stop) \<Rightarrow>
          let line = block ! length (filter (\<lambda>ch. ch = CHR 0x0A) (take start joined));
              hits = hits @ [new_rule_hit (cr_rule c) (rule_hit_key sha (rr_id (cr_rule c)) path joined) path line (clip joined 300)]
          in if length hits \<ge> rule_max_hits then hits else match_blocks sha c path added blocks hits)"

fun match_lines ::
    "(bytes \<Rightarrow> bytes) \<Rightarrow> compiled_rule \<Rightarrow> bytes \<Rightarrow> (int \<times> bytes) list \<Rightarrow> int list \<Rightarrow> (bytes \<Rightarrow> nat) \<Rightarrow> rule_hit list \<Rightarrow> rule_hit list" where
  "match_lines sha c path added [] per_key hits = hits"
| "match_lines sha c path added (line # lines) per_key hits =
     (let text = text_at added line; key = rule_hit_key sha (rr_id (cr_rule c)) path text in
      if cr_match c text = None \<or> per_key key \<ge> rule_max_hits_per_key
      then match_lines sha c path added lines per_key hits
      else let hits = hits @ [new_rule_hit (cr_rule c) key path line (clip text 300)] in
        if length hits \<ge> rule_max_hits then hits
        else match_lines sha c path added lines (per_key(key := per_key key + 1)) hits)"

fun match_rules :: "(bytes \<Rightarrow> bytes) \<Rightarrow> compiled_rule list \<Rightarrow> bytes \<Rightarrow> (int \<times> bytes) list \<Rightarrow> rule_hit list \<Rightarrow> rule_hit list" where
  "match_rules sha [] path added hits = hits"
| "match_rules sha (c # cs) path added hits =
     (if cr_globs c \<noteq> [] \<and> \<not> matches_any_glob (cr_globs c) path then match_rules sha cs path added hits
      else let lines = sort (map fst added);
               hits = (if has_prefix ''block-'' (rr_match_kind (cr_rule c))
                       then match_blocks sha c path added (contiguous_added_blocks lines) hits
                       else match_lines sha c path added lines (\<lambda>_. 0) hits)
           in if length hits \<ge> rule_max_hits then hits else match_rules sha cs path added hits)"

fun match_paths ::
    "(bytes \<Rightarrow> bytes) \<Rightarrow> compiled_rule list \<Rightarrow> (bytes \<times> (int \<times> bytes) list) list \<Rightarrow> bytes list \<Rightarrow> rule_hit list \<Rightarrow> rule_hit list" where
  "match_paths sha cs additions [] hits = hits"
| "match_paths sha cs additions (p # ps) hits =
     (let hits = match_rules sha cs p (case map_of additions p of None \<Rightarrow> [] | Some a \<Rightarrow> a) hits
      in if length hits \<ge> rule_max_hits then hits else match_paths sha cs additions ps hits)"

definition match_static_rule_additions ::
    "(bytes \<Rightarrow> bytes) \<Rightarrow> compiler \<Rightarrow> review_rule list \<Rightarrow> (bytes \<times> (int \<times> bytes) list) list \<Rightarrow> rule_hit list" where
  "match_static_rule_additions sha compile rules additions =
     match_paths sha (List.map_filter (compile_rule compile) rules) additions (sort (map fst additions)) []"

section \<open>Hits with their context\<close>

record static_hit =
  sh_hit :: rule_hit
  sh_context :: "context_line list"

definition add_static_contexts :: "rule_hit list \<Rightarrow> bytes \<Rightarrow> static_hit list" where
  "add_static_contexts hits diff =
     map (\<lambda>h. \<lparr>sh_hit = h,
               sh_context = context_of_hit (static_context_blocks (rh_path h) (diff_blocks diff)) (rh_line h)\<rparr>) hits"

section \<open>Runs\<close>

definition consecutive :: "int list \<Rightarrow> bool" where
  "consecutive run \<longleftrightarrow> run \<noteq> [] \<and> run = [hd run..last run]"

lemma consecutive_snoc: "consecutive run \<Longrightarrow> consecutive (run @ [last run + 1])"
proof -
  assume c: "consecutive run"
  then have "hd run \<le> last run" unfolding consecutive_def by (metis empty_set last_in_set not_le set_upto upto_empty)
  then have "[hd run..last run + 1] = [hd run..last run] @ [last run + 1]" by (simp add: upto_rec2)
  then show ?thesis using c by (simp add: consecutive_def)
qed

lemma consecutive_single: "consecutive [l]"
  by (simp add: consecutive_def)

lemma contiguous_snoc: "contiguous_added_blocks (ls @ [l]) = add_to_runs l (contiguous_added_blocks ls)"
  by (simp add: contiguous_added_blocks_def)

declare add_to_runs.simps [simp del]

text \<open>
  The blocks a block rule sees partition the added lines in order into maximal runs: each is a
  range of consecutive line numbers, and between two of them at least one line is missing.
\<close>

theorem contiguous_blocks_are_maximal_runs:
  assumes "sorted_wrt (<) lines" "\<forall>l \<in> set lines. 0 \<le> l \<and> l < 2 ^ 63 - 1"
  shows "concat (contiguous_added_blocks lines) = lines \<and> list_all consecutive (contiguous_added_blocks lines)
    \<and> successively (\<lambda>a b. last a + 1 < hd b) (contiguous_added_blocks lines)"
  using assms
proof (induction lines rule: rev_induct)
  case Nil
  then show ?case by (simp add: contiguous_added_blocks_def)
next
  case (snoc l ls)
  let ?r = "contiguous_added_blocks ls"
  have IH: "concat ?r = ls" "list_all consecutive ?r" "successively (\<lambda>a b. last a + 1 < hd b) ?r"
    using snoc by (simp_all add: sorted_wrt_append)
  show ?case
  proof (cases "?r = []")
    case True
    then show ?thesis using IH(1) by (simp only: contiguous_snoc add_to_runs.simps) (simp add: consecutive_def)
  next
    case False
    then obtain rs r where r: "?r = rs @ [r]" by (cases ?r rule: rev_cases) auto
    have "consecutive r" using IH(2) r by simp
    then have "r \<noteq> []" by (simp add: consecutive_def)
    then have mem: "last r \<in> set ls" using IH(1) r by (metis UnCI concat.simps(1) concat.simps(2) concat_append append_Nil2 last_in_set set_append)
    then have lt: "last r < l" "0 \<le> last r" "last r < 2 ^ 63 - 1" using snoc.prems by (auto simp: sorted_wrt_append)
    then have w: "wrap64 (last r + 1) = last r + 1" by (intro wrap64_small) simp_all
    show ?thesis
    proof (cases "l > last r + 1")
      case True
      then show ?thesis
        using IH r w by (simp add: contiguous_snoc add_to_runs.simps consecutive_single successively_append_iff)
    next
      case False
      then have l: "l = last r + 1" using lt by simp
      show ?thesis
        using IH r w l consecutive_snoc [OF \<open>consecutive r\<close>] \<open>r \<noteq> []\<close>
        by (auto simp: contiguous_snoc add_to_runs.simps successively_append_iff)
    qed
  qed
qed

theorem contiguous_blocks_are_maximal_runs_witness:
  "concat (contiguous_added_blocks [3, 4, 7]) = [3, 4, 7] \<and> contiguous_added_blocks [3, 4, 7] = [[3, 4], [7]]"
  using contiguous_blocks_are_maximal_runs [of "[3, 4, 7]"]
  by (simp add: contiguous_added_blocks_def add_to_runs.simps wrap64_def)

section \<open>Which hits there are\<close>

text \<open>Without the limits: the hits of one rule on one file.\<close>

definition key_of :: "(bytes \<Rightarrow> bytes) \<Rightarrow> compiled_rule \<Rightarrow> bytes \<Rightarrow> bytes \<Rightarrow> bytes" where
  "key_of sha c path text = rule_hit_key sha (rr_id (cr_rule c)) path text"

definition hit_lines :: "compiled_rule \<Rightarrow> (int \<times> bytes) list \<Rightarrow> int list" where
  "hit_lines c added = filter (\<lambda>l. cr_match c (text_at added l) \<noteq> None) (sort (map fst added))"

definition hit_blocks :: "compiled_rule \<Rightarrow> (int \<times> bytes) list \<Rightarrow> int list list" where
  "hit_blocks c added =
     filter (\<lambda>b. cr_match c (block_text added b) \<noteq> None) (contiguous_added_blocks (sort (map fst added)))"

definition block_rule :: "compiled_rule \<Rightarrow> bool" where
  "block_rule c \<longleftrightarrow> has_prefix ''block-'' (rr_match_kind (cr_rule c))"

definition selects :: "compiled_rule \<Rightarrow> bytes \<Rightarrow> bool" where
  "selects c path \<longleftrightarrow> cr_globs c = [] \<or> matches_any_glob (cr_globs c) path"

definition rule_keys :: "(bytes \<Rightarrow> bytes) \<Rightarrow> compiled_rule \<Rightarrow> bytes \<Rightarrow> (int \<times> bytes) list \<Rightarrow> bytes set" where
  "rule_keys sha c path added =
     (if \<not> selects c path then {}
      else if block_rule c then key_of sha c path ` block_text added ` set (hit_blocks c added)
      else key_of sha c path ` text_at added ` set (hit_lines c added))"

definition line_hit :: "(bytes \<Rightarrow> bytes) \<Rightarrow> compiled_rule \<Rightarrow> bytes \<Rightarrow> (int \<times> bytes) list \<Rightarrow> int \<Rightarrow> rule_hit" where
  "line_hit sha c path added l =
     new_rule_hit (cr_rule c) (key_of sha c path (text_at added l)) path l (clip (text_at added l) 300)"

definition block_hit ::
    "(bytes \<Rightarrow> bytes) \<Rightarrow> compiled_rule \<Rightarrow> bytes \<Rightarrow> (int \<times> bytes) list \<Rightarrow> int list \<Rightarrow> nat \<Rightarrow> rule_hit" where
  "block_hit sha c path added b k =
     new_rule_hit (cr_rule c) (key_of sha c path (block_text added b)) path
       (b ! length (filter (\<lambda>ch. ch = CHR 0x0A) (take k (block_text added b)))) (clip (block_text added b) 300)"

definition hit_of_rule :: "(bytes \<Rightarrow> bytes) \<Rightarrow> compiled_rule \<Rightarrow> bytes \<Rightarrow> (int \<times> bytes) list \<Rightarrow> rule_hit \<Rightarrow> bool" where
  "hit_of_rule sha c path added h \<longleftrightarrow>
     selects c path \<and>
     (if block_rule c then \<exists>b \<in> set (hit_blocks c added). \<exists>k. h = block_hit sha c path added b k
      else h \<in> line_hit sha c path added ` set (hit_lines c added))"

lemma rh_key_hits [simp]:
  "rh_key (line_hit sha c path added l) = key_of sha c path (text_at added l)"
  "rh_key (block_hit sha c path added b k) = key_of sha c path (block_text added b)"
  by (simp_all add: line_hit_def block_hit_def new_rule_hit_def)

lemma match_blocks_Cons:
  "match_blocks sha c path added (b # blocks) hits =
     (case cr_match c (block_text added b) of
        None \<Rightarrow> match_blocks sha c path added blocks hits
      | Some (k, stop) \<Rightarrow>
          let hits = hits @ [block_hit sha c path added b k] in
          if length hits \<ge> 500 then hits else match_blocks sha c path added blocks hits)"
  by (simp add: Let_def block_hit_def key_of_def rule_max_hits_def split: option.splits)

lemma match_lines_Cons:
  "match_lines sha c path added (l # lines) per_key hits =
     (let key = key_of sha c path (text_at added l) in
      if cr_match c (text_at added l) = None \<or> per_key key \<ge> 20 then match_lines sha c path added lines per_key hits
      else let hits = hits @ [line_hit sha c path added l] in
        if length hits \<ge> 500 then hits else match_lines sha c path added lines (per_key(key := per_key key + 1)) hits)"
  by (simp only: match_lines.simps Let_def line_hit_def key_of_def rule_max_hits_def rule_max_hits_per_key_def)

declare match_blocks.simps(2) [simp del] match_lines.simps(2) [simp del]

lemma match_blocks_bound: "length hits < 500 \<Longrightarrow> length (match_blocks sha c path added blocks hits) \<le> 500"
  by (induction blocks arbitrary: hits) (auto simp: match_blocks_Cons Let_def split: option.splits)

lemma match_blocks_extends: "\<exists>new. match_blocks sha c path added blocks hits = hits @ new"
proof (induction blocks arbitrary: hits)
  case (Cons b blocks)
  have "\<exists>new. match_blocks sha c path added blocks (hits @ [h]) = hits @ new" for h
    using Cons.IH [of "hits @ [h]"] by auto
  then show ?case using Cons.IH [of hits] by (auto simp: match_blocks_Cons Let_def split: option.splits)
qed simp

lemma match_blocks_sound:
  "h \<in> set (match_blocks sha c path added blocks hits) \<Longrightarrow> h \<in> set hits \<or>
    (\<exists>b \<in> set blocks. cr_match c (block_text added b) \<noteq> None \<and> (\<exists>k. h = block_hit sha c path added b k))"
proof (induction blocks arbitrary: hits)
  case (Cons b blocks)
  have "h \<in> set (match_blocks sha c path added blocks hits)
      \<or> (\<exists>k. cr_match c (block_text added b) \<noteq> None \<and> h \<in> set (match_blocks sha c path added blocks (hits @ [block_hit sha c path added b k]))
           \<or> cr_match c (block_text added b) \<noteq> None \<and> h \<in> set (hits @ [block_hit sha c path added b k]))"
    using Cons.prems by (auto simp: match_blocks_Cons Let_def split: option.splits if_splits)
  then show ?case using Cons.IH by fastforce
qed simp

lemma match_blocks_complete:
  assumes "length (match_blocks sha c path added blocks hits) < 500" "b \<in> set blocks" "cr_match c (block_text added b) \<noteq> None"
  shows "key_of sha c path (block_text added b) \<in> rh_key ` set (match_blocks sha c path added blocks hits)"
  using assms
proof (induction blocks arbitrary: hits)
  case (Cons d blocks)
  show ?case
  proof (cases "cr_match c (block_text added d)")
    case None
    then show ?thesis using Cons by (auto simp: match_blocks_Cons)
  next
    case (Some p)
    let ?hits = "hits @ [block_hit sha c path added d (fst p)]"
    have eq: "match_blocks sha c path added (d # blocks) hits = match_blocks sha c path added blocks ?hits"
      using Cons.prems(1) Some by (cases p) (auto simp: match_blocks_Cons Let_def split: if_splits)
    obtain new where new: "match_blocks sha c path added blocks ?hits = ?hits @ new" using match_blocks_extends by blast
    show ?thesis
    proof (cases "b = d")
      case True
      then show ?thesis using eq new by simp
    next
      case False
      then show ?thesis using Cons.IH [of ?hits] Cons.prems eq by simp
    qed
  qed
qed simp

lemma match_lines_bound: "length hits < 500 \<Longrightarrow> length (match_lines sha c path added lines per_key hits) \<le> 500"
  by (induction lines arbitrary: per_key hits) (auto simp: match_lines_Cons Let_def)

lemma match_lines_extends: "\<exists>new. match_lines sha c path added lines per_key hits = hits @ new"
proof (induction lines arbitrary: per_key hits)
  case (Cons l lines)
  have "\<exists>new. match_lines sha c path added lines per (hits @ [h]) = hits @ new" for h per
    using Cons.IH [of per "hits @ [h]"] by auto
  then show ?case using Cons.IH [of per_key hits] by (simp add: match_lines_Cons Let_def)
qed simp

lemma match_lines_sound:
  "h \<in> set (match_lines sha c path added lines per_key hits) \<Longrightarrow> h \<in> set hits \<or>
    (\<exists>l \<in> set lines. cr_match c (text_at added l) \<noteq> None \<and> h = line_hit sha c path added l)"
proof (induction lines arbitrary: per_key hits)
  case (Cons l lines)
  have "h \<in> set (match_lines sha c path added lines per_key hits)
      \<or> cr_match c (text_at added l) \<noteq> None \<and>
          ((\<exists>per. h \<in> set (match_lines sha c path added lines per (hits @ [line_hit sha c path added l])))
           \<or> h \<in> set (hits @ [line_hit sha c path added l]))"
    using Cons.prems by (auto simp: match_lines_Cons Let_def split: if_splits)
  then show ?case using Cons.IH by fastforce
qed simp

lemma match_lines_complete:
  assumes "length (match_lines sha c path added lines per_key hits) < 500" "l \<in> set lines"
    "cr_match c (text_at added l) \<noteq> None" "\<forall>k. 0 < per_key k \<longrightarrow> k \<in> rh_key ` set hits"
  shows "key_of sha c path (text_at added l) \<in> rh_key ` set (match_lines sha c path added lines per_key hits)"
  using assms
proof (induction lines arbitrary: per_key hits)
  case (Cons m lines)
  let ?key = "key_of sha c path (text_at added m)"
  show ?case
  proof (cases "cr_match c (text_at added m) = None \<or> per_key ?key \<ge> 20")
    case True
    then have run: "match_lines sha c path added (m # lines) per_key hits = match_lines sha c path added lines per_key hits"
      by (simp add: match_lines_Cons Let_def)
    obtain new where new: "match_lines sha c path added lines per_key hits = hits @ new" using match_lines_extends by blast
    have "?key \<in> rh_key ` set hits" if "l = m" using that True Cons.prems(3,4) by fastforce
    then show ?thesis using Cons.IH [of per_key hits] Cons.prems run new by (cases "l = m") auto
  next
    case False
    let ?hits = "hits @ [line_hit sha c path added m]"
    define per where "per = per_key(?key := per_key ?key + 1)"
    have eq: "match_lines sha c path added (m # lines) per_key hits = match_lines sha c path added lines per ?hits"
      using Cons.prems(1) False unfolding match_lines_Cons Let_def per_def [symmetric] by (auto split: if_splits)
    obtain new where new: "match_lines sha c path added lines per ?hits = ?hits @ new" using match_lines_extends by blast
    have inv: "\<forall>k. 0 < per k \<longrightarrow> k \<in> rh_key ` set ?hits" using Cons.prems(4) by (auto simp: per_def)
    show ?thesis
    proof (cases "l = m")
      case True
      then show ?thesis using eq new by simp
    next
      case ne: False
      then show ?thesis using Cons.IH [of per ?hits] inv Cons.prems eq by simp
    qed
  qed
qed simp

section \<open>All rules, all files\<close>

definition rule_hits_on :: "(bytes \<Rightarrow> bytes) \<Rightarrow> compiled_rule \<Rightarrow> bytes \<Rightarrow> (int \<times> bytes) list \<Rightarrow> rule_hit list \<Rightarrow> rule_hit list" where
  "rule_hits_on sha c path added hits =
     (if \<not> selects c path then hits
      else if block_rule c then match_blocks sha c path added (contiguous_added_blocks (sort (map fst added))) hits
      else match_lines sha c path added (sort (map fst added)) (\<lambda>_. 0) hits)"

lemma match_rules_Cons:
  "length hits < 500 \<Longrightarrow> match_rules sha (c # cs) path added hits =
     (let hits = rule_hits_on sha c path added hits in
      if length hits \<ge> 500 then hits else match_rules sha cs path added hits)"
  by (auto simp: rule_hits_on_def selects_def block_rule_def Let_def rule_max_hits_def)

declare match_rules.simps(2) [simp del]

lemma rule_hits_on_bound: "length hits < 500 \<Longrightarrow> length (rule_hits_on sha c path added hits) \<le> 500"
  by (simp add: rule_hits_on_def match_lines_bound match_blocks_bound)

lemma rule_hits_on_extends: "\<exists>new. rule_hits_on sha c path added hits = hits @ new"
  using match_lines_extends match_blocks_extends by (auto simp: rule_hits_on_def)

lemma rule_hits_on_sound:
  assumes "h \<in> set (rule_hits_on sha c path added hits)"
  shows "h \<in> set hits \<or> hit_of_rule sha c path added h"
proof (cases "selects c path")
  case True
  show ?thesis
  proof (cases "block_rule c")
    case block: True
    then show ?thesis
      using assms True match_blocks_sound [of h sha c path added "contiguous_added_blocks (sort (map fst added))" hits]
      by (auto simp: rule_hits_on_def hit_of_rule_def hit_blocks_def simp del: not_None_eq)
  next
    case False
    then show ?thesis
      using assms True match_lines_sound [of h sha c path added "sort (map fst added)" "\<lambda>_. 0" hits]
      by (simp add: rule_hits_on_def hit_of_rule_def hit_lines_def del: not_None_eq) blast
  qed
qed (use assms in \<open>simp add: rule_hits_on_def\<close>)

lemma hit_of_rule_key: "hit_of_rule sha c path added h \<Longrightarrow> rh_key h \<in> rule_keys sha c path added"
  by (auto simp: hit_of_rule_def rule_keys_def simp del: not_None_eq split: if_splits)

lemma match_blocks_all:
  "length (match_blocks sha c path added blocks hits) < 500 \<Longrightarrow>
   key_of sha c path ` block_text added ` set (filter (\<lambda>b. cr_match c (block_text added b) \<noteq> None) blocks)
     \<subseteq> rh_key ` set (match_blocks sha c path added blocks hits)"
  unfolding image_image by (rule image_subsetI) (rule match_blocks_complete, simp_all)

lemma match_lines_all:
  "length (match_lines sha c path added lines (\<lambda>_. 0) hits) < 500 \<Longrightarrow>
   key_of sha c path ` text_at added ` set (filter (\<lambda>l. cr_match c (text_at added l) \<noteq> None) lines)
     \<subseteq> rh_key ` set (match_lines sha c path added lines (\<lambda>_. 0) hits)"
  unfolding image_image by (rule image_subsetI) (rule match_lines_complete, simp_all)

lemma rule_hits_on_complete:
  "length (rule_hits_on sha c path added hits) < 500 \<Longrightarrow>
   rule_keys sha c path added \<subseteq> rh_key ` set (rule_hits_on sha c path added hits)"
  using match_lines_all [of sha c path added "sort (map fst added)" hits]
    match_blocks_all [of sha c path added "contiguous_added_blocks (sort (map fst added))" hits]
  by (cases "selects c path"; cases "block_rule c") (simp_all add: rule_hits_on_def rule_keys_def hit_lines_def hit_blocks_def del: not_None_eq)

definition hits_spec ::
    "(rule_hit \<Rightarrow> bool) \<Rightarrow> bytes set \<Rightarrow> rule_hit list \<Rightarrow> rule_hit list \<Rightarrow> bool" where
  "hits_spec ok keys hits hits' \<longleftrightarrow>
     length hits' \<le> 500 \<and> set hits \<subseteq> set hits' \<and> (\<forall>h \<in> set hits'. h \<in> set hits \<or> ok h)
     \<and> (length hits' < 500 \<longrightarrow> keys \<subseteq> rh_key ` set hits')"

lemma hits_spec_result:
  assumes "hits_spec ok keys [] hits" "\<And>h. ok h \<Longrightarrow> rh_key h \<in> keys"
  shows "length hits \<le> 500 \<and> list_all ok hits \<and> (if length hits < 500 then rh_key ` set hits = keys else True)"
  using assms by (auto simp: hits_spec_def list_all_iff)

lemma hits_spec_trans:
  "hits_spec ok keys hits hits' \<Longrightarrow> hits_spec ok' keys' hits' hits'' \<Longrightarrow> length hits' \<le> length hits'' \<Longrightarrow>
   hits_spec (\<lambda>h. ok h \<or> ok' h) (keys \<union> keys') hits hits''"
  unfolding hits_spec_def by (auto; blast)

lemma rule_hits_on_keeps: "set hits \<subseteq> set (rule_hits_on sha c path added hits)"
proof -
  obtain new where "rule_hits_on sha c path added hits = hits @ new" using rule_hits_on_extends by blast
  then show ?thesis by simp
qed

lemma rule_hits_on_spec:
  "length hits < 500 \<Longrightarrow>
   hits_spec (hit_of_rule sha c path added) (rule_keys sha c path added) hits (rule_hits_on sha c path added hits)"
  using rule_hits_on_sound rule_hits_on_complete
  by (simp add: hits_spec_def rule_hits_on_bound rule_hits_on_keeps)

lemma match_rules_extends: "length hits < 500 \<Longrightarrow> \<exists>new. match_rules sha cs path added hits = hits @ new"
proof (induction cs arbitrary: hits)
  case (Cons c cs)
  obtain new where new: "rule_hits_on sha c path added hits = hits @ new" using rule_hits_on_extends by blast
  show ?case
  proof (cases "length (hits @ new) < 500")
    case True
    then show ?thesis using Cons.IH [OF True] new Cons.prems by (auto simp: match_rules_Cons Let_def)
  qed (use new Cons.prems in \<open>simp add: match_rules_Cons Let_def\<close>)
qed simp

lemma match_rules_spec:
  "length hits < 500 \<Longrightarrow>
   hits_spec (\<lambda>h. \<exists>c \<in> set cs. hit_of_rule sha c path added h) (\<Union>c \<in> set cs. rule_keys sha c path added) hits
     (match_rules sha cs path added hits)"
proof (induction cs arbitrary: hits)
  case Nil
  then show ?case by (simp add: hits_spec_def)
next
  case (Cons c cs)
  let ?hits = "rule_hits_on sha c path added hits"
  note first = rule_hits_on_spec [OF Cons.prems, of sha c path added]
  show ?case
  proof (cases "length ?hits < 500")
    case False
    then have "match_rules sha (c # cs) path added hits = ?hits"
      using Cons.prems by (simp add: match_rules_Cons Let_def)
    then show ?thesis using first False by (auto simp: hits_spec_def)
  next
    case True
    have run: "match_rules sha (c # cs) path added hits = match_rules sha cs path added ?hits"
      using Cons.prems True by (simp add: match_rules_Cons Let_def)
    obtain new where "match_rules sha cs path added ?hits = ?hits @ new" using match_rules_extends [OF True] by blast
    then show ?thesis using hits_spec_trans [OF first Cons.IH [OF True]] run by simp
  qed
qed

definition additions_of :: "(bytes \<times> (int \<times> bytes) list) list \<Rightarrow> bytes \<Rightarrow> (int \<times> bytes) list" where
  "additions_of additions path = (case map_of additions path of None \<Rightarrow> [] | Some a \<Rightarrow> a)"

lemma match_paths_spec:
  "length hits < 500 \<Longrightarrow>
   hits_spec (\<lambda>h. \<exists>p \<in> set ps. \<exists>c \<in> set cs. hit_of_rule sha c p (additions_of additions p) h)
     (\<Union>p \<in> set ps. \<Union>c \<in> set cs. rule_keys sha c p (additions_of additions p)) hits
     (match_paths sha cs additions ps hits) \<and> length hits \<le> length (match_paths sha cs additions ps hits)"
proof (induction ps arbitrary: hits)
  case Nil
  then show ?case by (simp add: hits_spec_def)
next
  case (Cons p ps)
  let ?hits = "match_rules sha cs p (additions_of additions p) hits"
  note first = match_rules_spec [OF Cons.prems, of cs sha p "additions_of additions p"]
  obtain new where new: "?hits = hits @ new" using match_rules_extends [OF Cons.prems] by blast
  show ?case
  proof (cases "length ?hits < 500")
    case False
    then have "match_paths sha cs additions (p # ps) hits = ?hits"
      by (simp add: Let_def additions_of_def [symmetric] rule_max_hits_def)
    then show ?thesis using first False new by (auto simp: hits_spec_def)
  next
    case True
    have run: "match_paths sha cs additions (p # ps) hits = match_paths sha cs additions ps ?hits"
      using True by (simp add: Let_def additions_of_def [symmetric] rule_max_hits_def)
    then show ?thesis using hits_spec_trans [OF first] Cons.IH [OF True] new by simp
  qed
qed

lemma match_static_rule_additions_spec:
  "hits_spec (\<lambda>h. \<exists>p \<in> fst ` set additions. \<exists>c \<in> set (List.map_filter (compile_rule compile) rules).
        hit_of_rule sha c p (additions_of additions p) h)
      (\<Union>p \<in> fst ` set additions. \<Union>c \<in> set (List.map_filter (compile_rule compile) rules).
        rule_keys sha c p (additions_of additions p)) [] (match_static_rule_additions sha compile rules additions)"
  using match_paths_spec [of "[]" "sort (map fst additions)" "List.map_filter (compile_rule compile) rules" sha additions]
  by (simp add: match_static_rule_additions_def)

text \<open>
  C10: Matching team rules against a change reports at most 500 hits, each of them a line (or, for a
  block rule, a run of lines) added in a file the rule's globs select that the rule's pattern
  matches; and when there are fewer than 500, nothing is missing: the keys reported are exactly
  those of the lines and runs the active rules match.
\<close>

theorem rule_hits_spec:
  "let hits = match_static_rule_additions sha compile rules additions;
       active = List.map_filter (compile_rule compile) rules in
   length hits \<le> 500
   \<and> list_all (\<lambda>h. \<exists>p \<in> fst ` set additions. \<exists>c \<in> set active. hit_of_rule sha c p (additions_of additions p) h) hits
   \<and> (if length hits < 500
      then rh_key ` set hits = (\<Union>p \<in> fst ` set additions. \<Union>c \<in> set active. rule_keys sha c p (additions_of additions p))
      else True)"
  unfolding Let_def
  by (rule hits_spec_result, rule match_static_rule_additions_spec, blast dest: hit_of_rule_key)

end
