(* ===== verification/ReportGit.thy ===== *)
theory ReportGit
  imports Webhooks GoHttp
begin

text \<open>
  How the report reads git: \<open>artifact_git.go\<close>, the git helpers of \<open>export.go\<close> and \<open>export_render.go\<close>, and
  the revision helpers of \<open>verification.go\<close>. Running git in the repository is a parameter: what
  \<open>exec.Command("git", "-C", root, ...).Output()\<close> returns for the remaining arguments. Where an error is
  wrapped, the names its format prints are part of the wrapper's text, without the quotes of \<open>%q\<close>.
\<close>

text \<open>Success; an \<open>exec.ExitError\<close> with the exit code and the output; any other error.\<close>

datatype git_result = Git_Ok bytes | Git_Exit int bytes go_error | Git_Fail go_error

type_synonym git = "bytes list \<Rightarrow> git_result"

fun git_error :: "git_result \<Rightarrow> go_error option" where
  "git_error (Git_Ok out) = None"
| "git_error (Git_Exit code out e) = Some e"
| "git_error (Git_Fail e) = Some e"

fun git_output :: "git_result \<Rightarrow> bytes res" where
  "git_output (Git_Ok out) = Inr out"
| "git_output (Git_Exit code out e) = Inl e"
| "git_output (Git_Fail e) = Inl e"

section \<open>Fields\<close>

text \<open>\<open>strings.Fields\<close>.\<close>

fun go_fields_acc :: "nat \<Rightarrow> bytes \<Rightarrow> bytes \<Rightarrow> bytes list" where
  "go_fields_acc k cur [] = (if cur = [] then [] else [rev cur])"
| "go_fields_acc (Suc k) cur (c # cs) = go_fields_acc k cur cs"
| "go_fields_acc 0 cur (c # cs) =
     (let w = strip_width space_encodings (c # cs) in
      if w > 0 then (if cur = [] then [] else [rev cur]) @ go_fields_acc (w - 1) [] cs
      else go_fields_acc 0 (c # cur) cs)"

definition go_fields :: "bytes \<Rightarrow> bytes list" where
  "go_fields s = go_fields_acc 0 [] s"

section \<open>Revisions\<close>

definition valid_revision :: "bytes \<Rightarrow> bool" where
  "valid_revision r \<longleftrightarrow> length r = 40 \<and> hex_decode r \<noteq> None"

definition short_revision :: "bytes \<Rightarrow> bytes" where
  "short_revision r = (if length r > 8 then take 8 r else r)"

definition resolve_commit :: "git \<Rightarrow> bytes \<Rightarrow> bytes res" where
  "resolve_commit git given =
     (let name = trim_space given in
      if name = [] then Inl (Msg ''commit ref is empty'')
      else (case git_output (git [''rev-parse'', ''--verify'', name @ ''^{commit}'']) of
        Inl e \<Rightarrow> Inl (Wrapped (''could not resolve commit '' @ name @ '': %w'') [] e)
      | Inr out \<Rightarrow>
          let commit = trim_space out in
          if \<not> valid_revision commit then Inl (MsgStr ''could not resolve commit %q to a full SHA'' name)
          else Inr commit))"

section \<open>Reading the repository\<close>

definition git_diff_between :: "git \<Rightarrow> bytes \<Rightarrow> bytes \<Rightarrow> bytes res" where
  "git_diff_between git base_sha head_sha =
     (let failed = Wrapped (''git diff '' @ short_revision base_sha @ ''..'' @ short_revision head_sha @ '': %w'') [] in
      case git [''diff'', ''--no-color'', ''--no-ext-diff'', ''--unified=3'', base_sha, head_sha, ''--''] of
        Git_Ok out \<Rightarrow> Inr out
      | Git_Exit code out e \<Rightarrow> if code = 1 then Inr out else Inl (failed e)
      | Git_Fail e \<Rightarrow> Inl (failed e))"

definition git_file_at_commit :: "git \<Rightarrow> bytes \<Rightarrow> bytes \<Rightarrow> bytes option res" where
  "git_file_at_commit git commit rel =
     (let failed = Wrapped (''read '' @ rel @ '' at '' @ short_revision commit @ '': %w'') [] in
      case git [''show'', commit @ '':'' @ rel] of
        Git_Ok out \<Rightarrow> Inr (Some out)
      | Git_Exit code out e \<Rightarrow> if code = 128 then Inr None else Inl (failed e)
      | Git_Fail e \<Rightarrow> Inl (failed e))"

text \<open>What is resolved is a full commit id: forty hexadecimal digits.\<close>

lemma hex_decode_digits: "hex_decode s = Some y \<Longrightarrow> c \<in> set s \<Longrightarrow> \<exists>n. hex_value c = Some n"
  by (induction s arbitrary: y rule: hex_decode.induct) (auto split: option.splits)

lemma resolve_commit_full:
  "resolve_commit git given = Inr sha \<Longrightarrow> length sha = 40 \<and> (\<forall>c \<in> set sha. \<exists>n. hex_value c = Some n)"
  unfolding resolve_commit_def Let_def valid_revision_def
  by (auto split: if_splits sum.splits dest: hex_decode_digits)

end
