(* ===== verification/Explanations.thy ===== *)
theory Explanations
  imports RuleHits ReportGit
begin

text \<open>
  Explanations of a change: \<open>explanations.go\<close> (reading and checking them) and \<open>explanation_generate.go\<close>
  (choosing the diff a model sees, the request, writing the file). JSON, the HTTP client and the
  file system are parameters.
\<close>

definition explanation_max_items :: nat where "explanation_max_items = 200"

definition explanation_max_title :: nat where "explanation_max_title = 80"

definition explanation_max_text :: nat where "explanation_max_text = 800"

record static_explanation =
  ex_id :: bytes
  ex_path :: bytes
  ex_line_start :: int
  ex_line_end :: int
  ex_title :: bytes
  ex_summary :: bytes

record explanation_file =
  ef_version :: int
  ef_revision :: bytes
  ef_explanations :: "static_explanation list"

section \<open>Checking\<close>

definition safe_explanation_path :: "bytes \<Rightarrow> bool" where
  "safe_explanation_path path \<longleftrightarrow>
     path \<noteq> [] \<and> \<not> is_abs path \<and> CHR 0x5C \<notin> set path
     \<and> clean path = path \<and> path \<noteq> ''.'' \<and> \<not> has_prefix ''../'' path"

definition trim_explanation :: "static_explanation \<Rightarrow> static_explanation" where
  "trim_explanation e =
     e\<lparr>ex_id := trim_space (ex_id e), ex_path := trim_space (ex_path e), ex_title := trim_space (ex_title e),
       ex_summary := trim_space (ex_summary e)\<rparr>"

definition explanation_error :: "bytes \<Rightarrow> bytes set \<Rightarrow> bytes set \<Rightarrow> nat \<Rightarrow> static_explanation \<Rightarrow> go_error option" where
  "explanation_error label changed seen n e =
     (if ex_id e = [] \<or> ex_id e \<in> seen
      then Some (MsgNum (label @ '' explanation %d: id must be non-empty and unique'') [int n + 1])
      else if \<not> safe_explanation_path (ex_path e) \<or> ex_path e \<notin> changed
      then Some (MsgStr (label @ '' explanation %q: path must name a changed file'') (ex_id e))
      else if ex_line_start e < 1 \<or> ex_line_end e < ex_line_start e \<or> ex_line_end e - ex_line_start e > 200
      then Some (MsgStr (label @ '' explanation %q: invalid line range'') (ex_id e))
      else if ex_title e = [] \<or> length (ex_title e) > explanation_max_title
      then Some (MsgStr (label @ '' explanation %q: title must be between 1 and 80 bytes'') (ex_id e))
      else if ex_summary e = [] \<or> length (ex_summary e) > explanation_max_text
      then Some (MsgStr (label @ '' explanation %q: summary must be between 1 and 800 bytes'') (ex_id e))
      else None)"

fun check_explanations ::
    "bytes \<Rightarrow> bytes set \<Rightarrow> bytes set \<Rightarrow> nat \<Rightarrow> static_explanation list \<Rightarrow> static_explanation list res" where
  "check_explanations label changed seen n [] = Inr []"
| "check_explanations label changed seen n (e # es) =
     (let e = trim_explanation e in
      case explanation_error label changed seen n e of
        Some err \<Rightarrow> Inl err
      | None \<Rightarrow>
          (case check_explanations label changed (insert (ex_id e) seen) (Suc n) es of
             Inl err \<Rightarrow> Inl err
           | Inr rest \<Rightarrow> Inr (e # rest)))"

definition explanation_less :: "static_explanation \<Rightarrow> static_explanation \<Rightarrow> bool" where
  "explanation_less a b \<longleftrightarrow>
     (if ex_path a \<noteq> ex_path b then ex_path a < ex_path b
      else if ex_line_start a \<noteq> ex_line_start b then ex_line_start a < ex_line_start b
      else ex_id a < ex_id b)"

definition validate_static_explanations ::
    "static_explanation list \<Rightarrow> bytes set \<Rightarrow> bytes \<Rightarrow> static_explanation list res" where
  "validate_static_explanations explanations changed label =
     (if length explanations > explanation_max_items
      then Inl (MsgNum (label @ '': at most %d explanations'') [int explanation_max_items])
      else (case check_explanations label changed {} 0 explanations of
              Inl e \<Rightarrow> Inl e
            | Inr es \<Rightarrow> Inr (sort_by explanation_less es)))"

definition parse_static_explanations ::
    "(bytes \<Rightarrow> explanation_file res) \<Rightarrow> bytes \<Rightarrow> bytes \<Rightarrow> bytes set \<Rightarrow> bytes \<Rightarrow> static_explanation list res" where
  "parse_static_explanations decode body head_sha changed label =
     (case decode body of
        Inl e \<Rightarrow> Inl (Wrapped (''invalid '' @ label @ '': %w'') [] e)
      | Inr f \<Rightarrow>
          if ef_version f \<noteq> 1 then Inl (MsgNum (label @ '': unsupported version %d'') [ef_version f])
          else if \<not> valid_revision (ef_revision f) \<or> ef_revision f \<noteq> head_sha
          then Inl (Msg (label @ '': revision must match review head '' @ short_revision head_sha))
          else validate_static_explanations (ef_explanations f) changed label)"

definition explanations_at_file ::
    "(bytes \<Rightarrow> bytes res) \<Rightarrow> (bytes \<Rightarrow> explanation_file res) \<Rightarrow> bytes \<Rightarrow> bytes \<Rightarrow> bytes set \<Rightarrow> static_explanation list res" where
  "explanations_at_file read_file decode path head_sha changed =
     (case read_file path of
        Inl e \<Rightarrow> Inl (Wrapped (''read explanations file '' @ path @ '': %w'') [] e)
      | Inr body \<Rightarrow> parse_static_explanations decode body head_sha changed path)"

definition explanation_ok :: "bytes set \<Rightarrow> static_explanation \<Rightarrow> bool" where
  "explanation_ok changed e \<longleftrightarrow>
     ex_id e \<noteq> [] \<and> ex_path e \<in> changed \<and> safe_explanation_path (ex_path e)
     \<and> 1 \<le> ex_line_start e \<and> ex_line_start e \<le> ex_line_end e \<and> ex_line_end e \<le> ex_line_start e + 200
     \<and> ex_title e \<noteq> [] \<and> length (ex_title e) \<le> 80 \<and> ex_summary e \<noteq> [] \<and> length (ex_summary e) \<le> 800"

lemma explanation_error_None:
  "explanation_error label changed seen n e = None \<longleftrightarrow> explanation_ok changed e \<and> ex_id e \<notin> seen"
  by (auto simp: explanation_error_def explanation_ok_def explanation_max_title_def explanation_max_text_def)

lemma check_explanations_ok:
  "check_explanations label changed seen n es = Inr out \<Longrightarrow>
   out = map trim_explanation es \<and> list_all (explanation_ok changed) out \<and> distinct (map ex_id out)
   \<and> set (map ex_id out) \<inter> seen = {}"
proof (induction label changed seen n es arbitrary: out rule: check_explanations.induct)
  case (2 label changed seen n e es)
  let ?e = "trim_explanation e"
  have ok: "explanation_error label changed seen n ?e = None"
    using "2.prems" by (auto simp: Let_def split: option.splits)
  then obtain rest where rest: "check_explanations label changed (insert (ex_id ?e) seen) (Suc n) es = Inr rest" "out = ?e # rest"
    using "2.prems" by (auto simp: Let_def split: sum.splits)
  note IH = "2.IH" [OF refl ok rest(1)]
  then have "ex_id ?e \<notin> set (map ex_id rest)" "set (map ex_id rest) \<inter> seen = {}" by blast+
  then show ?case using IH rest(2) ok by (auto simp: explanation_error_None)
qed simp

lemma explanation_less_weak_order: "weak_order explanation_less"
  by unfold_locales (auto simp: explanation_less_def split: if_splits)

lemma validate_explanations_ok:
  assumes "validate_static_explanations es changed label = Inr out"
  shows "length out \<le> 200 \<and> mset out = mset (map trim_explanation es)
    \<and> list_all (explanation_ok changed) out \<and> distinct (map ex_id out)"
proof -
  obtain cs where cs: "length es \<le> 200" "check_explanations label changed {} 0 es = Inr cs" "out = sort_by explanation_less cs"
    using assms by (auto simp: validate_static_explanations_def explanation_max_items_def split: sum.splits if_splits)
  have perm: "mset out = mset cs" using cs(3) by simp
  have "mset (map ex_id out) = mset (map ex_id cs)" using perm by simp
  then have "distinct (map ex_id out) = distinct (map ex_id cs)" by (rule mset_eq_imp_distinct_iff)
  then show ?thesis
    using cs(1) check_explanations_ok [OF cs(2)] perm mset_eq_length [OF perm] mset_eq_setD [OF perm]
    by (auto simp: list_all_iff)
qed

text \<open>
  Explanations are attached to a report only if every one of them names a changed file by a clean
  relative path, a line range of at most 201 lines, a title of at most 80 and a summary of at most
  800 bytes, all ids differ and the file was written for exactly this head; then none is lost.
\<close>

theorem parsed_explanations_ok:
  assumes "parse_static_explanations decode body head_sha changed label = Inr out"
  shows "\<exists>f. decode body = Inr f \<and> ef_revision f = head_sha \<and> length out \<le> 200
    \<and> mset out = mset (map trim_explanation (ef_explanations f))
    \<and> list_all (explanation_ok changed) out \<and> distinct (map ex_id out)"
proof -
  obtain f where f: "decode body = Inr f" "ef_revision f = head_sha"
      "validate_static_explanations (ef_explanations f) changed label = Inr out"
    using assms by (auto simp: parse_static_explanations_def split: sum.splits if_splits)
  then show ?thesis using validate_explanations_ok [OF f(3)] by auto
qed

section \<open>What the model sees\<close>

definition max_explanation_diff_bytes :: nat where "max_explanation_diff_bytes = 120000"

definition explanation_diff_block_path :: "bytes \<Rightarrow> bytes" where
  "explanation_diff_block_path block =
     (let path = static_diff_path block in
      if path \<noteq> [] then path
      else let words = go_fields (takeWhile (\<lambda>c. c \<noteq> CHR 0x0A) block) in
        if length words \<ge> 4 \<and> words ! 0 = ''diff'' \<and> words ! 1 = ''--git'' then trim_prefix ''b/'' (last words)
        else [])"

definition explanation_diff_paths :: "bytes \<Rightarrow> bytes list" where
  "explanation_diff_paths diff =
     dedup_on id {} (filter (\<lambda>p. p \<noteq> []) (map explanation_diff_block_path (diff_blocks diff)))"

definition filter_explanation_diff :: "bytes list \<Rightarrow> bytes \<Rightarrow> bytes" where
  "filter_explanation_diff exclude_globs diff =
     (if exclude_globs = [] then diff
      else let globs = List.map_filter glob_regexp exclude_globs in
        concat (filter (\<lambda>b. let path = explanation_diff_block_path b in path = [] \<or> \<not> matches_any_glob globs path)
          (diff_blocks diff)))"

definition truncation_note :: bytes where
  "truncation_note = newline @ newline @ ''[diff truncated by px1]''"

definition bounded_diff :: "bytes \<Rightarrow> bytes" where
  "bounded_diff diff =
     (if length diff \<le> max_explanation_diff_bytes then diff else take max_explanation_diff_bytes diff @ truncation_note)"

text \<open>\<open>repeatedStringFlag.Set\<close>.\<close>

definition add_exclude_glob :: "bytes list \<Rightarrow> bytes \<Rightarrow> bytes list res" where
  "add_exclude_glob globs given =
     (let g = trim_space given in if g = [] then Inl (Msg ''exclude glob cannot be empty'') else Inr (globs @ [g]))"

section \<open>The request\<close>

text \<open>The parts of a Responses API answer the code reads: the contents are type, text and refusal.\<close>

record responses_answer =
  ra_status :: bytes
  ra_incomplete :: "bytes option"
  ra_output :: "(bytes \<times> (bytes \<times> bytes \<times> bytes) list) list"

record 's explanation_generator =
  eg_client :: "('s \<Rightarrow> api_request \<Rightarrow> 's \<times> (int \<times> bytes res) res) option"
  eg_endpoint :: bytes
  eg_api_key :: bytes
  eg_model :: bytes

definition max_responses_body_bytes :: nat where "max_responses_body_bytes = 2000000"

definition no_structured_output :: go_error where
  "no_structured_output = Msg ''Responses API returned no structured explanation output''"

text \<open>The two loops over the output: the first refusal or non-empty text decides.\<close>

fun find_content ::
    "(bytes \<Rightarrow> static_explanation list res) \<Rightarrow> (bytes \<times> bytes \<times> bytes) list \<Rightarrow> static_explanation list res option" where
  "find_content decode [] = None"
| "find_content decode ((kind, text, refusal) # cs) =
     (if kind = ''refusal'' then Some (Inl (Msg (''Responses API refused explanation generation: '' @ refusal)))
      else if kind = ''output_text'' \<and> text \<noteq> []
      then Some (case decode text of
                   Inl e \<Rightarrow> Inl (Wrapped ''decode structured explanation output: %w'' [] e) | Inr es \<Rightarrow> Inr es)
      else find_content decode cs)"

fun find_output ::
    "(bytes \<Rightarrow> static_explanation list res) \<Rightarrow> (bytes \<times> (bytes \<times> bytes \<times> bytes) list) list \<Rightarrow> static_explanation list res" where
  "find_output decode [] = Inl no_structured_output"
| "find_output decode ((kind, contents) # os) =
     (if kind \<noteq> ''message'' then find_output decode os
      else (case find_content decode contents of None \<Rightarrow> find_output decode os | Some r \<Rightarrow> r))"

definition read_answer ::
    "(bytes \<Rightarrow> responses_answer res) \<Rightarrow> (bytes \<Rightarrow> static_explanation list res) \<Rightarrow> int \<Rightarrow> bytes
     \<Rightarrow> static_explanation list res" where
  "read_answer decode_answer decode status body =
     (if length body > max_responses_body_bytes then Inl (Msg ''Responses API response exceeded size limit'')
      else if \<not> ok_status status
      then Inl (MsgNum (''Responses API returned HTTP %d: '' @ trim_space body) [status])
      else (case decode_answer body of
        Inl e \<Rightarrow> Inl (Wrapped ''decode Responses API response: %w'' [] e)
      | Inr a \<Rightarrow>
          if ra_status a = ''incomplete''
          then Inl (Msg (''Responses API output incomplete: '' @
                 (case ra_incomplete a of None \<Rightarrow> ''unknown reason'' | Some r \<Rightarrow> if r = [] then ''unknown reason'' else r)))
          else find_output decode (ra_output a)))"

text \<open>\<open>encode\<close> is the JSON of the request body for a model and a diff.\<close>

definition explanation_request ::
    "(bytes \<Rightarrow> bytes \<Rightarrow> bytes res) \<Rightarrow> (bytes \<Rightarrow> go_error option) \<Rightarrow> 's explanation_generator \<Rightarrow> bytes \<Rightarrow> api_request res" where
  "explanation_request encode url_error g diff =
     (case encode (eg_model g) diff of
        Inl e \<Rightarrow> Inl (Wrapped ''encode Responses API request: %w'' [] e)
      | Inr body \<Rightarrow>
     (case new_request url_error ''POST'' (eg_endpoint g) (Some body) of
        Inl e \<Rightarrow> Inl (Wrapped ''create Responses API request: %w'' [] e)
      | Inr r \<Rightarrow> Inr (set_header ''Content-Type'' ''application/json'' (set_header ''Authorization'' (''Bearer '' @ eg_api_key g) r))))"

definition request_explanations ::
    "(bytes \<Rightarrow> bytes \<Rightarrow> bytes res) \<Rightarrow> (bytes \<Rightarrow> go_error option) \<Rightarrow> (bytes \<Rightarrow> responses_answer res)
     \<Rightarrow> (bytes \<Rightarrow> static_explanation list res) \<Rightarrow> 's explanation_generator \<Rightarrow> bytes \<Rightarrow> 's \<Rightarrow> 's \<times> static_explanation list res" where
  "request_explanations encode url_error decode_answer decode g diff s =
     (case eg_client g of
        None \<Rightarrow> (s, Inl (Msg ''explanation generator is not configured''))
      | Some send \<Rightarrow>
          if eg_endpoint g = [] \<or> eg_api_key g = [] \<or> eg_model g = []
          then (s, Inl (Msg ''explanation generator is not configured''))
          else (case explanation_request encode url_error g diff of
            Inl e \<Rightarrow> (s, Inl e)
          | Inr r \<Rightarrow>
          (case send s r of
            (s', Inl e) \<Rightarrow> (s', Inl (Wrapped ''call Responses API: %w'' [] e))
          | (s', Inr (status, Inl e)) \<Rightarrow> (s', Inl (Wrapped ''read Responses API response: %w'' [] e))
          | (s', Inr (status, Inr body)) \<Rightarrow>
              (s', read_answer decode_answer decode status (limited (Suc max_responses_body_bytes) body)))))"

definition generate_explanations ::
    "(bytes \<Rightarrow> 's \<Rightarrow> 's \<times> static_explanation list res) \<Rightarrow> git \<Rightarrow> bytes \<Rightarrow> bytes \<Rightarrow> bytes list \<Rightarrow> 's
     \<Rightarrow> 's \<times> explanation_file res" where
  "generate_explanations request git base_ref head_ref exclude_globs s =
     (case resolve_commit git base_ref of
        Inl e \<Rightarrow> (s, Inl e)
      | Inr base_sha \<Rightarrow>
     (case resolve_commit git head_ref of
        Inl e \<Rightarrow> (s, Inl e)
      | Inr head_sha \<Rightarrow>
     (case git_diff_between git base_sha head_sha of
        Inl e \<Rightarrow> (s, Inl e)
      | Inr whole \<Rightarrow>
          let diff = filter_explanation_diff exclude_globs whole; paths = explanation_diff_paths diff in
          if paths = [] then (s, Inr \<lparr>ef_version = 1, ef_revision = head_sha, ef_explanations = []\<rparr>)
          else (case request (bounded_diff diff) s of
            (s', Inl e) \<Rightarrow> (s', Inl e)
          | (s', Inr es) \<Rightarrow>
          (case validate_static_explanations es (set paths) ''generated explanations'' of
            Inl e \<Rightarrow> (s', Inl e)
          | Inr valid \<Rightarrow> (s', Inr \<lparr>ef_version = 1, ef_revision = head_sha, ef_explanations = valid\<rparr>))))))"

section \<open>Writing the file\<close>

text \<open>
  A file system by its contents; each call either works or fails as the faults say, a failing write
  having stored some of the bytes. The error of the deferred \<open>os.Remove\<close> is dropped, as in the code: when
  it fails the temporary file stays. \<open>temp\<close> is the name \<open>os.CreateTemp\<close> gives.
\<close>

record write_faults =
  wf_mkdir :: "go_error option"
  wf_create :: "go_error option"
  wf_write :: "(bytes \<times> go_error) option"
  wf_close :: "go_error option"
  wf_rename :: "go_error option"
  wf_remove :: "go_error option"

type_synonym disk = "bytes \<rightharpoonup> bytes"

definition write_explanation_file ::
    "(explanation_file \<Rightarrow> bytes res) \<Rightarrow> write_faults \<Rightarrow> bytes \<Rightarrow> bytes \<Rightarrow> explanation_file \<Rightarrow> disk \<Rightarrow> disk \<times> go_error option" where
  "write_explanation_file encode faults temp path f disk =
     (case encode f of
        Inl e \<Rightarrow> (disk, Some (Wrapped ''encode explanation file: %w'' [] e))
      | Inr body \<Rightarrow>
     (case wf_mkdir faults of
        Some e \<Rightarrow> (disk, Some (Wrapped ''create explanation directory: %w'' [] e))
      | None \<Rightarrow>
     (case wf_create faults of
        Some e \<Rightarrow> (disk, Some (Wrapped ''create temporary explanation file: %w'' [] e))
      | None \<Rightarrow>
     (let created = disk(temp \<mapsto> []); remove = (\<lambda>d. if wf_remove faults = None then d(temp := None) else d) in
      case wf_write faults of
        Some (part, e) \<Rightarrow> (remove (created(temp \<mapsto> part)), Some (Wrapped ''write explanation file: %w'' [] e))
      | None \<Rightarrow>
     (let written = created(temp \<mapsto> body @ newline) in
      case wf_close faults of
        Some e \<Rightarrow> (remove written, Some (Wrapped ''close explanation file: %w'' [] e))
      | None \<Rightarrow>
     (case wf_rename faults of
        Some e \<Rightarrow> (remove written, Some (Wrapped ''publish explanation file: %w'' [] e))
      | None \<Rightarrow> (remove (written(path := written temp, temp := None)), None)))))))"

text \<open>
  C25: The explanation file is replaced in one step. It is written exactly when the encoding and every
  call before the last one work, and then holds the whole new content while every other file is as it
  was. Otherwise the old file and all others are as they were, and a temporary file is left behind only
  when removing it fails too, an error the code drops.
\<close>

theorem explanation_file_written_atomically:
  assumes "disk temp = None" "temp \<noteq> path" and "write_explanation_file encode faults temp path f disk = (disk', err)"
  shows "(err = None \<longleftrightarrow> is_ok (encode f) \<and> wf_mkdir faults = None \<and> wf_create faults = None \<and> wf_write faults = None
        \<and> wf_close faults = None \<and> wf_rename faults = None)
    \<and> (case err of
         None \<Rightarrow> \<exists>body. encode f = Inr body \<and> disk' = disk(path \<mapsto> body @ newline)
       | Some e \<Rightarrow> disk' = disk \<or> wf_remove faults \<noteq> None \<and> (\<exists>left. disk' = disk(temp \<mapsto> left)))"
proof (cases "encode f")
  case (Inl e)
  then show ?thesis using assms(3) by (auto simp: write_explanation_file_def)
next
  case (Inr body)
  have removed: "disk(temp := None) = disk" "(disk(temp \<mapsto> v))(temp := None) = disk" "(disk(temp \<mapsto> v, path \<mapsto> v', temp := None)) = disk(path \<mapsto> v')" for v v'
    using assms(1,2) by (auto simp: fun_eq_iff)
  have left: "(if wf_remove faults = None then (disk(temp \<mapsto> v))(temp := None) else disk(temp \<mapsto> v)) = disk
      \<or> wf_remove faults \<noteq> None \<and> (\<exists>left. (if wf_remove faults = None then (disk(temp \<mapsto> v))(temp := None) else disk(temp \<mapsto> v)) = disk(temp \<mapsto> left))" for v
    by (auto simp: removed)
  show ?thesis
  proof (cases "wf_mkdir faults = None \<and> wf_create faults = None")
    case False
    then show ?thesis using assms(3) Inr
      by (cases "wf_mkdir faults"; cases "wf_create faults") (auto simp: write_explanation_file_def)
  next
    case True
    let ?drop = "\<lambda>d. if wf_remove faults = None then d(temp := None) else d"
    have run: "(disk', err) = (case wf_write faults of
        Some (part, e) \<Rightarrow> (?drop (disk(temp \<mapsto> part)), Some (Wrapped ''write explanation file: %w'' [] e))
      | None \<Rightarrow> (case wf_close faults of
        Some e \<Rightarrow> (?drop (disk(temp \<mapsto> body @ newline)), Some (Wrapped ''close explanation file: %w'' [] e))
      | None \<Rightarrow> (case wf_rename faults of
        Some e \<Rightarrow> (?drop (disk(temp \<mapsto> body @ newline)), Some (Wrapped ''publish explanation file: %w'' [] e))
      | None \<Rightarrow> (disk(path \<mapsto> body @ newline), None))))"
      using assms True Inr by (auto simp: write_explanation_file_def Let_def removed split: option.splits)
    note created = True
    show ?thesis
    proof (cases "wf_write faults = None \<and> wf_close faults = None \<and> wf_rename faults = None")
      case True
      then have "disk' = disk(path \<mapsto> body @ newline)" "err = None"
        using run by simp_all
      then show ?thesis using True created Inr by simp
    next
      case False
      then obtain v e where "disk' = (if wf_remove faults = None then (disk(temp \<mapsto> v))(temp := None) else disk(temp \<mapsto> v))" "err = Some e"
        using run by (auto split: option.splits prod.splits)
      then show ?thesis using left [of v] False by simp
    qed
  qed
qed

theorem explanation_file_written_atomically_witness:
  "\<exists>disk' e. write_explanation_file (\<lambda>_. Inr ''{}'') \<lparr>wf_mkdir = None, wf_create = None, wf_write = Some (''{'', Msg ''disk full''),
       wf_close = None, wf_rename = None, wf_remove = None\<rparr> ''t'' ''out.json'' \<lparr>ef_version = 1, ef_revision = [], ef_explanations = []\<rparr>
     [''out.json'' \<mapsto> ''old''] = (disk', Some e) \<and> disk' = [''out.json'' \<mapsto> ''old'']"
proof -
  let ?faults = "\<lparr>wf_mkdir = None, wf_create = None, wf_write = Some (''{'', Msg ''disk full''), wf_close = None, wf_rename = None,
      wf_remove = None\<rparr>" and ?file = "\<lparr>ef_version = 1, ef_revision = [], ef_explanations = []\<rparr>"
  obtain disk' err where run: "write_explanation_file (\<lambda>_. Inr ''{}'') ?faults ''t'' ''out.json'' ?file [''out.json'' \<mapsto> ''old''] = (disk', err)"
    by fastforce
  show ?thesis using explanation_file_written_atomically [OF _ _ run] run by (cases err) auto
qed

section \<open>What excluding files does\<close>

text \<open>
  Generated explanations are pinned: a result names the resolved head, and each explanation passes
  the checks of the report against the files of the diff that was kept; the model is not called when
  no file is left.
\<close>

theorem generated_explanations_ok:
  assumes "generate_explanations request git base_ref head_ref exclude_globs s = (s', Inr f)"
  shows "resolve_commit git head_ref = Inr (ef_revision f) \<and> ef_version f = 1
    \<and> (\<exists>base_sha diff. resolve_commit git base_ref = Inr base_sha \<and> git_diff_between git base_sha (ef_revision f) = Inr diff
        \<and> (let kept = filter_explanation_diff exclude_globs diff in
           list_all (explanation_ok (set (explanation_diff_paths kept))) (ef_explanations f)
           \<and> (if explanation_diff_paths kept = [] then s' = s \<and> ef_explanations f = []
              else s' = fst (request (bounded_diff kept) s))))"
proof -
  obtain base_sha head_sha diff where *: "resolve_commit git base_ref = Inr base_sha" "resolve_commit git head_ref = Inr head_sha"
      "git_diff_between git base_sha head_sha = Inr diff"
    using assms by (auto simp: generate_explanations_def split: sum.splits)
  let ?kept = "filter_explanation_diff exclude_globs diff"
  show ?thesis
  proof (cases "explanation_diff_paths ?kept = []")
    case True
    then show ?thesis using assms * by (auto simp: generate_explanations_def Let_def)
  next
    case False
    obtain es where es: "request (bounded_diff ?kept) s = (s', Inr es)"
      using assms * False by (auto simp: generate_explanations_def Let_def split: prod.splits sum.splits)
    obtain valid where valid: "validate_static_explanations es (set (explanation_diff_paths ?kept)) ''generated explanations'' = Inr valid"
        "f = \<lparr>ef_version = 1, ef_revision = head_sha, ef_explanations = valid\<rparr>"
      using assms * False es by (auto simp: generate_explanations_def Let_def split: sum.splits)
    have "list_all (explanation_ok (set (explanation_diff_paths ?kept))) valid"
      using validate_explanations_ok [OF valid(1)] by simp
    then show ?thesis using * valid(2) es False by (simp add: Let_def)
  qed
qed

text \<open>
  A line of an excluded file that holds the text \<open>diff --git\<close> ends the file's block: what follows is
  taken for a block of its own, whose path no glob excludes, and reaches the model.
\<close>

definition leaking_diff :: bytes where
  "leaking_diff = join_with newline
     [''diff --git a/secret/k b/secret/k'', ''--- a/secret/k'', ''+++ b/secret/k'', ''@@ -0,0 +1,2 @@'',
      ''+diff --git a/x b/x'', ''+TOKEN'']"

lemma excluded_content_leaks:
  "filter_explanation_diff [''secret/**''] leaking_diff = ''diff --git a/x b/x'' @ newline @ ''+TOKEN''"
proof -
  let ?b1 = "join_with newline [''a/secret/k b/secret/k'', ''--- a/secret/k'', ''+++ b/secret/k'', ''@@ -0,0 +1,2 @@'', ''+'']"
    and ?b2 = "''a/x b/x'' @ newline @ ''+TOKEN''"
  have split: "split_str git_header leaking_diff = [[], ?b1, ?b2]" by code_simp
  have blank: "trim_space [] = []" "\<not> blank ?b1" "\<not> blank ?b2"
    by (simp_all add: trim_space_visible nonblank_last newline_def)
  have paths: "explanation_diff_block_path (git_header @ ?b1) = ''secret/k''" "explanation_diff_block_path (git_header @ ?b2) = ''x''"
    by code_simp+
  have glob: "glob_regexp ''secret/**'' = Some (map (Glob_Rune \<circ> of_char) ''secret/'' @ [Glob_Any])"
    by (simp add: glob_regexp_def trim_space_visible visible_def has_prefix_iff)
  have match: "matches_any_glob [map (Glob_Rune \<circ> of_char) ''secret/'' @ [Glob_Any]] ''secret/k''"
      "\<not> matches_any_glob [map (Glob_Rune \<circ> of_char) ''secret/'' @ [Glob_Any]] ''x''"
    by (simp_all add: matches_any_glob_def glob_match_def runes_ascii splits_def base_def)
  have blocks: "diff_blocks leaking_diff = [git_header @ ?b1, git_header @ ?b2]"
    by (simp only: diff_blocks_def split filter.simps blank list.map if_True if_False simp_thms)
  have "filter_explanation_diff [''secret/**''] leaking_diff = git_header @ ?b2"
    using match paths by (simp add: filter_explanation_diff_def blocks glob map_filter_def Let_def del: join_with.simps)
  then show ?thesis by (simp add: git_header_def)
qed

end
