(* ===== verification/ReportFiles.thy ===== *)
theory ReportFiles
  imports Diffs ReportGit
begin

text \<open>
  The files of the static report: \<open>staticReviewFile\<close> and \<open>parseStaticReviewFiles\<close> of \<open>export.go\<close>.
\<close>

record report_file =
  rf_path :: bytes
  rf_status :: bytes
  rf_diff :: bytes
  rf_hunks :: "report_hunk list"

text \<open>One line of \<open>git diff --name-status\<close>; a rename has two paths, of which the last is the new one.\<close>

definition add_name_status :: "bytes \<Rightarrow> (bytes \<times> bytes) list \<Rightarrow> (bytes \<times> bytes) list" where
  "add_name_status line statuses =
     (let parts = split_on (CHR 0x09) line in
      if length parts < 2 \<or> hd parts = [] then statuses
      else AList.update (last parts) [hd (hd parts)] statuses)"

definition name_statuses :: "bytes \<Rightarrow> (bytes \<times> bytes) list" where
  "name_statuses out = fold add_name_status (lines_of (trim_space out)) []"

definition add_file_diff ::
    "bytes \<Rightarrow> (bytes \<times> bytes) list \<times> (bytes \<times> bytes) list \<Rightarrow> (bytes \<times> bytes) list \<times> (bytes \<times> bytes) list" where
  "add_file_diff block st =
     (case st of (statuses, patches) \<Rightarrow>
        let path = static_diff_path block in
        if path = [] then st
        else (if map_of statuses path = None then AList.update path (static_diff_status block) statuses else statuses,
              AList.update path block patches))"

definition report_file_of ::
    "(bytes \<Rightarrow> bytes) \<Rightarrow> (bytes \<times> bytes) list \<Rightarrow> (bytes \<times> bytes) list \<Rightarrow> bytes \<Rightarrow> report_file" where
  "report_file_of sha statuses patches path =
     (let get = (\<lambda>m. case map_of m path of None \<Rightarrow> [] | Some v \<Rightarrow> v) in
      \<lparr>rf_path = path, rf_status = get statuses, rf_diff = get patches, rf_hunks = parse_static_hunks sha path (get patches)\<rparr>)"

definition parse_static_files :: "(bytes \<Rightarrow> bytes) \<Rightarrow> git \<Rightarrow> bytes \<Rightarrow> bytes \<Rightarrow> bytes \<Rightarrow> report_file list res" where
  "parse_static_files sha git base_sha head_sha diff =
     (case git_output (git [''diff'', ''--name-status'', ''--find-renames'', base_sha, head_sha, ''--'']) of
        Inl e \<Rightarrow> Inl (Wrapped ''list changed files: %w'' [] e)
      | Inr out \<Rightarrow>
          (case fold add_file_diff (diff_blocks diff) (name_statuses out, []) of
             (statuses, patches) \<Rightarrow> Inr (map (report_file_of sha statuses patches) (sort (map fst statuses)))))"

section \<open>Which files there are\<close>

lemma keys_update: "fst ` set (AList.update k v al) = insert k (fst ` set al)"
  by (metis dom_map_of_conv_image_fst dom_update update_conv' fun_upd_apply dom_fun_upd option.distinct(1))

lemma distinct_name_statuses: "distinct (map fst (name_statuses out))"
proof -
  have "distinct (map fst al) \<Longrightarrow> distinct (map fst (fold add_name_status ls al))" for ls al
    by (induction ls arbitrary: al) (simp_all add: add_name_status_def Let_def distinct_update)
  then show ?thesis by (simp add: name_statuses_def)
qed

lemma add_file_diff_keys:
  "fold add_file_diff bs (statuses, patches) = (statuses', patches') \<Longrightarrow>
   (distinct (map fst statuses) \<longrightarrow> distinct (map fst statuses'))
   \<and> fst ` set statuses' = fst ` set statuses \<union> {p \<in> set (map static_diff_path bs). p \<noteq> []}
   \<and> (\<forall>p. map_of patches' p = (case find (\<lambda>b. static_diff_path b = p) (rev bs) of None \<Rightarrow> map_of patches p
        | Some b \<Rightarrow> if p = [] then map_of patches p else Some b))"
proof (induction bs arbitrary: statuses' patches' rule: rev_induct)
  case (snoc b bs)
  obtain s d where sd: "fold add_file_diff bs (statuses, patches) = (s, d)" by fastforce
  note IH = snoc.IH [OF sd]
  have last: "(statuses', patches') = add_file_diff b (s, d)" using snoc.prems sd by simp
  show ?case
  proof (cases "static_diff_path b = []")
    case True
    then show ?thesis using last IH by (auto simp: add_file_diff_def split: option.splits)
  next
    case False
    have mem: "static_diff_path b \<in> fst ` set s" if "map_of s (static_diff_path b) \<noteq> None"
      using that by (auto simp: map_of_eq_None_iff)
    have st: "statuses' = (if map_of s (static_diff_path b) = None then AList.update (static_diff_path b) (static_diff_status b) s else s)"
        "patches' = AList.update (static_diff_path b) b d"
      using last False by (auto simp: add_file_diff_def Let_def)
    have "fst ` set statuses' = insert (static_diff_path b) (fst ` set s)"
      using st(1) mem by (auto simp: keys_update insert_absorb)
    moreover have "distinct (map fst s) \<longrightarrow> distinct (map fst statuses')" using st(1) by (simp add: distinct_update)
    ultimately show ?thesis using IH st(2) False by (auto simp: update_conv')
  qed
qed simp

lemma find_found: "find P xs = Some x \<Longrightarrow> x \<in> set xs \<and> P x"
  by (induction xs) (auto split: if_splits)

lemma report_files_sorted:
  assumes "parse_static_files sha git base_sha head_sha diff = Inr files"
  shows "sorted_wrt (<) (map rf_path files)"
proof -
  obtain out where out: "git [''diff'', ''--name-status'', ''--find-renames'', base_sha, head_sha, ''--''] = Git_Ok out"
    using assms by (cases "git [''diff'', ''--name-status'', ''--find-renames'', base_sha, head_sha, ''--'']")
      (auto simp: parse_static_files_def)
  obtain statuses patches where run: "fold add_file_diff (diff_blocks diff) (name_statuses out, []) = (statuses, patches)" by fastforce
  have "map rf_path files = sort (map fst statuses)"
    using assms out run by (auto simp: parse_static_files_def report_file_of_def Let_def comp_def)
  then show ?thesis using add_file_diff_keys [OF run] distinct_name_statuses [of out] by (simp add: strict_sorted_iff)
qed

text \<open>
  The report lists every file git names or the diff holds once, in order of path, and each with
  the last block of the diff that is about it, or with none.
\<close>

theorem report_files_spec:
  assumes "parse_static_files sha git base_sha head_sha diff = Inr files"
  shows "sorted_wrt (<) (map rf_path files)
    \<and> (\<exists>out. git [''diff'', ''--name-status'', ''--find-renames'', base_sha, head_sha, ''--''] = Git_Ok out
        \<and> set (map rf_path files) = fst ` set (name_statuses out) \<union> {p \<in> set (map static_diff_path (diff_blocks diff)). p \<noteq> []})
    \<and> list_all (\<lambda>f. rf_hunks f = parse_static_hunks sha (rf_path f) (rf_diff f)
        \<and> (rf_diff f = [] \<or> rf_diff f \<in> set (diff_blocks diff) \<and> static_diff_path (rf_diff f) = rf_path f)) files"
proof -
  obtain out where out: "git [''diff'', ''--name-status'', ''--find-renames'', base_sha, head_sha, ''--''] = Git_Ok out"
    using assms by (cases "git [''diff'', ''--name-status'', ''--find-renames'', base_sha, head_sha, ''--'']")
      (auto simp: parse_static_files_def)
  obtain statuses patches where run: "fold add_file_diff (diff_blocks diff) (name_statuses out, []) = (statuses, patches)" by fastforce
  have files: "files = map (report_file_of sha statuses patches) (sort (map fst statuses))"
    using assms out run by (simp add: parse_static_files_def)
  note keys = add_file_diff_keys [OF run]
  have paths: "map rf_path files = sort (map fst statuses)"
    by (simp add: files report_file_of_def Let_def comp_def)
  have "sorted_wrt (<) (map rf_path files)" by (rule report_files_sorted [OF assms])
  moreover have "set (map rf_path files) = fst ` set statuses" by (simp only: paths set_sort set_map)
  moreover have "map_of patches p = None \<or> (\<exists>b. map_of patches p = Some b \<and> b \<in> set (diff_blocks diff) \<and> static_diff_path b = p)" for p
  proof (cases "find (\<lambda>b. static_diff_path b = p) (rev (diff_blocks diff))")
    case None
    then show ?thesis using keys by simp
  next
    case (Some b)
    then have "map_of patches p = (if p = [] then None else Some b)" using keys by simp
    then show ?thesis using find_found [OF Some] by simp
  qed
  ultimately show ?thesis using out keys paths files
    by (fastforce simp: list_all_iff report_file_of_def Let_def split: option.splits)
qed

end
