(* ===== verification/GoRegex.thy ===== *)
theory GoRegex
  imports GoStd
begin

text \<open>
  The fixed regular expressions of the code (package \<open>regexp\<close>): a datatype of expressions over bytes, a
  matcher that computes where a match from a position can end, and the relation it computes. The
  expressions modelled are ASCII, or use classes that contain every rune that is not ASCII, so that
  matching bytes and matching runes agree. Patterns that users write are not of this type.
\<close>

datatype rx =
    Rx_Empty
  | Rx_Char "char \<Rightarrow> bool"
  | Rx_Seq rx rx
  | Rx_Alt rx rx
  | Rx_Star rx
  | Rx_Start
  | Rx_End
  | Rx_Boundary

definition word_char :: "char \<Rightarrow> bool" where
  "word_char c \<longleftrightarrow> ascii_upper c \<or> ascii_lower c \<or> ascii_digit c \<or> c = CHR ''_''"

definition at_boundary :: "bytes \<Rightarrow> nat \<Rightarrow> bool" where
  "at_boundary s i \<longleftrightarrow>
     ((0 < i \<and> word_char (s ! (i - 1))) \<noteq> (i < length s \<and> word_char (s ! i)))"

text \<open>The positions a step function reaches in at most \<open>n\<close> rounds.\<close>

fun rounds :: "(nat \<Rightarrow> nat list) \<Rightarrow> nat \<Rightarrow> nat list \<Rightarrow> nat list" where
  "rounds f 0 ps = ps"
| "rounds f (Suc n) ps = rounds f n (remdups (ps @ concat (map f ps)))"

text \<open>The ends of the matches from position \<open>i\<close>; \<open>length s\<close> rounds of a star suffice.\<close>

fun rx_ends :: "rx \<Rightarrow> bytes \<Rightarrow> nat \<Rightarrow> nat list" where
  "rx_ends Rx_Empty s i = [i]"
| "rx_ends (Rx_Char p) s i = (if i < length s \<and> p (s ! i) then [Suc i] else [])"
| "rx_ends (Rx_Seq r q) s i = remdups (concat (map (rx_ends q s) (rx_ends r s i)))"
| "rx_ends (Rx_Alt r q) s i = remdups (rx_ends r s i @ rx_ends q s i)"
| "rx_ends (Rx_Star r) s i = rounds (rx_ends r s) (length s) [i]"
| "rx_ends Rx_Start s i = (if i = 0 then [i] else [])"
| "rx_ends Rx_End s i = (if i = length s then [i] else [])"
| "rx_ends Rx_Boundary s i = (if at_boundary s i then [i] else [])"

text \<open>\<open>MatchString\<close>: a match somewhere.\<close>

definition rx_matches :: "rx \<Rightarrow> bytes \<Rightarrow> bool" where
  "rx_matches r s \<longleftrightarrow> list_ex (\<lambda>i. rx_ends r s i \<noteq> []) [0..<Suc (length s)]"

section \<open>Expressions\<close>

fun rx_string :: "bytes \<Rightarrow> rx" where
  "rx_string [] = Rx_Empty"
| "rx_string (c # cs) = Rx_Seq (Rx_Char (\<lambda>x. x = c)) (rx_string cs)"

fun rx_any :: "rx list \<Rightarrow> rx" where
  "rx_any [] = Rx_Char (\<lambda>_. False)"
| "rx_any [r] = r"
| "rx_any (r # q # rs) = Rx_Alt r (rx_any (q # rs))"

fun rx_all :: "rx list \<Rightarrow> rx" where
  "rx_all [] = Rx_Empty"
| "rx_all (r # rs) = Rx_Seq r (rx_all rs)"

definition rx_opt :: "rx \<Rightarrow> rx" where "rx_opt r = Rx_Alt r Rx_Empty"

definition rx_plus :: "rx \<Rightarrow> rx" where "rx_plus r = Rx_Seq r (Rx_Star r)"

fun rx_times :: "nat \<Rightarrow> rx \<Rightarrow> rx" where
  "rx_times 0 r = Rx_Empty"
| "rx_times (Suc n) r = Rx_Seq r (rx_times n r)"

definition rx_at_least :: "nat \<Rightarrow> rx \<Rightarrow> rx" where
  "rx_at_least n r = Rx_Seq (rx_times n r) (Rx_Star r)"

text \<open>
  A literal under \<open>(?i)\<close>: simple folding adds to the other case of a letter the long s (C5 BF) for s
  and the Kelvin sign (E2 84 AA) for k.
\<close>

definition rx_fold_char :: "char \<Rightarrow> rx" where
  "rx_fold_char c =
     (let same = Rx_Char (\<lambda>x. lower_char x = lower_char c) in
      if lower_char c = CHR ''s'' then Rx_Alt same (rx_string [CHR 0xC5, CHR 0xBF])
      else if lower_char c = CHR ''k'' then Rx_Alt same (rx_string [CHR 0xE2, CHR 0x84, CHR 0xAA])
      else same)"

definition rx_fold :: "bytes \<Rightarrow> rx" where
  "rx_fold s = rx_all (map rx_fold_char s)"

text \<open>\<open>\s\<close> is these five bytes.\<close>

definition rx_space :: rx where
  "rx_space = Rx_Char (\<lambda>c. c \<in> {CHR 0x09, CHR 0x0A, CHR 0x0C, CHR 0x0D, CHR '' ''})"

section \<open>What the matcher computes\<close>

inductive rx_match :: "bytes \<Rightarrow> rx \<Rightarrow> nat \<Rightarrow> nat \<Rightarrow> bool" for s :: bytes where
  empty: "rx_match s Rx_Empty i i"
| char: "i < length s \<Longrightarrow> p (s ! i) \<Longrightarrow> rx_match s (Rx_Char p) i (Suc i)"
| seq: "rx_match s r i j \<Longrightarrow> rx_match s q j k \<Longrightarrow> rx_match s (Rx_Seq r q) i k"
| left: "rx_match s r i j \<Longrightarrow> rx_match s (Rx_Alt r q) i j"
| right: "rx_match s q i j \<Longrightarrow> rx_match s (Rx_Alt r q) i j"
| star_nil: "rx_match s (Rx_Star r) i i"
| star_more: "rx_match s r i j \<Longrightarrow> rx_match s (Rx_Star r) j k \<Longrightarrow> rx_match s (Rx_Star r) i k"
| start: "rx_match s Rx_Start 0 0"
| finish: "rx_match s Rx_End (length s) (length s)"
| boundary: "at_boundary s i \<Longrightarrow> rx_match s Rx_Boundary i i"

inductive_cases rx_match_cases:
  "rx_match s Rx_Empty i j" "rx_match s (Rx_Char p) i j" "rx_match s (Rx_Seq r q) i j" "rx_match s (Rx_Alt r q) i j"
  "rx_match s Rx_Start i j" "rx_match s Rx_End i j" "rx_match s Rx_Boundary i j"

lemma rx_match_mono: "rx_match s r i j \<Longrightarrow> i \<le> length s \<Longrightarrow> i \<le> j \<and> j \<le> length s"
  by (induction rule: rx_match.induct) auto

lemma rounds_keeps: "set ps \<subseteq> set (rounds f n ps)"
  by (induction f n ps rule: rounds.induct) auto

lemma rounds_path: "q \<in> set (rounds f n ps) \<Longrightarrow> \<exists>p \<in> set ps. (p, q) \<in> {(x, y). y \<in> set (f x)}\<^sup>*"
proof (induction f n ps rule: rounds.induct)
  case (2 f n ps)
  then obtain p where p: "p \<in> set (ps @ concat (map f ps))" "(p, q) \<in> {(x, y). y \<in> set (f x)}\<^sup>*" by auto
  then show ?case by (auto intro: converse_rtrancl_into_rtrancl)
qed auto

lemma rounds_chain:
  "p \<in> set ps \<Longrightarrow> (p, q) \<in> {(x, y). y \<in> set (f x)} ^^ m \<Longrightarrow> m \<le> n \<Longrightarrow> q \<in> set (rounds f n ps)"
proof (induction m arbitrary: n ps p)
  case 0
  then show ?case using rounds_keeps by fastforce
next
  case (Suc m)
  obtain x where x: "x \<in> set (f p)" "(x, q) \<in> {(x, y). y \<in> set (f x)} ^^ m"
    using relpow_Suc_D2 [OF Suc.prems(2)] by auto
  obtain n' where n: "n = Suc n'" using Suc.prems(3) by (cases n) auto
  have "x \<in> set (remdups (ps @ concat (map f ps)))" using x(1) Suc.prems(1) by auto
  from Suc.IH [OF this x(2), of n'] show ?case using Suc.prems(3) n by simp
qed

lemma star_path: "rx_match s (Rx_Star r) i j \<longleftrightarrow> (i, j) \<in> {(x, y). rx_match s r x y}\<^sup>*"
proof
  show "(i, j) \<in> {(x, y). rx_match s r x y}\<^sup>*" if "rx_match s (Rx_Star r) i j"
    using that
  proof (induction "Rx_Star r" i j rule: rx_match.induct)
    case (star_more i j k)
    then show ?case by (auto intro: converse_rtrancl_into_rtrancl)
  qed auto
  show "rx_match s (Rx_Star r) i j" if "(i, j) \<in> {(x, y). rx_match s r x y}\<^sup>*"
    using that by (induction rule: converse_rtrancl_induct) (auto intro: rx_match.intros)
qed

text \<open>Steps that move forward and stay in the string are at most as many as its bytes.\<close>

lemma forward_path_short:
  assumes step: "\<And>x y. (x, y) \<in> R \<Longrightarrow> x \<le> n \<Longrightarrow> x \<le> y \<and> y \<le> (n :: nat)" and "(i, j) \<in> R\<^sup>*" and "i \<le> n"
  shows "\<exists>m \<le> j - i. (i, j) \<in> R ^^ m \<and> i \<le> j \<and> j \<le> n"
  using assms(2)
proof (induction rule: rtrancl_induct)
  case base
  then show ?case using assms(3) by (intro exI [of _ 0]) auto
next
  case (step y z)
  then obtain m where m: "m \<le> y - i" "(i, y) \<in> R ^^ m" "i \<le> y" "y \<le> n" by auto
  have z: "y \<le> z" "z \<le> n" using assms(1) [OF step.hyps(2) m(4)] by auto
  show ?case
  proof (cases "y = z")
    case True
    then show ?thesis using m by auto
  next
    case False
    have "(i, z) \<in> R ^^ Suc m" using m(2) step.hyps(2) by auto
    then show ?thesis using m z False by (intro exI [of _ "Suc m"]) auto
  qed
qed

text \<open>The matcher finds exactly the matches of the relation.\<close>

lemma rx_ends_iff: "i \<le> length s \<Longrightarrow> j \<in> set (rx_ends r s i) \<longleftrightarrow> rx_match s r i j"
proof (induction r arbitrary: i j)
  case (Rx_Seq r q)
  have "j \<in> set (rx_ends (Rx_Seq r q) s i) \<longleftrightarrow> (\<exists>k. k \<in> set (rx_ends r s i) \<and> j \<in> set (rx_ends q s k))" by auto
  also have "\<dots> \<longleftrightarrow> (\<exists>k. rx_match s r i k \<and> rx_match s q k j)"
    using Rx_Seq rx_match_mono by blast
  finally show ?case by (auto intro: rx_match.seq elim: rx_match_cases)
next
  case (Rx_Star r)
  let ?R = "{(x, y). rx_match s r x y}" and ?F = "{(x, y). y \<in> set (rx_ends r s x)}"
  have mono: "x \<le> y \<and> y \<le> length s" if "(x, y) \<in> ?R" "x \<le> length s" for x y using that rx_match_mono by auto
  have same: "(x, y) \<in> ?F \<longleftrightarrow> (x, y) \<in> ?R" if "x \<le> length s" for x y using Rx_Star.IH that by auto
  have "(i, j) \<in> ?R ^^ m \<longleftrightarrow> (i, j) \<in> ?F ^^ m" for m using Rx_Star.prems
  proof (induction m arbitrary: i)
    case (Suc m)
    have "(i, j) \<in> ?R ^^ Suc m \<longleftrightarrow> (\<exists>k. (i, k) \<in> ?R \<and> (k, j) \<in> ?R ^^ m)" by (meson relpow_Suc_E2 relpow_Suc_I2)
    also have "\<dots> \<longleftrightarrow> (\<exists>k. (i, k) \<in> ?F \<and> (k, j) \<in> ?F ^^ m)" using Suc mono same by blast
    also have "\<dots> \<longleftrightarrow> (i, j) \<in> ?F ^^ Suc m" by (meson relpow_Suc_E2 relpow_Suc_I2)
    finally show ?case .
  qed simp
  note pow = this
  show ?case
  proof
    assume "j \<in> set (rx_ends (Rx_Star r) s i)"
    then have "(i, j) \<in> ?F\<^sup>*" using rounds_path by fastforce
    then have "(i, j) \<in> ?R\<^sup>*" using pow by (simp add: rtrancl_power)
    then show "rx_match s (Rx_Star r) i j" by (simp add: star_path)
  next
    assume "rx_match s (Rx_Star r) i j"
    then have "(i, j) \<in> ?R\<^sup>*" by (simp add: star_path)
    then obtain m where m: "m \<le> j - i" "(i, j) \<in> ?R ^^ m" "j \<le> length s"
      using forward_path_short [of ?R "length s" i j, OF mono _ Rx_Star.prems] by blast
    then show "j \<in> set (rx_ends (Rx_Star r) s i)" using pow by (auto intro: rounds_chain [where p = i and m = m])
  qed
qed (auto intro: rx_match.intros elim: rx_match_cases)

lemma rx_matches_iff: "rx_matches r s \<longleftrightarrow> (\<exists>i j. i \<le> length s \<and> rx_match s r i j)"
proof -
  have "rx_matches r s \<longleftrightarrow> (\<exists>i \<le> length s. \<exists>j. j \<in> set (rx_ends r s i))"
    unfolding rx_matches_def list_ex_iff by (metis atLeastLessThan_iff last_in_set le_imp_less_Suc less_Suc_eq_le
        list.set_cases neq_Nil_conv set_upt zero_le)
  then show ?thesis using rx_ends_iff by blast
qed

end
