(* ===== verification/Attention.thy ===== *)
theory Attention
  imports ReportGit Rules GoRegex GoPath
begin

text \<open>
  Attention flags: \<open>attention.go\<close> and the git side of it in \<open>export_render.go\<close> (\<open>staticAttention\<close>,
  \<open>staticAttentionCandidates\<close>, \<open>attentionBlob\<close>, \<open>gitRawMode\<close>). \<open>u\<close> holds the Unicode tables, \<open>sha\<close> is SHA-256.
\<close>

definition attention_max_files :: nat where "attention_max_files = 500"

definition attention_max_file_bytes :: int where "attention_max_file_bytes = 512 * 1024"

definition attention_max_content_bytes :: int where "attention_max_content_bytes = 8 * 1024 * 1024"

definition attention_large_line_delta :: nat where "attention_large_line_delta = 400"

definition attention_max_flags :: nat where "attention_max_flags = 250"

record attention_flag =
  af_id :: bytes
  af_rule :: bytes
  af_title :: bytes
  af_reason :: bytes
  af_path :: bytes
  af_line :: nat
  af_evidence :: bytes

record review_attention =
  ra_flags :: "attention_flag list"
  ra_truncated :: bool

record attention_candidate =
  ac_path :: bytes
  ac_deleted :: bool
  ac_baseline_mode :: nat
  ac_current_mode :: nat
  ac_baseline :: bytes
  ac_current :: bytes
  ac_content_available :: bool

section \<open>Public declarations\<close>

definition rx_word :: rx where "rx_word = Rx_Char word_char"

definition rx_methods :: rx where
  "rx_methods = rx_any [rx_fold ''get'', rx_fold ''post'', rx_fold ''put'', rx_fold ''patch'', rx_fold ''delete'']"

text \<open>\<open>(?i)(\bHandleFunc\s*\(|\b(app|router|server)\.(get|post|put|patch|delete)\s*\(|@(app|router)\.(...)\b)\<close>\<close>

definition route_api_added_line :: rx where
  "route_api_added_line =
     rx_any
       [rx_all [Rx_Boundary, rx_fold ''HandleFunc'', Rx_Star rx_space, rx_string ''(''],
        rx_all [Rx_Boundary, rx_any [rx_fold ''app'', rx_fold ''router'', rx_fold ''server''], rx_string ''.'',
                rx_methods, Rx_Star rx_space, rx_string ''(''],
        rx_all [rx_string ''@'', rx_any [rx_fold ''app'', rx_fold ''router''], rx_string ''.'', rx_methods, Rx_Boundary]]"

text \<open>\<open>\bexport\s+(async\s+)?(function|class|const|let|var)\b\<close>\<close>

definition js_export_added_line :: rx where
  "js_export_added_line =
     rx_all [Rx_Boundary, rx_string ''export'', rx_plus rx_space, rx_opt (rx_all [rx_string ''async'', rx_plus rx_space]),
             rx_any [rx_string ''function'', rx_string ''class'', rx_string ''const'', rx_string ''let'', rx_string ''var''],
             Rx_Boundary]"

text \<open>\<open>^\s*func\s+(\([^)]*\)\s*)?[A-Z][A-Za-z0-9_]*\s*\(\<close>\<close>

definition go_exported_added_line :: rx where
  "go_exported_added_line =
     rx_all [Rx_Start, Rx_Star rx_space, rx_string ''func'', rx_plus rx_space,
             rx_opt (rx_all [rx_string ''('', Rx_Star (Rx_Char (\<lambda>c. c \<noteq> CHR '')'')), rx_string '')'', Rx_Star rx_space]),
             Rx_Char ascii_upper, Rx_Star rx_word, Rx_Star rx_space, rx_string ''('']"

definition is_public_api_added_line :: "bytes \<Rightarrow> bool" where
  "is_public_api_added_line text \<longleftrightarrow>
     rx_matches route_api_added_line text \<or> rx_matches js_export_added_line text \<or> rx_matches go_exported_added_line text"

section \<open>Kinds of file\<close>

text \<open>The separators are ASCII and so are the words, so the bytes may be split instead of the runes.\<close>

definition has_path_word :: "bytes \<Rightarrow> bytes list \<Rightarrow> bool" where
  "has_path_word path ws \<longleftrightarrow> list_ex (\<lambda>part. part \<in> set ws) (fields_func (\<lambda>c. c \<in> set ''/._-'') path)"

definition dependency_files :: "bytes list" where
  "dependency_files =
     [''go.mod'', ''go.sum'', ''package.json'', ''package-lock.json'', ''yarn.lock'', ''pnpm-lock.yaml'', ''cargo.toml'',
      ''cargo.lock'', ''pyproject.toml'', ''poetry.lock'', ''requirements.txt'', ''gemfile'', ''gemfile.lock'',
      ''composer.json'', ''composer.lock'']"

definition is_dependency_file :: "bytes \<Rightarrow> bool" where
  "is_dependency_file name \<longleftrightarrow>
     name \<in> set dependency_files \<or> (has_prefix ''requirements-'' name \<and> has_suffix ''.txt'' name)"

definition is_configuration_file :: "bytes \<Rightarrow> bytes \<Rightarrow> bool" where
  "is_configuration_file path name \<longleftrightarrow>
     name = ''.env'' \<or> has_prefix ''.env.'' name \<or> has_suffix ''.env'' name
     \<or> has_path_word path [''config'', ''configuration'']
     \<or> name \<in> {''dockerfile'', ''docker-compose.yml'', ''docker-compose.yaml'', ''makefile'', ''procfile''}"

definition is_test_file :: "bytes \<Rightarrow> bytes \<Rightarrow> bool" where
  "is_test_file path name \<longleftrightarrow>
     contains ''/test/'' path \<or> contains ''/tests/'' path \<or> has_prefix ''test/'' path \<or> has_prefix ''tests/'' path
     \<or> has_suffix ''_test.go'' name \<or> contains ''.test.'' name \<or> contains ''.spec.'' name"

definition is_generated_file :: "bytes \<Rightarrow> bytes \<Rightarrow> bool" where
  "is_generated_file path name \<longleftrightarrow>
     contains ''/generated/'' path \<or> has_prefix ''generated/'' path \<or> contains ''.generated.'' name
     \<or> contains ''.gen.'' name \<or> has_suffix ''.pb.go'' name \<or> has_suffix ''_generated.go'' name"

section \<open>Changed lines\<close>

definition crlf :: bytes where "crlf = [CHR 0x0D, CHR 0x0A]"

definition attention_text_lines :: "bytes \<Rightarrow> bytes list" where
  "attention_text_lines contents =
     (let text = trim_suffix newline (replace_all crlf newline contents) in
      if text = [] then [] else split_on (CHR 0x0A) text)"

definition line_counts :: "bytes list \<Rightarrow> bytes \<Rightarrow> nat" where
  "line_counts lines = fold (\<lambda>l counts. counts(l := Suc (counts l))) lines (\<lambda>_. 0)"

fun new_lines :: "nat \<Rightarrow> (bytes \<Rightarrow> nat) \<Rightarrow> bytes list \<Rightarrow> (nat \<times> bytes) list \<times> (bytes \<Rightarrow> nat)" where
  "new_lines n counts [] = ([], counts)"
| "new_lines n counts (l # ls) =
     (if counts l > 0 then new_lines (Suc n) (counts(l := counts l - 1)) ls
      else (case new_lines (Suc n) counts ls of (added, rest) \<Rightarrow> ((n + 1, l) # added, rest)))"

text \<open>The map's keys are the lines of the old text.\<close>

definition changed_text_lines :: "bytes \<Rightarrow> bytes \<Rightarrow> (nat \<times> bytes) list \<times> nat" where
  "changed_text_lines before after =
     (let old = attention_text_lines before in
      case new_lines 0 (line_counts old) (attention_text_lines after) of
        (added, rest) \<Rightarrow> (added, sum_list (map rest (remdups old))))"

section \<open>Detection\<close>

definition exec_bits :: "nat \<Rightarrow> nat \<times> nat \<times> nat" where
  "exec_bits mode = (mode div 64 mod 2, mode div 8 mod 2, mode mod 2)"

text \<open>\<open>%04o\<close> of permission bits.\<close>

definition octal4 :: "nat \<Rightarrow> bytes" where
  "octal4 n = map (\<lambda>d. char_of (48 + d)) [n div 512 mod 8, n div 64 mod 8, n div 8 mod 8, n mod 8]"

definition arrow :: bytes where "arrow = [CHR '' '', CHR 0xE2, CHR 0x86, CHR 0x92, CHR '' '']"

text \<open>One flag: rule, title, reason, line and evidence.\<close>

type_synonym signal = "bytes \<times> bytes \<times> bytes \<times> nat \<times> bytes"

definition path_signals :: "unicode \<Rightarrow> attention_candidate \<Rightarrow> signal list" where
  "path_signals u c =
     (let path = ac_path c; low = to_lower u path; name = to_lower u (base path) in
      (if is_dependency_file name
       then [(''dependency'', ''Dependency change'', ''Dependency manifests and lockfiles can alter code throughout the build.'', 0, name)]
       else [])
      @ (if has_path_word low [''auth'', ''authentication'', ''authorization'', ''login'', ''session'', ''permission'']
         then [(''authentication'', ''Authentication path'', ''This path looks related to authentication or authorization.'', 0, path)]
         else [])
      @ (if contains ''/migrations/'' low \<or> has_prefix ''migrations/'' low \<or> has_path_word low [''schema''] \<or> has_suffix ''.sql'' name
         then [(''schema'', ''Schema or migration'', ''Schema and migration changes can affect stored data and deployment order.'', 0, path)]
         else [])
      @ (if is_configuration_file low name
         then [(''configuration'', ''Configuration change'',
                ''Configuration and environment files can change runtime behavior outside this diff.'', 0, path)]
         else [])
      @ (if ac_deleted c \<and> is_test_file low name
         then [(''deleted-test'', ''Deleted test'', ''A test file was removed, which may reduce verification coverage.'', 0, path)]
         else [])
      @ (if is_generated_file low name
         then [(''generated'', ''Generated file'',
                ''Generated output changed; review the source and regeneration path as well.'', 0, path)]
         else [])
      @ (if exec_bits (ac_baseline_mode c) \<noteq> exec_bits (ac_current_mode c)
         then [(''executable-mode'', ''Executable permission changed'', ''Executable-bit changes affect how the file can be run.'', 0,
                ''mode '' @ octal4 (ac_baseline_mode c) @ arrow @ octal4 (ac_current_mode c))]
         else []))"

definition content_signals :: "unicode \<Rightarrow> attention_candidate \<Rightarrow> signal list" where
  "content_signals u c =
     (let low = to_lower u (ac_path c); name = to_lower u (base (ac_path c)) in
      case changed_text_lines (ac_baseline c) (ac_current c) of (added, removed) \<Rightarrow>
        (if length added + removed \<ge> attention_large_line_delta
         then [(''large-diff'', ''Large diff'', ''A large textual change deserves an explicit review pass.'', 0,
                dec_nat (length added) @ '' added, '' @ dec_nat removed @ '' removed lines'')]
         else [])
        @ (case find (\<lambda>(n, t). \<not> is_test_file low name \<and> is_public_api_added_line (trim_space t)) added of
             None \<Rightarrow> []
           | Some (n, t) \<Rightarrow>
               [(''public-api'', ''New endpoint or public API'', ''An added declaration looks externally callable or route-facing.'',
                 n, clip (trim_space t) 180)]))"

definition candidate_signals :: "unicode \<Rightarrow> attention_candidate \<Rightarrow> signal list" where
  "candidate_signals u c = path_signals u c @ (if ac_content_available c then content_signals u c else [])"

definition make_flag :: "(bytes \<Rightarrow> bytes) \<Rightarrow> bytes \<Rightarrow> signal \<Rightarrow> attention_flag" where
  "make_flag sha path s =
     (case s of (rule, title, reason, line, evidence) \<Rightarrow>
        \<lparr>af_id = ''attention-'' @ hex_encode (take 8 (sha (rule @ [CHR 0x00] @ path @ [CHR 0x00] @ evidence))),
         af_rule = rule, af_title = title, af_reason = reason, af_path = path, af_line = line, af_evidence = evidence\<rparr>)"

text \<open>The closure \<open>add\<close>: the flag is made only while there is room for another.\<close>

definition add_flag :: "bytes set \<Rightarrow> attention_flag \<Rightarrow> review_attention \<Rightarrow> review_attention" where
  "add_flag dismissed f r =
     (if length (ra_flags r) \<ge> attention_max_flags then r\<lparr>ra_truncated := True\<rparr>
      else if af_id f \<in> dismissed then r
      else r\<lparr>ra_flags := ra_flags r @ [f]\<rparr>)"

definition flag_less :: "attention_flag \<Rightarrow> attention_flag \<Rightarrow> bool" where
  "flag_less a b \<longleftrightarrow>
     (if af_path a \<noteq> af_path b then af_path a < af_path b
      else if af_line a \<noteq> af_line b then af_line a < af_line b
      else af_rule a < af_rule b)"

definition detect_review_attention ::
    "unicode \<Rightarrow> (bytes \<Rightarrow> bytes) \<Rightarrow> attention_candidate list \<Rightarrow> bytes set \<Rightarrow> review_attention" where
  "detect_review_attention u sha candidates dismissed =
     (let flags = concat (map (\<lambda>c. map (make_flag sha (ac_path c)) (candidate_signals u c)) candidates);
          r = fold (add_flag dismissed) flags \<lparr>ra_flags = [], ra_truncated = False\<rparr>
      in r\<lparr>ra_flags := sort_by flag_less (ra_flags r)\<rparr>)"

section \<open>Candidates from git\<close>

record attention_analysis =
  aa_candidate_files :: nat
  aa_files_analyzed :: nat
  aa_content_unavailable :: nat
  aa_truncated :: bool
  aa_limits :: "bytes list"

definition octal_digit :: "char \<Rightarrow> bool" where
  "octal_digit c \<longleftrightarrow> ascii_digit c \<and> c \<noteq> CHR ''8'' \<and> c \<noteq> CHR ''9''"

definition git_raw_mode :: "bytes \<Rightarrow> nat" where
  "git_raw_mode octal =
     (if octal = [] \<or> \<not> list_all octal_digit octal then 0
      else let n = foldl (\<lambda>n c. 8 * n + (of_char c - 48)) 0 octal in if n \<ge> 2 ^ 32 then 0 else n mod 512)"

text \<open>The blob, if it is read, and the budget that is left.\<close>

definition attention_blob :: "git \<Rightarrow> bytes \<Rightarrow> bytes \<Rightarrow> int \<Rightarrow> (bytes option \<times> int) res" where
  "attention_blob git commit path remaining =
     (case git_output (git [''cat-file'', ''-s'', commit @ '':'' @ path]) of
        Inl e \<Rightarrow> Inl (Wrapped (''size of '' @ path @ '' at '' @ short_revision commit @ '': %w'') [] e)
      | Inr out \<Rightarrow>
     (case parse_int64 (trim_space out) of
        None \<Rightarrow> Inl (MsgStr ''strconv.ParseInt: parsing %q'' (trim_space out))
      | Some width \<Rightarrow>
          if width > attention_max_file_bytes \<or> width > remaining then Inr (None, remaining)
          else (case git_file_at_commit git commit path of
                  Inl e \<Rightarrow> Inl e
                | Inr None \<Rightarrow> Inr (None, remaining)
                | Inr (Some b) \<Rightarrow> Inr (Some b, remaining - width))))"

record raw_change =
  rc_status :: char
  rc_old_mode :: bytes
  rc_new_mode :: bytes
  rc_old_path :: bytes
  rc_new_path :: bytes

definition raw_error :: go_error where
  "raw_error = Msg ''unexpected git diff --raw output''"

text \<open>One record of \<open>git diff --raw -z\<close>: the metadata and one path, or two of a rename or copy.\<close>

definition raw_record :: "bytes list \<Rightarrow> (raw_change \<times> bytes list) res" where
  "raw_record parts =
     (let meta = go_fields (trim_prefix '':'' (hd parts)) in
      if length meta < 5 then Inl raw_error
      else let status = hd (meta ! 4) in
        if status = CHR ''R'' \<or> status = CHR ''C'' then
          (if length parts < 3 then Inl raw_error
           else Inr (\<lparr>rc_status = status, rc_old_mode = meta ! 0, rc_new_mode = meta ! 1,
                      rc_old_path = parts ! 1, rc_new_path = parts ! 2\<rparr>, drop 3 parts))
        else if length parts < 2 then Inl raw_error
        else Inr (\<lparr>rc_status = status, rc_old_mode = meta ! 0, rc_new_mode = meta ! 1,
                   rc_old_path = parts ! 1, rc_new_path = parts ! 1\<rparr>, drop 2 parts))"

definition read_side :: "git \<Rightarrow> bool \<Rightarrow> bytes \<Rightarrow> bytes \<Rightarrow> int \<Rightarrow> (bytes option \<times> int) res" where
  "read_side git needed commit path remaining =
     (if needed then attention_blob git commit path remaining else Inr (Some [], remaining))"

definition attention_candidate_of ::
    "git \<Rightarrow> bytes \<Rightarrow> bytes \<Rightarrow> raw_change \<Rightarrow> int \<Rightarrow> (attention_candidate \<times> int) res" where
  "attention_candidate_of git base_sha head_sha c remaining =
     (let deleted = (rc_status c = CHR ''D'') in
      case read_side git (rc_status c \<noteq> CHR ''A'') base_sha (rc_old_path c) remaining of
        Inl e \<Rightarrow> Inl e
      | Inr (before, remaining) \<Rightarrow>
     (case read_side git (\<not> deleted) head_sha (rc_new_path c) remaining of
        Inl e \<Rightarrow> Inl e
      | Inr (after, remaining) \<Rightarrow>
          let old = (case before of None \<Rightarrow> [] | Some b \<Rightarrow> b); new = (case after of None \<Rightarrow> [] | Some b \<Rightarrow> b) in
          Inr (\<lparr>ac_path = (if deleted then rc_old_path c else rc_new_path c), ac_deleted = deleted,
                ac_baseline_mode = git_raw_mode (rc_old_mode c), ac_current_mode = git_raw_mode (rc_new_mode c),
                ac_baseline = old, ac_current = new,
                ac_content_available = (before \<noteq> None \<and> after \<noteq> None \<and> CHR 0x00 \<notin> set old \<and> CHR 0x00 \<notin> set new)\<rparr>,
               remaining)))"

record attention_state =
  as_candidates :: "attention_candidate list"
  as_seen :: nat
  as_unavailable :: nat
  as_remaining :: int

lemma raw_record_shorter: "raw_record parts = Inr (c, rest) \<Longrightarrow> parts \<noteq> [] \<Longrightarrow> length rest < length parts"
  by (auto simp: raw_record_def Let_def split: if_splits)

function attention_loop ::
    "git \<Rightarrow> bytes \<Rightarrow> bytes \<Rightarrow> bytes list \<Rightarrow> attention_state \<Rightarrow> attention_state res" where
  "attention_loop git base_sha head_sha [] st = Inr st"
| "attention_loop git base_sha head_sha (f # fs) st =
     (case raw_record (f # fs) of
        Inl e \<Rightarrow> Inl e
      | Inr (c, rest) \<Rightarrow>
          let st = st\<lparr>as_seen := Suc (as_seen st)\<rparr> in
          if length (as_candidates st) \<ge> attention_max_files then attention_loop git base_sha head_sha rest st
          else (case attention_candidate_of git base_sha head_sha c (as_remaining st) of
            Inl e \<Rightarrow> Inl e
          | Inr (candidate, remaining) \<Rightarrow>
              attention_loop git base_sha head_sha rest
                (st\<lparr>as_candidates := as_candidates st @ [candidate],
                    as_unavailable := as_unavailable st + (if ac_content_available candidate then 0 else 1),
                    as_remaining := remaining\<rparr>)))"
  by pat_completeness auto
termination
  by (relation "measure (\<lambda>(git, b, h, parts, st). length parts)") (auto dest: raw_record_shorter)

definition attention_limits :: "attention_state \<Rightarrow> bytes list" where
  "attention_limits st =
     (if as_seen st > length (as_candidates st)
      then [''attention analysis limited to '' @ dec_nat (length (as_candidates st)) @ '' of '' @ dec_nat (as_seen st)
            @ '' changed files''] else [])
     @ (if as_unavailable st > 0
        then [''content rules skipped for '' @ dec_nat (as_unavailable st)
              @ '' files because content was binary or exceeded byte limits''] else [])"

definition static_attention_candidates ::
    "git \<Rightarrow> bytes \<Rightarrow> bytes \<Rightarrow> bytes \<Rightarrow> (attention_candidate list \<times> attention_analysis) res" where
  "static_attention_candidates git base_sha head_sha raw =
     (let parts = split_on (CHR 0x00) (trim_right (CHR 0x00) raw) in
      if parts = [[]]
      then Inr ([], \<lparr>aa_candidate_files = 0, aa_files_analyzed = 0, aa_content_unavailable = 0, aa_truncated = False, aa_limits = []\<rparr>)
      else (case attention_loop git base_sha head_sha parts
                   \<lparr>as_candidates = [], as_seen = 0, as_unavailable = 0, as_remaining = attention_max_content_bytes\<rparr> of
        Inl e \<Rightarrow> Inl e
      | Inr st \<Rightarrow>
          Inr (sort_by (\<lambda>a b. ac_path a < ac_path b) (as_candidates st),
               \<lparr>aa_candidate_files = as_seen st, aa_files_analyzed = length (as_candidates st),
                aa_content_unavailable = as_unavailable st, aa_truncated = (attention_limits st \<noteq> []),
                aa_limits = attention_limits st\<rparr>)))"

definition static_attention ::
    "unicode \<Rightarrow> (bytes \<Rightarrow> bytes) \<Rightarrow> git \<Rightarrow> bytes \<Rightarrow> bytes \<Rightarrow> (attention_flag list \<times> attention_analysis) res" where
  "static_attention u sha git base_sha head_sha =
     (case git_output (git [''diff'', ''--raw'', ''--no-abbrev'', ''--find-renames'', ''-z'', base_sha, head_sha, ''--'']) of
        Inl e \<Rightarrow> Inl (Wrapped ''list attention candidates: %w'' [] e)
      | Inr raw \<Rightarrow>
     (case static_attention_candidates git base_sha head_sha raw of
        Inl e \<Rightarrow> Inl e
      | Inr (candidates, analysis) \<Rightarrow>
          let detected = detect_review_attention u sha candidates {} in
          Inr (ra_flags detected,
               if ra_truncated detected
               then analysis\<lparr>aa_truncated := True, aa_limits := aa_limits analysis @ [''attention findings reached the output limit'']\<rparr>
               else analysis)))"

section \<open>Changed lines are a multiset difference\<close>

lemma line_counts_count: "line_counts ls l = count (mset ls) l"
proof -
  have "fold (\<lambda>l counts. counts(l := Suc (counts l))) ls c l = c l + count (mset ls) l" for c :: "bytes \<Rightarrow> nat"
    by (induction ls arbitrary: c) auto
  then show ?thesis by (simp add: line_counts_def)
qed

definition placed :: "nat \<Rightarrow> bytes list \<Rightarrow> nat \<times> bytes \<Rightarrow> bool" where
  "placed n ls p \<longleftrightarrow> (case p of (k, t) \<Rightarrow> n < k \<and> k \<le> n + length ls \<and> ls ! (k - Suc n) = t)"

lemma placed_Cons: "placed (Suc n) ls p \<Longrightarrow> placed n (l # ls) p"
  by (auto simp: placed_def nth_Cons')

lemma new_lines_spec:
  assumes "new_lines n counts ls = (added, rest)" "\<And>l. counts l = count m l"
  shows "mset (map snd added) = mset ls - m \<and> (\<forall>l. rest l = count (m - mset ls) l)
    \<and> sorted_wrt (<) (map fst added) \<and> list_all (placed n ls) added"
  using assms
proof (induction n counts ls arbitrary: added rest m rule: new_lines.induct)
  case (2 n counts l ls)
  show ?case
  proof (cases "counts l > 0")
    case True
    have run: "new_lines (Suc n) (counts(l := counts l - 1)) ls = (added, rest)" using "2.prems"(1) True by simp
    have mem: "l \<in># m" using True "2.prems"(2) by (metis count_greater_zero_iff)
    have *: "mset (map snd added) = mset ls - (m - {#l#}) \<and> (\<forall>x. rest x = count (m - {#l#} - mset ls) x)
        \<and> sorted_wrt (<) (map fst added) \<and> list_all (placed (Suc n) ls) added"
      by (rule "2.IH"(1) [OF True run]) (use "2.prems"(2) in simp)
    have "mset (l # ls) - m = mset ls - (m - {#l#})" using mem by (simp add: multiset_eq_iff)
    then show ?thesis using * by (simp add: list_all_iff placed_Cons)
  next
    case False
    obtain a where a: "new_lines (Suc n) counts ls = (a, rest)" "added = (n + 1, l) # a"
      using "2.prems"(1) False by (auto split: prod.splits)
    have mem: "l \<notin># m" using False "2.prems"(2) by (metis count_greater_zero_iff)
    have *: "mset (map snd a) = mset ls - m \<and> (\<forall>x. rest x = count (m - mset ls) x)
        \<and> sorted_wrt (<) (map fst a) \<and> list_all (placed (Suc n) ls) a"
      by (rule "2.IH"(2) [OF False a(1)]) (use "2.prems"(2) in simp)
    have "mset (l # ls) - m = add_mset l (mset ls - m)" "m - mset (l # ls) = m - mset ls"
      using mem by (simp_all add: multiset_eq_iff not_in_iff)
    moreover have "placed n (l # ls) (n + 1, l)" by (simp add: placed_def)
    moreover have "\<forall>k \<in> set (map fst a). n + 1 < k" using * by (auto simp: list_all_iff placed_def)
    ultimately show ?thesis using * a(2) by (simp add: list_all_iff placed_Cons)
  qed
qed simp

text \<open>
  C20: Comparing two versions of a file as multisets of lines: the lines called added are exactly the
  new version's lines beyond those the old one had, each with its own line number and in order, and
  the number called removed is the number of the old version's lines beyond those the new one has.
\<close>

theorem changed_lines_are_multiset_difference:
  "let old = attention_text_lines before; new = attention_text_lines after in
   case changed_text_lines before after of (added, removed) \<Rightarrow>
     mset (map snd added) = mset new - mset old \<and> removed = size (mset old - mset new)
     \<and> sorted_wrt (<) (map fst added) \<and> list_all (\<lambda>(k, t). 0 < k \<and> k \<le> length new \<and> new ! (k - 1) = t) added"
proof -
  let ?old = "attention_text_lines before" and ?new = "attention_text_lines after"
  obtain added rest where run: "new_lines 0 (line_counts ?old) ?new = (added, rest)" by fastforce
  have *: "mset (map snd added) = mset ?new - mset ?old \<and> (\<forall>x. rest x = count (mset ?old - mset ?new) x)
      \<and> sorted_wrt (<) (map fst added) \<and> list_all (placed 0 ?new) added"
    using new_lines_spec [OF run] line_counts_count by simp
  have "sum_list (map rest (remdups ?old)) = (\<Sum>x \<in> set ?old. count (mset ?old - mset ?new) x)"
    using * by (simp add: sum_list_distinct_conv_sum_set)
  also have "\<dots> = size (mset ?old - mset ?new)"
    unfolding size_multiset_overloaded_eq
    by (rule sum.mono_neutral_right) (auto dest: in_diffD simp: not_in_iff)
  finally show ?thesis
    using run * by (simp add: changed_text_lines_def Let_def placed_def list_all_iff case_prod_beta)
qed

section \<open>Bounds\<close>

lemma add_flag_bound:
  "length (ra_flags r) \<le> 250 \<Longrightarrow> length (ra_flags (fold (add_flag dismissed) fs r)) \<le> 250"
  by (induction fs arbitrary: r) (simp_all add: add_flag_def attention_max_flags_def)

lemma detect_flags_bound: "length (ra_flags (detect_review_attention u sha candidates dismissed)) \<le> 250"
  using add_flag_bound [of "\<lparr>ra_flags = [], ra_truncated = False\<rparr>" dismissed]
  by (simp add: detect_review_attention_def Let_def)

lemma add_flag_room:
  "\<not> ra_truncated r \<Longrightarrow> \<not> ra_truncated (fold (add_flag dismissed) fs r) \<Longrightarrow>
   ra_flags (fold (add_flag dismissed) fs r) = ra_flags r @ filter (\<lambda>f. af_id f \<notin> dismissed) fs"
  and add_flag_truncated: "ra_truncated r \<Longrightarrow> ra_truncated (fold (add_flag dismissed) fs r)"
proof (induction fs arbitrary: r)
  case (Cons f fs)
  { case 1
    have "\<not> ra_truncated (add_flag dismissed f r)" using 1 Cons.IH(2) by auto
    then show ?case using 1 Cons.IH(1) [of "add_flag dismissed f r"] by (auto simp: add_flag_def split: if_splits)
  next
    case 2
    then have "ra_truncated (add_flag dismissed f r)" by (simp add: add_flag_def)
    then show ?case using Cons.IH(2) by simp }
qed simp_all

text \<open>
  At most 250 flags are raised, and when the result is not marked truncated they are exactly the
  signals of the candidates that were not dismissed.
\<close>

theorem attention_flags_complete_unless_truncated:
  "let r = detect_review_attention u sha candidates dismissed;
       flags = concat (map (\<lambda>c. map (make_flag sha (ac_path c)) (candidate_signals u c)) candidates) in
   length (ra_flags r) \<le> 250
   \<and> (if ra_truncated r then True else mset (ra_flags r) = mset (filter (\<lambda>f. af_id f \<notin> dismissed) flags))"
  using add_flag_bound [of "\<lparr>ra_flags = [], ra_truncated = False\<rparr>" dismissed]
    add_flag_room [of "\<lparr>ra_flags = [], ra_truncated = False\<rparr>" dismissed]
  by (simp add: detect_review_attention_def Let_def)

text \<open>
  What the budget rests on, of the objects the listed changes name and of no others: a side with the
  mode of a submodule names a commit of another repository, which \<open>git cat-file\<close> does not find here;
  any other side names a blob, and \<open>git cat-file -s\<close> prints the length of what \<open>git show\<close> prints of it.
\<close>

function raw_changes :: "bytes list \<Rightarrow> raw_change list" where
  "raw_changes [] = []"
| "raw_changes (f # fs) = (case raw_record (f # fs) of Inl e \<Rightarrow> [] | Inr (c, rest) \<Rightarrow> c # raw_changes rest)"
  by pat_completeness auto
termination
  by (relation "measure length") (auto dest: raw_record_shorter)

definition sides_read :: "bytes \<Rightarrow> bytes \<Rightarrow> raw_change \<Rightarrow> (bytes \<times> bytes) list" where
  "sides_read base_sha head_sha c =
     (if rc_status c \<noteq> CHR ''A'' then [(rc_old_mode c, base_sha @ '':'' @ rc_old_path c)] else [])
     @ (if rc_status c \<noteq> CHR ''D'' then [(rc_new_mode c, head_sha @ '':'' @ rc_new_path c)] else [])"

definition side_honest :: "git \<Rightarrow> bytes \<times> bytes \<Rightarrow> bool" where
  "side_honest git side \<longleftrightarrow>
     (case side of (mode, object) \<Rightarrow>
        \<forall>out content. git [''cat-file'', ''-s'', object] = Git_Ok out \<longrightarrow>
          mode \<noteq> ''160000'' \<and> (git [''show'', object] = Git_Ok content \<longrightarrow> parse_int64 (trim_space out) = Some (int (length content))))"

definition sizes_honest :: "git \<Rightarrow> bytes \<Rightarrow> bytes \<Rightarrow> bytes list \<Rightarrow> bool" where
  "sizes_honest git base_sha head_sha parts \<longleftrightarrow>
     list_all (\<lambda>c. list_all (side_honest git) (sides_read base_sha head_sha c)) (raw_changes parts)"

definition blob_length :: "bytes option \<Rightarrow> int" where
  "blob_length b = (case b of None \<Rightarrow> 0 | Some c \<Rightarrow> int (length c))"

lemma git_file_shown: "git_file_at_commit git commit path = Inr (Some c) \<Longrightarrow> git [''show'', commit @ '':'' @ path] = Git_Ok c"
  by (auto simp: git_file_at_commit_def Let_def split: git_result.splits if_splits)

lemma git_output_ok: "git_output r = Inr out \<longleftrightarrow> r = Git_Ok out"
  by (cases r) auto

lemma attention_blob_budget:
  assumes "attention_blob git commit path remaining = Inr (b, left)" "side_honest git (mode, commit @ '':'' @ path)" "0 \<le> remaining"
  shows "blob_length b + left = remaining \<and> 0 \<le> left"
proof -
  obtain out where out: "git [''cat-file'', ''-s'', commit @ '':'' @ path] = Git_Ok out"
    using assms(1) by (auto simp: attention_blob_def git_output_ok split: sum.splits)
  obtain width where width: "parse_int64 (trim_space out) = Some width"
    using assms(1) out by (auto simp: attention_blob_def split: option.splits)
  consider "b = None" "left = remaining"
    | c where "b = Some c" "git_file_at_commit git commit path = Inr (Some c)" "left = remaining - width" "width \<le> remaining"
    using assms(1) out width by (auto simp: attention_blob_def split: sum.splits option.splits if_splits)
  then show ?thesis
  proof cases
    case 2
    then have "Some (int (length c)) = Some width"
      using assms(2) out width git_file_shown [OF 2(2)] by (simp add: side_honest_def)
    then show ?thesis using 2 by (simp add: blob_length_def)
  qed (use assms(3) in \<open>simp add: blob_length_def\<close>)
qed

lemma read_side_budget:
  "read_side git needed commit path remaining = Inr (b, left) \<Longrightarrow> (needed \<Longrightarrow> side_honest git (mode, commit @ '':'' @ path)) \<Longrightarrow>
   0 \<le> remaining \<Longrightarrow>
   blob_length b + left = remaining \<and> 0 \<le> left"
  by (cases needed) (auto simp: read_side_def blob_length_def dest: attention_blob_budget)

definition candidate_bytes :: "attention_candidate \<Rightarrow> int" where
  "candidate_bytes c = int (length (ac_baseline c)) + int (length (ac_current c))"

lemma candidate_budget:
  assumes "attention_candidate_of git base_sha head_sha c remaining = Inr (candidate, left)"
    and honest: "list_all (side_honest git) (sides_read base_sha head_sha c)" and "0 \<le> remaining"
  shows "candidate_bytes candidate + left = remaining \<and> 0 \<le> left"
proof -
  obtain before mid where b: "read_side git (rc_status c \<noteq> CHR ''A'') base_sha (rc_old_path c) remaining = Inr (before, mid)"
    using assms(1) by (auto simp: attention_candidate_of_def Let_def split: sum.splits)
  obtain after left' where a: "read_side git (rc_status c \<noteq> CHR ''D'') head_sha (rc_new_path c) mid = Inr (after, left')"
    using assms(1) b by (auto simp: attention_candidate_of_def Let_def split: sum.splits)
  have c: "candidate_bytes candidate = blob_length before + blob_length after" "left = left'"
    using assms(1) a b
    by (auto simp: attention_candidate_of_def Let_def candidate_bytes_def blob_length_def split: option.splits)
  show ?thesis
  proof -
    have sides: "rc_status c \<noteq> CHR ''A'' \<Longrightarrow> side_honest git (rc_old_mode c, base_sha @ '':'' @ rc_old_path c)"
        "rc_status c \<noteq> CHR ''D'' \<Longrightarrow> side_honest git (rc_new_mode c, head_sha @ '':'' @ rc_new_path c)"
      using honest by (simp_all only: sides_read_def if_True list_all_append list.pred_inject simp_thms)
    have "blob_length before + mid = remaining \<and> 0 \<le> mid" by (rule read_side_budget [OF b sides(1) assms(3)])
    moreover from this have "blob_length after + left' = mid \<and> 0 \<le> left'" using read_side_budget [OF a sides(2)] by blast
    ultimately show ?thesis using c by simp
  qed
qed

definition state_within :: "attention_state \<Rightarrow> bool" where
  "state_within st \<longleftrightarrow> length (as_candidates st) \<le> 500 \<and> 0 \<le> as_remaining st
     \<and> sum_list (map candidate_bytes (as_candidates st)) + as_remaining st = 8388608"

lemma attention_loop_within:
  "attention_loop git base_sha head_sha parts st = Inr st' \<Longrightarrow> sizes_honest git base_sha head_sha parts \<Longrightarrow> state_within st \<Longrightarrow> state_within st'"
proof (induction git base_sha head_sha parts st rule: attention_loop.induct)
  case (2 git base_sha head_sha f fs st)
  obtain c rest where r: "raw_record (f # fs) = Inr (c, rest)" using "2.prems"(1) by (auto split: sum.splits)
  let ?st = "st\<lparr>as_seen := Suc (as_seen st)\<rparr>"
  have honest: "list_all (side_honest git) (sides_read base_sha head_sha c)" "sizes_honest git base_sha head_sha rest"
    using "2.prems"(2) r by (simp_all add: sizes_honest_def)
  show ?case
  proof (cases "length (as_candidates ?st) \<ge> attention_max_files")
    case True
    have "state_within ?st" using "2.prems"(3) by (simp add: state_within_def)
    then show ?thesis using "2.IH"(1) [OF r refl refl True] "2.prems"(1) honest(2) r True by (simp add: Let_def)
  next
    case False
    obtain candidate left where k: "attention_candidate_of git base_sha head_sha c (as_remaining ?st) = Inr (candidate, left)"
      using "2.prems"(1) r False by (auto simp: Let_def split: sum.splits)
    let ?next = "?st\<lparr>as_candidates := as_candidates ?st @ [candidate],
        as_unavailable := as_unavailable ?st + (if ac_content_available candidate then 0 else 1), as_remaining := left\<rparr>"
    have "state_within ?next"
      using candidate_budget [OF k honest(1)] "2.prems"(3) False by (simp add: state_within_def attention_max_files_def)
    then show ?thesis using "2.IH"(2) [OF r refl refl False k refl] "2.prems"(1) honest(2) r False k by (simp add: Let_def)
  qed
qed simp

text \<open>
  C21: However large the change, the attention analysis looks at no more than 500 files and keeps no
  more than 8 MiB of content of both sides together, if git prints the right size for the blobs that
  the change lists and does not find the commits of its submodules.
\<close>

theorem attention_reads_within_budget:
  assumes "static_attention_candidates git base_sha head_sha raw = Inr (candidates, analysis)"
    and honest: "sizes_honest git base_sha head_sha (split_on (CHR 0x00) (trim_right (CHR 0x00) raw))"
  shows "length candidates \<le> 500 \<and> sum_list (map candidate_bytes candidates) \<le> 8388608
    \<and> aa_files_analyzed analysis = length candidates"
proof (cases "split_on (CHR 0x00) (trim_right (CHR 0x00) raw) = [[]]")
  case True
  then show ?thesis using assms by (auto simp: static_attention_candidates_def)
next
  case False
  let ?st = "\<lparr>as_candidates = [], as_seen = 0, as_unavailable = 0, as_remaining = attention_max_content_bytes\<rparr>"
  obtain st where st: "attention_loop git base_sha head_sha (split_on (CHR 0x00) (trim_right (CHR 0x00) raw)) ?st = Inr st"
      "candidates = sort_by (\<lambda>a b. ac_path a < ac_path b) (as_candidates st)" "aa_files_analyzed analysis = length (as_candidates st)"
    using assms(1) False by (auto simp: static_attention_candidates_def Let_def split: sum.splits)
  have "state_within ?st" by (simp add: state_within_def attention_max_content_bytes_def)
  then have w: "state_within st" using attention_loop_within [OF st(1) honest] by simp
  have "mset (map candidate_bytes candidates) = mset (map candidate_bytes (as_candidates st))" using st(2) by simp
  then have "sum_list (map candidate_bytes candidates) = sum_list (map candidate_bytes (as_candidates st))"
    by (metis sum_mset_sum_list)
  then show ?thesis using w st by (simp add: state_within_def)
qed

text \<open>A repository with one added file of three bytes.\<close>

definition sample_git :: git where
  "sample_git args =
     (if args = [''cat-file'', ''-s'', ''h:a.go''] then Git_Ok ''3''
      else if args = [''show'', ''h:a.go''] then Git_Ok ''x=1''
      else Git_Exit 128 [] (Msg ''exit status 128''))"

definition sample_raw :: bytes where
  "sample_raw = '':000000 100644 0 1 A'' @ [CHR 0x00] @ ''a.go'' @ [CHR 0x00]"

lemma sample_attention_candidates:
  "static_attention_candidates sample_git ''b'' ''h'' sample_raw =
   Inr ([\<lparr>ac_path = ''a.go'', ac_deleted = False, ac_baseline_mode = 0, ac_current_mode = 420, ac_baseline = [],
          ac_current = ''x=1'', ac_content_available = True\<rparr>],
        \<lparr>aa_candidate_files = 1, aa_files_analyzed = 1, aa_content_unavailable = 0, aa_truncated = False, aa_limits = []\<rparr>)"
proof -
  have parts: "split_on (CHR 0x00) (trim_right (CHR 0x00) sample_raw) = ['':000000 100644 0 1 A'', ''a.go'']" by code_simp
  have meta: "go_fields (trim_prefix '':'' '':000000 100644 0 1 A'') = [''000000'', ''100644'', ''0'', ''1'', ''A'']" by code_simp
  have modes: "git_raw_mode ''000000'' = 0" "git_raw_mode ''100644'' = 420"
    by (simp_all add: git_raw_mode_def octal_digit_def ascii_digit_def)
  have blob: "attention_blob sample_git ''h'' ''a.go'' attention_max_content_bytes = Inr (Some ''x=1'', 8388605)"
    by (simp add: attention_blob_def sample_git_def trim_space_visible visible_def parse_int64_def digits_value_def
        ascii_digit_def attention_max_file_bytes_def attention_max_content_bytes_def git_file_at_commit_def)
  show ?thesis
    by (simp add: static_attention_candidates_def parts raw_record_def meta modes attention_candidate_of_def read_side_def
        blob attention_limits_def attention_max_files_def)
qed

lemma sample_git_honest: "sizes_honest sample_git ''b'' ''h'' (split_on (CHR 0x00) (trim_right (CHR 0x00) sample_raw))"
proof -
  have "concat (map (sides_read ''b'' ''h'') (raw_changes (split_on (CHR 0x00) (trim_right (CHR 0x00) sample_raw)))) = [(''100644'', ''h:a.go'')]"
    by code_simp
  moreover have "side_honest sample_git (''100644'', ''h:a.go'')"
    by (simp add: side_honest_def sample_git_def trim_space_visible visible_def parse_int64_def digits_value_def ascii_digit_def)
  moreover have "list_all (\<lambda>c. list_all P (f c)) cs \<longleftrightarrow> list_all P (concat (map f cs))" for P :: "bytes \<times> bytes \<Rightarrow> bool" and f and cs :: "raw_change list"
    by (induction cs) auto
  ultimately show ?thesis by (simp add: sizes_honest_def)
qed

text \<open>
  The commit of a submodule is not in the repository, so asking for its size fails, and with it the
  whole analysis: a change of a submodule has no report.
\<close>

definition submodule_raw :: bytes where
  "submodule_raw = '':160000 160000 0 1 M'' @ [CHR 0x00] @ ''lib'' @ [CHR 0x00]"

lemma submodule_fails_analysis:
  assumes "git [''cat-file'', ''-s'', ''h:lib''] = Git_Exit 128 [] e" "git [''cat-file'', ''-s'', ''b:lib''] = Git_Exit 128 [] e"
  shows "\<exists>err. static_attention_candidates git ''b'' ''h'' submodule_raw = Inl err"
proof -
  have parts: "split_on (CHR 0x00) (trim_right (CHR 0x00) submodule_raw) = ['':160000 160000 0 1 M'', ''lib'']" by code_simp
  have meta: "go_fields (trim_prefix '':'' '':160000 160000 0 1 M'') = [''160000'', ''160000'', ''0'', ''1'', ''M'']" by code_simp
  have "\<exists>err. attention_blob git ''b'' ''lib'' attention_max_content_bytes = Inl err"
    using assms(2) by (simp add: attention_blob_def)
  then show ?thesis
    by (auto simp: static_attention_candidates_def parts raw_record_def meta attention_candidate_of_def read_side_def attention_max_files_def)
qed

theorem attention_reads_within_budget_witness:
  "\<exists>candidates analysis. static_attention_candidates sample_git ''b'' ''h'' sample_raw = Inr (candidates, analysis)
     \<and> length candidates = 1 \<and> sum_list (map candidate_bytes candidates) \<le> 8388608"
  using attention_reads_within_budget [OF sample_attention_candidates sample_git_honest] sample_attention_candidates by auto

end
