(* ===== verification/Inspection.thy ===== *)
theory Inspection
  imports ReportFiles Attention
begin

text \<open>
  Questions for the reviewer: \<open>inspection_questions.go\<close>, and the report's privacy check: \<open>privacy.go\<close>.
\<close>

definition inspection_question_limit :: nat where "inspection_question_limit = 100"

definition inspection_related_limit :: nat where "inspection_related_limit = 8"

record inspection_reference =
  ir_path :: bytes
  ir_relationship :: bytes
  ir_in_diff :: bool

record inspection_question =
  iq_id :: bytes
  iq_path :: bytes
  iq_line :: nat
  iq_kind :: bytes
  iq_observation :: bytes
  iq_question :: bytes
  iq_related :: "inspection_reference list"

record inspection_analysis =
  ia_truncated :: bool
  ia_limits :: "bytes list"

section \<open>Tests and their companions\<close>

definition is_test_path :: "unicode \<Rightarrow> bytes \<Rightarrow> bool" where
  "is_test_path u file_path \<longleftrightarrow>
     (let name = to_lower u (base file_path) in
      contains ''.test.'' name \<or> contains ''.spec.'' name \<or> has_suffix ''_test'' (trim_suffix (ext name) name)
      \<or> contains ''/test/'' (to_lower u file_path) \<or> contains ''/tests/'' (to_lower u file_path))"

definition companion_stem :: "unicode \<Rightarrow> bytes \<Rightarrow> bytes" where
  "companion_stem u file_path =
     fold trim_suffix [''.test'', ''.spec'', ''_test'', ''-test''] (to_lower u (trim_suffix (ext file_path) (base file_path)))"

definition nearby_companion_test :: "unicode \<Rightarrow> bytes \<Rightarrow> bytes \<Rightarrow> bool" where
  "nearby_companion_test u source test \<longleftrightarrow>
     companion_stem u source = companion_stem u test
     \<and> (dir source = dir test \<or> has_prefix (trim_suffix ''/'' (dir source) @ ''/'') (dir test))"

section \<open>Questions\<close>

definition inspection_question_for_attention :: "attention_flag \<Rightarrow> (bytes \<times> bytes) option" where
  "inspection_question_for_attention f =
     (if af_rule f = ''public-api'' then
        Some (''An added route or exported declaration was observed: '' @ af_evidence f @ ''.'',
              ''Who calls this interface, what should valid and invalid inputs do, and is compatibility preserved?'')
      else if af_rule f = ''authentication'' then
        Some (''The changed path contains an authentication or authorization term: '' @ af_path f @ ''.'',
              ''What access decision changes here, and which allowed and denied cases demonstrate it?'')
      else if af_rule f = ''schema'' then
        Some (''The changed path is migration, schema, or SQL-related: '' @ af_path f @ ''.'',
              ''What happens to existing data during deploy, rollback, and mixed-version operation?'')
      else if af_rule f = ''configuration'' then
        Some (''A configuration-related file changed: '' @ af_path f @ ''.'',
              ''Which runtime behavior changes when this value is absent, defaulted, or overridden?'')
      else if af_rule f = ''dependency'' then
        Some (''A dependency manifest or lockfile changed: '' @ af_path f @ ''.'',
              ''Which runtime behavior requires this dependency change, and do the manifest and lockfile agree?'')
      else if af_rule f = ''deleted-test'' then
        Some (''A test file was deleted: '' @ af_path f @ ''.'',
              ''Which behavior did this test protect, and where is equivalent coverage now visible?'')
      else if af_rule f = ''executable-mode'' then
        Some (''The executable mode changed: '' @ af_evidence f @ ''.'',
              ''How should this file be invoked after the mode change, and on which supported environments?'')
      else None)"

record inspection_state =
  is_questions :: "inspection_question list"
  is_seen :: "bytes set"
  is_truncated :: bool

definition question_key :: "bytes \<Rightarrow> bytes \<Rightarrow> nat \<Rightarrow> bytes \<Rightarrow> bytes" where
  "question_key kind path line observation =
     kind @ [CHR 0x00] @ path @ [CHR 0x00] @ dec_nat line @ [CHR 0x00] @ observation"

text \<open>What the closure \<open>add\<close> is given: kind, file, line, observation, question and related files.\<close>

type_synonym prompt = "bytes \<times> bytes \<times> nat \<times> bytes \<times> bytes \<times> inspection_reference list"

fun prompt_key :: "prompt \<Rightarrow> bytes" where
  "prompt_key (kind, path, line, observation, question, related) = question_key kind path line observation"

fun prompt_question :: "(bytes \<Rightarrow> bytes) \<Rightarrow> prompt \<Rightarrow> inspection_question" where
  "prompt_question sha (kind, path, line, observation, question, related) =
     \<lparr>iq_id = ''inspect-'' @ hex_encode (take 8 (sha (question_key kind path line observation))), iq_path = path,
      iq_line = line, iq_kind = kind, iq_observation = observation, iq_question = question, iq_related = related\<rparr>"

definition add_question :: "(bytes \<Rightarrow> bytes) \<Rightarrow> prompt \<Rightarrow> inspection_state \<Rightarrow> inspection_state" where
  "add_question sha p st =
     (if prompt_key p \<in> is_seen st then st
      else let st = st\<lparr>is_seen := insert (prompt_key p) (is_seen st)\<rparr> in
        if length (is_questions st) \<ge> inspection_question_limit then st\<lparr>is_truncated := True\<rparr>
        else st\<lparr>is_questions := is_questions st @ [prompt_question sha p]\<rparr>)"

definition flag_prompts :: "unicode \<Rightarrow> attention_flag list \<Rightarrow> prompt list" where
  "flag_prompts u flags =
     List.map_filter (\<lambda>f.
       if is_test_path u (af_path f) \<and> af_rule f \<noteq> ''deleted-test'' then None
       else map_option (\<lambda>(observation, question). (af_rule f, af_path f, af_line f, observation, question, []))
              (inspection_question_for_attention f)) flags"

text \<open>The changed tests by stem, each list in order of path.\<close>

definition companion_tests :: "unicode \<Rightarrow> report_file list \<Rightarrow> bytes \<Rightarrow> bytes list" where
  "companion_tests u files stem =
     map rf_path (sort_by (\<lambda>a b. rf_path a < rf_path b)
       (filter (\<lambda>f. rf_status f \<noteq> ''D'' \<and> is_test_path u (rf_path f) \<and> companion_stem u (rf_path f) = stem) files))"

definition nearby_tests :: "unicode \<Rightarrow> report_file list \<Rightarrow> bytes \<Rightarrow> bytes list" where
  "nearby_tests u files source =
     filter (nearby_companion_test u source) (companion_tests u files (companion_stem u source))"

definition test_reference :: "bytes \<Rightarrow> inspection_reference" where
  "test_reference path = \<lparr>ir_path = path, ir_relationship = ''changed companion test'', ir_in_diff = True\<rparr>"

definition has_source_question :: "unicode \<Rightarrow> report_file list \<Rightarrow> report_file \<Rightarrow> bool" where
  "has_source_question u files f \<longleftrightarrow>
     rf_status f \<noteq> ''D'' \<and> \<not> is_test_path u (rf_path f) \<and> nearby_tests u files (rf_path f) \<noteq> []"

definition source_prompt :: "unicode \<Rightarrow> report_file list \<Rightarrow> report_file \<Rightarrow> prompt" where
  "source_prompt u files f =
     (''changed-test'', rf_path f, 0, ''The implementation and a nearby companion test both changed in this diff.'',
      ''Which changed test demonstrates the new behavior, including its failure or boundary case?'',
      sort_by (\<lambda>a b. ir_path a < ir_path b)
        (map test_reference (take inspection_related_limit (nearby_tests u files (rf_path f)))))"

definition related_limited :: "unicode \<Rightarrow> report_file list \<Rightarrow> bool" where
  "related_limited u files \<longleftrightarrow>
     list_ex (\<lambda>f. rf_status f \<noteq> ''D'' \<and> \<not> is_test_path u (rf_path f)
       \<and> length (nearby_tests u files (rf_path f)) > inspection_related_limit) files"

definition question_less :: "inspection_question \<Rightarrow> inspection_question \<Rightarrow> bool" where
  "question_less a b \<longleftrightarrow>
     (if iq_path a \<noteq> iq_path b then iq_path a < iq_path b
      else if iq_line a \<noteq> iq_line b then iq_line a < iq_line b
      else iq_id a < iq_id b)"

definition inspection_prompts :: "unicode \<Rightarrow> report_file list \<Rightarrow> attention_flag list \<Rightarrow> prompt list" where
  "inspection_prompts u files flags =
     flag_prompts u flags @ map (source_prompt u files) (filter (has_source_question u files) files)"

definition inspection_questions ::
    "unicode \<Rightarrow> (bytes \<Rightarrow> bytes) \<Rightarrow> report_file list \<Rightarrow> attention_flag list
     \<Rightarrow> inspection_question list \<times> inspection_analysis" where
  "inspection_questions u sha files flags =
     (let st = fold (add_question sha) (inspection_prompts u files flags)
                 \<lparr>is_questions = [], is_seen = {}, is_truncated = False\<rparr>;
          limited = related_limited u files
      in (sort_by question_less (is_questions st),
          \<lparr>ia_truncated = (is_truncated st \<or> limited),
           ia_limits = (if is_truncated st then [''inspection questions limited to 100''] else [])
             @ (if limited then [''related files limited to 8 per inspection question''] else [])\<rparr>))"

section \<open>How many questions\<close>

lemma add_questions:
  assumes "length qs \<le> 100"
  shows "case fold (add_question sha) ps \<lparr>is_questions = qs, is_seen = seen, is_truncated = t\<rparr> of st \<Rightarrow>
    is_questions st = qs @ map (prompt_question sha) (take (100 - length qs) (dedup_on prompt_key seen ps))
    \<and> is_truncated st = (t \<or> 100 - length qs < length (dedup_on prompt_key seen ps))"
  using assms
proof (induction ps arbitrary: qs seen t)
  case (Cons p ps)
  show ?case
  proof (cases "prompt_key p \<in> seen")
    case True
    then show ?thesis using Cons by (simp add: add_question_def)
  next
    case fresh: False
    show ?thesis
    proof (cases "length qs = 100")
      case True
      then show ?thesis
        using fresh Cons.IH [of qs "insert (prompt_key p) seen" True]
        by (simp add: add_question_def inspection_question_limit_def)
    next
      case False
      then have "length qs < 100" using Cons.prems by simp
      then obtain k where k: "100 - length qs = Suc k" "100 - length (qs @ [prompt_question sha p]) = k"
        by (metis Suc_diff_Suc diff_Suc_Suc length_append_singleton)
      show ?thesis
        using fresh \<open>length qs < 100\<close> k Cons.IH [of "qs @ [prompt_question sha p]" "insert (prompt_key p) seen" t]
        by (simp add: add_question_def inspection_question_limit_def)
    qed
  qed
qed simp

text \<open>
  The questions are the first hundred different prompts, one per kind, file, line and observation,
  and the analysis says whether that left anything out: it is unlimited exactly if there are at most
  a hundred different prompts and no file has more than eight companion tests nearby.
\<close>

theorem inspection_questions_spec:
  "let prompts = dedup_on prompt_key {} (inspection_prompts u files flags) in
   case inspection_questions u sha files flags of (questions, analysis) \<Rightarrow>
     mset questions = mset (map (prompt_question sha) (take 100 prompts))
     \<and> ia_truncated analysis = (100 < length prompts \<or> related_limited u files)
     \<and> (ia_limits analysis = []) = (\<not> ia_truncated analysis)"
  using add_questions [of "[]" sha "inspection_prompts u files flags" "{}" False]
  by (simp add: inspection_questions_def Let_def)

text \<open>
  A source file in the repository's root has the directory \<open>.\<close>, and the prefix \<open>./\<close> that a nearby test's
  directory is compared with starts no cleaned directory: only tests in the root are found.
\<close>

lemma root_companion_missed:
  "nearby_companion_test ascii_tables ''cmd/run.go'' ''cmd/tests/run_test.go''
   \<and> \<not> nearby_companion_test ascii_tables ''run.go'' ''tests/run_test.go''"
proof -
  have lower: "to_lower ascii_tables ''run'' = ''run''" "to_lower ascii_tables ''run_test'' = ''run_test''"
    by (simp_all add: to_lower_def runes_ascii ascii_tables_def encode_rune_def char_of_def bit_0)
  have names: "trim_suffix (ext ''cmd/run.go'') (base ''cmd/run.go'') = ''run''" "trim_suffix (ext ''run.go'') (base ''run.go'') = ''run''"
      "trim_suffix (ext ''cmd/tests/run_test.go'') (base ''cmd/tests/run_test.go'') = ''run_test''"
      "trim_suffix (ext ''tests/run_test.go'') (base ''tests/run_test.go'') = ''run_test''"
    by (simp_all add: ext_def base_def trim_suffix_def has_suffix_def has_prefix_iff)
  have dirs: "dir ''cmd/run.go'' = ''cmd''" "dir ''cmd/tests/run_test.go'' = ''cmd/tests''" "dir ''run.go'' = ''.''"
      "dir ''tests/run_test.go'' = ''tests''"
    by (simp_all add: dir_def clean_def clean_elems_def clean_elem_def is_abs_def has_prefix_iff Let_def)
  show ?thesis
    unfolding nearby_companion_test_def companion_stem_def names lower dirs by code_simp
qed

section \<open>Privacy\<close>

record privacy_risk =
  pr_kind :: bytes
  pr_path :: bytes
  pr_reason :: bytes

definition rx_alnum :: "bytes \<Rightarrow> rx" where
  "rx_alnum extra = Rx_Char (\<lambda>c. alnum_char c \<or> c \<in> set extra)"

definition high_confidence_secret_patterns :: "(bytes \<times> rx) list" where
  "high_confidence_secret_patterns =
     [(''private key'',
       rx_all [rx_string ''-----BEGIN '',
               rx_opt (rx_all [rx_plus (Rx_Char (\<lambda>c. ascii_upper c \<or> ascii_digit c \<or> c = CHR '' '')), rx_string '' '']),
               rx_string ''PRIVATE KEY-----'']),
      (''OpenAI API key'',
       rx_all [Rx_Boundary, rx_string ''sk-'', rx_opt (rx_string ''proj-''), rx_at_least 20 (rx_alnum ''_-''), Rx_Boundary]),
      (''GitHub token'',
       rx_all [Rx_Boundary,
               rx_any [rx_all [rx_string ''gh'', Rx_Char (\<lambda>c. c \<in> set ''pousr''), rx_string ''_'', rx_at_least 20 (rx_alnum [])],
                       rx_all [rx_string ''github_pat_'', rx_at_least 20 (rx_alnum ''_'')]],
               Rx_Boundary]),
      (''AWS access key'',
       rx_all [Rx_Boundary, rx_string ''AKIA'', rx_times 16 (Rx_Char (\<lambda>c. ascii_digit c \<or> ascii_upper c)), Rx_Boundary]),
      (''Slack token'',
       rx_all [Rx_Boundary, rx_string ''xox'', Rx_Char (\<lambda>c. c \<in> set ''baprs''), rx_string ''-'', rx_at_least 20 (rx_alnum ''-''), Rx_Boundary]),
      (''npm access token'',
       rx_all [Rx_Boundary, rx_string ''npm_'', rx_at_least 20 (rx_alnum []), Rx_Boundary])]"

definition credential_files :: "bytes list" where
  "credential_files =
     [''.npmrc'', ''.pypirc'', ''.netrc'', ''id_rsa'', ''id_dsa'', ''id_ecdsa'', ''id_ed25519'', ''credentials.json'',
      ''service-account.json'']"

definition sensitive_report_path :: "unicode \<Rightarrow> bytes \<Rightarrow> bytes option" where
  "sensitive_report_path u given =
     (let name = base (to_lower u (trim_space given)) in
      if name = ''.env'' \<or> (has_prefix ''.env.'' name \<and> \<not> has_suffix ''.example'' name \<and> \<not> has_suffix ''.sample'' name
                           \<and> \<not> has_suffix ''.template'' name)
      then Some ''environment-secret path''
      else if name \<in> set credential_files then Some ''credential-bearing path''
      else if ext name \<in> {''.pem'', ''.key'', ''.p12'', ''.pfx'', ''.jks''} then Some ''private-key or certificate path''
      else None)"

definition risk_key :: "privacy_risk \<Rightarrow> bytes" where
  "risk_key r = pr_kind r @ [CHR 0x00] @ pr_path r"

definition risk_less :: "privacy_risk \<Rightarrow> privacy_risk \<Rightarrow> bool" where
  "risk_less a b \<longleftrightarrow> (if pr_path a \<noteq> pr_path b then pr_path a < pr_path b else pr_kind a < pr_kind b)"

definition found_risks :: "unicode \<Rightarrow> report_file list \<Rightarrow> bytes \<Rightarrow> privacy_risk list" where
  "found_risks u files encoded =
     List.map_filter (\<lambda>f. map_option (\<lambda>reason. \<lparr>pr_kind = ''path'', pr_path = rf_path f, pr_reason = reason\<rparr>)
                            (sensitive_report_path u (rf_path f))) files
     @ List.map_filter (\<lambda>(name, pattern). if rx_matches pattern encoded
                            then Some \<lparr>pr_kind = name, pr_path = [], pr_reason = name @ '' signature''\<rparr> else None)
         high_confidence_secret_patterns"

definition find_privacy_risks :: "unicode \<Rightarrow> report_file list \<Rightarrow> bytes \<Rightarrow> privacy_risk list" where
  "find_privacy_risks u files encoded = sort_by risk_less (dedup_on risk_key {} (found_risks u files encoded))"

definition risk_text :: "privacy_risk \<Rightarrow> bytes" where
  "risk_text r = (if pr_path r = [] then pr_reason r else pr_reason r @ '' ('' @ pr_path r @ '')'')"

text \<open>The command: \<open>decode\<close> reads the report's files; the result is what is printed.\<close>

definition privacy_check ::
    "unicode \<Rightarrow> (bytes \<Rightarrow> bytes res) \<Rightarrow> (bytes \<Rightarrow> report_file list res) \<Rightarrow> bytes \<Rightarrow> bytes res" where
  "privacy_check u read_file decode review_file =
     (if blank review_file then Inl (Msg ''privacy-check requires --review-file'')
      else (case read_file review_file of
        Inl e \<Rightarrow> Inl (Wrapped ''read review file: %w'' [] e)
      | Inr b \<Rightarrow>
     (case decode b of
        Inl e \<Rightarrow> Inl (Wrapped ''decode review file: %w'' [] e)
      | Inr files \<Rightarrow>
          let risks = find_privacy_risks u files b in
          if risks \<noteq> []
          then Inl (Msg (''privacy check blocked report: likely sensitive content: '' @ join_with '', '' (map risk_text risks)
                 @ ''; inspect the source before delivery. This check is detection, not redaction or access control''))
          else Inr (''privacy check passed: no high-confidence secret signatures or sensitive paths detected'' @ newline
                 @ ''privacy check is not redaction or access control; choose delivery visibility deliberately'' @ newline))))"

text \<open>
  The privacy check passes only if no path of the report is sensitive and no secret pattern matches
  anywhere in the encoded report.
\<close>

theorem privacy_check_passes_iff:
  "is_ok (privacy_check u read_file decode review_file) \<longleftrightarrow>
     (\<exists>b files. \<not> blank review_file \<and> read_file review_file = Inr b \<and> decode b = Inr files
        \<and> list_all (\<lambda>f. sensitive_report_path u (rf_path f) = None) files
        \<and> list_all (\<lambda>(name, pattern). \<not> (\<exists>i j. i \<le> length b \<and> rx_match b pattern i j)) high_confidence_secret_patterns)"
proof -
  have empty: "find_privacy_risks u files b = [] \<longleftrightarrow> found_risks u files b = []" for files b
    by (cases "found_risks u files b") (simp_all add: find_privacy_risks_def del: sort_by_Cons)
  have none: "found_risks u files b = [] \<longleftrightarrow>
      list_all (\<lambda>f. sensitive_report_path u (rf_path f) = None) files
      \<and> list_all (\<lambda>(name, pattern). \<not> rx_matches pattern b) high_confidence_secret_patterns" for files b
    unfolding found_risks_def by (auto simp: map_filter_def filter_empty_conv list_all_iff)
  show ?thesis
    by (auto simp: privacy_check_def empty none rx_matches_iff Let_def is_ok_iff split: sum.splits)
qed

end
