(* ===== verification/Report.thy ===== *)
theory Report
  imports Explanations Inspection Findings Blocks
begin

text \<open>
  The static report: \<open>verification.go\<close>, the rest of \<open>export.go\<close> (attached findings, evidence, the report itself and
  how it is written) and \<open>relatedReviewBlocks\<close> of \<open>review_blocks.go\<close>. \<open>parse_url\<close> is \<open>url.Parse\<close>.
\<close>

section \<open>Attached verification\<close>

record report_link =
  lk_scheme :: bytes
  lk_host :: bytes
  lk_text :: bytes

record verification_check =
  vk_name :: bytes
  vk_status :: bytes
  vk_summary :: bytes
  vk_url :: bytes
  vk_started :: "int option"
  vk_finished :: "int option"

record verification_report =
  vp_source :: bytes
  vp_revision :: bytes
  vp_url :: bytes
  vp_checks :: "verification_check list"

record verification_response =
  vs_available :: bool
  vs_source :: bytes
  vs_revision :: bytes
  vs_url :: bytes
  vs_checks :: "verification_check list"
  vs_error :: bytes

definition validate_https_url :: "(bytes \<Rightarrow> report_link res) \<Rightarrow> bytes \<Rightarrow> go_error option" where
  "validate_https_url parse_url raw =
     (if raw = [] then None
      else (case parse_url raw of
        Inl e \<Rightarrow> Some (Msg ''must be an HTTPS URL'')
      | Inr l \<Rightarrow> if lk_scheme l \<noteq> ''https'' \<or> lk_host l = [] then Some (Msg ''must be an HTTPS URL'') else None))"

definition check_statuses :: "bytes list" where
  "check_statuses = [''queued'', ''running'', ''passed'', ''failed'', ''cancelled'']"

fun checks_error :: "(bytes \<Rightarrow> report_link res) \<Rightarrow> bytes set \<Rightarrow> verification_check list \<Rightarrow> go_error option" where
  "checks_error parse_url seen [] = None"
| "checks_error parse_url seen (c # cs) =
     (if blank (vk_name c) then Some (Msg ''verification check name cannot be empty'')
      else if vk_name c \<in> seen then Some (MsgStr ''verification check %q is duplicated'' (vk_name c))
      else if vk_status c \<notin> set check_statuses
      then Some (MsgStr (''verification check %q has unknown status '' @ vk_status c) (vk_name c))
      else (case validate_https_url parse_url (vk_url c) of
              Some e \<Rightarrow> Some (Wrapped (''verification check '' @ vk_name c @ '' URL: %w'') [] e)
            | None \<Rightarrow> checks_error parse_url (insert (vk_name c) seen) cs))"

definition verification_report_error ::
    "(bytes \<Rightarrow> report_link res) \<Rightarrow> verification_report \<Rightarrow> bytes \<Rightarrow> go_error option" where
  "verification_report_error parse_url r head_sha =
     (if vp_source r \<noteq> ''github-actions'' then Some (Msg ''verification report must come from github-actions'')
      else if \<not> valid_revision (vp_revision r) then Some (Msg ''verification report has an invalid revision'')
      else if head_sha = [] then Some (Msg ''verification report cannot be matched without a revision'')
      else if vp_revision r \<noteq> head_sha
      then Some (Msg (''verification report is for '' @ short_revision (vp_revision r) @ '', but this review is for ''
             @ short_revision head_sha))
      else (case validate_https_url parse_url (vp_url r) of
              Some e \<Rightarrow> Some (Wrapped ''verification report URL: %w'' [] e)
            | None \<Rightarrow> checks_error parse_url {} (vp_checks r)))"

text \<open>\<open>error_text\<close> is the method \<open>Error\<close>.\<close>

definition verification_from_bytes ::
    "(go_error \<Rightarrow> bytes) \<Rightarrow> (bytes \<Rightarrow> report_link res) \<Rightarrow> (bytes \<Rightarrow> verification_report res) \<Rightarrow> bytes \<Rightarrow> bytes \<Rightarrow> bytes
     \<Rightarrow> verification_response" where
  "verification_from_bytes error_text parse_url decode b head_sha label =
     (case decode b of
        Inl e \<Rightarrow> \<lparr>vs_available = False, vs_source = [], vs_revision = [], vs_url = [], vs_checks = [],
                  vs_error = ''invalid '' @ label @ '': '' @ error_text e\<rparr>
      | Inr r \<Rightarrow>
          (case verification_report_error parse_url r head_sha of
             Some e \<Rightarrow> \<lparr>vs_available = False, vs_source = vp_source r, vs_revision = vp_revision r, vs_url = vp_url r,
                        vs_checks = [], vs_error = error_text e\<rparr>
           | None \<Rightarrow> \<lparr>vs_available = True, vs_source = vp_source r, vs_revision = vp_revision r, vs_url = vp_url r,
                       vs_checks = vp_checks r, vs_error = []\<rparr>))"

definition verification_file :: bytes where "verification_file = ''.px1/verification.json''"

definition verification_at_commit ::
    "(go_error \<Rightarrow> bytes) \<Rightarrow> (bytes \<Rightarrow> report_link res) \<Rightarrow> (bytes \<Rightarrow> verification_report res) \<Rightarrow> git \<Rightarrow> bytes
     \<Rightarrow> verification_response res" where
  "verification_at_commit error_text parse_url decode git head_sha =
     (case git_file_at_commit git head_sha verification_file of
        Inl e \<Rightarrow> Inl e
      | Inr None \<Rightarrow> Inr \<lparr>vs_available = False, vs_source = [], vs_revision = [], vs_url = [], vs_checks = [], vs_error = []\<rparr>
      | Inr (Some b) \<Rightarrow> Inr (verification_from_bytes error_text parse_url decode b head_sha verification_file))"

definition verification_at_file ::
    "(go_error \<Rightarrow> bytes) \<Rightarrow> (bytes \<Rightarrow> report_link res) \<Rightarrow> (bytes \<Rightarrow> verification_report res) \<Rightarrow> (bytes \<Rightarrow> bytes res) \<Rightarrow> bytes
     \<Rightarrow> bytes \<Rightarrow> verification_response res" where
  "verification_at_file error_text parse_url decode read_file path head_sha =
     (case read_file path of
        Inl e \<Rightarrow> Inl (Wrapped (''read verification file '' @ path @ '': %w'') [] e)
      | Inr b \<Rightarrow> Inr (verification_from_bytes error_text parse_url decode b head_sha path))"

section \<open>Attached findings\<close>

fun attached_findings_error :: "bytes set \<Rightarrow> nat \<Rightarrow> finding list \<Rightarrow> go_error option" where
  "attached_findings_error changed n [] = None"
| "attached_findings_error changed n (f # fs) =
     (case validate f of
        Inl e \<Rightarrow> Some (Wrapped ''hosted finding %d: %w'' [int n] e)
      | Inr _ \<Rightarrow>
          if f_path f \<notin> changed then Some (MsgNum ''hosted finding %d references an unchanged file'' [int n])
          else attached_findings_error changed (Suc n) fs)"

text \<open>\<open>decode\<close> reads the revision, the findings and what follows the document.\<close>

definition hosted_findings_at_file ::
    "(bytes \<Rightarrow> bytes res) \<Rightarrow> (bytes \<Rightarrow> (bytes \<times> finding list \<times> bytes) res) \<Rightarrow> bytes \<Rightarrow> bytes \<Rightarrow> bytes set \<Rightarrow> finding list res" where
  "hosted_findings_at_file read_file decode path head_sha changed =
     (case read_file path of
        Inl e \<Rightarrow> Inl (Wrapped ''read hosted findings: %w'' [] e)
      | Inr body \<Rightarrow>
     (case decode body of
        Inl e \<Rightarrow> Inl (Wrapped ''decode hosted findings: %w'' [] e)
      | Inr (revision, findings, rest) \<Rightarrow>
          if \<not> list_all json_space rest then Inl (Msg ''hosted findings contain trailing data'')
          else if revision \<noteq> head_sha then Inl (Msg ''hosted findings revision does not match report head'')
          else if length findings > 100 then Inl (Msg ''hosted findings exceed report limit'')
          else (case attached_findings_error changed 0 findings of Some e \<Rightarrow> Inl e | None \<Rightarrow> Inr findings)))"

section \<open>Evidence\<close>

record evidence_source =
  es_id :: bytes
  es_label :: bytes
  es_state :: bytes
  es_base :: bytes
  es_revision :: bytes
  es_detail :: bytes
  es_limits :: "bytes list"

definition human_evidence :: "bytes \<Rightarrow> bytes \<Rightarrow> evidence_source" where
  "human_evidence base_sha head_sha =
     \<lparr>es_id = ''human'', es_label = ''Human review progress'', es_state = ''browser-local'', es_base = base_sha,
      es_revision = head_sha,
      es_detail = ''Your file marks and acknowledgements are local declarations for this comparison, not approval or proof of correctness.'',
      es_limits = [''Progress is stored only in this browser and is not shared with GitHub.'']\<rparr>"

definition automated_evidence :: "bytes \<Rightarrow> bytes \<Rightarrow> inspection_analysis \<Rightarrow> attention_analysis \<Rightarrow> evidence_source" where
  "automated_evidence base_sha head_sha inspection attention =
     \<lparr>es_id = ''automated'', es_label = ''Deterministic analysis'',
      es_state = (if aa_truncated attention \<or> ia_truncated inspection then ''limited'' else ''available''), es_base = base_sha,
      es_revision = head_sha,
      es_detail = ''Rules, attention signals, and inspection questions were computed from this exact comparison. Zero findings means no matches, not that the change is safe.'',
      es_limits = map ((@) ''Attention analysis: '') (aa_limits attention)
        @ map ((@) ''Inspection questions: '') (ia_limits inspection)\<rparr>"

definition ai_evidence :: "bytes \<Rightarrow> static_explanation list option \<Rightarrow> evidence_source" where
  "ai_evidence head_sha explanations =
     (case explanations of
        None \<Rightarrow> \<lparr>es_id = ''ai'', es_label = ''AI explanations'', es_state = ''not-attached'', es_base = [], es_revision = [],
                 es_detail = ''No optional AI explanation file was attached. AI notes are context, not verification.'', es_limits = []\<rparr>
      | Some es \<Rightarrow> \<lparr>es_id = ''ai'', es_label = ''AI explanations'', es_state = ''available'', es_base = [], es_revision = head_sha,
                    es_detail = dec_nat (length es) @ '' optional AI explanations attached for the exact report head; they may be incomplete or wrong.'',
                    es_limits = []\<rparr>)"

definition hosted_ai_evidence :: "bytes \<Rightarrow> finding list option \<Rightarrow> evidence_source" where
  "hosted_ai_evidence head_sha findings =
     (let e = \<lparr>es_id = ''hosted-ai'', es_label = ''AI findings'', es_state = ''not-attached'', es_base = [], es_revision = [],
               es_detail = ''No hosted AI finding set was attached.'',
               es_limits = [''AI findings are proposals to inspect, not proof of correctness.'']\<rparr>
      in case findings of
           None \<Rightarrow> e
         | Some fs \<Rightarrow> e\<lparr>es_state := ''available'', es_revision := head_sha,
             es_detail := dec_nat (length fs) @ '' verified AI findings attached for the exact report head.''\<rparr>)"

definition ci_evidence :: "verification_response \<Rightarrow> evidence_source" where
  "ci_evidence v =
     (let e = \<lparr>es_id = ''ci'', es_label = ''CI verification'', es_state = ''not-attached'', es_base = [], es_revision = [],
               es_detail = ''No CI verification was attached; this report does not know live check status.'', es_limits = []\<rparr>
      in if vs_available v
         then e\<lparr>es_state := ''available'', es_revision := vs_revision v,
                es_detail := dec_nat (length (vs_checks v)) @ '' recorded GitHub Actions checks; this is not a live status feed.''\<rparr>
         else if vs_error v \<noteq> []
         then e\<lparr>es_state := ''unavailable'', es_revision := vs_revision v,
                es_detail := ''Attached CI verification could not be trusted.'', es_limits := [vs_error v]\<rparr>
         else e)"

text \<open>The two flags and lists of \<open>staticEvidence\<close> are options here: a list, when it is attached.\<close>

definition static_evidence ::
    "bytes \<Rightarrow> bytes \<Rightarrow> static_explanation list option \<Rightarrow> finding list option \<Rightarrow> verification_response \<Rightarrow> inspection_analysis
     \<Rightarrow> attention_analysis \<Rightarrow> evidence_source list" where
  "static_evidence base_sha head_sha explanations findings verification inspection attention =
     [human_evidence base_sha head_sha, automated_evidence base_sha head_sha inspection attention,
      hosted_ai_evidence head_sha findings, ai_evidence head_sha explanations, ci_evidence verification]"

section \<open>The report\<close>

definition kind_text :: "line_kind \<Rightarrow> bytes" where
  "kind_text k = (case k of Context_Line \<Rightarrow> ''context'' | Added_Line \<Rightarrow> ''added'' | Removed_Line \<Rightarrow> ''removed'')"

definition related_review_blocks :: "(bytes \<Rightarrow> bytes) \<Rightarrow> report_file list \<Rightarrow> block list option" where
  "related_review_blocks hex8 files =
     group_blocks hex8 (map (\<lambda>f. \<lparr>fl_path = rf_path f,
       fl_hunks = map (\<lambda>h. \<lparr>hk_lines = map (\<lambda>l. \<lparr>dl_kind = kind_text (rl_kind l), dl_text = rl_text l\<rparr>) (rk_lines h)\<rparr>) (rf_hunks f)\<rparr>) files)"

record report_options =
  op_verification_file :: bytes
  op_explanations_file :: bytes
  op_findings_file :: bytes

text \<open>What the report uses of the outside: SHA-256, regular expressions, JSON, URLs, files and the clock.\<close>

record report_library =
  lb_unicode :: unicode
  lb_sha :: "bytes \<Rightarrow> bytes"
  lb_compile :: compiler
  lb_parse_url :: "bytes \<Rightarrow> report_link res"
  lb_error_text :: "go_error \<Rightarrow> bytes"
  lb_read_file :: "bytes \<Rightarrow> bytes res"
  lb_rules :: "bytes \<Rightarrow> (int \<times> rule_input list) res"
  lb_verification :: "bytes \<Rightarrow> verification_report res"
  lb_findings :: "bytes \<Rightarrow> (bytes \<times> finding list \<times> bytes) res"
  lb_explanations :: "bytes \<Rightarrow> explanation_file res"
  lb_hex8 :: "bytes \<Rightarrow> bytes"
  lb_now :: int

record static_report =
  sr_version :: nat
  sr_repository :: bytes
  sr_base :: bytes
  sr_head :: bytes
  sr_generated_at :: int
  sr_files :: "report_file list"
  sr_blocks :: "block list option"
  sr_questions :: "inspection_question list"
  sr_inspection :: inspection_analysis
  sr_attention_analysis :: attention_analysis
  sr_rule_hits :: "static_hit list"
  sr_explanations :: "static_explanation list"
  sr_findings :: "finding list"
  sr_evidence :: "evidence_source list"
  sr_attention :: "attention_flag list"
  sr_verification :: verification_response

definition team_rules_at_commit :: "report_library \<Rightarrow> git \<Rightarrow> bytes \<Rightarrow> review_rule list res" where
  "team_rules_at_commit lib git head_sha =
     (case git_file_at_commit git head_sha rule_team_file of
        Inl e \<Rightarrow> Inl e
      | Inr None \<Rightarrow> Inr []
      | Inr (Some b) \<Rightarrow>
          (case parse_team_rules (lb_unicode lib) (lb_compile lib) (lb_rules lib) b of
             (rules, Some e) \<Rightarrow> Inl e | (rules, None) \<Rightarrow> Inr rules))"

definition attached_verification :: "report_library \<Rightarrow> git \<Rightarrow> report_options \<Rightarrow> bytes \<Rightarrow> verification_response res" where
  "attached_verification lib git opts head_sha =
     (if op_verification_file opts \<noteq> []
      then verification_at_file (lb_error_text lib) (lb_parse_url lib) (lb_verification lib) (lb_read_file lib)
             (op_verification_file opts) head_sha
      else verification_at_commit (lb_error_text lib) (lb_parse_url lib) (lb_verification lib) git head_sha)"

definition attached :: "bytes \<Rightarrow> 'a list res \<Rightarrow> 'a list option res" where
  "attached path r = (if path = [] then Inr None else (case r of Inl e \<Rightarrow> Inl e | Inr xs \<Rightarrow> Inr (Some xs)))"

definition generate_static_review ::
    "report_library \<Rightarrow> git \<Rightarrow> bytes \<Rightarrow> bytes \<Rightarrow> bytes \<Rightarrow> report_options \<Rightarrow> static_report res" where
  "generate_static_review lib git folder base_ref head_ref opts =
     (case resolve_commit git base_ref of Inl e \<Rightarrow> Inl e | Inr base_sha \<Rightarrow>
     (case resolve_commit git head_ref of Inl e \<Rightarrow> Inl e | Inr head_sha \<Rightarrow>
     (case git_diff_between git base_sha head_sha of Inl e \<Rightarrow> Inl e | Inr diff \<Rightarrow>
     (case parse_static_files (lb_sha lib) git base_sha head_sha diff of Inl e \<Rightarrow> Inl e | Inr files \<Rightarrow>
     (case team_rules_at_commit lib git head_sha of Inl e \<Rightarrow> Inl e | Inr rules \<Rightarrow>
     (let hits = match_static_rule_additions (lb_sha lib) (lb_compile lib) rules (added_lines_by_path diff);
          changed = set (map rf_path files) in
      case attached_verification lib git opts head_sha of Inl e \<Rightarrow> Inl e | Inr verification \<Rightarrow>
     (case attached (op_findings_file opts)
             (hosted_findings_at_file (lb_read_file lib) (lb_findings lib) (op_findings_file opts) head_sha changed) of
        Inl e \<Rightarrow> Inl e | Inr findings \<Rightarrow>
     (case attached (op_explanations_file opts)
             (explanations_at_file (lb_read_file lib) (lb_explanations lib) (op_explanations_file opts) head_sha changed) of
        Inl e \<Rightarrow> Inl e | Inr explanations \<Rightarrow>
     (case static_attention (lb_unicode lib) (lb_sha lib) git base_sha head_sha of
        Inl e \<Rightarrow> Inl e | Inr (flags, attention) \<Rightarrow>
     (case inspection_questions (lb_unicode lib) (lb_sha lib) files flags of (questions, inspection) \<Rightarrow>
        Inr \<lparr>sr_version = 1, sr_repository = base folder, sr_base = base_sha, sr_head = head_sha, sr_generated_at = lb_now lib,
             sr_files = files, sr_blocks = related_review_blocks (lb_hex8 lib) files, sr_questions = questions,
             sr_inspection = inspection, sr_attention_analysis = attention, sr_rule_hits = add_static_contexts hits diff,
             sr_explanations = (case explanations of None \<Rightarrow> [] | Some es \<Rightarrow> es),
             sr_findings = (case findings of None \<Rightarrow> [] | Some fs \<Rightarrow> fs),
             sr_evidence = static_evidence base_sha head_sha explanations findings verification inspection attention,
             sr_attention = flags, sr_verification = verification\<rparr>))))))))))"

section \<open>When attached verification is believed\<close>

definition https_or_none :: "(bytes \<Rightarrow> report_link res) \<Rightarrow> bytes \<Rightarrow> bool" where
  "https_or_none parse_url raw \<longleftrightarrow>
     raw = [] \<or> (\<exists>l. parse_url raw = Inr l \<and> lk_scheme l = ''https'' \<and> lk_host l \<noteq> [])"

definition check_ok :: "(bytes \<Rightarrow> report_link res) \<Rightarrow> verification_check \<Rightarrow> bool" where
  "check_ok parse_url c \<longleftrightarrow>
     \<not> blank (vk_name c) \<and> vk_status c \<in> set check_statuses \<and> https_or_none parse_url (vk_url c)"

lemma validate_https_url_None: "validate_https_url parse_url raw = None \<longleftrightarrow> https_or_none parse_url raw"
  by (auto simp: validate_https_url_def https_or_none_def split: sum.splits)

lemma checks_error_None:
  "checks_error parse_url seen cs = None \<longleftrightarrow>
     list_all (check_ok parse_url) cs \<and> distinct (map vk_name cs) \<and> set (map vk_name cs) \<inter> seen = {}"
proof (induction cs arbitrary: seen)
  case (Cons c cs)
  have "checks_error parse_url seen (c # cs) = None \<longleftrightarrow>
      check_ok parse_url c \<and> vk_name c \<notin> seen \<and> checks_error parse_url (insert (vk_name c) seen) cs = None"
    by (auto simp: check_ok_def validate_https_url_None [symmetric] split: option.splits)
  then show ?case using Cons.IH by auto
qed simp

lemma verification_available:
  "let v = verification_from_bytes error_text parse_url decode b head_sha label in
   vs_available v = (\<exists>r. decode b = Inr r \<and> vp_source r = ''github-actions'' \<and> valid_revision (vp_revision r)
       \<and> vp_revision r = head_sha \<and> https_or_none parse_url (vp_url r)
       \<and> list_all (check_ok parse_url) (vp_checks r) \<and> distinct (map vk_name (vp_checks r))
       \<and> vs_checks v = vp_checks r \<and> vs_revision v = head_sha)
   \<and> (vs_available v \<or> vs_checks v = [])"
proof (cases "decode b")
  case (Inr r)
  have "verification_report_error parse_url r head_sha = None \<longleftrightarrow>
      vp_source r = ''github-actions'' \<and> valid_revision (vp_revision r) \<and> vp_revision r = head_sha
      \<and> https_or_none parse_url (vp_url r) \<and> list_all (check_ok parse_url) (vp_checks r) \<and> distinct (map vk_name (vp_checks r))"
    by (auto simp: verification_report_error_def validate_https_url_None [symmetric] checks_error_None valid_revision_def
        split: option.splits)
  then show ?thesis using Inr by (auto simp: verification_from_bytes_def Let_def split: option.splits)
qed (simp add: verification_from_bytes_def)

text \<open>
  Attached verification is shown as available exactly if it decodes, comes from GitHub Actions for
  this very head, has HTTPS links only and names each check once with a known status; then all of its
  checks are shown, and otherwise none is and the reason is.
\<close>

theorem verification_available_iff:
  "let v = verification_from_bytes error_text parse_url decode b head_sha label in
   vs_available v = (\<exists>r. decode b = Inr r \<and> vp_source r = ''github-actions'' \<and> valid_revision (vp_revision r)
       \<and> vp_revision r = head_sha \<and> https_or_none parse_url (vp_url r)
       \<and> list_all (check_ok parse_url) (vp_checks r) \<and> distinct (map vk_name (vp_checks r))
       \<and> vs_checks v = vp_checks r \<and> vs_revision v = head_sha)
   \<and> (vs_available v \<or> vs_checks v = [])"
  by (rule verification_available)

lemma attached_findings_ok:
  "attached_findings_error changed n fs = None \<longleftrightarrow> (\<forall>f \<in> set fs. validate f = Inr () \<and> f_path f \<in> changed)"
  by (induction changed n fs rule: attached_findings_error.induct) (auto split: sum.splits)

section \<open>What a report promises\<close>

definition pinned :: "bytes \<Rightarrow> evidence_source \<Rightarrow> bool" where
  "pinned head_sha e \<longleftrightarrow> (if es_state e = ''available'' \<or> es_state e = ''limited'' then es_revision e = head_sha else True)"

lemma verification_pinned:
  assumes "attached_verification lib git opts head_sha = Inr v" "vs_available v"
  shows "vs_revision v = head_sha"
proof -
  obtain b label where "v = verification_from_bytes (lb_error_text lib) (lb_parse_url lib) (lb_verification lib) b head_sha label"
    using assms
    by (auto simp: attached_verification_def verification_at_file_def verification_at_commit_def
        split: if_splits sum.splits option.splits)
  then show ?thesis
    using assms(2) verification_available [of "lb_error_text lib" "lb_parse_url lib" "lb_verification lib" b head_sha label]
    by (auto simp: Let_def)
qed

lemma evidence_pinned:
  assumes "vs_available v \<Longrightarrow> vs_revision v = head_sha"
  shows "list_all (pinned head_sha) (static_evidence base_sha head_sha explanations findings v inspection attention)"
proof -
  have "pinned head_sha (human_evidence base_sha head_sha)" "pinned head_sha (automated_evidence base_sha head_sha inspection attention)"
    by (simp_all add: pinned_def human_evidence_def automated_evidence_def)
  moreover have "pinned head_sha (ai_evidence head_sha explanations)" "pinned head_sha (hosted_ai_evidence head_sha findings)"
    by (cases explanations; cases findings; simp add: pinned_def ai_evidence_def hosted_ai_evidence_def)+
  moreover have "pinned head_sha (ci_evidence v)" using assms by (simp add: pinned_def ci_evidence_def Let_def)
  ultimately show ?thesis by (simp add: static_evidence_def)
qed


text \<open>An empty comparison of one commit with itself.\<close>

definition sample_sha :: bytes where "sample_sha = ''0123456789abcdef0123456789abcdef01234567''"

definition sample_report_git :: git where
  "sample_report_git args =
     (if hd args = ''rev-parse'' then Git_Ok sample_sha
      else if hd args = ''show'' then Git_Exit 128 [] (Msg ''exit status 128'')
      else Git_Ok [])"

definition sample_library :: report_library where
  "sample_library =
     \<lparr>lb_unicode = ascii_tables, lb_sha = (\<lambda>_. []), lb_compile = (\<lambda>p. Inl (Msg p)), lb_parse_url = (\<lambda>p. Inl (Msg p)),
      lb_error_text = (\<lambda>e. []), lb_read_file = (\<lambda>p. Inl (Msg p)), lb_rules = (\<lambda>p. Inl (Msg p)),
      lb_verification = (\<lambda>p. Inl (Msg p)), lb_findings = (\<lambda>p. Inl (Msg p)), lb_explanations = (\<lambda>p. Inl (Msg p)),
      lb_hex8 = (\<lambda>p. p), lb_now = 0\<rparr>"

definition no_options :: report_options where
  "no_options = \<lparr>op_verification_file = [], op_explanations_file = [], op_findings_file = []\<rparr>"

lemma sample_report:
  "\<exists>r. generate_static_review sample_library sample_report_git ''/r'' ''main'' ''HEAD'' no_options = Inr r"
proof -
  have hex: "valid_revision sample_sha" unfolding valid_revision_def sample_sha_def by code_simp
  have resolve: "resolve_commit sample_report_git name = Inr sample_sha" if "trim_space name \<noteq> []" for name
    using that hex by (simp add: resolve_commit_def sample_report_git_def Let_def trim_space_visible visible_def sample_sha_def)
  have names: "trim_space ''main'' \<noteq> []" "trim_space ''HEAD'' \<noteq> []" "trim_space [] = []" by (simp_all add: trim_space_visible visible_def)
  have blocks: "diff_blocks [] = []" using names by (simp add: diff_blocks_def split_str.simps git_header_def)
  have diff: "git_diff_between sample_report_git sample_sha sample_sha = Inr []"
    by (simp add: git_diff_between_def sample_report_git_def Let_def)
  have statuses: "parse_static_files sha sample_report_git sample_sha sample_sha [] = Inr []" for sha
    by (simp add: parse_static_files_def sample_report_git_def blocks name_statuses_def names add_name_status_def)
  have absent: "git_file_at_commit sample_report_git commit path = Inr None" for commit path
    by (simp add: git_file_at_commit_def sample_report_git_def Let_def)
  have attention: "\<exists>a. static_attention u sha sample_report_git sample_sha sample_sha = Inr ([], a)" for u sha
    by (simp add: static_attention_def sample_report_git_def static_attention_candidates_def trim_right_def
        detect_review_attention_def Let_def)
  obtain a where a: "static_attention (lb_unicode sample_library) (lb_sha sample_library) sample_report_git sample_sha sample_sha = Inr ([], a)"
    using attention by blast
  show ?thesis
    unfolding generate_static_review_def resolve [OF names(1)] resolve [OF names(2)] sum.case diff statuses
      team_rules_at_commit_def absent option.case attached_verification_def verification_at_commit_def no_options_def
      report_options.simps attached_def a Let_def
    by (simp split: prod.splits)
qed


end
