(* ===== verification/ReportOutput.thy ===== *)
theory ReportOutput
  imports Report
begin

text \<open>
  What becomes of a report: \<open>writeStaticReviewReport\<close> and \<open>writeStaticReviewSnapshot\<close> of \<open>export.go\<close>, the page of
  \<open>export_render.go\<close> and the pull request comment of \<open>summary_comment.go\<close>. \<open>write\<close> gives the error of writing a file.
\<close>

section \<open>The page\<close>

definition font_faces :: "(bytes \<times> bytes \<times> bytes) list" where
  "font_faces =
     [(''Report Sans'', ''plex-sans-var.woff2'', ''400 600''), (''Report Mono'', ''plex-mono-400.woff2'', ''400''),
      (''Report Mono'', ''plex-mono-500.woff2'', ''500'')]"

definition quote :: bytes where "quote = [CHR 0x27]"

fun static_report_font_css :: "(bytes \<Rightarrow> bytes) \<Rightarrow> (bytes \<Rightarrow> bytes res) \<Rightarrow> (bytes \<times> bytes \<times> bytes) list \<Rightarrow> bytes res" where
  "static_report_font_css base64 asset [] = Inr []"
| "static_report_font_css base64 asset ((family, name, weight) # faces) =
     (case asset (''static_report/fonts/'' @ name) of
        Inl e \<Rightarrow> Inl e
      | Inr b \<Rightarrow>
          (case static_report_font_css base64 asset faces of
             Inl e \<Rightarrow> Inl e
           | Inr rest \<Rightarrow>
               Inr (''@font-face{font-family:'' @ quote @ family @ quote @ '';font-style:normal;font-weight:'' @ weight
                 @ '';font-display:swap;src:url(data:font/woff2;base64,'' @ base64 b @ '') format('' @ quote @ ''woff2'' @ quote @ '')}''
                 @ newline @ rest)))"

text \<open>The constant parts of the page are a parameter; the order of the parts is the code's.\<close>

record page_text =
  pt_start :: bytes
  pt_body :: bytes
  pt_script :: bytes
  pt_end :: bytes

definition render_static_review_html ::
    "page_text \<Rightarrow> (bytes \<Rightarrow> bytes) \<Rightarrow> (bytes \<Rightarrow> bytes res) \<Rightarrow> (static_report \<Rightarrow> bytes res) \<Rightarrow> static_report \<Rightarrow> bytes res" where
  "render_static_review_html page base64 asset encode r =
     (case encode r of Inl e \<Rightarrow> Inl e | Inr data \<Rightarrow>
     (case static_report_font_css base64 asset font_faces of Inl e \<Rightarrow> Inl e | Inr fonts \<Rightarrow>
     (case asset ''static_report/report.css'' of Inl e \<Rightarrow> Inl e | Inr css \<Rightarrow>
     (case asset ''static_report/report.js'' of Inl e \<Rightarrow> Inl e | Inr js \<Rightarrow>
        Inr (pt_start page @ fonts @ css @ pt_body page @ data @ pt_script page @ js @ pt_end page)))))"

section \<open>Writing\<close>

text \<open>The files written so far, and the error that stopped.\<close>

type_synonym written = "(bytes \<times> bytes) list \<times> go_error option"

definition checksum_manifest :: "(bytes \<Rightarrow> bytes) \<Rightarrow> bytes \<Rightarrow> bytes \<Rightarrow> bytes" where
  "checksum_manifest sha html machine =
     hex_encode (sha html) @ ''  index.html'' @ newline @ hex_encode (sha machine) @ ''  review.json'' @ newline"

definition write_static_review_report ::
    "(static_report \<Rightarrow> bytes res) \<Rightarrow> (static_report \<Rightarrow> bytes res) \<Rightarrow> (bytes \<Rightarrow> bytes) \<Rightarrow> go_error option
     \<Rightarrow> (bytes \<Rightarrow> go_error option) \<Rightarrow> bytes \<Rightarrow> static_report \<Rightarrow> written" where
  "write_static_review_report render encode_indent sha mkdir_error write out_dir r =
     (case render r of Inl e \<Rightarrow> ([], Some e) | Inr html \<Rightarrow>
     (case encode_indent r of Inl e \<Rightarrow> ([], Some (Wrapped ''encode machine-readable report: %w'' [] e)) | Inr data \<Rightarrow>
     (case mkdir_error of Some e \<Rightarrow> ([], Some (Wrapped ''create output directory: %w'' [] e)) | None \<Rightarrow>
     (let index = path_join out_dir ''index.html''; json = path_join out_dir ''review.json'';
          manifest = path_join out_dir ''checksums.sha256''; machine = data @ newline in
      case write index of Some e \<Rightarrow> ([], Some (Wrapped ''write static report: %w'' [] e)) | None \<Rightarrow>
     (case write json of Some e \<Rightarrow> ([(index, html)], Some (Wrapped ''write machine-readable report: %w'' [] e)) | None \<Rightarrow>
     (case write manifest of
        Some e \<Rightarrow> ([(index, html), (json, machine)], Some (Wrapped ''write report checksums: %w'' [] e))
      | None \<Rightarrow> ([(index, html), (json, machine), (manifest, checksum_manifest sha html machine)], None)))))))"

definition write_static_review_snapshot ::
    "(static_report \<Rightarrow> bytes res) \<Rightarrow> go_error option \<Rightarrow> (bytes \<Rightarrow> go_error option) \<Rightarrow> bytes \<Rightarrow> static_report \<Rightarrow> written" where
  "write_static_review_snapshot encode_indent mkdir_error write path r =
     (case encode_indent r of Inl e \<Rightarrow> ([], Some (Wrapped ''encode review snapshot: %w'' [] e)) | Inr b \<Rightarrow>
     (case mkdir_error of Some e \<Rightarrow> ([], Some (Wrapped ''create snapshot directory: %w'' [] e)) | None \<Rightarrow>
     (case write path of Some e \<Rightarrow> ([], Some (Wrapped ''write review snapshot: %w'' [] e)) | None \<Rightarrow> ([(path, b)], None))))"

section \<open>The comment\<close>

record rule_summary =
  rs_id :: bytes
  rs_title :: bytes
  rs_severity :: bytes
  rs_count :: nat

definition summary_comment_marker :: bytes where "summary_comment_marker = ''<!-- px1-static-review -->''"

definition plural_suffix :: "nat \<Rightarrow> bytes" where
  "plural_suffix n = (if n = 1 then [] else ''s'')"

text \<open>The replacer's old strings are single bytes, so it maps each byte.\<close>

definition markdown_char :: "char \<Rightarrow> bytes" where
  "markdown_char c =
     (if c = CHR 0x5C then [CHR 0x5C, CHR 0x5C]
      else if c = CHR 0x60 then [CHR 0x27]
      else if c \<in> set ''*_[]|'' then [CHR 0x5C, c]
      else if c = CHR ''<'' then ''&lt;''
      else if c = CHR ''>'' then ''&gt;''
      else [c])"

definition markdown_inline :: "bytes \<Rightarrow> bytes" where
  "markdown_inline text = concat (map markdown_char (clip (replace_all newline '' '' text) 200))"

text \<open>The map of rules, by the id of their hits: the first hit gives title and severity.\<close>

fun count_rule :: "rule_hit \<Rightarrow> rule_summary list \<Rightarrow> rule_summary list" where
  "count_rule h [] =
     [\<lparr>rs_id = rh_rule_id h, rs_title = (if rh_title h = [] then rh_message h else rh_title h),
       rs_severity = rh_severity h, rs_count = 1\<rparr>]"
| "count_rule h (r # rs) =
     (if rs_id r = rh_rule_id h then r\<lparr>rs_count := Suc (rs_count r)\<rparr> # rs else r # count_rule h rs)"

definition severity_rank :: "bytes \<Rightarrow> nat" where
  "severity_rank s = (if s = ''error'' then 0 else if s = ''warning'' then 1 else if s = ''info'' then 2 else 3)"

definition highlight_less :: "rule_summary \<Rightarrow> rule_summary \<Rightarrow> bool" where
  "highlight_less a b \<longleftrightarrow>
     (if severity_rank (rs_severity a) \<noteq> severity_rank (rs_severity b)
      then severity_rank (rs_severity a) < severity_rank (rs_severity b)
      else if rs_count a \<noteq> rs_count b then rs_count a > rs_count b
      else rs_id a < rs_id b)"

definition rule_highlights :: "rule_hit list \<Rightarrow> rule_summary list" where
  "rule_highlights hits = sort_by highlight_less (fold count_rule hits [])"

definition status_count :: "bytes \<Rightarrow> verification_check list \<Rightarrow> nat" where
  "status_count s checks = length (filter (\<lambda>c. vk_status c = s) checks)"

definition verification_text :: "verification_response \<Rightarrow> bytes" where
  "verification_text v =
     (if vs_available v then
        let n = (\<lambda>s. status_count s (vs_checks v)); pending = n ''running'' + n ''queued'' in
        join_with '', ''
          ([dec_nat (n ''passed'') @ '' passed'']
           @ (if n ''failed'' > 0 then [dec_nat (n ''failed'') @ '' failed''] else [])
           @ (if pending > 0 then [dec_nat pending @ '' pending''] else [])
           @ (if n ''cancelled'' > 0 then [dec_nat (n ''cancelled'') @ '' cancelled''] else []))
      else if vs_error v \<noteq> [] then ''unavailable (invalid or stale verification data)''
      else ''not attached'')"

definition em_dash :: bytes where "em_dash = [CHR 0xE2, CHR 0x80, CHR 0x94]"

fun highlight_lines :: "nat \<Rightarrow> rule_summary list \<Rightarrow> bytes list" where
  "highlight_lines i [] = []"
| "highlight_lines i (r # rs) =
     (if i = 5 then [''- '' @ dec_nat (length (r # rs)) @ '' more rule'' @ plural_suffix (length (r # rs)) @ '' in the report'']
      else (''- **'' @ markdown_inline (rs_title r) @ ''** ('' @ [CHR 0x60] @ markdown_inline (rs_id r) @ [CHR 0x60] @ '', ''
            @ markdown_inline (rs_severity r) @ '') '' @ em_dash @ '' '' @ dec_nat (rs_count r) @ '' finding'' @ plural_suffix (rs_count r))
           # highlight_lines (Suc i) rs)"

text \<open>\<open>parse_url\<close> includes the text \<open>String\<close> gives back.\<close>

definition artifact_link :: "(bytes \<Rightarrow> report_link res) \<Rightarrow> bytes \<Rightarrow> bytes option" where
  "artifact_link parse_url given =
     (case parse_url (trim_space given) of
        Inl e \<Rightarrow> None
      | Inr l \<Rightarrow> if (lk_scheme l \<noteq> ''https'' \<and> lk_scheme l \<noteq> ''http'') \<or> lk_host l = [] then None else Some (lk_text l))"

definition summary_lines :: "static_report \<Rightarrow> bytes \<Rightarrow> bytes list" where
  "summary_lines r link =
     (let highlights = rule_highlights (map sh_hit (sr_rule_hits r)) in
      [summary_comment_marker, ''## px1 review report'', [],
       ''Static review for commit '' @ [CHR 0x60] @ sr_head r @ [CHR 0x60] @ ''.'', [],
       ''| Review signal | Result |'', ''| --- | ---: |'',
       ''| Changed files | '' @ dec_nat (length (sr_files r)) @ '' |'',
       ''| Rule findings | '' @ dec_nat (length (sr_rule_hits r)) @ '' |'',
       ''| Attention flags | '' @ dec_nat (length (sr_attention r)) @ '' |'',
       ''| AI notes | '' @ dec_nat (length (sr_explanations r)) @ '' |'',
       ''| Verification | '' @ verification_text (sr_verification r) @ '' |'']
      @ (if highlights \<noteq> [] then [[], ''### Rule highlights''] @ highlight_lines 0 highlights else [])
      @ [[], ''[Open the commit-pinned report]('' @ link @ '')'', [],
         ''_Generated by px1; this comment is replaced when the PR head changes._''])"

definition render_summary_comment :: "(bytes \<Rightarrow> report_link res) \<Rightarrow> static_report \<Rightarrow> bytes \<Rightarrow> bytes res" where
  "render_summary_comment parse_url r artifact_url =
     (if \<not> valid_revision (sr_head r) then Inl (Msg ''review head must be a full commit SHA'')
      else (case artifact_link parse_url artifact_url of
              None \<Rightarrow> Inl (Msg ''artifact URL must be an absolute HTTP(S) URL'')
            | Some link \<Rightarrow> Inr (unlines (summary_lines r link))))"

definition summary_comment ::
    "(bytes \<Rightarrow> report_link res) \<Rightarrow> (bytes \<Rightarrow> bytes res) \<Rightarrow> (bytes \<Rightarrow> static_report res) \<Rightarrow> bytes \<Rightarrow> bytes \<Rightarrow> bytes res" where
  "summary_comment parse_url read_file decode review_file artifact_url =
     (if blank review_file \<or> blank artifact_url
      then Inl (Msg ''summary-comment requires --review-file and --artifact-url'')
      else (case read_file review_file of
        Inl e \<Rightarrow> Inl (Wrapped ''read review file: %w'' [] e)
      | Inr b \<Rightarrow>
     (case decode b of
        Inl e \<Rightarrow> Inl (Wrapped ''decode review file: %w'' [] e)
      | Inr r \<Rightarrow> render_summary_comment parse_url r artifact_url)))"

section \<open>What is counted and shown\<close>

definition rules_counted :: "rule_hit list \<Rightarrow> rule_summary list \<Rightarrow> bool" where
  "rules_counted hits rs \<longleftrightarrow>
     distinct (map rs_id rs) \<and> set (map rs_id rs) = set (map rh_rule_id hits)
     \<and> (\<forall>r \<in> set rs. rs_count r = length (filter (\<lambda>h. rh_rule_id h = rs_id r) hits))"

lemma count_rule_ids: "map rs_id (count_rule h rs) = (if rh_rule_id h \<in> rs_id ` set rs then map rs_id rs else map rs_id rs @ [rh_rule_id h])"
  by (induction h rs rule: count_rule.induct) auto

lemma count_rule_counts:
  "distinct (map rs_id rs) \<Longrightarrow> r \<in> set (count_rule h rs) \<Longrightarrow>
   (if rs_id r = rh_rule_id h
    then (if rh_rule_id h \<in> rs_id ` set rs then \<exists>q \<in> set rs. rs_id q = rs_id r \<and> rs_count r = Suc (rs_count q) else rs_count r = 1)
    else r \<in> set rs)"
proof (induction h rs rule: count_rule.induct)
  case (2 h q rs)
  have other: "r \<in> set rs \<Longrightarrow> rs_id r \<in> rs_id ` set rs" by (rule imageI)
  show ?case
  proof (cases "rs_id q = rh_rule_id h")
    case True
    then have "rh_rule_id h \<notin> rs_id ` set rs" using "2.prems"(1) by (simp flip: True)
    then have "r \<in> set rs \<Longrightarrow> rs_id r \<noteq> rh_rule_id h" using other by metis
    then show ?thesis using "2.prems"(2) True by auto
  next
    case False
    then show ?thesis using 2 by auto
  qed
qed simp

lemma count_rules: "rules_counted hits (fold count_rule hits [])"
proof (induction hits rule: rev_induct)
  case (snoc h hits)
  let ?rs = "fold count_rule hits []"
  have IH: "distinct (map rs_id ?rs)" "set (map rs_id ?rs) = set (map rh_rule_id hits)"
      "\<forall>r \<in> set ?rs. rs_count r = length (filter (\<lambda>h. rh_rule_id h = rs_id r) hits)"
    using snoc by (simp_all add: rules_counted_def)
  have counts: "rs_count r = length (filter (\<lambda>h. rh_rule_id h = rs_id r) (hits @ [h]))" if r: "r \<in> set (count_rule h ?rs)" for r
  proof (cases "rs_id r = rh_rule_id h")
    case True
    show ?thesis
    proof (cases "rh_rule_id h \<in> rs_id ` set ?rs")
      case in_rs: True
      then obtain q where "q \<in> set ?rs" "rs_id q = rs_id r" "rs_count r = Suc (rs_count q)"
        using count_rule_counts [OF IH(1) r] True by auto
      then show ?thesis using IH(3) True by simp
    next
      case False
      then have "rh_rule_id h \<notin> rh_rule_id ` set hits" using IH(2) by (metis set_map)
      then have "filter (\<lambda>x. rh_rule_id x = rs_id r) hits = []" using True by (metis (mono_tags, lifting) filter_empty_conv image_eqI)
      then show ?thesis using count_rule_counts [OF IH(1) r] True False by simp
    qed
  next
    case False
    then have "r \<in> set ?rs" using count_rule_counts [OF IH(1) r] by simp
    then show ?thesis using IH(3) False by auto
  qed
  have "set (map rs_id (count_rule h ?rs)) = set (map rh_rule_id (hits @ [h]))" "distinct (map rs_id (count_rule h ?rs))"
    using IH(1,2) by (auto simp: count_rule_ids)
  then show ?case using counts by (simp add: rules_counted_def)
qed (simp add: rules_counted_def)

lemma highlight_weak_order: "weak_order highlight_less"
  by unfold_locales (auto simp: highlight_less_def split: if_splits)

text \<open>
  The highlights of the comment hold every rule with a hit exactly once with the number of its hits,
  errors first, then warnings, notes and unknown severities, and the most frequent first among them.
\<close>

theorem rule_highlights_spec:
  "rules_counted hits (rule_highlights hits) \<and> ordered highlight_less (rule_highlights hits)"
proof -
  have "mset (map rs_id (rule_highlights hits)) = mset (map rs_id (fold count_rule hits []))"
    by (simp add: rule_highlights_def)
  then have "distinct (map rs_id (rule_highlights hits)) = distinct (map rs_id (fold count_rule hits []))"
    by (rule mset_eq_imp_distinct_iff)
  moreover have "set (rule_highlights hits) = set (fold count_rule hits [])" by (simp add: rule_highlights_def)
  ultimately show ?thesis
    using count_rules [of hits] weak_order.ordered_sort_by [OF highlight_weak_order]
    by (auto simp: rules_counted_def rule_highlights_def)
qed

text \<open>
  A report is written without error exactly when it can be rendered and encoded and every file
  system call works; then the three files are there and the manifest lists the SHA-256 of the two
  others; after an error the manifest is never there.
\<close>

theorem report_manifest_last:
  "case write_static_review_report render encode_indent sha mkdir_error write out_dir r of
     (files, None) \<Rightarrow> (\<exists>html machine. files =
         [(path_join out_dir ''index.html'', html), (path_join out_dir ''review.json'', machine),
          (path_join out_dir ''checksums.sha256'', checksum_manifest sha html machine)])
   | (files, Some e) \<Rightarrow> length files \<le> 2 \<and> set (map fst files) \<subseteq> {path_join out_dir ''index.html'', path_join out_dir ''review.json''}"
  by (auto simp: write_static_review_report_def Let_def split: sum.splits option.splits)

end
