(* ===== verification/Analytics.thy ===== *)
theory Analytics
  imports GoTime
begin

text \<open>
  Daily metrics: \<open>internal/hosted/analytics/events.go\<close>. The store of the nightly job is a parameter.
\<close>

section \<open>Medians\<close>

text \<open>Division by two truncates towards zero; the sum of two durations wraps.\<close>

definition half :: "int \<Rightarrow> int" where
  "half n = (if n < 0 then - ((- n) div 2) else n div 2)"

text \<open>The loop that analytics and the evaluations share; nothing for an empty list.\<close>

definition median_duration :: "int list \<Rightarrow> int" where
  "median_duration ds =
     (let xs = sort ds; middle = length xs div 2 in
      if xs = [] then 0
      else if even (length xs) then half (wrap64 (xs ! (middle - 1) + xs ! middle))
      else xs ! middle)"

text \<open>A median: at least half of the values are at most it, and at least half at least it.\<close>

lemma sorted_count_le:
  assumes "sorted xs" "i < length xs" "xs ! i \<le> v"
  shows "Suc i \<le> length (filter (\<lambda>x. x \<le> v) xs)"
proof -
  have "x \<le> v" if x: "x \<in> set (take (Suc i) xs)" for x
  proof -
    obtain j where "j < Suc i" "x = xs ! j" using x by (auto simp: in_set_conv_nth)
    then show ?thesis using sorted_nth_mono [OF assms(1), of j i] assms(2,3) by simp
  qed
  then have "length (filter (\<lambda>x. x \<le> v) (take (Suc i) xs)) = Suc i" using assms(2) by simp
  moreover have "filter (\<lambda>x. x \<le> v) xs = filter (\<lambda>x. x \<le> v) (take (Suc i) xs) @ filter (\<lambda>x. x \<le> v) (drop (Suc i) xs)"
    by (metis append_take_drop_id filter_append)
  ultimately show ?thesis by simp
qed

lemma sorted_count_ge:
  assumes "sorted xs" "i < length xs" "v \<le> xs ! i"
  shows "length xs - i \<le> length (filter (\<lambda>x. v \<le> x) xs)"
proof -
  have "v \<le> x" if x: "x \<in> set (drop i xs)" for x
  proof -
    obtain j where "j < length xs - i" "x = xs ! (i + j)" using x by (auto simp: in_set_conv_nth)
    moreover from this have "i + j < length xs" by linarith
    ultimately show ?thesis using sorted_nth_mono [OF assms(1), of i "i + j"] assms(3) by simp
  qed
  then have "length (filter (\<lambda>x. v \<le> x) (drop i xs)) = length xs - i" by simp
  moreover have "filter (\<lambda>x. v \<le> x) xs = filter (\<lambda>x. v \<le> x) (take i xs) @ filter (\<lambda>x. v \<le> x) (drop i xs)"
    by (metis append_take_drop_id filter_append)
  ultimately show ?thesis by simp
qed

lemma median_duration_median:
  assumes "ds \<noteq> []" "\<forall>d \<in> set ds. 0 \<le> d \<and> d < 2 ^ 62"
  shows "length ds \<le> 2 * length (filter (\<lambda>d. d \<le> median_duration ds) ds)
    \<and> length ds \<le> 2 * length (filter (\<lambda>d. median_duration ds \<le> d) ds)"
proof -
  let ?xs = "sort ds" and ?m = "length ds div 2"
  have "0 < length ds" using assms(1) by simp
  then have len: "?xs \<noteq> []" "?m < length ?xs" by (auto simp del: length_greater_0_conv simp flip: length_greater_0_conv)
  have count: "length (filter P ds) = length (filter P ?xs)" for P by (metis mset_filter mset_sort size_mset)
  have range: "0 \<le> ?xs ! i \<and> ?xs ! i < 2 ^ 62" if "i < length ?xs" for i
    using assms(2) nth_mem [OF that] by simp
  show ?thesis
  proof (cases "even (length ds)")
    case False
    then have med: "median_duration ds = ?xs ! ?m" using len by (simp add: median_duration_def Let_def)
    show ?thesis
      using sorted_count_le [of ?xs ?m "?xs ! ?m"] sorted_count_ge [of ?xs ?m "?xs ! ?m"] len False
      unfolding count med by (auto elim!: oddE)
  next
    case True
    let ?a = "?xs ! (?m - 1)" and ?b = "?xs ! ?m"
    have "2 * ?m = length ds" using True by simp
    then have pos: "0 < ?m" using \<open>0 < length ds\<close> by presburger
    have ab: "?a \<le> ?b" using len by (intro sorted_nth_mono) simp_all
    have idx: "?m - 1 < length ?xs" "?m < length ?xs" using len by simp_all
    have "wrap64 (?a + ?b) = ?a + ?b" using range [OF idx(1)] range [OF idx(2)] by (intro wrap64_small; simp)
    then have med: "median_duration ds = (?a + ?b) div 2"
      using True range [OF idx(1)] range [OF idx(2)] len by (simp add: median_duration_def Let_def half_def)
    have mid: "?a \<le> (?a + ?b) div 2" "(?a + ?b) div 2 \<le> ?b" using ab by linarith+
    have "Suc (?m - 1) = ?m" using pos by simp
    then have "?m \<le> length (filter (\<lambda>x. x \<le> median_duration ds) ds)"
      using sorted_count_le [OF sorted_sort idx(1) mid(1)] by (simp only: med count)
    moreover have "length ds - ?m \<le> length (filter (\<lambda>x. median_duration ds \<le> x) ds)"
      using sorted_count_ge [OF sorted_sort idx(2) mid(2)] by (simp only: med count length_sort)
    ultimately show ?thesis using \<open>2 * ?m = length ds\<close> by linarith
  qed
qed

section \<open>Events\<close>

record event =
  ev_id :: bytes
  ev_installation :: int
  ev_repository :: int
  ev_team :: bytes
  ev_author :: bytes
  ev_kind :: bytes
  ev_severity :: bytes
  ev_addressed :: bool
  ev_downvoted :: bool
  ev_latency :: int
  ev_occurred :: int

record daily_metrics =
  dm_installation :: int
  dm_repository :: int
  dm_day :: int
  dm_team :: bytes
  dm_author :: bytes
  dm_reviews :: nat
  dm_findings :: nat
  dm_addressed :: nat
  dm_downvoted :: nat
  dm_median :: int

definition valid_event :: "event \<Rightarrow> bool" where
  "valid_event e \<longleftrightarrow>
     (if ev_occurred e = zero_time \<or> ev_kind e \<notin> {''review'', ''finding'', ''feedback''} then False
      else if ev_kind e = ''review''
      then ev_latency e \<ge> 0 \<and> ev_severity e = [] \<and> \<not> ev_addressed e \<and> \<not> ev_downvoted e
      else if ev_kind e = ''finding''
      then ev_latency e = 0 \<and> ev_severity e \<in> {''P0'', ''P1'', ''P2''}
      else ev_latency e = 0 \<and> ev_severity e = [] \<and> \<not> ev_addressed e)"

definition in_day :: "int \<Rightarrow> event \<Rightarrow> bool" where
  "in_day start e \<longleftrightarrow> \<not> (ev_occurred e < start \<or> \<not> ev_occurred e < start + day_ns)"

definition event_error :: go_error where
  "event_error = Msg ''analytics event is invalid, duplicated, or outside the tenant''"

definition count_event :: "event \<Rightarrow> daily_metrics \<times> int list \<Rightarrow> daily_metrics \<times> int list" where
  "count_event e st =
     (case st of (r, latencies) \<Rightarrow>
        if ev_kind e = ''review'' then (r\<lparr>dm_reviews := Suc (dm_reviews r)\<rparr>, latencies @ [ev_latency e])
        else if ev_kind e = ''finding''
        then (r\<lparr>dm_findings := Suc (dm_findings r), dm_addressed := dm_addressed r + (if ev_addressed e then 1 else 0),
                dm_downvoted := dm_downvoted r + (if ev_downvoted e then 1 else 0)\<rparr>, latencies)
        else (r, latencies))"

fun rollup_loop ::
    "int \<Rightarrow> int \<Rightarrow> int \<Rightarrow> bytes set \<Rightarrow> event list \<Rightarrow> daily_metrics \<times> int list \<Rightarrow> (daily_metrics \<times> int list) res" where
  "rollup_loop installation repository start seen [] st = Inr st"
| "rollup_loop installation repository start seen (e # es) st =
     (if ev_id e = [] \<or> ev_id e \<in> seen \<or> ev_installation e \<noteq> installation \<or> ev_repository e \<noteq> repository \<or> \<not> valid_event e
      then Inl event_error
      else rollup_loop installation repository start (insert (ev_id e) seen) es (if in_day start e then count_event e st else st))"

definition rollup_day :: "int \<Rightarrow> int \<Rightarrow> int \<Rightarrow> event list \<Rightarrow> daily_metrics res" where
  "rollup_day installation repository day events =
     (if installation \<le> 0 \<or> repository \<le> 0 \<or> day = zero_time then Inl (Msg ''tenant and day are required'')
      else (case rollup_loop installation repository (utc_day day) {} events
              (\<lparr>dm_installation = installation, dm_repository = repository, dm_day = utc_day day, dm_team = [], dm_author = [],
                dm_reviews = 0, dm_findings = 0, dm_addressed = 0, dm_downvoted = 0, dm_median = 0\<rparr>, []) of
              Inl e \<Rightarrow> Inl e
            | Inr (r, latencies) \<Rightarrow> Inr (r\<lparr>dm_median := median_duration latencies\<rparr>)))"

definition event_dimensions :: "event \<Rightarrow> (bytes \<times> bytes) list" where
  "event_dimensions e =
     (if ev_team e \<noteq> [] then [(ev_team e, [])] else [])
     @ (if ev_author e \<noteq> [] then [([], ev_author e)] else [])
     @ (if ev_team e \<noteq> [] \<and> ev_author e \<noteq> [] then [(ev_team e, ev_author e)] else [])"

definition dimension_key :: "bytes \<times> bytes \<Rightarrow> bytes" where
  "dimension_key k = fst k @ [CHR 0x00] @ snd k"

definition dimensions :: "int \<Rightarrow> event list \<Rightarrow> (bytes \<times> bytes) list" where
  "dimensions start events =
     sort_by (\<lambda>a b. dimension_key a < dimension_key b)
       (remdups (concat (map event_dimensions (filter (in_day start) events))))"

definition in_dimension :: "bytes \<times> bytes \<Rightarrow> event \<Rightarrow> bool" where
  "in_dimension k e \<longleftrightarrow> (fst k = [] \<or> ev_team e = fst k) \<and> (snd k = [] \<or> ev_author e = snd k)"

fun dimension_rows :: "int \<Rightarrow> int \<Rightarrow> int \<Rightarrow> event list \<Rightarrow> (bytes \<times> bytes) list \<Rightarrow> daily_metrics list res" where
  "dimension_rows installation repository day events [] = Inr []"
| "dimension_rows installation repository day events (k # ks) =
     (case rollup_day installation repository day (filter (in_dimension k) events) of
        Inl e \<Rightarrow> Inl e
      | Inr row \<Rightarrow>
          (case dimension_rows installation repository day events ks of
             Inl e \<Rightarrow> Inl e
           | Inr rows \<Rightarrow> Inr (row\<lparr>dm_team := fst k, dm_author := snd k\<rparr> # rows)))"

definition rollup_day_by_dimension :: "int \<Rightarrow> int \<Rightarrow> int \<Rightarrow> event list \<Rightarrow> daily_metrics list res" where
  "rollup_day_by_dimension installation repository day events =
     (case rollup_day installation repository day events of
        Inl e \<Rightarrow> Inl e
      | Inr all \<Rightarrow>
          (case dimension_rows installation repository day events (dimensions (utc_day day) events) of
             Inl e \<Rightarrow> Inl e
           | Inr rows \<Rightarrow> Inr (all # rows)))"

section \<open>The nightly job\<close>

record 's rollup_store =
  ru_events :: "'s \<Rightarrow> int \<Rightarrow> int \<Rightarrow> int \<Rightarrow> int \<Rightarrow> 's \<times> event list res"
  ru_replace :: "'s \<Rightarrow> int \<Rightarrow> int \<Rightarrow> int \<Rightarrow> daily_metrics list \<Rightarrow> 's \<times> go_error option"

definition nightly_rollup :: "'s rollup_store option \<Rightarrow> int \<Rightarrow> int \<Rightarrow> int \<Rightarrow> 's \<Rightarrow> 's \<times> nat res" where
  "nightly_rollup given installation repository day s =
     (case given of
        None \<Rightarrow> (s, Inl (Msg ''nightly rollup store is required''))
      | Some st \<Rightarrow>
     (let start = utc_day day in
      case ru_events st s installation repository start (start + day_ns) of
        (s1, Inl e) \<Rightarrow> (s1, Inl e)
      | (s1, Inr events) \<Rightarrow>
     (case rollup_day_by_dimension installation repository start events of
        Inl e \<Rightarrow> (s1, Inl e)
      | Inr metrics \<Rightarrow>
     (case ru_replace st s1 installation repository start metrics of
        (s2, Some e) \<Rightarrow> (s2, Inl e)
      | (s2, None) \<Rightarrow> (s2, Inr (length metrics))))))"

section \<open>What the rows count\<close>

definition events_ok :: "int \<Rightarrow> int \<Rightarrow> event list \<Rightarrow> bool" where
  "events_ok installation repository events \<longleftrightarrow>
     distinct (map ev_id events)
     \<and> list_all (\<lambda>e. ev_id e \<noteq> [] \<and> ev_installation e = installation \<and> ev_repository e = repository \<and> valid_event e) events"

definition tally :: "event list \<Rightarrow> (event \<Rightarrow> bool) \<Rightarrow> nat" where
  "tally events p = length (filter p events)"

definition counts :: "int \<Rightarrow> event list \<Rightarrow> daily_metrics \<Rightarrow> bool" where
  "counts start events r \<longleftrightarrow>
     dm_reviews r = tally events (\<lambda>e. in_day start e \<and> ev_kind e = ''review'')
     \<and> dm_findings r = tally events (\<lambda>e. in_day start e \<and> ev_kind e = ''finding'')
     \<and> dm_addressed r = tally events (\<lambda>e. in_day start e \<and> ev_kind e = ''finding'' \<and> ev_addressed e)
     \<and> dm_downvoted r = tally events (\<lambda>e. in_day start e \<and> ev_kind e = ''finding'' \<and> ev_downvoted e)
     \<and> dm_median r = median_duration (map ev_latency (filter (\<lambda>e. in_day start e \<and> ev_kind e = ''review'') events))"

lemma rollup_loop_spec:
  "rollup_loop installation repository start seen es (r, latencies) =
     (if events_ok installation repository es \<and> set (map ev_id es) \<inter> seen = {}
      then Inr (r\<lparr>dm_reviews := dm_reviews r + tally es (\<lambda>e. in_day start e \<and> ev_kind e = ''review''),
                  dm_findings := dm_findings r + tally es (\<lambda>e. in_day start e \<and> ev_kind e = ''finding''),
                  dm_addressed := dm_addressed r + tally es (\<lambda>e. in_day start e \<and> ev_kind e = ''finding'' \<and> ev_addressed e),
                  dm_downvoted := dm_downvoted r + tally es (\<lambda>e. in_day start e \<and> ev_kind e = ''finding'' \<and> ev_downvoted e)\<rparr>,
                latencies @ map ev_latency (filter (\<lambda>e. in_day start e \<and> ev_kind e = ''review'') es))
      else Inl event_error)"
proof (induction es arbitrary: seen r latencies)
  case Nil
  then show ?case by (simp add: events_ok_def tally_def)
next
  case (Cons e es)
  have "events_ok installation repository (e # es) \<and> set (map ev_id (e # es)) \<inter> seen = {} \<longleftrightarrow>
      ev_id e \<noteq> [] \<and> ev_id e \<notin> seen \<and> ev_installation e = installation \<and> ev_repository e = repository \<and> valid_event e
      \<and> events_ok installation repository es \<and> set (map ev_id es) \<inter> insert (ev_id e) seen = {}"
    by (auto simp: events_ok_def)
  then show ?case
    using Cons.IH by (auto simp: count_event_def tally_def split: if_splits)
qed

lemma rollup_day_spec:
  "rollup_day installation repository day events = Inr r \<Longrightarrow>
     0 < installation \<and> 0 < repository \<and> events_ok installation repository events \<and> counts (utc_day day) events r
     \<and> dm_day r = utc_day day"
  by (auto simp: rollup_day_def rollup_loop_spec counts_def split: if_splits)

lemma rollup_day_ok:
  "0 < installation \<Longrightarrow> 0 < repository \<Longrightarrow> day \<noteq> zero_time \<Longrightarrow> events_ok installation repository events \<Longrightarrow>
   \<exists>r. rollup_day installation repository day events = Inr r"
  by (auto simp: rollup_day_def rollup_loop_spec)

lemma events_ok_filter: "events_ok installation repository events \<Longrightarrow> events_ok installation repository (filter p events)"
  by (auto simp: events_ok_def list_all_iff distinct_map_filter)

lemma dimension_rows_spec:
  assumes "0 < installation" "0 < repository" "day \<noteq> zero_time" "events_ok installation repository events"
  shows "\<exists>rows. dimension_rows installation repository day events ks = Inr rows
    \<and> map (\<lambda>r. (dm_team r, dm_author r)) rows = ks
    \<and> list_all (\<lambda>r. counts (utc_day day) (filter (in_dimension (dm_team r, dm_author r)) events) r) rows"
proof (induction ks)
  case (Cons k ks)
  obtain row where row: "rollup_day installation repository day (filter (in_dimension k) events) = Inr row"
    using rollup_day_ok [OF assms(1-3) events_ok_filter [OF assms(4)]] by blast
  then have "counts (utc_day day) (filter (in_dimension k) events) (row\<lparr>dm_team := fst k, dm_author := snd k\<rparr>)"
    using rollup_day_spec [OF row] by (simp add: counts_def)
  then show ?case using Cons.IH row by auto
qed simp

text \<open>
  The daily roll-up fails only for an invalid tenant or day or an event that is invalid, repeated or
  another tenant's; otherwise its first row counts the day's events of the tenant and every further
  row those of one team, author or team and author, each combination that occurs on the day once.
\<close>

theorem rollup_rows_spec:
  "case rollup_day_by_dimension installation repository day events of
     Inl _ \<Rightarrow> installation \<le> 0 \<or> repository \<le> 0 \<or> day = zero_time \<or> \<not> events_ok installation repository events
   | Inr rows \<Rightarrow> \<exists>all rest. rows = all # rest \<and> counts (utc_day day) events all
       \<and> distinct (map (\<lambda>r. (dm_team r, dm_author r)) rest)
       \<and> set (map (\<lambda>r. (dm_team r, dm_author r)) rest) = (\<Union>e \<in> set (filter (in_day (utc_day day)) events). set (event_dimensions e))
       \<and> list_all (\<lambda>r. counts (utc_day day) (filter (in_dimension (dm_team r, dm_author r)) events) r) rest"
proof (cases "rollup_day installation repository day events")
  case (Inl e)
  then show ?thesis
    using rollup_day_ok [of installation repository day events] by (fastforce simp: rollup_day_by_dimension_def)
next
  case (Inr all)
  note spec = rollup_day_spec [OF Inr]
  have "day \<noteq> zero_time" using Inr by (auto simp: rollup_day_def)
  then obtain rows where rows: "dimension_rows installation repository day events (dimensions (utc_day day) events) = Inr rows"
      "map (\<lambda>r. (dm_team r, dm_author r)) rows = dimensions (utc_day day) events"
      "list_all (\<lambda>r. counts (utc_day day) (filter (in_dimension (dm_team r, dm_author r)) events) r) rows"
    using dimension_rows_spec spec by blast
  have "set (map (\<lambda>r. (dm_team r, dm_author r)) rows)
      = (\<Union>e \<in> set (filter (in_day (utc_day day)) events). set (event_dimensions e))"
    unfolding rows(2) by (simp add: dimensions_def)
  moreover have "distinct (map (\<lambda>r. (dm_team r, dm_author r)) rows)" unfolding rows(2) by (simp add: dimensions_def)
  ultimately show ?thesis using Inr spec rows(1,3) by (simp add: rollup_day_by_dimension_def)
qed

end
