(* ===== verification/Eval.thy ===== *)
theory Eval
  imports Analytics GoHttp
begin

text \<open>
  The benchmark that gates changes: \<open>internal/hosted/eval\<close> (\<open>dataset.go\<close>, \<open>harness.go\<close>, \<open>dogfood.go\<close>). JSON,
  \<open>url.Parse\<close> and the reviewer are parameters; floats are rationals, \<open>int\<close> sums wrap.
\<close>

section \<open>Datasets\<close>

record eval_label =
  la_path :: bytes
  la_class :: bytes
  la_start :: int
  la_end :: int

record eval_case =
  cs_id :: bytes
  cs_kind :: bytes
  cs_repository :: bytes
  cs_pull_request :: bytes
  cs_base_sha :: bytes
  cs_head_sha :: bytes
  cs_fix_sha :: bytes
  cs_mutation :: bytes
  cs_cross_file :: bool
  cs_labels :: "eval_label list"

record dataset =
  ds_version :: int
  ds_cases :: "eval_case list"

text \<open>No rune outside ASCII becomes a hexadecimal digit by \<open>strings.ToLower\<close>.\<close>

definition eval_sha :: "bytes \<Rightarrow> bool" where
  "eval_sha s \<longleftrightarrow> length s = 40 \<and> list_all (\<lambda>c. ascii_digit c \<or> lower_char c \<in> set ''abcdef'') s"

text \<open>\<open>url.Parse\<close> as far as it is used: scheme, host and path.\<close>

type_synonym url_parser = "bytes \<Rightarrow> (bytes \<times> bytes \<times> bytes) option"

definition github_url :: "url_parser \<Rightarrow> bytes \<Rightarrow> bool" where
  "github_url parse s =
     (case parse s of
        None \<Rightarrow> False
      | Some (scheme, host, path) \<Rightarrow>
          scheme = ''https'' \<and> ascii_lowercase host = ''github.com'' \<and> list_ex (\<lambda>c. c \<noteq> CHR ''/'') path)"

definition label_ok :: "eval_label \<Rightarrow> bool" where
  "label_ok l \<longleftrightarrow> la_path l \<noteq> [] \<and> la_class l \<noteq> [] \<and> la_start l > 0 \<and> la_end l \<ge> la_start l"

definition case_error :: "url_parser \<Rightarrow> bytes set \<Rightarrow> nat \<Rightarrow> eval_case \<Rightarrow> go_error option" where
  "case_error parse seen n c =
     (if cs_id c = [] \<or> cs_id c \<in> seen then Some (MsgNum ''case %d has missing or duplicate ID'' [int n])
      else if cs_kind c \<noteq> ''historical'' \<and> cs_kind c \<noteq> ''seeded''
      then Some (MsgStr ''case %s has unsupported kind'' (cs_id c))
      else if \<not> github_url parse (cs_repository c) \<or> \<not> github_url parse (cs_pull_request c) \<or> \<not> eval_sha (cs_base_sha c)
              \<or> \<not> eval_sha (cs_head_sha c) \<or> cs_base_sha c = cs_head_sha c
      then Some (MsgStr ''case %s has invalid provenance'' (cs_id c))
      else if cs_kind c = ''historical'' \<and> (\<not> eval_sha (cs_fix_sha c) \<or> cs_fix_sha c = cs_head_sha c)
      then Some (MsgStr ''historical case %s requires a later bug-fix SHA'' (cs_id c))
      else if cs_kind c = ''seeded'' \<and> blank (cs_mutation c)
      then Some (MsgStr ''seeded case %s requires a mutation ID'' (cs_id c))
      else if cs_labels c = [] then Some (MsgStr ''case %s requires at least one bug label'' (cs_id c))
      else if \<not> list_all label_ok (cs_labels c) then Some (MsgStr ''case %s has invalid label'' (cs_id c))
      else None)"

fun cases_error :: "url_parser \<Rightarrow> bytes set \<Rightarrow> nat \<Rightarrow> eval_case list \<Rightarrow> go_error option" where
  "cases_error parse seen n [] = None"
| "cases_error parse seen n (c # cs) =
     (case case_error parse seen n c of
        Some e \<Rightarrow> Some e
      | None \<Rightarrow> cases_error parse (insert (cs_id c) seen) (Suc n) cs)"

definition dataset_error :: "url_parser \<Rightarrow> dataset \<Rightarrow> go_error option" where
  "dataset_error parse d =
     (if ds_version d \<noteq> 1 then Some (Msg ''eval set version must be 1'') else cases_error parse {} 0 (ds_cases d))"

text \<open>\<open>decode\<close> gives the first document and what follows it.\<close>

definition decode_dataset :: "url_parser \<Rightarrow> (bytes \<Rightarrow> (dataset \<times> bytes) res) \<Rightarrow> bytes \<Rightarrow> dataset res" where
  "decode_dataset parse decode data =
     (case decode data of
        Inl e \<Rightarrow> Inl (Wrapped ''decode eval set: %w'' [] e)
      | Inr (d, rest) \<Rightarrow>
          if \<not> list_all (\<lambda>c. c \<in> {CHR '' '', CHR 0x09, CHR 0x0A, CHR 0x0D}) rest
          then Inl (Msg ''eval set contains trailing data'')
          else (case dataset_error parse d of Some e \<Rightarrow> Inl e | None \<Rightarrow> Inr d))"

definition of_kind :: "bytes \<Rightarrow> dataset \<Rightarrow> eval_case list" where
  "of_kind kind d = filter (\<lambda>c. cs_kind c = kind) (ds_cases d)"

definition v1_coverage_error :: "url_parser \<Rightarrow> dataset \<Rightarrow> go_error option" where
  "v1_coverage_error parse d =
     (case dataset_error parse d of
        Some e \<Rightarrow> Some e
      | None \<Rightarrow>
          let historical = length (of_kind ''historical'' d);
              seeded = length (filter (\<lambda>c. cs_kind c \<noteq> ''historical'') (ds_cases d));
              repos = length (remdups (map cs_repository (ds_cases d))) in
          if historical < 50 \<or> seeded < 20 \<or> repos < 10
          then Some (MsgNum ''v1 eval coverage is %d historical, %d seeded, %d repositories; require 50, 20, 10''
                 [int historical, int seeded, int repos])
          else None)"

definition label_files :: "eval_case \<Rightarrow> bytes list" where
  "label_files c = remdups (map la_path (cs_labels c))"

fun v2_counts :: "eval_case list \<Rightarrow> nat \<times> nat \<Rightarrow> (nat \<times> nat) res" where
  "v2_counts [] st = Inr st"
| "v2_counts (c # cs) st =
     (case st of (seeded, cross) \<Rightarrow>
        if cs_kind c \<noteq> ''seeded'' then v2_counts cs st
        else if \<not> cs_cross_file c then v2_counts cs (Suc seeded, cross)
        else if length (label_files c) < 2
        then Inl (MsgStr ''cross-file case %s requires labels in at least two files'' (cs_id c))
        else v2_counts cs (Suc seeded, Suc cross))"

definition v2_coverage_error :: "url_parser \<Rightarrow> dataset \<Rightarrow> go_error option" where
  "v2_coverage_error parse d =
     (case dataset_error parse d of
        Some e \<Rightarrow> Some e
      | None \<Rightarrow>
          (case v2_counts (ds_cases d) (0, 0) of
             Inl e \<Rightarrow> Some e
           | Inr (seeded, cross) \<Rightarrow>
               if seeded < 100 \<or> cross < 40
               then Some (MsgNum ''v2 eval coverage is %d seeded and %d cross-file; require 100 and 40'' [int seeded, int cross])
               else None))"

section \<open>Runs\<close>

record eval_finding =
  fi_path :: bytes
  fi_class :: bytes
  fi_severity :: bytes
  fi_start :: int
  fi_end :: int

record eval_result =
  er_findings :: "eval_finding list"
  er_cost :: int
  er_latency :: int

record eval_metrics =
  em_precision :: rat
  em_recall :: rat
  em_cost :: int
  em_median :: int
  em_cases :: nat

definition overlap :: "eval_finding \<Rightarrow> eval_label \<Rightarrow> bool" where
  "overlap f l \<longleftrightarrow> fi_path f = la_path l \<and> fi_class f = la_class l \<and> fi_start f \<le> la_end l \<and> la_start l \<le> fi_end f"

definition matches_any :: "eval_finding \<Rightarrow> eval_label list \<Rightarrow> bool" where
  "matches_any f labels \<longleftrightarrow> list_ex (overlap f) labels"

definition label_matched :: "eval_label \<Rightarrow> eval_finding list \<Rightarrow> bool" where
  "label_matched l findings \<longleftrightarrow> list_ex (\<lambda>f. overlap f l) findings"

record run_totals =
  rt_matched_findings :: nat
  rt_findings :: nat
  rt_matched_labels :: nat
  rt_labels :: nat
  rt_cost :: int
  rt_latencies :: "int list"

definition add_result :: "eval_case \<Rightarrow> eval_result \<Rightarrow> run_totals \<Rightarrow> run_totals" where
  "add_result c r t =
     \<lparr>rt_matched_findings = rt_matched_findings t + length (filter (\<lambda>f. matches_any f (cs_labels c)) (er_findings r)),
      rt_findings = rt_findings t + length (er_findings r),
      rt_matched_labels = rt_matched_labels t + length (filter (\<lambda>l. label_matched l (er_findings r)) (cs_labels c)),
      rt_labels = rt_labels t + length (cs_labels c),
      rt_cost = wrap64 (rt_cost t + er_cost r), rt_latencies = rt_latencies t @ [er_latency r]\<rparr>"

fun run_cases ::
    "('s \<Rightarrow> eval_case \<Rightarrow> 's \<times> eval_result res) \<Rightarrow> eval_case list \<Rightarrow> run_totals \<Rightarrow> 's \<Rightarrow> 's \<times> run_totals res" where
  "run_cases review [] t s = (s, Inr t)"
| "run_cases review (c # cs) t s =
     (case review s c of
        (s', Inl e) \<Rightarrow> (s', Inl (Wrapped (''review case '' @ cs_id c @ '': %w'') [] e))
      | (s', Inr r) \<Rightarrow> run_cases review cs (add_result c r t) s')"

definition ratio :: "nat \<Rightarrow> nat \<Rightarrow> rat" where
  "ratio a b = (if b > 0 then of_nat a / of_nat b else 0)"

definition run_metrics :: "nat \<Rightarrow> run_totals \<Rightarrow> eval_metrics" where
  "run_metrics n t =
     \<lparr>em_precision = ratio (rt_matched_findings t) (rt_findings t), em_recall = ratio (rt_matched_labels t) (rt_labels t),
      em_cost = rt_cost t, em_median = median_duration (rt_latencies t), em_cases = n\<rparr>"

definition run_eval ::
    "url_parser \<Rightarrow> ('s \<Rightarrow> eval_case \<Rightarrow> 's \<times> eval_result res) option \<Rightarrow> dataset \<Rightarrow> 's \<Rightarrow> 's \<times> eval_metrics res" where
  "run_eval parse reviewer d s =
     (case reviewer of
        None \<Rightarrow> (s, Inl (Msg ''reviewer is required''))
      | Some review \<Rightarrow>
     (case dataset_error parse d of
        Some e \<Rightarrow> (s, Inl e)
      | None \<Rightarrow>
     (case run_cases review (ds_cases d)
             \<lparr>rt_matched_findings = 0, rt_findings = 0, rt_matched_labels = 0, rt_labels = 0, rt_cost = 0, rt_latencies = []\<rparr> s of
        (s', Inl e) \<Rightarrow> (s', Inl e)
      | (s', Inr t) \<Rightarrow> (s', Inr (run_metrics (length (ds_cases d)) t)))))"

text \<open>The messages print the drop in points; here they carry its tenths, rounded down.\<close>

definition gate_regression :: "eval_metrics \<Rightarrow> eval_metrics \<Rightarrow> rat \<Rightarrow> go_error option" where
  "gate_regression current baseline max_drop =
     (let limit = (if max_drop \<le> 0 then 3 / 100 else max_drop);
          precision = em_precision baseline - em_precision current; recall = em_recall baseline - em_recall current in
      if precision > limit then Some (MsgNum ''precision regressed %.1f points'' [floor (1000 * precision)])
      else if recall > limit then Some (MsgNum ''recall regressed %.1f points'' [floor (1000 * recall)])
      else None)"

section \<open>Dogfooding\<close>

record dogfood_review =
  dr_repository :: bytes
  dr_pull_request :: bytes
  dr_reviewed_at :: int
  dr_latency :: int
  dr_comments :: int
  dr_addressed :: int
  dr_helpful :: int
  dr_unhelpful :: int
  dr_human_done :: bool
  dr_cost :: rat

record dogfood_summary =
  dg_repositories :: nat
  dg_reviews :: nat
  dg_days :: int
  dg_median :: int
  dg_address_rate :: rat
  dg_helpful_rate :: rat
  dg_cost :: rat
  dg_ready :: bool

definition dogfood_invalid :: "dogfood_review \<Rightarrow> bool" where
  "dogfood_invalid r \<longleftrightarrow>
     dr_repository r = [] \<or> dr_pull_request r = [] \<or> dr_reviewed_at r = zero_time \<or> dr_latency r < 0 \<or> dr_comments r < 0
     \<or> dr_addressed r < 0 \<or> dr_addressed r > dr_comments r \<or> dr_helpful r < 0 \<or> dr_unhelpful r < 0 \<or> dr_cost r < 0"

definition wrap_sum :: "int list \<Rightarrow> int" where
  "wrap_sum ns = fold (\<lambda>n acc. wrap64 (acc + n)) ns 0"

definition rate :: "int \<Rightarrow> int \<Rightarrow> rat" where
  "rate part whole = (if whole > 0 then of_int part / of_int whole else 0)"

definition earliest :: "dogfood_review list \<Rightarrow> int" where
  "earliest rs = fold (\<lambda>r t. if dr_reviewed_at r < t then dr_reviewed_at r else t) rs (dr_reviewed_at (hd rs))"

definition latest :: "dogfood_review list \<Rightarrow> int" where
  "latest rs = fold (\<lambda>r t. if dr_reviewed_at r > t then dr_reviewed_at r else t) rs (dr_reviewed_at (hd rs))"

definition summarize_dogfood :: "dogfood_review list \<Rightarrow> dogfood_summary res" where
  "summarize_dogfood rs =
     (if rs = [] then Inl (Msg ''dogfood evidence is empty'')
      else if list_ex dogfood_invalid rs then Inl (Msg ''dogfood evidence contains an invalid review'')
      else
        let comments = wrap_sum (map dr_comments rs); addressed = wrap_sum (map dr_addressed rs);
            helpful = wrap_sum (map dr_helpful rs); unhelpful = wrap_sum (map dr_unhelpful rs);
            repos = length (remdups (map dr_repository rs));
            days = time_sub (latest rs) (earliest rs) div day_ns + 1
        in Inr \<lparr>dg_repositories = repos, dg_reviews = length rs, dg_days = days,
                dg_median = median_duration (map dr_latency rs), dg_address_rate = rate addressed comments,
                dg_helpful_rate = rate helpful (wrap64 (helpful + unhelpful)), dg_cost = sum_list (map dr_cost rs),
                dg_ready = (repos \<ge> 4 \<and> days \<ge> 14 \<and> list_all dr_human_done rs)\<rparr>)"

section \<open>What the gates promise\<close>

definition case_ok :: "url_parser \<Rightarrow> eval_case \<Rightarrow> bool" where
  "case_ok parse c \<longleftrightarrow>
     cs_id c \<noteq> [] \<and> github_url parse (cs_repository c) \<and> github_url parse (cs_pull_request c)
     \<and> eval_sha (cs_base_sha c) \<and> eval_sha (cs_head_sha c) \<and> cs_base_sha c \<noteq> cs_head_sha c
     \<and> (cs_kind c = ''historical'' \<and> eval_sha (cs_fix_sha c) \<and> cs_fix_sha c \<noteq> cs_head_sha c
        \<or> cs_kind c = ''seeded'' \<and> \<not> blank (cs_mutation c))
     \<and> cs_labels c \<noteq> [] \<and> list_all label_ok (cs_labels c)"

lemma case_error_None: "case_error parse seen n c = None \<longleftrightarrow> case_ok parse c \<and> cs_id c \<notin> seen"
  by (auto simp: case_error_def case_ok_def)

lemma cases_error_None:
  "cases_error parse seen n cs = None \<longleftrightarrow>
     list_all (case_ok parse) cs \<and> distinct (map cs_id cs) \<and> set (map cs_id cs) \<inter> seen = {}"
proof (induction cs arbitrary: seen n)
  case (Cons c cs)
  then show ?case using case_error_None [of parse seen n c] by (auto split: option.splits)
qed simp

lemma v2_counts_ok:
  "v2_counts cs (a, b) = Inr (seeded, cross) \<Longrightarrow>
     seeded = a + length (filter (\<lambda>c. cs_kind c = ''seeded'') cs)
     \<and> cross = b + length (filter (\<lambda>c. cs_kind c = ''seeded'' \<and> cs_cross_file c \<and> 2 \<le> length (label_files c)) cs)"
proof (induction cs arbitrary: a b)
  case (Cons c cs)
  consider "cs_kind c \<noteq> ''seeded''" | "cs_kind c = ''seeded''" "\<not> cs_cross_file c"
    | "cs_kind c = ''seeded''" "cs_cross_file c" "2 \<le> length (label_files c)"
    using Cons.prems by (fastforce split: if_splits)
  then show ?case
  proof cases
    case 1 then show ?thesis using Cons.IH [of a b] Cons.prems by simp
  next
    case 2 then show ?thesis using Cons.IH [of "Suc a" b] Cons.prems by simp
  next
    case 3 then show ?thesis using Cons.IH [of "Suc a" "Suc b"] Cons.prems by simp
  qed
qed simp

text \<open>
  A dataset passes the second coverage gate only if all its cases are valid with distinct ids, at
  least a hundred are seeded and at least forty of these have labels in two different files.
\<close>

theorem v2_coverage_floor:
  assumes "v2_coverage_error parse d = None"
  shows "list_all (case_ok parse) (ds_cases d) \<and> distinct (map cs_id (ds_cases d))
    \<and> 100 \<le> length (of_kind ''seeded'' d)
    \<and> 40 \<le> length (filter (\<lambda>c. cs_kind c = ''seeded'' \<and> cs_cross_file c \<and> 2 \<le> length (label_files c)) (ds_cases d))"
proof -
  have "dataset_error parse d = None" using assms by (auto simp: v2_coverage_error_def split: option.splits)
  moreover obtain seeded cross where "v2_counts (ds_cases d) (0, 0) = Inr (seeded, cross)" "100 \<le> seeded" "40 \<le> cross"
    using assms by (auto simp: v2_coverage_error_def split: option.splits sum.splits if_splits)
  ultimately show ?thesis
    using v2_counts_ok [of "ds_cases d" 0 0] by (auto simp: dataset_error_def cases_error_None of_kind_def split: if_splits)
qed

definition totals_ok :: "run_totals \<Rightarrow> bool" where
  "totals_ok t \<longleftrightarrow> rt_matched_findings t \<le> rt_findings t \<and> rt_matched_labels t \<le> rt_labels t"

lemma add_result_ok: "totals_ok t \<Longrightarrow> totals_ok (add_result c r t)"
  by (auto simp: totals_ok_def add_result_def intro: add_mono)

lemma run_cases_ok:
  "totals_ok t \<Longrightarrow> run_cases review cs t s = (s', Inr t') \<Longrightarrow>
     totals_ok t' \<and> length (rt_latencies t') = length (rt_latencies t) + length cs"
proof (induction cs arbitrary: t s)
  case (Cons c cs)
  obtain s1 x where x: "review s c = (s1, x)" by fastforce
  with Cons.prems obtain r where r: "x = Inr r" by (cases x) simp_all
  have "length (rt_latencies (add_result c r t)) = Suc (length (rt_latencies t))" by (simp add: add_result_def)
  then show ?case using Cons.IH [OF add_result_ok [OF Cons.prems(1)], of c r s1] Cons.prems(2) x r by simp
qed simp

lemma ratio_range: "a \<le> b \<Longrightarrow> 0 \<le> ratio a b \<and> ratio a b \<le> 1"
  by (simp add: ratio_def)

text \<open>
  A benchmark run that ends without an error has run on a valid dataset, reports as many cases as the
  dataset has, and its precision and recall lie between zero and one.
\<close>

theorem run_eval_metrics_in_range:
  "case snd (run_eval parse reviewer d s) of
     Inl e \<Rightarrow> True
   | Inr m \<Rightarrow> dataset_error parse d = None \<and> reviewer \<noteq> None \<and> em_cases m = length (ds_cases d)
       \<and> 0 \<le> em_precision m \<and> em_precision m \<le> 1 \<and> 0 \<le> em_recall m \<and> em_recall m \<le> 1"
proof (cases reviewer)
  case (Some review)
  let ?t = "\<lparr>rt_matched_findings = 0, rt_findings = 0, rt_matched_labels = 0, rt_labels = 0, rt_cost = 0, rt_latencies = []\<rparr>"
  have ok: "totals_ok ?t" by (simp add: totals_ok_def)
  obtain s' x where run: "run_cases review (ds_cases d) ?t s = (s', x)" by fastforce
  show ?thesis
  proof (cases x)
    case (Inr t)
    then show ?thesis
      using run_cases_ok [OF ok run [unfolded Inr]] run Some
      by (cases "dataset_error parse d") (simp_all add: run_eval_def run_metrics_def totals_ok_def ratio_range)
  qed (use run Some in \<open>cases "dataset_error parse d"; simp add: run_eval_def\<close>)
qed (simp add: run_eval_def)

text \<open>
  The gate passes a run exactly when neither precision nor recall fell by more than the allowed drop,
  three points when none is given.
\<close>

theorem gate_regression_passes_iff:
  "gate_regression current baseline max_drop = None \<longleftrightarrow>
     em_precision baseline - em_precision current \<le> (if max_drop \<le> 0 then 3 / 100 else max_drop)
     \<and> em_recall baseline - em_recall current \<le> (if max_drop \<le> 0 then 3 / 100 else max_drop)"
  by (simp add: gate_regression_def Let_def not_less del: not_None_eq)

text \<open>
  Hexadecimal digits are accepted in both cases but the hashes are compared as written: one commit,
  spelled twice, passes as base and head.
\<close>

lemma same_commit_other_case: "eval_sha (replicate 40 CHR ''a'') \<and> eval_sha (replicate 40 CHR ''A'') \<and> replicate 40 CHR ''a'' \<noteq> replicate 40 CHR ''A''"
  by code_simp

end
