(* ===== verification/Settings.thy ===== *)
theory Settings
  imports Config GoHttp
begin

text \<open>
  The dashboard: \<open>internal/hosted/dashboard/auth.go\<close>, \<open>settings.go\<close> and \<open>routes.go\<close>. Random bytes, the clock and
  the writer of settings are parameters. The last section puts the settings the dashboard writes
  before the decoder of the configuration cascade, which reads the same file.
\<close>

section \<open>Sessions\<close>

record session =
  se_id :: bytes
  se_user_id :: bytes
  se_provider :: bytes
  se_organization :: bytes
  se_csrf :: bytes
  se_expires :: int

record membership =
  ms_organization :: bytes
  ms_active :: bool

definition valid_provider :: "bytes \<Rightarrow> bool" where
  "valid_provider p \<longleftrightarrow> p = ''github'' \<or> p = ''gitlab''"

text \<open>\<open>random\<close> is the answer of \<open>rand.Read\<close> for 32 bytes.\<close>

definition new_session :: "bytes res \<Rightarrow> int \<Rightarrow> bytes \<Rightarrow> bytes \<Rightarrow> bytes \<Rightarrow> bytes \<Rightarrow> int \<Rightarrow> session res" where
  "new_session random now given_id user_id provider organization expires =
     (if blank given_id \<or> blank user_id \<or> \<not> valid_provider provider \<or> blank organization \<or> \<not> expires > now
      then Inl (Msg ''valid session identity, provider, organization, and expiry are required'')
      else case random of
             Inl e \<Rightarrow> Inl e
           | Inr bs \<Rightarrow> Inr \<lparr>se_id = given_id, se_user_id = user_id, se_provider = provider, se_organization = organization,
                          se_csrf = b64_encode bs, se_expires = expires\<rparr>)"

definition validate_csrf :: "session \<Rightarrow> bytes \<Rightarrow> int \<Rightarrow> go_error option" where
  "validate_csrf s given now =
     (if se_id s = [] \<or> \<not> now < se_expires s \<or> given = [] \<or> se_csrf s \<noteq> given
      then Some (Msg ''invalid or expired session request'') else None)"

definition member_of :: "bytes \<Rightarrow> membership \<Rightarrow> bool" where
  "member_of organization m \<longleftrightarrow> ms_active m \<and> ms_organization m = organization"

definition switch_organization :: "session \<Rightarrow> bytes \<Rightarrow> membership list \<Rightarrow> int \<Rightarrow> session res" where
  "switch_organization s organization ms now =
     (if se_id s = [] \<or> \<not> now < se_expires s \<or> organization = []
      then Inl (Msg ''active session and organization are required'')
      else if list_ex (member_of organization) ms then Inr (s\<lparr>se_organization := organization\<rparr>)
      else Inl (Msg ''user is not an active organization member''))"

text \<open>
  A session starts usable: its own token passes until it expires, no other token does. Switching keeps
  identity, token and expiry, and reaches only an organization with an active membership.
\<close>

lemma new_session_usable:
  assumes "new_session (Inr bs) now given_id user_id provider organization expires = Inr s" "bs \<noteq> []"
  shows "validate_csrf s given t = None \<longleftrightarrow> given = b64_encode bs \<and> t < expires"
proof -
  have "b64_encode bs \<noteq> []" using assms(2) by (cases bs rule: b64_encode.cases) auto
  moreover have "trim_space [] = []" by (simp add: trim_space_visible)
  then have "given_id \<noteq> []" using assms(1) by (auto simp: new_session_def split: if_splits)
  ultimately show ?thesis using assms(1) by (auto simp: new_session_def validate_csrf_def split: if_splits)
qed

lemma switch_organization_spec:
  "switch_organization s organization ms now = Inr s' \<longleftrightarrow>
     se_id s \<noteq> [] \<and> now < se_expires s \<and> organization \<noteq> []
     \<and> (\<exists>m \<in> set ms. ms_active m \<and> ms_organization m = organization) \<and> s' = s\<lparr>se_organization := organization\<rparr>"
  by (auto simp: switch_organization_def list_ex_iff member_of_def)

section \<open>Routes\<close>

record route =
  ro_name :: bytes
  ro_pattern :: bytes
  ro_navigation :: bool

definition routes :: "route list" where
  "routes =
     [\<lparr>ro_name = ''overview'', ro_pattern = ''/:organization'', ro_navigation = True\<rparr>,
      \<lparr>ro_name = ''repositories'', ro_pattern = ''/:organization/repositories'', ro_navigation = True\<rparr>,
      \<lparr>ro_name = ''repository settings'', ro_pattern = ''/:organization/repositories/:repository/settings'', ro_navigation = False\<rparr>,
      \<lparr>ro_name = ''pull requests'', ro_pattern = ''/:organization/pull-requests'', ro_navigation = True\<rparr>,
      \<lparr>ro_name = ''pull request'', ro_pattern = ''/:organization/repositories/:repository/pull-requests/:number'', ro_navigation = False\<rparr>,
      \<lparr>ro_name = ''rules'', ro_pattern = ''/:organization/rules'', ro_navigation = True\<rparr>,
      \<lparr>ro_name = ''memories'', ro_pattern = ''/:organization/memories'', ro_navigation = True\<rparr>,
      \<lparr>ro_name = ''analytics'', ro_pattern = ''/:organization/analytics'', ro_navigation = True\<rparr>,
      \<lparr>ro_name = ''billing'', ro_pattern = ''/:organization/billing'', ro_navigation = True\<rparr>,
      \<lparr>ro_name = ''members'', ro_pattern = ''/:organization/members'', ro_navigation = True\<rparr>,
      \<lparr>ro_name = ''settings'', ro_pattern = ''/:organization/settings'', ro_navigation = True\<rparr>]"

lemma routes_organization_scoped:
  "distinct (map ro_name routes) \<and> distinct (map ro_pattern routes) \<and> list_all (\<lambda>r. has_prefix ''/:organization'' (ro_pattern r)) routes"
  by code_simp

section \<open>Settings\<close>

record review_settings =
  rv_strictness :: "int option"
  rv_auto_review :: "bool option"
  rv_max_comments :: "int option"

record effective_settings =
  ef_strictness :: int
  ef_auto_review :: bool
  ef_max_comments :: int
  ef_sources :: "bytes \<rightharpoonup> bytes"

definition settings_error :: "review_settings \<Rightarrow> go_error option" where
  "settings_error s =
     (if (case rv_strictness s of None \<Rightarrow> False | Some n \<Rightarrow> n < 1 \<or> n > 3)
      then Some (Msg ''strictness must be between 1 and 3'')
      else if (case rv_max_comments s of None \<Rightarrow> False | Some n \<Rightarrow> n < 1 \<or> n > 50)
      then Some (Msg ''max inline comments must be between 1 and 50'')
      else None)"

definition apply_settings :: "effective_settings \<Rightarrow> review_settings \<Rightarrow> bytes \<Rightarrow> effective_settings" where
  "apply_settings r given source =
     (let r = (case rv_strictness given of
                 Some n \<Rightarrow> r\<lparr>ef_strictness := n, ef_sources := (ef_sources r)(''strictness'' \<mapsto> source)\<rparr> | None \<Rightarrow> r);
          r = (case rv_auto_review given of
                 Some b \<Rightarrow> r\<lparr>ef_auto_review := b, ef_sources := (ef_sources r)(''autoReview'' \<mapsto> source)\<rparr> | None \<Rightarrow> r)
      in (case rv_max_comments given of
            Some n \<Rightarrow> r\<lparr>ef_max_comments := n, ef_sources := (ef_sources r)(''maxInlineComments'' \<mapsto> source)\<rparr> | None \<Rightarrow> r))"

definition default_settings :: effective_settings where
  "default_settings = \<lparr>ef_strictness = 2, ef_auto_review = True, ef_max_comments = 15, ef_sources = Map.empty\<rparr>"

definition resolve_settings :: "review_settings \<Rightarrow> review_settings \<Rightarrow> effective_settings res" where
  "resolve_settings database repository =
     (case settings_error database of
        Some e \<Rightarrow> Inl (Wrapped ''database settings: %w'' [] e)
      | None \<Rightarrow>
     (case settings_error repository of
        Some e \<Rightarrow> Inl (Wrapped ''repository settings: %w'' [] e)
      | None \<Rightarrow> Inr (apply_settings (apply_settings default_settings database ''database'') repository ''repository'')))"

record 's settings_writer =
  sw_database :: "'s \<Rightarrow> int \<Rightarrow> int \<Rightarrow> review_settings \<Rightarrow> 's \<times> go_error option"
  sw_pull_request :: "'s \<Rightarrow> int \<Rightarrow> int \<Rightarrow> bytes \<Rightarrow> bytes \<Rightarrow> 's \<times> go_error option"

text \<open>
  \<open>json.MarshalIndent\<close> of the anonymous struct with the version and the embedded settings: the fields
  that are set, in the order of the struct, two spaces deep. It cannot fail on such a struct.
\<close>

definition json_bool :: "bool \<Rightarrow> bytes" where
  "json_bool b = (if b then ''true'' else ''false'')"

definition settings_fields :: "review_settings \<Rightarrow> (bytes \<times> bytes) list" where
  "settings_fields s =
     (''version'', ''1'')
     # (case rv_strictness s of None \<Rightarrow> [] | Some n \<Rightarrow> [(''strictness'', dec_int n)])
     @ (case rv_auto_review s of None \<Rightarrow> [] | Some b \<Rightarrow> [(''autoReview'', json_bool b)])
     @ (case rv_max_comments s of None \<Rightarrow> [] | Some n \<Rightarrow> [(''maxInlineComments'', dec_int n)])"

definition json_object :: "(bytes \<times> bytes) list \<Rightarrow> bytes" where
  "json_object fs =
     ''{'' @ newline @ join_with ('','' @ newline) (map (\<lambda>(k, v). ''  \"'' @ k @ ''\": '' @ v) fs) @ newline @ ''}''"

definition settings_file :: "review_settings \<Rightarrow> bytes" where
  "settings_file s = json_object (settings_fields s) @ newline"

definition save_settings ::
    "'s settings_writer option \<Rightarrow> int \<Rightarrow> int \<Rightarrow> bytes \<Rightarrow> review_settings \<Rightarrow> 's \<Rightarrow> 's \<times> go_error option" where
  "save_settings writer installation repository destination given s =
     (case writer of
        None \<Rightarrow> (s, Some (Msg ''settings writer and tenant are required''))
      | Some w \<Rightarrow>
          if installation \<le> 0 \<or> repository \<le> 0 then (s, Some (Msg ''settings writer and tenant are required''))
          else (case settings_error given of
             Some e \<Rightarrow> (s, Some e)
           | None \<Rightarrow>
               if destination = ''database'' then sw_database w s installation repository given
               else if destination = ''pull_request''
               then sw_pull_request w s installation repository ''.px1/config.json'' (settings_file given)
               else (s, Some (Msg ''unsupported settings destination''))))"

section \<open>What is in force\<close>

fun first_some :: "'a option list \<Rightarrow> 'a option" where
  "first_some [] = None"
| "first_some (x # xs) = (case x of Some v \<Rightarrow> Some v | None \<Rightarrow> first_some xs)"

text \<open>The layer that a field comes from.\<close>

definition layer :: "'a option \<Rightarrow> 'a option \<Rightarrow> bytes option" where
  "layer repository database =
     (if repository \<noteq> None then Some ''repository'' else if database \<noteq> None then Some ''database'' else None)"

lemma apply_settings_sel:
  "ef_strictness (apply_settings r given source) = (case rv_strictness given of Some n \<Rightarrow> n | None \<Rightarrow> ef_strictness r)"
  "ef_auto_review (apply_settings r given source) = (case rv_auto_review given of Some n \<Rightarrow> n | None \<Rightarrow> ef_auto_review r)"
  "ef_max_comments (apply_settings r given source) = (case rv_max_comments given of Some n \<Rightarrow> n | None \<Rightarrow> ef_max_comments r)"
  "ef_sources (apply_settings r given source) ''strictness'' =
     (if rv_strictness given \<noteq> None then Some source else ef_sources r ''strictness'')"
  "ef_sources (apply_settings r given source) ''autoReview'' =
     (if rv_auto_review given \<noteq> None then Some source else ef_sources r ''autoReview'')"
  "ef_sources (apply_settings r given source) ''maxInlineComments'' =
     (if rv_max_comments given \<noteq> None then Some source else ef_sources r ''maxInlineComments'')"
  by (simp_all add: apply_settings_def Let_def split: option.split)

text \<open>
  Settings resolve exactly when both layers are in range; each field is then the repository's value,
  else the database's, else the default, is attributed to the layer it came from, and is in range.
\<close>

theorem resolve_settings_spec:
  "case resolve_settings database repository of
     Inl e \<Rightarrow> settings_error database \<noteq> None \<or> settings_error repository \<noteq> None
   | Inr s \<Rightarrow> settings_error database = None \<and> settings_error repository = None
       \<and> Some (ef_strictness s) = first_some [rv_strictness repository, rv_strictness database, Some 2]
       \<and> Some (ef_auto_review s) = first_some [rv_auto_review repository, rv_auto_review database, Some True]
       \<and> Some (ef_max_comments s) = first_some [rv_max_comments repository, rv_max_comments database, Some 15]
       \<and> ef_sources s ''strictness'' = layer (rv_strictness repository) (rv_strictness database)
       \<and> ef_sources s ''autoReview'' = layer (rv_auto_review repository) (rv_auto_review database)
       \<and> ef_sources s ''maxInlineComments'' = layer (rv_max_comments repository) (rv_max_comments database)
       \<and> 1 \<le> ef_strictness s \<and> ef_strictness s \<le> 3 \<and> 1 \<le> ef_max_comments s \<and> ef_max_comments s \<le> 50"
proof (cases "settings_error database = None \<and> settings_error repository = None")
  case True
  then have "resolve_settings database repository =
      Inr (apply_settings (apply_settings default_settings database ''database'') repository ''repository'')"
    by (simp add: resolve_settings_def)
  moreover have "1 \<le> n \<and> n \<le> 3" if "rv_strictness x = Some n" "settings_error x = None" for x n
    using that by (simp add: settings_error_def split: if_splits)
  moreover have "1 \<le> n \<and> n \<le> 50" if "rv_max_comments x = Some n" "settings_error x = None" for x n
    using that by (simp add: settings_error_def split: if_splits)
  ultimately show ?thesis
    using True by (simp add: apply_settings_sel default_settings_def layer_def split: option.split)
next
  case False
  then show ?thesis
    by (cases "settings_error database"; cases "settings_error repository") (simp_all add: resolve_settings_def)
qed

section \<open>The file it writes\<close>

text \<open>The fields that the decoder of the configuration cascade knows.\<close>

definition config_file_fields :: "bytes list" where
  "config_file_fields =
     [''version'', ''strictness'', ''commentTypes'', ''disabledRules'', ''maxInlineComments'', ''failOnP0'', ''context'']"

lemma settings_fields_known:
  "set (map fst (settings_fields s)) \<subseteq> set config_file_fields \<longleftrightarrow> rv_auto_review s = None"
  by (cases "rv_strictness s"; cases "rv_auto_review s"; cases "rv_max_comments s")
    (simp_all add: settings_fields_def config_file_fields_def)

lemma cascade_loop_error:
  assumes "files k = Some body" "k \<in> set ks" "decode body = Inl e"
  shows "\<exists>e. cascade_loop decode files c ks = Inl e"
  using assms(2)
proof (induction ks arbitrary: c)
  case (Cons k' ks)
  have "\<exists>e. decode_config decode body = Inl e" using assms(3) by (simp add: decode_config_def)
  then show ?case using Cons assms(1) by (cases "k' = k") (auto split: option.splits sum.splits)
qed simp

text \<open>
  The configuration file that the dashboard proposes cannot be read once automatic review has been
  set: the decoder of the cascade refuses fields it does not know, \<open>autoReview\<close> is one, and the file
  stands at the root, so the cascade then fails for every path of the repository.
\<close>

theorem saved_auto_review_breaks_cascade:
  assumes strict: "\<And>s. \<not> set (map fst (settings_fields s)) \<subseteq> set config_file_fields \<Longrightarrow> \<exists>e. decode (settings_file s) = Inl e"
    and given: "rv_auto_review s \<noteq> None" and written: "files ''.px1/config.json'' = Some (settings_file s)"
  shows "\<exists>e. resolve_cascading_config decode target files = Inl e"
proof -
  have "\<not> set (map fst (settings_fields s)) \<subseteq> set config_file_fields" unfolding settings_fields_known using given by simp
  from strict [OF this] obtain e where "decode (settings_file s) = Inl e" by blast
  moreover have "''.px1/config.json'' \<in> set (config_candidates (clean target))" by (simp add: config_candidates_def Let_def)
  ultimately have "\<exists>e. cascade_loop decode files start_cascade (config_candidates (clean target)) = Inl e"
    using cascade_loop_error [of files "''.px1/config.json''" "settings_file s"] written by blast
  then show ?thesis by (auto simp: resolve_cascading_config_def Let_def)
qed

definition strict_decode :: "bytes \<Rightarrow> (config_input \<times> bytes) res" where
  "strict_decode body =
     (if contains ''autoReview'' body then Inl (Msg ''json: unknown field'') else Inr (sample_input, newline))"

lemma contains_append: "contains sub s \<Longrightarrow> contains sub (p @ s @ q)"
  by (metis append_assoc contains_iff)

lemma settings_file_auto_review: "rv_auto_review s \<noteq> None \<Longrightarrow> contains ''autoReview'' (settings_file s)"
proof -
  assume "rv_auto_review s \<noteq> None"
  then obtain b where b: "rv_auto_review s = Some b" by blast
  have join: "x \<in> set xs \<Longrightarrow> \<exists>p q. join_with sep xs = p @ x @ q" for x sep :: bytes and xs
  proof (induction xs)
    case (Cons y ys)
    show ?case
    proof (cases "x = y")
      case True
      then show ?thesis by (cases ys) (auto intro: exI [of _ "[]"])
    next
      case False
      then have "x \<in> set ys" using Cons.prems by simp
      then obtain p q where "join_with sep ys = p @ x @ q" "ys \<noteq> []" using Cons.IH by fastforce
      then have "join_with sep (y # ys) = (y @ sep @ p) @ x @ q" by (cases ys) auto
      then show ?thesis by blast
    qed
  qed simp
  have "(''autoReview'', json_bool b) \<in> set (settings_fields s)" using b by (simp add: settings_fields_def)
  then have "''  \"'' @ ''autoReview'' @ ''\": '' @ json_bool b \<in> set (map (\<lambda>(k, v). ''  \"'' @ k @ ''\": '' @ v) (settings_fields s))"
    by force
  from join [OF this, of "'','' @ newline"] obtain p q where
    "join_with ('','' @ newline) (map (\<lambda>(k, v). ''  \"'' @ k @ ''\": '' @ v) (settings_fields s))
       = p @ (''  \"'' @ ''autoReview'' @ ''\": '' @ json_bool b) @ q" by blast
  then have "settings_file s = (''{'' @ newline @ p @ ''  \"'') @ ''autoReview'' @ (''\": '' @ json_bool b @ q @ newline @ ''}'' @ newline)"
    by (simp add: settings_file_def json_object_def)
  then show ?thesis unfolding contains_iff by blast
qed

theorem saved_auto_review_breaks_cascade_witness:
  "\<exists>e. resolve_cascading_config strict_decode ''src/a.go''
     [''.px1/config.json'' \<mapsto> settings_file \<lparr>rv_strictness = None, rv_auto_review = Some True, rv_max_comments = None\<rparr>] = Inl e"
proof (rule saved_auto_review_breaks_cascade)
  show "\<exists>e. strict_decode (settings_file s) = Inl e" if "\<not> set (map fst (settings_fields s)) \<subseteq> set config_file_fields" for s
    using that [unfolded settings_fields_known] settings_file_auto_review [of s] by (simp add: strict_decode_def)
  show "rv_auto_review \<lparr>rv_strictness = None, rv_auto_review = Some True, rv_max_comments = None\<rparr> \<noteq> None" by simp
qed simp

text \<open>
  The two readers of the file disagree on strictness: for the dashboard a repository may set it to one,
  in the cascade it never falls below two.
\<close>

lemma cascade_strictness_grows:
  "cascade_loop decode files c ks = Inr c' \<Longrightarrow> rs_strictness (ca_result c) \<le> rs_strictness (ca_result c')"
proof (induction ks arbitrary: c)
  case (Cons k ks)
  have "rs_strictness (ca_result c) \<le> rs_strictness (ca_result (apply_config k i c))" for i
    by (simp add: apply_config_def Let_def split: option.split)
  then show ?case using Cons by (auto split: option.splits sum.splits intro: order_trans)
qed simp

lemma strictness_readers_disagree:
  "resolve_settings \<lparr>rv_strictness = None, rv_auto_review = None, rv_max_comments = None\<rparr>
     \<lparr>rv_strictness = Some 1, rv_auto_review = None, rv_max_comments = None\<rparr> = Inr s \<and> ef_strictness s = 1"
  if "s = default_settings\<lparr>ef_strictness := 1, ef_sources := [''strictness'' \<mapsto> ''repository'']\<rparr>"
  using that by (simp add: resolve_settings_def settings_error_def apply_settings_def default_settings_def)

lemma cascade_strictness_floor: "resolve_cascading_config decode target files = Inr r \<Longrightarrow> 2 \<le> rs_strictness r"
  by (auto simp: resolve_cascading_config_def Let_def start_cascade_def split: if_splits sum.splits
      dest!: cascade_strictness_grows)

end
