(* ===== verification/Hosting.thy ===== *)
theory Hosting
  imports GoPath GoHttp Utf8
begin

text \<open>
  What runs around a hosted review: the demo reviews of a new installation
  (\<open>internal/hosted/onboarding/demo.go\<close>), the configuration of a process
  (\<open>internal/hosted/runtime/config.go\<close>), the sandboxed indexer (\<open>internal/hosted/graph/scip.go\<close>) and the clone of
  a repository (\<open>internal/hosted/repository/clone.go\<close>). Readers, queues, the environment, runners, \<open>url.Parse\<close>
  and the file system are parameters; the deadlines put on runners are not modelled.
\<close>

section \<open>Demo reviews\<close>

definition max_demo_repositories :: nat where "max_demo_repositories = 20"

record demo_repository =
  dp_installation :: int
  dp_repository :: int
  dp_owner :: bytes
  dp_name :: bytes

record merged_pull =
  mg_number :: int
  mg_head_sha :: bytes
  mg_url :: bytes
  mg_merged_at :: int

record demo_review =
  de_installation :: int
  de_repository :: int
  de_pull :: int
  de_head_sha :: bytes
  de_source_url :: bytes
  de_key :: bytes
  de_provenance :: bytes

record 's demo_scheduler =
  dh_pulls :: "('s \<Rightarrow> demo_repository \<Rightarrow> 's \<times> merged_pull option res) option"
  dh_queue :: "('s \<Rightarrow> demo_review \<Rightarrow> 's \<times> bool res) option"

definition demo_provenance :: bytes where
  "demo_provenance =
     ''Demo review of the latest merged pull request selected during installation. It does not represent the current default branch or a live pull request.''"

definition demo_job :: "int \<Rightarrow> demo_repository \<Rightarrow> merged_pull \<Rightarrow> demo_review" where
  "demo_job installation r pull =
     \<lparr>de_installation = installation, de_repository = dp_repository r, de_pull = mg_number pull,
      de_head_sha = ascii_lowercase (mg_head_sha pull), de_source_url = mg_url pull,
      de_key = ''demo:'' @ dec_int installation @ '':'' @ dec_int (dp_repository r) @ '':'' @ ascii_lowercase (mg_head_sha pull),
      de_provenance = demo_provenance\<rparr>"

definition demo_full_sha :: "bytes \<Rightarrow> bool" where
  "demo_full_sha v \<longleftrightarrow> hex_sha v"

definition pull_invalid :: "merged_pull \<Rightarrow> bool" where
  "pull_invalid p \<longleftrightarrow> mg_number p \<le> 0 \<or> \<not> demo_full_sha (mg_head_sha p) \<or> mg_merged_at p = zero_time \<or> \<not> has_prefix ''https://'' (mg_url p)"

definition repository_refused :: "int \<Rightarrow> int set \<Rightarrow> demo_repository \<Rightarrow> bool" where
  "repository_refused installation seen r \<longleftrightarrow>
     dp_installation r \<noteq> installation \<or> dp_repository r \<le> 0 \<or> dp_owner r = [] \<or> dp_name r = [] \<or> dp_repository r \<in> seen"

fun schedule_loop ::
    "('s \<Rightarrow> demo_repository \<Rightarrow> 's \<times> merged_pull option res) \<Rightarrow> ('s \<Rightarrow> demo_review \<Rightarrow> 's \<times> bool res) \<Rightarrow> int
     \<Rightarrow> int set \<Rightarrow> nat \<Rightarrow> demo_repository list \<Rightarrow> 's \<Rightarrow> 's \<times> nat \<times> go_error option" where
  "schedule_loop pulls queue installation seen n [] s = (s, n, None)"
| "schedule_loop pulls queue installation seen n (r # rs) s =
     (if repository_refused installation seen r
      then (s, n, Some (Msg ''demo repositories must be unique and belong to the installation''))
      else (case pulls s r of
         (s1, Inl e) \<Rightarrow> (s1, n, Some e)
       | (s1, Inr None) \<Rightarrow> schedule_loop pulls queue installation (insert (dp_repository r) seen) n rs s1
       | (s1, Inr (Some pull)) \<Rightarrow>
           if pull_invalid pull then (s1, n, Some (Msg ''latest merged pull request is invalid''))
           else (case queue s1 (demo_job installation r pull) of
              (s2, Inl e) \<Rightarrow> (s2, n, Some e)
            | (s2, Inr created) \<Rightarrow>
                schedule_loop pulls queue installation (insert (dp_repository r) seen) (if created then Suc n else n) rs s2)))"

definition schedule_demo :: "'s demo_scheduler \<Rightarrow> int \<Rightarrow> demo_repository list \<Rightarrow> 's \<Rightarrow> 's \<times> nat \<times> go_error option" where
  "schedule_demo d installation rs s =
     (case (dh_pulls d, dh_queue d) of
        (Some pulls, Some queue) \<Rightarrow>
          if installation \<le> 0 \<or> rs = [] \<or> length rs > max_demo_repositories
          then (s, 0, Some (Msg ''pull reader, queue, tenant, and one to twenty repositories are required''))
          else schedule_loop pulls queue installation {} 0 rs s
      | _ \<Rightarrow> (s, 0, Some (Msg ''pull reader, queue, tenant, and one to twenty repositories are required'')))"

text \<open>
  A queue that records every job with its answer; reader and answers are arbitrary functions of what
  has been recorded.
\<close>

type_synonym demo_log = "(demo_review \<times> bool res) list"

definition recording_demo :: "(demo_log \<Rightarrow> demo_repository \<Rightarrow> merged_pull option res) \<Rightarrow> (demo_log \<Rightarrow> bool res) \<Rightarrow> demo_log demo_scheduler" where
  "recording_demo pulls answer =
     \<lparr>dh_pulls = Some (\<lambda>l r. (l, pulls l r)), dh_queue = Some (\<lambda>l j. (l @ [(j, answer l)], answer l))\<rparr>"

definition job_ok :: "int \<Rightarrow> demo_review \<Rightarrow> bool" where
  "job_ok installation j \<longleftrightarrow>
     de_installation j = installation \<and> 0 < de_repository j \<and> 0 < de_pull j \<and> length (de_head_sha j) = 40
     \<and> has_prefix ''https://'' (de_source_url j)
     \<and> de_key j = ''demo:'' @ dec_int installation @ '':'' @ dec_int (de_repository j) @ '':'' @ de_head_sha j"

definition created_in :: "demo_log \<Rightarrow> nat" where
  "created_in l = length (filter (\<lambda>(j, a). a = Inr True) l)"

lemma demo_job_ok:
  "\<not> repository_refused installation seen r \<Longrightarrow> \<not> pull_invalid p \<Longrightarrow> job_ok installation (demo_job installation r p)"
  by (auto simp: job_ok_def demo_job_def repository_refused_def pull_invalid_def demo_full_sha_def hex_sha_def ascii_lowercase_def)

lemma schedule_loop_log:
  assumes "schedule_loop (\<lambda>l r. (l, pulls l r)) (\<lambda>l j. (l @ [(j, answer l)], answer l)) installation seen n rs l = (l', m, e)"
  shows "\<exists>new. l' = l @ new \<and> length new \<le> length rs \<and> m = n + created_in new \<and> list_all (job_ok installation) (map fst new)
    \<and> distinct (map (\<lambda>x. de_repository (fst x)) new) \<and> set (map (\<lambda>x. de_repository (fst x)) new) \<inter> seen = {}"
  using assms
proof (induction rs arbitrary: seen n l)
  case Nil
  then show ?case by (auto simp: created_in_def)
next
  case (Cons r rs)
  show ?case
  proof (cases "repository_refused installation seen r")
    case True
    then show ?thesis using Cons.prems by (auto simp: created_in_def)
  next
    case False
    then have fresh: "dp_repository r \<notin> seen" by (simp add: repository_refused_def)
    consider e' where "pulls l r = Inl e'" | "pulls l r = Inr None" | p where "pulls l r = Inr (Some p)"
      by (cases "pulls l r"; cases "projr (pulls l r)") auto
    then show ?thesis
    proof cases
      case 1
      then show ?thesis using Cons.prems False by (auto simp: created_in_def)
    next
      case 2
      then have "schedule_loop (\<lambda>l r. (l, pulls l r)) (\<lambda>l j. (l @ [(j, answer l)], answer l)) installation
          (insert (dp_repository r) seen) n rs l = (l', m, e)"
        using Cons.prems False by simp
      from Cons.IH [OF this] obtain new where "l' = l @ new" "length new \<le> length rs" "m = n + created_in new"
          "list_all (job_ok installation) (map fst new)" "distinct (map (\<lambda>x. de_repository (fst x)) new)"
          "set (map (\<lambda>x. de_repository (fst x)) new) \<inter> insert (dp_repository r) seen = {}" by blast
      then show ?thesis by (intro exI [of _ new]) auto
    next
      case (3 p)
      let ?j = "demo_job installation r p"
      show ?thesis
      proof (cases "pull_invalid p")
        case True
        then show ?thesis using Cons.prems False 3 by (auto simp: created_in_def)
      next
        case valid: False
        have job: "job_ok installation ?j" "de_repository ?j = dp_repository r"
          using demo_job_ok [OF False valid] by (simp_all add: demo_job_def)
        show ?thesis
        proof (cases "answer l")
          case (Inl e')
          then have "l' = l @ [(?j, answer l)]" "m = n" using Cons.prems False valid 3 by auto
          then show ?thesis using job fresh Inl by (intro exI [of _ "[(?j, answer l)]"]) (auto simp: created_in_def)
        next
          case (Inr created)
          then have "schedule_loop (\<lambda>l r. (l, pulls l r)) (\<lambda>l j. (l @ [(j, answer l)], answer l)) installation
              (insert (dp_repository r) seen) (if created then Suc n else n) rs (l @ [(?j, answer l)]) = (l', m, e)"
            using Cons.prems False valid 3 by simp
          from Cons.IH [OF this] obtain new where new: "l' = (l @ [(?j, answer l)]) @ new" "length new \<le> length rs"
              "m = (if created then Suc n else n) + created_in new" "list_all (job_ok installation) (map fst new)"
              "distinct (map (\<lambda>x. de_repository (fst x)) new)"
              "set (map (\<lambda>x. de_repository (fst x)) new) \<inter> insert (dp_repository r) seen = {}" by blast
          then show ?thesis
            using job fresh Inr by (intro exI [of _ "(?j, answer l) # new"]) (auto simp: created_in_def)
        qed
      qed
    qed
  qed
qed

text \<open>
  Whatever the reader and the queue answer, a run enqueues at most twenty jobs, each of the
  installation, for a different repository, pinned to a full commit and keyed by both; the number it
  returns is that of the jobs the queue created, also when it stops with an error.
\<close>

theorem demo_jobs_spec:
  "case schedule_demo (recording_demo pulls answer) installation rs [] of
     (l, n, e) \<Rightarrow> length l \<le> 20 \<and> length l \<le> length rs \<and> n = created_in l \<and> list_all (job_ok installation) (map fst l)
       \<and> distinct (map (\<lambda>x. de_repository (fst x)) l)"
proof -
  obtain l n e where run: "schedule_demo (recording_demo pulls answer) installation rs [] = (l, n, e)"
    by (cases "schedule_demo (recording_demo pulls answer) installation rs []")
  show ?thesis
  proof (cases "installation \<le> 0 \<or> rs = [] \<or> length rs > max_demo_repositories")
    case True
    then show ?thesis using run by (auto simp: schedule_demo_def recording_demo_def created_in_def)
  next
    case False
    then have "schedule_loop (\<lambda>l r. (l, pulls l r)) (\<lambda>l j. (l @ [(j, answer l)], answer l)) installation {} 0 rs [] = (l, n, e)"
      using run by (simp add: schedule_demo_def recording_demo_def)
    from schedule_loop_log [OF this] show ?thesis using run False by (auto simp: max_demo_repositories_def)
  qed
qed

section \<open>Process configuration\<close>

definition process_roles :: "bytes set" where
  "process_roles = {''web'', ''webhook'', ''indexer'', ''reviewer'', ''learner''}"

record process_config =
  pc_environment :: bytes
  pc_role :: bytes
  pc_address :: bytes
  pc_release :: bytes
  pc_database :: bytes
  pc_objects :: bytes
  pc_otlp :: bytes
  pc_sentry :: bytes

fun first_nonblank :: "bytes list \<Rightarrow> bytes" where
  "first_nonblank [] = []"
| "first_nonblank (v # vs) = (if trim_space v \<noteq> [] then trim_space v else first_nonblank vs)"

definition read_environment :: "(bytes \<Rightarrow> bytes) \<Rightarrow> bytes \<Rightarrow> process_config" where
  "read_environment getenv role_override =
     \<lparr>pc_environment = first_nonblank [getenv ''PX1_ENVIRONMENT'', ''local''],
      pc_role = first_nonblank [role_override, getenv ''PX1_ROLE'', ''web''],
      pc_address = first_nonblank [getenv ''PX1_ADDRESS'', '':8080''],
      pc_release = getenv ''PX1_RELEASE'', pc_database = getenv ''DATABASE_URL'',
      pc_objects = getenv ''PX1_OBJECT_STORE_URL'', pc_otlp = getenv ''OTEL_EXPORTER_OTLP_ENDPOINT'',
      pc_sentry = getenv ''SENTRY_DSN''\<rparr>"

definition missing_settings :: "process_config \<Rightarrow> bytes list" where
  "missing_settings c =
     (if pc_database c = [] then [''DATABASE_URL''] else [])
     @ (if pc_objects c = [] then [''PX1_OBJECT_STORE_URL''] else [])
     @ (if pc_otlp c = [] then [''OTEL_EXPORTER_OTLP_ENDPOINT''] else [])
     @ (if pc_sentry c = [] then [''SENTRY_DSN''] else [])"

definition load_config :: "(bytes \<Rightarrow> bytes) \<Rightarrow> bytes \<Rightarrow> process_config res" where
  "load_config getenv role_override =
     (let c = read_environment getenv role_override in
      if pc_role c \<notin> process_roles then Inl (MsgStr ''unsupported PX1 role %q'' (pc_role c))
      else if pc_environment c \<noteq> ''local'' \<and> pc_environment c \<noteq> ''staging'' \<and> pc_environment c \<noteq> ''production''
      then Inl (MsgStr ''unsupported PX1 environment %q'' (pc_environment c))
      else if pc_environment c \<noteq> ''local'' \<and> missing_settings c \<noteq> []
      then Inl (MsgStr ''hosted environment is missing %s'' (join_with '', '' (missing_settings c)))
      else Inr c)"

definition public_attributes :: "process_config \<Rightarrow> bytes \<rightharpoonup> bytes" where
  "public_attributes c = [''environment'' \<mapsto> pc_environment c, ''role'' \<mapsto> pc_role c, ''release'' \<mapsto> pc_release c]"

text \<open>
  A process starts only in a known role and environment, and outside a local one only with its
  database, object store, telemetry and error reporting configured.
\<close>

lemma load_config_spec:
  "load_config getenv role_override = Inr c \<longleftrightarrow>
     c = read_environment getenv role_override \<and> pc_role c \<in> process_roles
     \<and> (pc_environment c = ''local''
        \<or> (pc_environment c = ''staging'' \<or> pc_environment c = ''production'')
          \<and> pc_database c \<noteq> [] \<and> pc_objects c \<noteq> [] \<and> pc_otlp c \<noteq> [] \<and> pc_sentry c \<noteq> [])"
  by (auto simp: load_config_def Let_def missing_settings_def)

text \<open>The values that are copied, not trimmed, pass when they hold white space only.\<close>

lemma blank_database_accepted:
  "is_ok (load_config (\<lambda>k. if k = ''PX1_ENVIRONMENT'' then ''production'' else '' '') [])"
proof -
  have "trim_space ''production'' = ''production''" "trim_space ''web'' = ''web''" "trim_space [] = []"
    by (simp_all add: trim_space_visible visible_def)
  moreover have "trim_space '' '' = []" by code_simp
  ultimately show ?thesis
    by (simp add: load_config_def read_environment_def process_roles_def missing_settings_def)
qed

section \<open>The sandboxed indexer\<close>

record scip_image =
  sg_image :: bytes
  sg_command :: "bytes list"

record scip_request =
  sq_repository :: bytes
  sq_output :: bytes
  sq_image :: bytes
  sq_command :: "bytes list"
  sq_network :: bool
  sq_read_only :: bool
  sq_cpu_limit :: int

definition scip_cpu_limit :: int where "scip_cpu_limit = 600 * second_ns"

text \<open>\<open>strings.LastIndex\<close>, for a pattern that is not empty.\<close>

fun last_sub :: "bytes \<Rightarrow> bytes \<Rightarrow> nat option" where
  "last_sub sub [] = None"
| "last_sub sub (c # s) =
     (case last_sub sub s of
        Some i \<Rightarrow> Some (Suc i)
      | None \<Rightarrow> if has_prefix sub (c # s) then Some 0 else None)"

definition lower_hex :: "char \<Rightarrow> bool" where
  "lower_hex c \<longleftrightarrow> ascii_digit c \<or> (CHR ''a'' \<le> c \<and> c \<le> CHR ''f'')"

definition valid_digest_image :: "bytes \<Rightarrow> bool" where
  "valid_digest_image img =
     (case last_sub ''@sha256:'' img of
        None \<Rightarrow> False
      | Some marker \<Rightarrow> marker > 0 \<and> length (drop (marker + 8) img) = 64 \<and> list_all lower_hex (drop (marker + 8) img))"

record 's scip_indexer =
  si_runner :: "('s \<Rightarrow> scip_request \<Rightarrow> 's \<times> go_error option) option"
  si_images :: "bytes \<rightharpoonup> scip_image"

definition scip_index :: "'s scip_indexer \<Rightarrow> bytes \<Rightarrow> bytes \<Rightarrow> bytes \<Rightarrow> bytes \<Rightarrow> bytes \<Rightarrow> 's \<Rightarrow> 's \<times> go_error option" where
  "scip_index x language repository ref default_branch output s =
     (case si_runner x of
        None \<Rightarrow> (s, Some (Msg ''SCIP sandbox runner is required''))
      | Some run \<Rightarrow>
          if repository = [] \<or> output = [] \<or> ref = [] \<or> default_branch = []
          then (s, Some (Msg ''repository, output, ref, and default branch are required''))
          else if ref \<noteq> default_branch then (s, Some (Msg ''SCIP indexing is restricted to the default branch''))
          else (case si_images x language of
             None \<Rightarrow> (s, Some (MsgStr ''no SCIP indexer configured for %s'' language))
           | Some img \<Rightarrow>
               if \<not> valid_digest_image (sg_image img) \<or> sg_command img = []
               then (s, Some (Msg ''SCIP indexer image must be digest-pinned and provide a command''))
               else (case run s \<lparr>sq_repository = repository, sq_output = output, sq_image = sg_image img,
                        sq_command = sg_command img, sq_network = False, sq_read_only = True,
                        sq_cpu_limit = scip_cpu_limit\<rparr> of
                  (s', Some e) \<Rightarrow> (s', Some (Wrapped (''run '' @ language @ '' SCIP indexer: %w'') [] e))
                | (s', None) \<Rightarrow> (s', None))))"

lemma last_sub_Some: "last_sub sub s = Some i \<Longrightarrow> \<exists>u v. s = u @ sub @ v \<and> length u = i"
proof (induction s arbitrary: i)
  case (Cons c s)
  show ?case
  proof (cases "last_sub sub s")
    case None
    then have "has_prefix sub (c # s)" "i = 0" using Cons.prems by (auto split: if_splits)
    then show ?thesis by (auto simp: has_prefix_iff)
  next
    case (Some j)
    then obtain u v where "s = u @ sub @ v" "length u = j" "i = Suc j" using Cons by auto
    then show ?thesis by (intro exI [of _ "c # u"] exI [of _ v]) auto
  qed
qed simp

lemma last_sub_None: "a \<notin> set s \<Longrightarrow> last_sub (a # sub) s = None"
  by (induction s) (auto simp: has_prefix_iff)

lemma last_sub_append: "last_sub sub s = Some i \<Longrightarrow> last_sub sub (u @ s) = Some (length u + i)"
  by (induction u) auto

lemma lower_hex_no_at: "list_all lower_hex s \<Longrightarrow> CHR ''@'' \<notin> set s"
  by (auto simp: list_all_iff lower_hex_def ascii_digit_def less_eq_char_def)

lemma valid_digest_image_iff:
  "valid_digest_image img \<longleftrightarrow>
     (\<exists>name digest. img = name @ ''@sha256:'' @ digest \<and> name \<noteq> [] \<and> length digest = 64 \<and> list_all lower_hex digest)"
proof
  assume valid: "valid_digest_image img"
  then obtain i where i: "last_sub ''@sha256:'' img = Some i" "0 < i" "length (drop (i + 8) img) = 64"
      "list_all lower_hex (drop (i + 8) img)"
    by (auto simp: valid_digest_image_def split: option.splits)
  obtain u v where uv: "img = u @ ''@sha256:'' @ v" "length u = i" using last_sub_Some [OF i(1)] by blast
  then have "drop (i + 8) img = v" by simp
  then show "\<exists>name digest. img = name @ ''@sha256:'' @ digest \<and> name \<noteq> [] \<and> length digest = 64 \<and> list_all lower_hex digest"
    using uv i by auto
next
  assume "\<exists>name digest. img = name @ ''@sha256:'' @ digest \<and> name \<noteq> [] \<and> length digest = 64 \<and> list_all lower_hex digest"
  then obtain name digest where p: "img = name @ ''@sha256:'' @ digest" "name \<noteq> []" "length digest = 64" "list_all lower_hex digest"
    by blast
  have "CHR ''@'' \<notin> set (''sha256:'' @ digest)" using lower_hex_no_at [OF p(4)] by simp
  then have "last_sub ''@sha256:'' (''sha256:'' @ digest) = None" by (rule last_sub_None)
  then have "last_sub ''@sha256:'' (''@sha256:'' @ digest) = Some 0" by (simp add: has_prefix_def)
  then have "last_sub ''@sha256:'' img = Some (length name)" using last_sub_append p(1) by fastforce
  then show "valid_digest_image img" using p by (simp add: valid_digest_image_def)
qed

text \<open>A runner that records what it is asked to run.\<close>

definition recording_runner :: "(scip_request list \<Rightarrow> go_error option) \<Rightarrow> scip_request list \<Rightarrow> scip_request \<Rightarrow> scip_request list \<times> go_error option" where
  "recording_runner answer l r = (l @ [r], answer l)"

text \<open>
  The sandbox is asked at most once, only for the default branch, and then always without network,
  on a read-only root, within the processor limit and in an image pinned to a full SHA-256 digest.
\<close>

theorem scip_runs_isolated:
  "case scip_index \<lparr>si_runner = Some (recording_runner answer), si_images = images\<rparr> language repository ref default_branch output [] of
     (runs, e) \<Rightarrow> runs = [] \<and> e \<noteq> None
       \<or> ref = default_branch \<and> (e = None \<longleftrightarrow> answer [] = None)
         \<and> (\<exists>r name digest. runs = [r] \<and> \<not> sq_network r \<and> sq_read_only r \<and> sq_cpu_limit r = 600 * second_ns
             \<and> sq_repository r = repository \<and> sq_output r = output \<and> sq_command r \<noteq> []
             \<and> sq_image r = name @ ''@sha256:'' @ digest \<and> name \<noteq> [] \<and> length digest = 64 \<and> list_all lower_hex digest)"
proof -
  let ?x = "\<lparr>si_runner = Some (recording_runner answer), si_images = images\<rparr>"
  show ?thesis
  proof (cases "repository = [] \<or> output = [] \<or> ref = [] \<or> default_branch = [] \<or> ref \<noteq> default_branch
      \<or> (\<forall>img. images language = Some img \<longrightarrow> \<not> valid_digest_image (sg_image img) \<or> sg_command img = [])")
    case True
    then have "\<exists>e. scip_index ?x language repository ref default_branch output [] = ([], Some e)"
      by (cases "images language") (auto simp: scip_index_def)
    then show ?thesis by auto
  next
    case False
    then obtain img where img: "images language = Some img" "valid_digest_image (sg_image img)" "sg_command img \<noteq> []"
      by blast
    let ?r = "\<lparr>sq_repository = repository, sq_output = output, sq_image = sg_image img, sq_command = sg_command img,
       sq_network = False, sq_read_only = True, sq_cpu_limit = scip_cpu_limit\<rparr>"
    have "\<exists>e. scip_index ?x language repository ref default_branch output [] = ([?r], e) \<and> (e = None \<longleftrightarrow> answer [] = None)"
      using False img by (cases "answer []") (simp_all add: scip_index_def recording_runner_def)
    moreover obtain name digest where "sg_image img = name @ ''@sha256:'' @ digest" "name \<noteq> []" "length digest = 64" "list_all lower_hex digest"
      using img(2) unfolding valid_digest_image_iff by blast
    ultimately show ?thesis using False img(3) by (auto simp: scip_cpu_limit_def)
  qed
qed

section \<open>Cloning\<close>

definition max_git_output :: nat where "max_git_output = 65536"

text \<open>What \<open>url.Parse\<close> says of a remote.\<close>

record remote =
  re_scheme :: bytes
  re_hostname :: bytes
  re_user :: bool
  re_query :: bytes
  re_fragment :: bytes

record 's cloner =
  cl_git_path :: bytes
  cl_temp_root :: bytes
  cl_hosts :: "(bytes \<times> bool) list"
  cl_runner :: "('s \<Rightarrow> bytes \<Rightarrow> bytes list \<Rightarrow> bytes list \<Rightarrow> 's \<times> go_error option) option"

record clone =
  ck_dir :: bytes
  ck_root :: bytes

text \<open>The file system and the start of a process: the output comes in chunks, then the exit.\<close>

record 's system =
  sy_mkdir_temp :: "'s \<Rightarrow> bytes \<Rightarrow> 's \<times> bytes res"
  sy_remove_all :: "'s \<Rightarrow> bytes \<Rightarrow> 's \<times> go_error option"
  sy_exec :: "'s \<Rightarrow> bytes \<Rightarrow> bytes list \<Rightarrow> bytes list \<Rightarrow> 's \<times> bytes list \<times> go_error option"
  sy_environ :: "bytes list"

fun first_given :: "bytes list \<Rightarrow> bytes" where
  "first_given [] = []"
| "first_given (v # vs) = (if v \<noteq> [] then v else first_given vs)"

definition limited_write :: "bytes \<Rightarrow> bytes \<Rightarrow> bytes \<times> nat" where
  "limited_write buffer p =
     (let remaining = int max_git_output - int (length buffer) in
      (if remaining > 0
       then buffer @ (if int (length p) > remaining then take (nat remaining) p else p)
       else buffer, length p))"

definition run_command :: "'s system \<Rightarrow> bytes \<Rightarrow> 's \<Rightarrow> bytes list \<Rightarrow> bytes list \<Rightarrow> 's \<times> go_error option" where
  "run_command sys path s args extra =
     (case sy_exec sys s path args (sy_environ sys @ extra) of
        (s', chunks, Some e) \<Rightarrow>
          (s', Some (Wrapped (''%w: '' @ trim_space (fold (\<lambda>p b. fst (limited_write b p)) chunks [])) [] e))
      | (s', chunks, None) \<Rightarrow> (s', None))"

definition validate_remote :: "unicode \<Rightarrow> (bytes \<Rightarrow> remote res) \<Rightarrow> (bytes \<times> bool) list \<Rightarrow> bytes \<Rightarrow> go_error option" where
  "validate_remote u parse hosts raw =
     (case parse raw of
        Inl e \<Rightarrow> Some (Msg ''repository URL must be HTTPS'')
      | Inr r \<Rightarrow>
          if re_scheme r \<noteq> ''https'' \<or> re_hostname r = [] then Some (Msg ''repository URL must be HTTPS'')
          else if re_user r \<or> re_query r \<noteq> [] \<or> re_fragment r \<noteq> []
          then Some (Msg ''repository URL must not contain credentials, query parameters, or fragments'')
          else if map_of (if hosts = [] then [(''github.com'', True)] else hosts) (to_lower u (re_hostname r)) \<noteq> Some True
          then Some (MsgStr ''repository host %q is not allowed'' (re_hostname r))
          else None)"

definition clone_options :: "bytes list" where
  "clone_options =
     [''-c'', ''protocol.file.allow=never'', ''-c'', ''protocol.ext.allow=never'', ''-c'', ''credential.helper='', ''clone'',
      ''--bare'', ''--depth=1'', ''--filter=blob:limit=1m'', ''--no-tags'', ''--single-branch'']"

definition clone_args :: "bytes \<Rightarrow> bytes \<Rightarrow> bytes \<Rightarrow> bytes list" where
  "clone_args ref remote_url root_dir =
     clone_options @ (if ref \<noteq> [] then [''--branch='' @ ref] else []) @ [''--'', remote_url, path_join root_dir ''objects.git'']"

definition clone_env :: "bytes list" where
  "clone_env = [''GIT_TERMINAL_PROMPT=0'', ''GIT_CONFIG_NOSYSTEM=1'', ''GIT_CONFIG_GLOBAL=/dev/null'']"

definition run_git :: "'s system \<Rightarrow> 's cloner \<Rightarrow> 's \<Rightarrow> bytes list \<Rightarrow> 's \<times> go_error option" where
  "run_git sys c s args =
     (let path = first_given [cl_git_path c, ''git''] in
      case cl_runner c of
        Some run \<Rightarrow> run s path args clone_env
      | None \<Rightarrow> run_command sys path s args clone_env)"

definition clone_repository ::
    "unicode \<Rightarrow> (bytes \<Rightarrow> remote res) \<Rightarrow> 's system \<Rightarrow> 's cloner \<Rightarrow> bytes \<Rightarrow> bytes \<Rightarrow> 's \<Rightarrow> 's \<times> clone res" where
  "clone_repository u parse sys c remote_url ref s =
     (case validate_remote u parse (cl_hosts c) remote_url of
        Some e \<Rightarrow> (s, Inl e)
      | None \<Rightarrow>
          if contains_any [CHR 0x00, CHR 0x0D, CHR 0x0A] ref
          then (s, Inl (Msg ''repository ref contains control characters''))
          else (case sy_mkdir_temp sys s (cl_temp_root c) of
             (s1, Inl e) \<Rightarrow> (s1, Inl (Wrapped ''create clone directory: %w'' [] e))
           | (s1, Inr root_dir) \<Rightarrow>
               (case run_git sys c s1 (clone_args ref remote_url root_dir) of
                  (s2, Some e) \<Rightarrow>
                    (fst (sy_remove_all sys s2 root_dir), Inl (Wrapped ''filtered shallow clone failed: %w'' [] e))
                | (s2, None) \<Rightarrow> (s2, Inr \<lparr>ck_dir = path_join root_dir ''objects.git'', ck_root = root_dir\<rparr>))))"

definition remove_clone :: "'s system \<Rightarrow> clone \<Rightarrow> 's \<Rightarrow> 's \<times> go_error option" where
  "remove_clone sys c s = sy_remove_all sys s (ck_root c)"

text \<open>The buffer keeps the first 64 KiB of what a command prints, however it is cut into writes.\<close>

lemma limited_writes:
  assumes "b = take max_git_output w"
  shows "fold (\<lambda>p b. fst (limited_write b p)) chunks b = take max_git_output (w @ concat chunks)"
  using assms
proof (induction chunks arbitrary: b w)
  case (Cons p chunks)
  have "fst (limited_write b p) = take max_git_output (w @ p)"
    using Cons.prems by (auto simp: limited_write_def Let_def nat_diff_distrib min_def)
  from Cons.IH [OF this] show ?case by simp
qed simp

text \<open>
  A disk with its temporary directories and the commands run on it. The names of new directories, the
  output of a command and its exit are arbitrary.
\<close>

record disk =
  di_dirs :: "bytes set"
  di_runs :: "(bytes \<times> bytes list \<times> bytes list) list"

definition disk_system ::
    "(disk \<Rightarrow> bytes res) \<Rightarrow> (disk \<Rightarrow> bytes list) \<Rightarrow> (disk \<Rightarrow> go_error option) \<Rightarrow> bytes list \<Rightarrow> disk system" where
  "disk_system fresh chunks exit environ =
     \<lparr>sy_mkdir_temp = (\<lambda>w root.
        case fresh w of
          Inl e \<Rightarrow> (w, Inl e)
        | Inr d \<Rightarrow> if d \<in> di_dirs w then (w, Inl (Msg ''exists'')) else (w\<lparr>di_dirs := insert d (di_dirs w)\<rparr>, Inr d)),
      sy_remove_all = (\<lambda>w d. (w\<lparr>di_dirs := di_dirs w - {d}\<rparr>, None)),
      sy_exec = (\<lambda>w path args env. (w\<lparr>di_runs := di_runs w @ [(path, args, env)]\<rparr>, chunks w, exit w)),
      sy_environ = environ\<rparr>"

text \<open>Nothing the caller gives is read as an option, and no prompt, system or user configuration is used.\<close>

definition safe_run :: "bytes \<Rightarrow> bytes \<Rightarrow> bytes \<times> bytes list \<times> bytes list \<Rightarrow> bool" where
  "safe_run remote_url ref run \<longleftrightarrow>
     (\<exists>given target. fst (snd run) = clone_options @ given @ [''--'', remote_url, target]
        \<and> (given = [] \<or> given = [''--branch='' @ ref]))
     \<and> set clone_env \<subseteq> set (snd (snd run))"

lemma safe_run_clone: "safe_run remote_url ref (path, clone_args ref remote_url root_dir, environ @ clone_env)"
  by (auto simp: safe_run_def clone_args_def)

text \<open>
  A clone runs git at most once, for an HTTPS remote on an allowed host without credentials, query or
  fragment, with the URL behind the end of the options; a clone that fails leaves no directory behind,
  one that succeeds leaves exactly its own, and removing it restores the disk.
\<close>

theorem clone_is_contained:
  "case clone_repository u parse (disk_system fresh chunks exit environ)
        \<lparr>cl_git_path = git_path, cl_temp_root = temp_root, cl_hosts = hosts, cl_runner = None\<rparr> remote_url ref w of
     (w', r) \<Rightarrow>
       (\<exists>new. di_runs w' = di_runs w @ new \<and> length new \<le> 1 \<and> list_all (safe_run remote_url ref) new
          \<and> (if new = [] then True else validate_remote u parse hosts remote_url = None))
       \<and> (case r of
            Inl e \<Rightarrow> di_dirs w' = di_dirs w
          | Inr c \<Rightarrow> di_dirs w' = insert (ck_root c) (di_dirs w) \<and> ck_root c \<notin> di_dirs w
              \<and> di_dirs (fst (remove_clone (disk_system fresh chunks exit environ) c w')) = di_dirs w)"
proof -
  let ?sys = "disk_system fresh chunks exit environ"
  let ?c = "\<lparr>cl_git_path = git_path, cl_temp_root = temp_root, cl_hosts = hosts, cl_runner = None\<rparr> :: disk cloner"
  show ?thesis
  proof (cases "validate_remote u parse hosts remote_url = None \<and> \<not> contains_any [CHR 0x00, CHR 0x0D, CHR 0x0A] ref
      \<and> (\<exists>d. fresh w = Inr d \<and> d \<notin> di_dirs w)")
    case False
    have taken: "\<exists>e. sy_mkdir_temp ?sys w temp_root = (w, Inl e)" if "\<not> (\<exists>d. fresh w = Inr d \<and> d \<notin> di_dirs w)"
    proof (cases "fresh w")
      case (Inr d)
      then have "d \<in> di_dirs w" using that by blast
      then show ?thesis using Inr by (simp add: disk_system_def)
    qed (simp add: disk_system_def)
    have "\<exists>e. clone_repository u parse ?sys ?c remote_url ref w = (w, Inl e)"
    proof (cases "validate_remote u parse hosts remote_url")
      case valid: None
      show ?thesis
      proof (cases "contains_any [CHR 0x00, CHR 0x0D, CHR 0x0A] ref")
        case legal: False
        then have "\<not> (\<exists>d. fresh w = Inr d \<and> d \<notin> di_dirs w)" using False valid by simp
        from taken [OF this] obtain e where "sy_mkdir_temp ?sys w temp_root = (w, Inl e)" by (elim exE)
        then show ?thesis using valid legal by (simp add: clone_repository_def)
      qed (simp add: clone_repository_def valid)
    qed (simp add: clone_repository_def)
    then obtain e where "clone_repository u parse ?sys ?c remote_url ref w = (w, Inl e)" by (elim exE)
    then show ?thesis by (simp add: exI [of _ "[]"])
  next
    case True
    then obtain d where d: "fresh w = Inr d" "d \<notin> di_dirs w" by blast
    let ?w1 = "w\<lparr>di_dirs := insert d (di_dirs w)\<rparr>"
    let ?run = "(first_given [git_path, ''git''], clone_args ref remote_url d, environ @ clone_env)"
    let ?w2 = "?w1\<lparr>di_runs := di_runs w @ [?run]\<rparr>"
    have start: "sy_mkdir_temp ?sys w temp_root = (?w1, Inr d)" using d by (simp add: disk_system_def)
    have git: "run_git ?sys ?c ?w1 (clone_args ref remote_url d) =
        (?w2, case exit ?w1 of None \<Rightarrow> None | Some e \<Rightarrow> Some (Wrapped (''%w: '' @ trim_space
           (fold (\<lambda>p b. fst (limited_write b p)) (chunks ?w1) [])) [] e))"
      by (simp add: run_git_def run_command_def disk_system_def split: option.split)
    have ok: "safe_run remote_url ref ?run" by (rule safe_run_clone)
    show ?thesis
    proof (cases "exit ?w1")
      case None
      then have "clone_repository u parse ?sys ?c remote_url ref w = (?w2, Inr \<lparr>ck_dir = path_join d ''objects.git'', ck_root = d\<rparr>)"
        using True start git by (simp add: clone_repository_def)
      then show ?thesis using ok True d by (simp add: remove_clone_def disk_system_def)
    next
      case (Some e)
      then have "\<exists>e'. clone_repository u parse ?sys ?c remote_url ref w = (?w2\<lparr>di_dirs := insert d (di_dirs w) - {d}\<rparr>, Inl e')"
        using True start git by (simp add: clone_repository_def) (simp add: disk_system_def)
      then obtain e' where "clone_repository u parse ?sys ?c remote_url ref w = (?w2\<lparr>di_dirs := insert d (di_dirs w) - {d}\<rparr>, Inl e')"
        by (elim exE)
      then show ?thesis using ok True d by simp
    qed
  qed
qed

end
