(* ===== verification/Publishers.thy ===== *)
theory Publishers
  imports Commands Summary Findings
begin

text \<open>
  What the service writes to GitHub: check runs, reviews and the sticky summary
  (\<open>internal/hosted/githubapp/checks.go\<close>, \<open>review.go\<close>, \<open>summary.go\<close>). The GitHub client acts on a state; JSON,
  \<open>url.Parse\<close>, \<open>strings.EqualFold\<close> and the clock are parameters. The names, hashes and endpoints
  are checked by the same loops in each file.
\<close>

definition github_api :: bytes where "github_api = ''https://api.github.com''"

definition repo_url :: "bytes \<Rightarrow> bytes \<Rightarrow> bytes \<Rightarrow> bytes" where
  "repo_url base_url owner repo = api_base github_api base_url @ ''/repos/'' @ path_escape owner @ ''/'' @ path_escape repo"

section \<open>Check runs\<close>

definition retry_review_action :: bytes where "retry_review_action = ''retry_review''"

record 's check_publisher =
  cp_client :: "'s api_client option"
  cp_base_url :: bytes

record check_start =
  ct_head_sha :: bytes
  ct_run_id :: bytes
  ct_details_url :: bytes
  ct_summary :: bytes

record check_result =
  cr_conclusion :: bytes
  cr_title :: bytes
  cr_summary :: bytes

record check_output =
  co_title :: bytes
  co_summary :: bytes

record check_action =
  ca_label :: bytes
  ca_description :: bytes
  ca_identifier :: bytes

text \<open>The two payloads: the fields of the maps that are marshalled.\<close>

datatype check_payload =
    Check_Started bytes bytes bytes bytes bytes check_output
  | Check_Completed bytes bytes bytes check_output "check_action list"

definition bounded_check_text :: "bytes \<Rightarrow> bytes" where
  "bounded_check_text s =
     (if length s \<le> 60000 then s else take 60000 s @ newline @ newline @ ''[truncated by px1]'')"

definition valid_http_url :: "(bytes \<Rightarrow> parsed_link res) \<Rightarrow> bytes \<Rightarrow> bool" where
  "valid_http_url parse s =
     (case parse s of
        Inl e \<Rightarrow> False
      | Inr l \<Rightarrow> (li_scheme l = ''https'' \<or> li_scheme l = ''http'') \<and> li_host l \<noteq> [])"

definition valid_check_sha :: "bytes \<Rightarrow> bool" where
  "valid_check_sha s \<longleftrightarrow> hex_sha s"

definition valid_check_slug :: "bytes \<Rightarrow> bool" where
  "valid_check_slug s \<longleftrightarrow> slug_name s"

definition check_identity_error :: "'s check_publisher \<Rightarrow> int \<Rightarrow> bytes \<Rightarrow> bytes \<Rightarrow> go_error option" where
  "check_identity_error p installation owner repo =
     (if cp_client p = None \<or> installation \<le> 0 \<or> \<not> valid_check_slug owner \<or> \<not> valid_check_slug repo
      then Some (Msg ''GitHub client, installation, and repository are required'') else None)"

definition send_check ::
    "(bytes \<Rightarrow> go_error option) \<Rightarrow> (check_payload \<Rightarrow> bytes res) \<Rightarrow> 's check_publisher \<Rightarrow> int \<Rightarrow> bytes \<Rightarrow> bytes
     \<Rightarrow> check_payload \<Rightarrow> 's \<Rightarrow> 's \<times> api_response res" where
  "send_check url_error encode p installation method path payload s =
     (case encode payload of
        Inl e \<Rightarrow> (s, Inl e)
      | Inr body \<Rightarrow>
     (case new_request url_error method (api_base github_api (cp_base_url p) @ path) (Some body) of
        Inl e \<Rightarrow> (s, Inl e)
      | Inr request \<Rightarrow>
     (case the (cp_client p) s installation (set_header ''Content-Type'' ''application/json'' request) of
        (s', Inl e) \<Rightarrow> (s', Inl (Wrapped ''publish GitHub check run: %w'' [] e))
      | (s', Inr response) \<Rightarrow>
          if \<not> ok_status (ar_status response)
          then (s', Inl (MsgNum ''publish GitHub check run: status %d'' [ar_status response]))
          else (s', Inr response))))"

definition check_path :: "bytes \<Rightarrow> bytes \<Rightarrow> bytes" where
  "check_path owner repo = ''/repos/'' @ path_escape owner @ ''/'' @ path_escape repo @ ''/check-runs''"

text \<open>\<open>decode\<close> yields the \<open>id\<close> of the answer.\<close>

definition start_check ::
    "(bytes \<Rightarrow> go_error option) \<Rightarrow> (bytes \<Rightarrow> parsed_link res) \<Rightarrow> (check_payload \<Rightarrow> bytes res) \<Rightarrow> (bytes \<Rightarrow> int res)
     \<Rightarrow> 's check_publisher \<Rightarrow> int \<Rightarrow> bytes \<Rightarrow> bytes \<Rightarrow> check_start \<Rightarrow> 's \<Rightarrow> 's \<times> int res" where
  "start_check url_error parse encode decode p installation owner repo given s =
     (case check_identity_error p installation owner repo of
        Some e \<Rightarrow> (s, Inl e)
      | None \<Rightarrow>
          if \<not> valid_check_sha (ct_head_sha given) \<or> blank (ct_run_id given) \<or> \<not> valid_http_url parse (ct_details_url given)
          then (s, Inl (Msg ''full head SHA, run ID, and details URL are required''))
          else (case send_check url_error encode p installation ''POST'' (check_path owner repo)
                  (Check_Started ''px1 review'' (ct_head_sha given) ''in_progress'' (ct_run_id given) (ct_details_url given)
                     \<lparr>co_title = ''px1 review in progress'', co_summary = bounded_check_text (ct_summary given)\<rparr>) s of
             (s', Inl e) \<Rightarrow> (s', Inl e)
           | (s', Inr response) \<Rightarrow>
               (case decode (limited 1048576 (ar_body response)) of
                  Inl e \<Rightarrow> (s', Inl (Msg ''GitHub returned an invalid check run ID''))
                | Inr n \<Rightarrow>
                    if n \<le> 0 then (s', Inl (Msg ''GitHub returned an invalid check run ID'')) else (s', Inr n))))"

text \<open>\<open>time.RFC3339\<close> of an instant in UTC: the civil date of a day, and two digits for each field.\<close>

definition civil_date :: "int \<Rightarrow> int \<times> int \<times> int" where
  "civil_date day =
     (let z = day + 719468; era = z div 146097; doe = z mod 146097;
          yoe = (doe - doe div 1460 + doe div 36524 - doe div 146096) div 365;
          doy = doe - (365 * yoe + yoe div 4 - yoe div 100); mp = (5 * doy + 2) div 153;
          d = doy - (153 * mp + 2) div 5 + 1; m = (if mp < 10 then mp + 3 else mp - 9)
      in (yoe + era * 400 + (if m \<le> 2 then 1 else 0), m, d))"

definition padded :: "nat \<Rightarrow> int \<Rightarrow> bytes" where
  "padded n v = (let digits = dec_int v in replicate (n - length digits) CHR ''0'' @ digits)"

definition rfc3339 :: "int \<Rightarrow> bytes" where
  "rfc3339 t =
     (case civil_date (t div day_ns) of
        (y, m, d) \<Rightarrow>
          let sec = t mod day_ns div second_ns in
          padded 4 y @ ''-'' @ padded 2 m @ ''-'' @ padded 2 d @ ''T'' @ padded 2 (sec div 3600) @ '':''
            @ padded 2 (sec div 60 mod 60) @ '':'' @ padded 2 (sec mod 60) @ ''Z'')"

lemma rfc3339_samples:
  "rfc3339 0 = ''1970-01-01T00:00:00Z''" "rfc3339 (951868799 * second_ns) = ''2000-02-29T23:59:59Z''"
  "rfc3339 (1793010600 * second_ns) = ''2026-10-26T10:30:00Z''"
  by code_simp+

definition complete_check ::
    "(bytes \<Rightarrow> go_error option) \<Rightarrow> (check_payload \<Rightarrow> bytes res) \<Rightarrow> 's check_publisher \<Rightarrow> int \<Rightarrow> int \<Rightarrow> bytes \<Rightarrow> bytes \<Rightarrow> int
     \<Rightarrow> check_result \<Rightarrow> 's \<Rightarrow> 's \<times> go_error option" where
  "complete_check url_error encode p now installation owner repo check_run given s =
     (case check_identity_error p installation owner repo of
        Some e \<Rightarrow> (s, Some e)
      | None \<Rightarrow>
          if check_run \<le> 0 \<or> (cr_conclusion given \<noteq> ''neutral'' \<and> cr_conclusion given \<noteq> ''failure'') \<or> blank (cr_title given)
          then (s, Some (Msg ''check run ID, neutral or failure conclusion, and title are required''))
          else (case send_check url_error encode p installation ''PATCH'' (check_path owner repo @ ''/'' @ dec_int check_run)
                  (Check_Completed ''completed'' (cr_conclusion given) (rfc3339 now)
                     \<lparr>co_title = cr_title given, co_summary = bounded_check_text (cr_summary given)\<rparr>
                     [\<lparr>ca_label = ''Retry review'', ca_description = ''Run px1 again for this pull request head'',
                       ca_identifier = retry_review_action\<rparr>]) s of
             (s', Inl e) \<Rightarrow> (s', Some e)
           | (s', Inr response) \<Rightarrow> (s', None)))"

definition review_conclusion :: "bool \<Rightarrow> bool \<Rightarrow> bytes" where
  "review_conclusion has_p0 fail_on_p0 = (if has_p0 \<and> fail_on_p0 then ''failure'' else ''neutral'')"

section \<open>Reviews\<close>

definition max_inline_review_comments :: nat where "max_inline_review_comments = 15"

record 's review_publisher =
  vp_client :: "'s api_client option"
  vp_base_url :: bytes

record review_request =
  vr_head_sha :: bytes
  vr_run_id :: bytes
  vr_body :: bytes
  vr_findings :: "finding list"

text \<open>A start line of zero and an empty start side are omitted from the JSON.\<close>

record review_comment =
  vc_path :: bytes
  vc_line :: int
  vc_side :: bytes
  vc_start_line :: int
  vc_start_side :: bytes
  vc_body :: bytes

record review_payload =
  vy_commit :: bytes
  vy_body :: bytes
  vy_event :: bytes
  vy_comments :: "review_comment list"

definition valid_review_sha :: "bytes \<Rightarrow> bool" where
  "valid_review_sha s \<longleftrightarrow> hex_sha s"

definition valid_run_id :: "bytes \<Rightarrow> bool" where
  "valid_run_id s \<longleftrightarrow> s \<noteq> [] \<and> length s \<le> 100 \<and> list_all slug_char s"

definition valid_slug :: "bytes \<Rightarrow> bool" where
  "valid_slug s \<longleftrightarrow> slug_name s"

text \<open>\<open>%.2f\<close> of a number that is not negative.\<close>

definition two_decimals :: "rat \<Rightarrow> bytes" where
  "two_decimals x = (let n = round_half_even (x * 100) in dec_int (n div 100) @ ''.'' @ padded 2 (n mod 100))"

definition render_finding_comment :: "finding \<Rightarrow> bytes" where
  "render_finding_comment f =
     ''**'' @ f_severity f @ '': '' @ f_title f @ ''**'' @ newline @ newline @ f_body f @ newline @ newline
     @ ''Evidence: '' @ f_evidence f @ newline @ newline @ ''Confidence: '' @ two_decimals (f_confidence f)
     @ (if f_suggestion f \<noteq> []
        then let fence = grow_fence (f_suggestion f) (replicate 3 (CHR 0x60)) in
          newline @ newline @ fence @ ''suggestion'' @ newline @ f_suggestion f @ newline @ fence
        else [])"

definition comment_of :: "finding \<Rightarrow> review_comment" where
  "comment_of f =
     \<lparr>vc_path = f_path f, vc_line = f_end f, vc_side = ''RIGHT'',
      vc_start_line = (if f_start f \<noteq> f_end f then f_start f else 0),
      vc_start_side = (if f_start f \<noteq> f_end f then ''RIGHT'' else []), vc_body = render_finding_comment f\<rparr>"

fun review_comments :: "finding list \<Rightarrow> review_comment list res" where
  "review_comments [] = Inr []"
| "review_comments (f # fs) =
     (case validate f of
        Inl e \<Rightarrow> Inl (Wrapped ''invalid inline finding: %w'' [] e)
      | Inr _ \<Rightarrow> (case review_comments fs of Inl e \<Rightarrow> Inl e | Inr cs \<Rightarrow> Inr (comment_of f # cs)))"

definition review_payload_of :: "review_request \<Rightarrow> review_comment list \<Rightarrow> review_payload" where
  "review_payload_of given cs =
     \<lparr>vy_commit = vr_head_sha given, vy_body = ''<!-- px1-review-run:'' @ vr_run_id given @ '' -->'' @ newline @ vr_body given,
      vy_event = ''COMMENT'', vy_comments = cs\<rparr>"

definition create_review ::
    "(bytes \<Rightarrow> go_error option) \<Rightarrow> (review_payload \<Rightarrow> bytes res) \<Rightarrow> 's review_publisher \<Rightarrow> int \<Rightarrow> bytes \<Rightarrow> bytes \<Rightarrow> int
     \<Rightarrow> review_request \<Rightarrow> 's \<Rightarrow> 's \<times> go_error option" where
  "create_review url_error encode p installation owner repo pull given s =
     (case vp_client p of
        None \<Rightarrow> (s, Some (Msg ''GitHub client, installation, repository, and pull number are required''))
      | Some api \<Rightarrow>
          if installation \<le> 0 \<or> pull \<le> 0 \<or> \<not> valid_slug owner \<or> \<not> valid_slug repo
          then (s, Some (Msg ''GitHub client, installation, repository, and pull number are required''))
          else if \<not> valid_review_sha (vr_head_sha given) \<or> \<not> valid_run_id (vr_run_id given) \<or> blank (vr_body given)
          then (s, Some (Msg ''full head SHA, run ID, and review body are required''))
          else if length (vr_findings given) > max_inline_review_comments
          then (s, Some (MsgNum ''inline finding count %d exceeds limit %d''
                  [int (length (vr_findings given)), int max_inline_review_comments]))
          else (case review_comments (vr_findings given) of
             Inl e \<Rightarrow> (s, Some e)
           | Inr cs \<Rightarrow>
          (case encode (review_payload_of given cs) of
             Inl e \<Rightarrow> (s, Some e)
           | Inr body \<Rightarrow>
          (case new_request url_error ''POST'' (repo_url (vp_base_url p) owner repo @ ''/pulls/'' @ dec_int pull @ ''/reviews'')
                 (Some body) of
             Inl e \<Rightarrow> (s, Some e)
           | Inr request \<Rightarrow>
          (case api s installation (set_header ''Content-Type'' ''application/json'' request) of
             (s', Inl e) \<Rightarrow> (s', Some (Wrapped ''create GitHub review: %w'' [] e))
           | (s', Inr response) \<Rightarrow>
               if \<not> ok_status (ar_status response)
               then (s', Some (MsgNum ''create GitHub review: status %d'' [ar_status response]))
               else (s', None))))))"

text \<open>A client that records what it sends; its answers are arbitrary.\<close>

definition log_api :: "(nat \<Rightarrow> api_request \<Rightarrow> api_response res) \<Rightarrow> api_request list api_client" where
  "log_api answers l i r = (l @ [r], answers (length l) r)"

definition comment_ok :: "review_comment \<Rightarrow> bool" where
  "comment_ok c \<longleftrightarrow> vc_side c = ''RIGHT'' \<and> \<not> outside_repo (vc_path c) \<and> 1 \<le> vc_line c
     \<and> (vc_start_line c = 0 \<and> vc_start_side c = []
        \<or> 1 \<le> vc_start_line c \<and> vc_start_line c < vc_line c \<and> vc_start_side c = ''RIGHT'')"

definition payload_ok :: "review_payload \<Rightarrow> bool" where
  "payload_ok p \<longleftrightarrow> hex_sha (vy_commit p) \<and> vy_event p = ''COMMENT'' \<and> has_prefix ''<!-- px1-review-run:'' (vy_body p)
     \<and> length (vy_comments p) \<le> 15 \<and> list_all comment_ok (vy_comments p)"

lemma comment_of_ok: "validate f = Inr () \<Longrightarrow> comment_ok (comment_of f)"
  by (auto simp: validate_ok_iff comment_ok_def comment_of_def)

lemma review_comments_ok:
  "review_comments fs = Inr cs \<Longrightarrow> cs = map comment_of fs \<and> list_all comment_ok cs"
  by (induction fs arbitrary: cs) (auto split: sum.splits simp: comment_of_ok)

lemma review_comments_cases:
  obtains e where "review_comments fs = Inl e" | "review_comments fs = Inr (map comment_of fs)" "list_all comment_ok (map comment_of fs)"
  using review_comments_ok by (cases "review_comments fs") auto

lemma new_request_sel:
  "new_request url_error method url body = Inr q \<Longrightarrow> aq_method q = method \<and> aq_url q = url \<and> aq_body q = map_option Inr body"
  by (auto simp: new_request_def split: option.splits)

lemma review_payload_ok:
  "hex_sha (vr_head_sha given) \<Longrightarrow> length cs \<le> 15 \<Longrightarrow> list_all comment_ok cs \<Longrightarrow> payload_ok (review_payload_of given cs)"
  by (auto simp: payload_ok_def review_payload_of_def has_prefix_iff)

lemma create_review_cases:
  fixes base_url :: bytes
  assumes run: "create_review url_error encode \<lparr>vp_client = Some (log_api answers), vp_base_url = base_url\<rparr> installation owner repo pull given []
    = (l, e)"
  obtains "l = []" "e \<noteq> None"
  | body q where "encode (review_payload_of given (map comment_of (vr_findings given))) = Inr body"
      "new_request url_error ''POST'' (repo_url base_url owner repo @ ''/pulls/'' @ dec_int pull @ ''/reviews'') (Some body) = Inr q"
      "slug_name owner" "slug_name repo" "hex_sha (vr_head_sha given)" "length (vr_findings given) \<le> 15"
      "list_all comment_ok (map comment_of (vr_findings given))"
      "l = [set_header ''Content-Type'' ''application/json'' q]"
      "e = None \<longleftrightarrow> (case answers 0 (set_header ''Content-Type'' ''application/json'' q) of Inl _ \<Rightarrow> False | Inr r \<Rightarrow> ok_status (ar_status r))"
proof (cases "installation \<le> 0 \<or> pull \<le> 0 \<or> \<not> slug_name owner \<or> \<not> slug_name repo \<or> \<not> hex_sha (vr_head_sha given)
    \<or> \<not> valid_run_id (vr_run_id given) \<or> blank (vr_body given) \<or> length (vr_findings given) > 15")
  case True
  then show ?thesis using run that(1)
    by (auto simp: create_review_def valid_slug_def valid_review_sha_def max_inline_review_comments_def split: if_splits)
next
  case False
  note valid = this
  show ?thesis
  proof (cases "vr_findings given" rule: review_comments_cases)
    case (1 e')
    then show ?thesis using run that(1) valid
      by (auto simp: create_review_def valid_slug_def valid_review_sha_def max_inline_review_comments_def)
  next
    case 2
    let ?url = "repo_url base_url owner repo @ ''/pulls/'' @ dec_int pull @ ''/reviews''"
    show ?thesis
    proof (cases "encode (review_payload_of given (map comment_of (vr_findings given)))")
      case (Inl e')
      then show ?thesis using run that(1) valid 2
        by (auto simp: create_review_def valid_slug_def valid_review_sha_def max_inline_review_comments_def)
    next
      case body: (Inr body)
      show ?thesis
      proof (cases "new_request url_error ''POST'' ?url (Some body)")
        case (Inl e')
        then show ?thesis using run that(1) valid 2 body
          by (auto simp: create_review_def valid_slug_def valid_review_sha_def max_inline_review_comments_def)
      next
        case (Inr q)
        let ?q = "set_header ''Content-Type'' ''application/json'' q"
        have "l = [?q] \<and> (e = None \<longleftrightarrow> (case answers 0 ?q of Inl _ \<Rightarrow> False | Inr r \<Rightarrow> ok_status (ar_status r)))"
          using run valid 2 body Inr
          by (cases "answers 0 ?q") (auto simp: create_review_def valid_slug_def valid_review_sha_def max_inline_review_comments_def log_api_def
              split: if_splits)
        then show ?thesis using that(2) [OF body Inr] valid 2 by simp
      qed
    qed
  qed
qed

text \<open>
  A review is one POST to the reviews of exactly this pull request or nothing at all; what it carries
  is pinned to a full commit, has at most fifteen comments, one per finding and in their order, each
  on the new side of a file of the repository with an ordered range of lines; and publishing succeeds
  exactly when GitHub accepts it.
\<close>

theorem review_payload_well_formed:
  "case create_review url_error encode \<lparr>vp_client = Some (log_api answers), vp_base_url = base_url\<rparr> installation owner repo pull given [] of
     (l, e) \<Rightarrow> l = [] \<and> e \<noteq> None
       \<or> (\<exists>q payload body. l = [q] \<and> aq_method q = ''POST''
           \<and> aq_url q = api_base github_api base_url @ ''/repos/'' @ owner @ ''/'' @ repo @ ''/pulls/'' @ dec_int pull @ ''/reviews''
           \<and> CHR ''/'' \<notin> set owner \<union> set repo \<and> encode payload = Inr body \<and> aq_body q = Some (Inr body)
           \<and> payload_ok payload \<and> map vc_path (vy_comments payload) = map f_path (vr_findings given)
           \<and> (e = None \<longleftrightarrow> (case answers 0 q of Inl _ \<Rightarrow> False | Inr r \<Rightarrow> ok_status (ar_status r))))"
proof -
  obtain l e where run: "create_review url_error encode \<lparr>vp_client = Some (log_api answers), vp_base_url = base_url\<rparr>
      installation owner repo pull given [] = (l, e)"
    by fastforce
  from run show ?thesis
  proof (cases rule: create_review_cases)
    case 1
    then show ?thesis using run by simp
  next
    case (2 body q)
    let ?q = "set_header ''Content-Type'' ''application/json'' q"
    let ?payload = "review_payload_of given (map comment_of (vr_findings given))"
    have "payload_ok ?payload" using 2 by (intro review_payload_ok) simp_all
    moreover have "map vc_path (vy_comments ?payload) = map f_path (vr_findings given)"
      by (simp add: review_payload_of_def comment_of_def)
    moreover have "aq_url ?q = api_base github_api base_url @ ''/repos/'' @ owner @ ''/'' @ repo @ ''/pulls/'' @ dec_int pull @ ''/reviews''"
      using new_request_sel [OF 2(2)] 2(3,4) by (simp add: repo_url_def path_escape_slug)
    ultimately show ?thesis
      using run 2 new_request_sel [OF 2(2)] slug_no_slash by fastforce
  qed
qed

text \<open>
  The dashboard and the configuration files let a repository ask for up to fifty inline comments; a
  review with more than fifteen is refused, whatever else it holds.
\<close>

lemma review_over_limit_refused:
  assumes "0 < installation" "0 < pull" "slug_name owner" "slug_name repo" "hex_sha (vr_head_sha given)" "valid_run_id (vr_run_id given)"
    and "\<not> blank (vr_body given)" "15 < length (vr_findings given)"
  shows "create_review url_error encode \<lparr>vp_client = Some api, vp_base_url = base_url\<rparr> installation owner repo pull given s
    = (s, Some (MsgNum ''inline finding count %d exceeds limit %d'' [int (length (vr_findings given)), 15]))"
  using assms by (simp add: create_review_def valid_slug_def valid_review_sha_def max_inline_review_comments_def)

end
