(* ===== verification/Sticky.thy ===== *)
theory Sticky
  imports Publishers
begin

text \<open>
  The sticky summary of a pull request: \<open>internal/hosted/githubapp/summary.go\<close>. It is looked for among the
  comments of the pull request, page by page, then edited or created. JSON and \<open>strings.EqualFold\<close> are
  parameters.
\<close>

definition static_review_comment_marker :: bytes where
  "static_review_comment_marker = ''<!-- px1-static-review -->''"

record 's summary_publisher =
  sp_client :: "'s api_client option"
  sp_base_url :: bytes
  sp_max_pages :: int

record issue_comment =
  ic_id :: int
  ic_body :: bytes
  ic_login :: bytes
  ic_type :: bytes

definition valid_summary_slug :: "bytes \<Rightarrow> bool" where
  "valid_summary_slug s \<longleftrightarrow> slug_name s"

definition own_comment :: "(bytes \<Rightarrow> bytes \<Rightarrow> bool) \<Rightarrow> bytes \<Rightarrow> issue_comment \<Rightarrow> bool" where
  "own_comment equal_fold bot_login c \<longleftrightarrow>
     ic_type c = ''Bot'' \<and> equal_fold (ic_login c) bot_login \<and> contains static_review_comment_marker (ic_body c)"

definition comments_url :: "bytes \<Rightarrow> bytes \<Rightarrow> bytes \<Rightarrow> int \<Rightarrow> bytes" where
  "comments_url base_url owner repo pull = repo_url base_url owner repo @ ''/issues/'' @ dec_int pull @ ''/comments''"

text \<open>The pages still to read, up to \<open>max_pages\<close>.\<close>

fun find_pages ::
    "(bytes \<Rightarrow> go_error option) \<Rightarrow> (bytes \<Rightarrow> issue_comment list res) \<Rightarrow> (bytes \<Rightarrow> bytes \<Rightarrow> bool) \<Rightarrow> 's api_client \<Rightarrow> int
     \<Rightarrow> bytes \<Rightarrow> bytes \<Rightarrow> nat \<Rightarrow> nat list \<Rightarrow> 's \<Rightarrow> 's \<times> int res" where
  "find_pages url_error decode equal_fold api installation url bot_login max_pages [] s = (s, Inr 0)"
| "find_pages url_error decode equal_fold api installation url bot_login max_pages (page # pages) s =
     (case new_request url_error ''GET'' (url @ ''?per_page=100&page='' @ dec_nat page) None of
        Inl e \<Rightarrow> (s, Inl e)
      | Inr request \<Rightarrow>
     (case api s installation request of
        (s', Inl e) \<Rightarrow> (s', Inl (Wrapped ''list PR comments: %w'' [] e))
      | (s', Inr response) \<Rightarrow>
          if \<not> ok_status (ar_status response) then (s', Inl (MsgNum ''list PR comments: status %d'' [ar_status response]))
          else (case decode (limited 2097152 (ar_body response)) of
             Inl e \<Rightarrow> (s', Inl (Wrapped ''decode PR comments: %w'' [] e))
           | Inr comments \<Rightarrow>
          (case find (own_comment equal_fold bot_login) comments of
             Some c \<Rightarrow> (s', Inr (ic_id c))
           | None \<Rightarrow>
               if length comments < 100 then (s', Inr 0)
               else if page = max_pages then (s', Inl (Msg ''PR comment search reached its page limit''))
               else find_pages url_error decode equal_fold api installation url bot_login max_pages pages s'))))"

definition page_limit :: "int \<Rightarrow> nat" where
  "page_limit given = (if given \<le> 0 then 10 else nat given)"

definition find_summary ::
    "(bytes \<Rightarrow> go_error option) \<Rightarrow> (bytes \<Rightarrow> issue_comment list res) \<Rightarrow> (bytes \<Rightarrow> bytes \<Rightarrow> bool) \<Rightarrow> 's api_client \<Rightarrow> int
     \<Rightarrow> int \<Rightarrow> bytes \<Rightarrow> bytes \<Rightarrow> 's \<Rightarrow> 's \<times> int res" where
  "find_summary url_error decode equal_fold api max_pages installation url bot_login s =
     find_pages url_error decode equal_fold api installation url bot_login (page_limit max_pages) [1..<Suc (page_limit max_pages)] s"

definition summary_request ::
    "(bytes \<Rightarrow> go_error option) \<Rightarrow> (bytes \<Rightarrow> bytes) \<Rightarrow> bytes \<Rightarrow> bytes \<Rightarrow> bytes \<Rightarrow> int \<Rightarrow> bytes \<Rightarrow> int \<Rightarrow> api_request res" where
  "summary_request url_error encode base_url owner repo pull body found =
     (if found \<noteq> 0
      then new_request url_error ''PATCH'' (repo_url base_url owner repo @ ''/issues/comments/'' @ dec_int found) (Some (encode body))
      else new_request url_error ''POST'' (comments_url base_url owner repo pull) (Some (encode body)))"

definition upsert_summary ::
    "(bytes \<Rightarrow> go_error option) \<Rightarrow> (bytes \<Rightarrow> issue_comment list res) \<Rightarrow> (bytes \<Rightarrow> bytes) \<Rightarrow> (bytes \<Rightarrow> bytes \<Rightarrow> bool)
     \<Rightarrow> 's summary_publisher \<Rightarrow> int \<Rightarrow> bytes \<Rightarrow> bytes \<Rightarrow> int \<Rightarrow> bytes \<Rightarrow> bytes \<Rightarrow> 's \<Rightarrow> 's \<times> bytes res" where
  "upsert_summary url_error decode encode equal_fold p installation owner repo pull bot_login body s =
     (case sp_client p of
        None \<Rightarrow> (s, Inl (Msg ''GitHub client, installation, repository, pull number, and bot login are required''))
      | Some api \<Rightarrow>
          if installation \<le> 0 \<or> pull \<le> 0 \<or> \<not> valid_summary_slug owner \<or> \<not> valid_summary_slug repo \<or> blank bot_login
          then (s, Inl (Msg ''GitHub client, installation, repository, pull number, and bot login are required''))
          else if \<not> has_prefix static_review_comment_marker body
          then (s, Inl (Msg ''summary body is missing the px1 marker''))
          else (case find_summary url_error decode equal_fold api (sp_max_pages p) installation
                  (comments_url (sp_base_url p) owner repo pull) bot_login s of
             (s1, Inl e) \<Rightarrow> (s1, Inl e)
           | (s1, Inr found) \<Rightarrow>
               let action = (if found \<noteq> 0 then ''updated'' else ''created'')
               in case summary_request url_error encode (sp_base_url p) owner repo pull body found of
                    Inl e \<Rightarrow> (s1, Inl e)
                  | Inr q \<Rightarrow>
                      (case api s1 installation (set_header ''Content-Type'' ''application/json'' q) of
                         (s2, Inl e) \<Rightarrow> (s2, Inl (Wrapped (action @ '' sticky summary: %w'') [] e))
                       | (s2, Inr response) \<Rightarrow>
                           if \<not> ok_status (ar_status response)
                           then (s2, Inl (MsgNum (action @ '' sticky summary: status %d'') [ar_status response]))
                           else (s2, Inr action))))"

section \<open>What it touches\<close>

text \<open>The comments that the answer to the request number \<open>k\<close> lists.\<close>

definition listed :: "(bytes \<Rightarrow> issue_comment list res) \<Rightarrow> (nat \<Rightarrow> api_request \<Rightarrow> api_response res) \<Rightarrow> nat \<Rightarrow> api_request \<Rightarrow> issue_comment list" where
  "listed decode answers k q =
     (case answers k q of
        Inl e \<Rightarrow> []
      | Inr response \<Rightarrow> (case decode (limited 2097152 (ar_body response)) of Inl e \<Rightarrow> [] | Inr cs \<Rightarrow> cs))"

text \<open>What a search from a log \<open>l\<close> to a log \<open>l'\<close> has seen.\<close>

definition seen :: "(bytes \<Rightarrow> issue_comment list res) \<Rightarrow> (nat \<Rightarrow> api_request \<Rightarrow> api_response res) \<Rightarrow> nat \<Rightarrow> api_request list \<Rightarrow> issue_comment set" where
  "seen decode answers n l = (\<Union>k \<in> {n..<length l}. set (listed decode answers k (l ! k)))"

lemma seen_snoc_first:
  "seen decode answers (length l) ((l @ [q]) @ new) =
     set (listed decode answers (length l) q) \<union> seen decode answers (length (l @ [q])) ((l @ [q]) @ new)"
proof -
  have "{length l..<length ((l @ [q]) @ new)} = insert (length l) {length (l @ [q])..<length ((l @ [q]) @ new)}"
    by auto
  then show ?thesis by (simp add: seen_def nth_append)
qed

definition search_ok ::
    "(bytes \<Rightarrow> issue_comment list res) \<Rightarrow> (nat \<Rightarrow> api_request \<Rightarrow> api_response res) \<Rightarrow> (issue_comment \<Rightarrow> bool)
     \<Rightarrow> nat \<Rightarrow> api_request list \<Rightarrow> int \<Rightarrow> bool" where
  "search_ok decode answers own n l found \<longleftrightarrow>
     (\<exists>c \<in> seen decode answers n l. own c \<and> ic_id c = found)
     \<or> found = 0 \<and> (\<forall>c \<in> seen decode answers n l. \<not> own c) \<and> length (listed decode answers (length l - 1) (last l)) < 100"

lemma find_pages_search:
  assumes "find_pages url_error decode equal_fold (log_api answers) installation url bot_login max_pages pages l = (l', r)"
    and "pages \<noteq> []" "last pages = max_pages"
  shows "\<exists>new. l' = l @ new \<and> length new \<le> length pages \<and> list_all (\<lambda>q. aq_method q = ''GET'') new
    \<and> (\<forall>n. r = Inr n \<longrightarrow> search_ok decode answers (own_comment equal_fold bot_login) (length l) l' n)"
  using assms
proof (induction pages arbitrary: l)
  case (Cons page pages)
  let ?own = "own_comment equal_fold bot_login"
  let ?url = "url @ ''?per_page=100&page='' @ dec_nat page"
  show ?case
  proof (cases "new_request url_error ''GET'' ?url None")
    case (Inl e)
    then show ?thesis using Cons.prems(1) by (intro exI [of _ "[]"]) auto
  next
    case q: (Inr q)
    have get: "aq_method q = ''GET''" using new_request_sel [OF q] by simp
    show ?thesis
    proof (cases "answers (length l) q")
      case (Inl e)
      then show ?thesis using Cons.prems(1) q get by (intro exI [of _ "[q]"]) (auto simp: log_api_def)
    next
      case response: (Inr response)
      have api: "log_api answers l installation q = (l @ [q], Inr response)" by (simp add: log_api_def response)
      show ?thesis
      proof (cases "decode (limited 2097152 (ar_body response))")
        case (Inl e)
        then show ?thesis using Cons.prems(1) q get response
          by (intro exI [of _ "[q]"]) (auto simp: log_api_def split: if_splits)
      next
        case cs: (Inr cs)
        have heard: "listed decode answers (length l) q = cs" using response cs by (simp add: listed_def)
        have one: "seen decode answers (length l) (l @ [q]) = set cs" by (simp add: seen_def heard)
        show ?thesis
        proof (cases "find ?own cs")
          case (Some c)
          then have c: "c \<in> set cs" "?own c" by (auto simp: find_Some_iff in_set_conv_nth)
          then have "search_ok decode answers ?own (length l) (l @ [q]) (ic_id c)" unfolding search_ok_def one by blast
          moreover have "(l', r) = (l @ [q], Inr (ic_id c)) \<or> (\<exists>e. (l', r) = (l @ [q], Inl e))"
            using Cons.prems(1) q response cs Some by (cases "ok_status (ar_status response)") (simp_all add: log_api_def, metis)
          ultimately show ?thesis using get by (intro exI [of _ "[q]"]) auto
        next
          case None
          then have none: "\<forall>c \<in> set cs. \<not> ?own c" by (simp add: find_None_iff)
          consider e where "(l', r) = (l @ [q], Inl e)" | "(l', r) = (l @ [q], Inr 0)" "length cs < 100"
            | "page \<noteq> max_pages"
              "find_pages url_error decode equal_fold (log_api answers) installation url bot_login max_pages pages (l @ [q]) = (l', r)"
            using Cons.prems(1) q api cs None by (auto split: if_splits)
          then show ?thesis
          proof cases
            case 1
            then show ?thesis using get by (intro exI [of _ "[q]"]) simp
          next
            case 2
            then have "search_ok decode answers ?own (length l) (l @ [q]) 0"
              using none by (simp add: search_ok_def one heard)
            then show ?thesis using 2 get by (intro exI [of _ "[q]"]) simp
          next
            case 3
            then have "pages \<noteq> []" "last pages = max_pages" using Cons.prems(3) by (auto split: if_splits)
            from Cons.IH [OF 3(2) this] obtain new where new: "l' = (l @ [q]) @ new" "length new \<le> length pages"
                "list_all (\<lambda>q. aq_method q = ''GET'') new"
                "\<forall>n. r = Inr n \<longrightarrow> search_ok decode answers ?own (length (l @ [q])) l' n" by blast
            have "seen decode answers (length l) l' = set cs \<union> seen decode answers (length (l @ [q])) l'"
              unfolding new(1) seen_snoc_first heard by simp
            then have "search_ok decode answers ?own (length (l @ [q])) l' n \<Longrightarrow> search_ok decode answers ?own (length l) l' n" for n
              using none unfolding search_ok_def by blast
            then show ?thesis using new get by (intro exI [of _ "q # new"]) simp
          qed
        qed
      qed
    qed
  qed
qed simp

lemma find_summary_search:
  assumes "find_summary url_error decode equal_fold (log_api answers) given installation url bot_login [] = (l, r)"
  shows "length l \<le> page_limit given \<and> list_all (\<lambda>q. aq_method q = ''GET'') l
    \<and> (\<forall>n. r = Inr n \<longrightarrow> search_ok decode answers (own_comment equal_fold bot_login) 0 l n)"
proof -
  have "1 \<le> page_limit given" by (cases "given \<le> 0") (simp_all add: page_limit_def)
  then have pages: "[1..<Suc (page_limit given)] \<noteq> []" "last [1..<Suc (page_limit given)] = page_limit given" by auto
  show ?thesis
    using find_pages_search [OF assms [unfolded find_summary_def] pages] by (auto simp del: upt_Suc)
qed

text \<open>The ways a run can go, after the search.\<close>

lemma upsert_summary_cases:
  assumes run: "upsert_summary url_error decode encode equal_fold
        \<lparr>sp_client = Some (log_api answers), sp_base_url = base_url, sp_max_pages = max_pages\<rparr>
        installation owner repo pull bot_login body [] = (l, r)"
    and found: "find_summary url_error decode equal_fold (log_api answers) max_pages installation
      (comments_url base_url owner repo pull) bot_login [] = (reads, f)"
  obtains e where "(l, r) = ([], Inl e)" | e where "(l, r) = (reads, Inl e)"
  | n q where "f = Inr n" "summary_request url_error encode base_url owner repo pull body n = Inr q"
      "l = reads @ [set_header ''Content-Type'' ''application/json'' q]"
proof (cases "installation \<le> 0 \<or> pull \<le> 0 \<or> \<not> valid_summary_slug owner \<or> \<not> valid_summary_slug repo \<or> blank bot_login
    \<or> \<not> has_prefix static_review_comment_marker body")
  case True
  then have "\<exists>e. (l, r) = ([], Inl e)" unfolding run [symmetric] by (auto simp: upsert_summary_def)
  then show ?thesis using that(1) by blast
next
  case valid: False
  show ?thesis
  proof (cases f)
    case (Inl e)
    then have "(l, r) = (reads, Inl e)" unfolding run [symmetric] using valid found by (simp add: upsert_summary_def)
    then show ?thesis by (rule that(2))
  next
    case n: (Inr n)
    show ?thesis
    proof (cases "summary_request url_error encode base_url owner repo pull body n")
      case (Inl e)
      then have "(l, r) = (reads, Inl e)" unfolding run [symmetric] using valid found n
        by (simp add: upsert_summary_def Let_def)
      then show ?thesis by (rule that(2))
    next
      case (Inr q)
      have "fst (upsert_summary url_error decode encode equal_fold
        \<lparr>sp_client = Some (log_api answers), sp_base_url = base_url, sp_max_pages = max_pages\<rparr>
        installation owner repo pull bot_login body [])
          = reads @ [set_header ''Content-Type'' ''application/json'' q]"
        using valid found n Inr
        by (simp add: upsert_summary_def Let_def log_api_def split: sum.split)
      then show ?thesis using that(3) [OF n Inr] run by simp
    qed
  qed
qed

text \<open>
  A sticky summary is changed by at most one request. An edit goes to a comment that was listed, is
  the bot's and carries the marker; a new comment is made only after a search that saw no such comment
  and reached the last page, within the limit of pages; everything before is a read.
\<close>

theorem sticky_summary_spec:
  "case upsert_summary url_error decode encode equal_fold
        \<lparr>sp_client = Some (log_api answers), sp_base_url = base_url, sp_max_pages = max_pages\<rparr>
        installation owner repo pull bot_login body [] of
     (l, r) \<Rightarrow> \<exists>reads writes. l = reads @ writes \<and> list_all (\<lambda>q. aq_method q = ''GET'') reads \<and> length reads \<le> page_limit max_pages
       \<and> (writes = [] \<and> (\<exists>e. r = Inl e)
          \<or> (\<exists>q c. writes = [q] \<and> aq_method q = ''PATCH'' \<and> aq_body q = Some (Inr (encode body))
               \<and> c \<in> seen decode answers 0 reads \<and> own_comment equal_fold bot_login c
               \<and> aq_url q = repo_url base_url owner repo @ ''/issues/comments/'' @ dec_int (ic_id c))
          \<or> (\<exists>q. writes = [q] \<and> aq_method q = ''POST'' \<and> aq_body q = Some (Inr (encode body))
               \<and> aq_url q = comments_url base_url owner repo pull
               \<and> search_ok decode answers (own_comment equal_fold bot_login) 0 reads 0))"
proof -
  let ?p = "\<lparr>sp_client = Some (log_api answers), sp_base_url = base_url, sp_max_pages = max_pages\<rparr> :: api_request list summary_publisher"
  let ?own = "own_comment equal_fold bot_login"
  obtain l r where run: "upsert_summary url_error decode encode equal_fold ?p installation owner repo pull bot_login body [] = (l, r)"
    by fastforce
  obtain reads f where found: "find_summary url_error decode equal_fold (log_api answers) max_pages installation
      (comments_url base_url owner repo pull) bot_login [] = (reads, f)" by fastforce
  note search = find_summary_search [OF found]
  from run found have "\<exists>reads writes. l = reads @ writes \<and> list_all (\<lambda>q. aq_method q = ''GET'') reads \<and> length reads \<le> page_limit max_pages
       \<and> (writes = [] \<and> (\<exists>e. r = Inl e)
          \<or> (\<exists>q c. writes = [q] \<and> aq_method q = ''PATCH'' \<and> aq_body q = Some (Inr (encode body))
               \<and> c \<in> seen decode answers 0 reads \<and> ?own c
               \<and> aq_url q = repo_url base_url owner repo @ ''/issues/comments/'' @ dec_int (ic_id c))
          \<or> (\<exists>q. writes = [q] \<and> aq_method q = ''POST'' \<and> aq_body q = Some (Inr (encode body))
               \<and> aq_url q = comments_url base_url owner repo pull \<and> search_ok decode answers ?own 0 reads 0))"
  proof (cases rule: upsert_summary_cases)
    case (1 e)
    then show ?thesis by (intro exI [of _ "[]"]) simp
  next
    case (2 e)
    then show ?thesis using search by (intro exI [of _ reads] exI [of _ "[]"]) simp
  next
    case (3 n q)
    let ?q = "set_header ''Content-Type'' ''application/json'' q"
    have ok: "search_ok decode answers ?own 0 reads n" using search 3(1) by simp
    have "(\<exists>c. aq_method ?q = ''PATCH'' \<and> aq_body ?q = Some (Inr (encode body)) \<and> c \<in> seen decode answers 0 reads \<and> ?own c
          \<and> aq_url ?q = repo_url base_url owner repo @ ''/issues/comments/'' @ dec_int (ic_id c))
        \<or> aq_method ?q = ''POST'' \<and> aq_body ?q = Some (Inr (encode body)) \<and> aq_url ?q = comments_url base_url owner repo pull
          \<and> search_ok decode answers ?own 0 reads 0"
    proof (cases "n = 0")
      case True
      then show ?thesis using 3(2) ok new_request_sel unfolding summary_request_def by fastforce
    next
      case False
      then obtain c where "c \<in> seen decode answers 0 reads" "?own c" "ic_id c = n" using ok by (auto simp: search_ok_def)
      then show ?thesis using 3(2) False new_request_sel unfolding summary_request_def by fastforce
    qed
    then show ?thesis using search 3(3) by (intro exI [of _ reads] exI [of _ "[?q]"]) auto
  qed
  then show ?thesis using run by simp
qed

end
