(* ===== verification/Scm.thy ===== *)
theory Scm
  imports Publishers
begin

text \<open>
  Source control behind one interface: \<open>internal/hosted/scm/provider.go\<close> with its GitHub adapter, and
  \<open>internal/hosted/gitlab/provider.go\<close>. The interface is the locale \<open>scm_provider\<close>; both providers are
  instances. The GitHub operations, the token source, HTTP, JSON and SHA-1 are parameters.
\<close>

section \<open>The interface\<close>

record scm_repository =
  sr_installation :: int
  sr_owner :: bytes
  sr_name :: bytes

record scm_pull =
  su_number :: int
  su_base_sha :: bytes
  su_head_sha :: bytes

record scm_file =
  sf_path :: bytes
  sf_status :: bytes
  sf_additions :: int
  sf_deletions :: int

record scm_diff =
  sd_base_sha :: bytes
  sd_head_sha :: bytes
  sd_patch :: bytes

record scm_comment =
  sc_id :: bytes
  sc_body :: bytes
  sc_path :: bytes
  sc_line :: int
  sc_created :: int

record scm_thread =
  sh_id :: bytes
  sh_resolved :: bool
  sh_comments :: "scm_comment list"

record check_status =
  ss_name :: bytes
  ss_state :: bytes
  ss_summary :: bytes
  ss_details_url :: bytes

record scm_webhook =
  sw_delivery :: bytes
  sw_event :: bytes
  sw_body :: bytes

text \<open>A body to read is its bytes or the error of reading it; \<open>None\<close> is a nil reader.\<close>

record 's scm_operations =
  op_diff :: "'s \<Rightarrow> scm_repository \<Rightarrow> scm_pull \<Rightarrow> 's \<times> scm_diff res"
  op_files :: "'s \<Rightarrow> scm_repository \<Rightarrow> scm_pull \<Rightarrow> 's \<times> scm_file list res"
  op_upsert :: "'s \<Rightarrow> scm_repository \<Rightarrow> scm_pull \<Rightarrow> bytes \<Rightarrow> bytes \<Rightarrow> 's \<times> scm_comment res"
  op_threads :: "'s \<Rightarrow> scm_repository \<Rightarrow> scm_pull \<Rightarrow> 's \<times> scm_thread list res"
  op_status :: "'s \<Rightarrow> scm_repository \<Rightarrow> scm_pull \<Rightarrow> check_status \<Rightarrow> 's \<times> go_error option"
  op_webhook :: "bytes res option \<Rightarrow> bytes \<Rightarrow> bytes \<Rightarrow> scm_webhook res"

definition validate_repository :: "scm_repository \<Rightarrow> go_error option" where
  "validate_repository r =
     (if sr_installation r \<le> 0 \<or> sr_owner r = [] \<or> sr_name r = []
      then Some (Msg ''installation, owner, and repository name are required'') else None)"

definition scm_full_sha :: "bytes \<Rightarrow> bool" where
  "scm_full_sha s \<longleftrightarrow> hex_sha s"

definition validate_pull :: "scm_pull \<Rightarrow> go_error option" where
  "validate_pull p =
     (if su_number p \<le> 0 \<or> \<not> scm_full_sha (su_base_sha p) \<or> \<not> scm_full_sha (su_head_sha p) \<or> su_base_sha p = su_head_sha p
      then Some (Msg ''pull number and distinct full base/head SHAs are required'') else None)"

text \<open>What every provider promises: nothing happens outside for a target that is not a pull request of a repository.\<close>

definition target_ok :: "scm_repository \<Rightarrow> scm_pull \<Rightarrow> bool" where
  "target_ok r p \<longleftrightarrow> validate_repository r = None \<and> validate_pull p = None"

locale scm_provider =
  fixes provider :: "'s scm_operations"
  assumes refuses_diff: "\<not> target_ok r p \<Longrightarrow> \<exists>e. op_diff provider s r p = (s, Inl e)"
    and refuses_files: "\<not> target_ok r p \<Longrightarrow> \<exists>e. op_files provider s r p = (s, Inl e)"
    and refuses_upsert: "\<not> target_ok r p \<or> marker = [] \<or> body = [] \<Longrightarrow> \<exists>e. op_upsert provider s r p marker body = (s, Inl e)"
    and refuses_threads: "\<not> target_ok r p \<Longrightarrow> \<exists>e. op_threads provider s r p = (s, Inl e)"
    and refuses_status: "\<not> target_ok r p \<or> ss_name c = [] \<or> ss_state c = [] \<Longrightarrow> \<exists>e. op_status provider s r p c = (s, Some e)"
    and refuses_webhook: "reader = None \<or> delivery = [] \<or> credential = [] \<Longrightarrow> \<exists>e. op_webhook provider reader delivery credential = Inl e"
begin

text \<open>A review of one pull request through a provider: what it reads and writes is of a valid target.\<close>

lemma effects_need_target:
  "op_diff provider s r p = (s1, x1) \<Longrightarrow> op_files provider s1 r p = (s2, x2) \<Longrightarrow> op_upsert provider s2 r p marker body = (s3, x3)
   \<Longrightarrow> op_threads provider s3 r p = (s4, x4) \<Longrightarrow> op_status provider s4 r p c = (s5, x5)
   \<Longrightarrow> s5 \<noteq> s \<or> is_ok x1 \<or> is_ok x2 \<or> is_ok x3 \<or> is_ok x4 \<or> x5 = None \<Longrightarrow> target_ok r p"
proof (rule ccontr)
  assume a: "op_diff provider s r p = (s1, x1)" "op_files provider s1 r p = (s2, x2)" "op_upsert provider s2 r p marker body = (s3, x3)"
    "op_threads provider s3 r p = (s4, x4)" "op_status provider s4 r p c = (s5, x5)"
    and effect: "s5 \<noteq> s \<or> is_ok x1 \<or> is_ok x2 \<or> is_ok x3 \<or> is_ok x4 \<or> x5 = None" and bad: "\<not> target_ok r p"
  have "s1 = s \<and> \<not> is_ok x1" using a(1) refuses_diff [OF bad, of s] by auto
  moreover have "s2 = s1 \<and> \<not> is_ok x2" using a(2) refuses_files [OF bad, of s1] by auto
  moreover have "s3 = s2 \<and> \<not> is_ok x3" using a(3) refuses_upsert [of r p marker body s2] bad by auto
  moreover have "s4 = s3 \<and> \<not> is_ok x4" using a(4) refuses_threads [OF bad, of s3] by auto
  moreover have "s5 = s4 \<and> x5 \<noteq> None" using a(5) refuses_status [of r p c s4] bad by auto
  ultimately show False using effect by auto
qed

end

section \<open>The adapter of GitHub\<close>

definition github_ready :: "'s scm_operations option \<Rightarrow> scm_repository \<Rightarrow> scm_pull \<Rightarrow> go_error option" where
  "github_ready ops r p =
     (if ops = None then Some (Msg ''GitHub operations are required'')
      else case validate_repository r of Some e \<Rightarrow> Some e | None \<Rightarrow> validate_pull p)"

definition github_diff :: "'s scm_operations option \<Rightarrow> 's \<Rightarrow> scm_repository \<Rightarrow> scm_pull \<Rightarrow> 's \<times> scm_diff res" where
  "github_diff ops s r p = (case github_ready ops r p of Some e \<Rightarrow> (s, Inl e) | None \<Rightarrow> op_diff (the ops) s r p)"

definition github_files :: "'s scm_operations option \<Rightarrow> 's \<Rightarrow> scm_repository \<Rightarrow> scm_pull \<Rightarrow> 's \<times> scm_file list res" where
  "github_files ops s r p = (case github_ready ops r p of Some e \<Rightarrow> (s, Inl e) | None \<Rightarrow> op_files (the ops) s r p)"

definition github_upsert :: "'s scm_operations option \<Rightarrow> 's \<Rightarrow> scm_repository \<Rightarrow> scm_pull \<Rightarrow> bytes \<Rightarrow> bytes \<Rightarrow> 's \<times> scm_comment res" where
  "github_upsert ops s r p marker body =
     (if github_ready ops r p \<noteq> None \<or> marker = [] \<or> body = []
      then (s, Inl (Msg ''valid pull request, marker, and summary are required''))
      else op_upsert (the ops) s r p marker body)"

definition github_threads :: "'s scm_operations option \<Rightarrow> 's \<Rightarrow> scm_repository \<Rightarrow> scm_pull \<Rightarrow> 's \<times> scm_thread list res" where
  "github_threads ops s r p = (case github_ready ops r p of Some e \<Rightarrow> (s, Inl e) | None \<Rightarrow> op_threads (the ops) s r p)"

definition github_status :: "'s scm_operations option \<Rightarrow> 's \<Rightarrow> scm_repository \<Rightarrow> scm_pull \<Rightarrow> check_status \<Rightarrow> 's \<times> go_error option" where
  "github_status ops s r p c =
     (case github_ready ops r p of
        Some e \<Rightarrow> (s, Some e)
      | None \<Rightarrow>
          if ss_name c = [] \<or> ss_state c = [] then (s, Some (Msg ''status name and state are required''))
          else op_status (the ops) s r p c)"

definition github_webhook :: "'s scm_operations option \<Rightarrow> bytes res option \<Rightarrow> bytes \<Rightarrow> bytes \<Rightarrow> scm_webhook res" where
  "github_webhook ops body delivery signature =
     (if ops = None \<or> body = None \<or> delivery = [] \<or> signature = []
      then Inl (Msg ''GitHub operations, body, delivery, and signature are required'')
      else op_webhook (the ops) body delivery signature)"

definition github_provider :: "'s scm_operations option \<Rightarrow> 's scm_operations" where
  "github_provider ops =
     \<lparr>op_diff = github_diff ops, op_files = github_files ops, op_upsert = github_upsert ops,
      op_threads = github_threads ops, op_status = github_status ops, op_webhook = github_webhook ops\<rparr>"

lemma github_refuses: "\<not> target_ok r p \<Longrightarrow> \<exists>e. github_ready ops r p = Some e"
  by (auto simp: github_ready_def target_ok_def split: option.split)

interpretation gh: scm_provider "github_provider ops"
proof
  fix r p and s :: 'a
  assume bad: "\<not> target_ok r p"
  obtain e where "github_ready ops r p = Some e" using github_refuses [OF bad] by blast
  then show "\<exists>e. op_diff (github_provider ops) s r p = (s, Inl e)" "\<exists>e. op_files (github_provider ops) s r p = (s, Inl e)"
    "\<exists>e. op_threads (github_provider ops) s r p = (s, Inl e)"
    by (simp_all add: github_provider_def github_diff_def github_files_def github_threads_def)
next
  fix r p and marker body :: bytes and s :: 'a
  assume "\<not> target_ok r p \<or> marker = [] \<or> body = []"
  then show "\<exists>e. op_upsert (github_provider ops) s r p marker body = (s, Inl e)"
    using github_refuses [of r p ops] by (auto simp: github_provider_def github_upsert_def)
next
  fix r p and c :: check_status and s :: 'a
  assume "\<not> target_ok r p \<or> ss_name c = [] \<or> ss_state c = []"
  then show "\<exists>e. op_status (github_provider ops) s r p c = (s, Some e)"
    using github_refuses [of r p ops] by (auto simp: github_provider_def github_status_def split: option.split)
next
  fix body :: "bytes res option" and delivery credential :: bytes
  assume "body = None \<or> delivery = [] \<or> credential = []"
  then show "\<exists>e. op_webhook (github_provider ops) body delivery credential = Inl e"
    by (auto simp: github_provider_def github_webhook_def)
qed

end
