(* ===== verification/Gitlab.thy ===== *)
theory Gitlab
  imports Scm
begin

text \<open>
  The GitLab provider: \<open>internal/hosted/gitlab/provider.go\<close>. The token source and HTTP act on a state; JSON and
  SHA-1 are parameters.
\<close>

definition max_response_bytes :: nat where "max_response_bytes = 20971520"

record 's gitlab =
  gl_http :: "'s \<Rightarrow> api_request \<Rightarrow> 's \<times> api_response res"
  gl_tokens :: "('s \<Rightarrow> int \<Rightarrow> 's \<times> bytes res) option"
  gl_base_url :: bytes
  gl_webhook_token :: bytes

record gl_change =
  gc_old_path :: bytes
  gc_new_path :: bytes
  gc_diff :: bytes
  gc_new_file :: bool
  gc_renamed :: bool
  gc_deleted :: bool
  gc_collapsed :: bool
  gc_too_large :: bool

record gl_note =
  gn_id :: int
  gn_body :: bytes
  gn_resolved :: bool
  gn_created :: int

record gl_discussion =
  gd_id :: bytes
  gd_notes :: "gl_note list"

text \<open>What JSON decodes and encodes: pages of changes, notes, a note, discussions, the kind of a webhook.\<close>

record gl_json =
  gj_changes :: "bytes \<Rightarrow> gl_change list res"
  gj_notes :: "bytes \<Rightarrow> gl_note list res"
  gj_note :: "bytes \<Rightarrow> gl_note res"
  gj_discussions :: "bytes \<Rightarrow> gl_discussion list res"
  gj_object :: "(bytes \<times> bytes) list \<Rightarrow> bytes"
  gj_valid :: "bytes \<Rightarrow> bool"
  gj_kind :: "bytes \<Rightarrow> bytes option"

section \<open>Requests\<close>

definition project_path :: "scm_repository \<Rightarrow> bytes" where
  "project_path r = ''/projects/'' @ path_escape (sr_owner r @ ''/'' @ sr_name r)"

definition pull_path :: "scm_repository \<Rightarrow> scm_pull \<Rightarrow> bytes" where
  "pull_path r p = project_path r @ ''/merge_requests/'' @ dec_int (su_number p)"

text \<open>The answer is the body that is left to decode.\<close>

definition gitlab_request ::
    "(bytes \<Rightarrow> go_error option) \<Rightarrow> 's gitlab \<Rightarrow> int \<Rightarrow> bytes \<Rightarrow> bytes \<Rightarrow> bytes option \<Rightarrow> 's \<Rightarrow> 's \<times> bytes res" where
  "gitlab_request url_error g installation method path payload s =
     (case gl_tokens g of
        None \<Rightarrow> (s, Inl (Msg ''GitLab token source is required''))
      | Some tokens \<Rightarrow>
     (case tokens s installation of
        (s1, Inl e) \<Rightarrow> (s1, Inl (Msg ''GitLab access token is unavailable''))
      | (s1, Inr tok) \<Rightarrow>
          if tok = [] then (s1, Inl (Msg ''GitLab access token is unavailable''))
          else (case new_request url_error method (api_base ''https://gitlab.com/api/v4'' (gl_base_url g) @ path) payload of
             Inl e \<Rightarrow> (s1, Inl e)
           | Inr q \<Rightarrow>
               let q1 = set_header ''PRIVATE-TOKEN'' tok q;
                   q2 = (if payload \<noteq> None then set_header ''Content-Type'' ''application/json'' q1 else q1) in
               (case gl_http g s1 q2 of
                  (s2, Inl e) \<Rightarrow> (s2, Inl e)
                | (s2, Inr response) \<Rightarrow>
                    if \<not> ok_status (ar_status response)
                    then (s2, Inl (MsgNum ''GitLab API returned status %d'' [ar_status response]))
                    else (s2, Inr (limited max_response_bytes (ar_body response)))))))"

definition target_error :: "scm_repository \<Rightarrow> scm_pull \<Rightarrow> go_error option" where
  "target_error r p = (case validate_repository r of Some e \<Rightarrow> Some e | None \<Rightarrow> validate_pull p)"

section \<open>Diffs and files\<close>

fun changes_loop ::
    "(bytes \<Rightarrow> go_error option) \<Rightarrow> gl_json \<Rightarrow> 's gitlab \<Rightarrow> int \<Rightarrow> bytes \<Rightarrow> gl_change list \<Rightarrow> nat list \<Rightarrow> 's
     \<Rightarrow> 's \<times> gl_change list res" where
  "changes_loop url_error json g installation path acc [] s =
     (s, Inl (Msg ''GitLab merge request diff exceeded the 1000-file retrieval limit''))"
| "changes_loop url_error json g installation path acc (page # pages) s =
     (case gitlab_request url_error g installation ''GET'' (path @ ''?per_page=100&page='' @ dec_nat page) None s of
        (s', Inl e) \<Rightarrow> (s', Inl e)
      | (s', Inr body) \<Rightarrow>
     (case gj_changes json body of
        Inl e \<Rightarrow> (s', Inl e)
      | Inr batch \<Rightarrow>
          if list_ex (\<lambda>c. gc_collapsed c \<or> gc_too_large c) batch
          then (s', Inl (Msg ''GitLab omitted an oversized or collapsed diff; review cannot continue with incomplete evidence''))
          else if length batch < 100 then (s', Inr (acc @ batch))
          else changes_loop url_error json g installation path (acc @ batch) pages s'))"

definition gitlab_changes ::
    "(bytes \<Rightarrow> go_error option) \<Rightarrow> gl_json \<Rightarrow> 's gitlab \<Rightarrow> 's \<Rightarrow> scm_repository \<Rightarrow> scm_pull \<Rightarrow> 's \<times> gl_change list res" where
  "gitlab_changes url_error json g s r p =
     (case target_error r p of
        Some e \<Rightarrow> (s, Inl e)
      | None \<Rightarrow> changes_loop url_error json g (sr_installation r) (pull_path r p @ ''/diffs'') [] [1..<11] s)"

definition change_patch :: "gl_change \<Rightarrow> bytes" where
  "change_patch c =
     ''diff --git a/'' @ gc_old_path c @ '' b/'' @ gc_new_path c @ newline @ gc_diff c @ newline"

definition gitlab_diff ::
    "(bytes \<Rightarrow> go_error option) \<Rightarrow> gl_json \<Rightarrow> 's gitlab \<Rightarrow> 's \<Rightarrow> scm_repository \<Rightarrow> scm_pull \<Rightarrow> 's \<times> scm_diff res" where
  "gitlab_diff url_error json g s r p =
     (case gitlab_changes url_error json g s r p of
        (s', Inl e) \<Rightarrow> (s', Inl e)
      | (s', Inr cs) \<Rightarrow>
          (s', Inr \<lparr>sd_base_sha = su_base_sha p, sd_head_sha = su_head_sha p, sd_patch = concat (map change_patch cs)\<rparr>))"

definition change_status :: "gl_change \<Rightarrow> bytes" where
  "change_status c =
     (if gc_renamed c then ''renamed'' else if gc_deleted c then ''deleted'' else if gc_new_file c then ''added'' else ''modified'')"

definition gitlab_files ::
    "(bytes \<Rightarrow> go_error option) \<Rightarrow> gl_json \<Rightarrow> 's gitlab \<Rightarrow> 's \<Rightarrow> scm_repository \<Rightarrow> scm_pull \<Rightarrow> 's \<times> scm_file list res" where
  "gitlab_files url_error json g s r p =
     (case gitlab_changes url_error json g s r p of
        (s', Inl e) \<Rightarrow> (s', Inl e)
      | (s', Inr cs) \<Rightarrow>
          (s', Inr (map (\<lambda>c. \<lparr>sf_path = gc_new_path c, sf_status = change_status c, sf_additions = 0, sf_deletions = 0\<rparr>) cs)))"

section \<open>Notes, discussions and statuses\<close>

definition note_comment :: "gl_note \<Rightarrow> scm_comment" where
  "note_comment n = \<lparr>sc_id = dec_int (gn_id n), sc_body = gn_body n, sc_path = [], sc_line = 0, sc_created = gn_created n\<rparr>"

definition note_target :: "bytes \<Rightarrow> bytes \<Rightarrow> gl_note list \<Rightarrow> bytes \<times> bytes" where
  "note_target marker path ns =
     (case find (\<lambda>n. contains marker (gn_body n)) ns of
        Some n \<Rightarrow> (''PUT'', path @ ''/'' @ dec_int (gn_id n))
      | None \<Rightarrow> (''POST'', path))"

definition gitlab_upsert ::
    "(bytes \<Rightarrow> go_error option) \<Rightarrow> gl_json \<Rightarrow> 's gitlab \<Rightarrow> 's \<Rightarrow> scm_repository \<Rightarrow> scm_pull \<Rightarrow> bytes \<Rightarrow> bytes
     \<Rightarrow> 's \<times> scm_comment res" where
  "gitlab_upsert url_error json g s r p marker body =
     (if target_error r p \<noteq> None \<or> marker = [] \<or> \<not> contains marker body
      then (s, Inl (Msg ''valid merge request and marker-bearing summary are required''))
      else let path = pull_path r p @ ''/notes'' in
       case gitlab_request url_error g (sr_installation r) ''GET'' path None s of
         (s1, Inl e) \<Rightarrow> (s1, Inl e)
       | (s1, Inr listing) \<Rightarrow>
      (case gj_notes json listing of
         Inl e \<Rightarrow> (s1, Inl e)
       | Inr notes \<Rightarrow>
           let (method, endpoint) = note_target marker path notes in
           (case gitlab_request url_error g (sr_installation r) method endpoint (Some (gj_object json [(''body'', body)])) s1 of
              (s2, Inl e) \<Rightarrow> (s2, Inl e)
            | (s2, Inr saved) \<Rightarrow> (case gj_note json saved of Inl e \<Rightarrow> (s2, Inl e) | Inr n \<Rightarrow> (s2, Inr (note_comment n))))))"

definition discussion_thread :: "gl_discussion \<Rightarrow> scm_thread" where
  "discussion_thread d =
     \<lparr>sh_id = gd_id d, sh_resolved = list_all gn_resolved (gd_notes d), sh_comments = map note_comment (gd_notes d)\<rparr>"

definition gitlab_threads ::
    "(bytes \<Rightarrow> go_error option) \<Rightarrow> gl_json \<Rightarrow> 's gitlab \<Rightarrow> 's \<Rightarrow> scm_repository \<Rightarrow> scm_pull \<Rightarrow> 's \<times> scm_thread list res" where
  "gitlab_threads url_error json g s r p =
     (case target_error r p of
        Some e \<Rightarrow> (s, Inl e)
      | None \<Rightarrow>
     (case gitlab_request url_error g (sr_installation r) ''GET'' (pull_path r p @ ''/discussions'') None s of
        (s', Inl e) \<Rightarrow> (s', Inl e)
      | (s', Inr body) \<Rightarrow> (case gj_discussions json body of Inl e \<Rightarrow> (s', Inl e) | Inr ds \<Rightarrow> (s', Inr (map discussion_thread ds)))))"

definition map_status :: "bytes \<Rightarrow> bytes res" where
  "map_status state =
     (if state \<in> {''pending'', ''running'', ''success'', ''failed'', ''canceled'', ''skipped''} then Inr state
      else if state = ''in_progress'' then Inr ''running''
      else if state = ''completed'' \<or> state = ''neutral'' then Inr ''success''
      else if state = ''failure'' then Inr ''failed''
      else Inl (Msg ''unsupported GitLab status state''))"

definition gitlab_status ::
    "(bytes \<Rightarrow> go_error option) \<Rightarrow> gl_json \<Rightarrow> 's gitlab \<Rightarrow> 's \<Rightarrow> scm_repository \<Rightarrow> scm_pull \<Rightarrow> check_status \<Rightarrow> 's \<times> go_error option" where
  "gitlab_status url_error json g s r p c =
     (if target_error r p \<noteq> None \<or> ss_name c = [] \<or> ss_state c = []
      then (s, Some (Msg ''valid merge request, status name, and state are required''))
      else case map_status (ss_state c) of
        Inl e \<Rightarrow> (s, Some e)
      | Inr state \<Rightarrow>
     (case gitlab_request url_error g (sr_installation r) ''POST'' (project_path r @ ''/statuses/'' @ su_head_sha p)
            (Some (gj_object json [(''state'', state), (''name'', ss_name c), (''description'', ss_summary c),
               (''target_url'', ss_details_url c)])) s of
        (s', Inl e) \<Rightarrow> (s', Some e)
      | (s', Inr _) \<Rightarrow> (s', None)))"

section \<open>Webhooks and positions\<close>

definition gitlab_webhook :: "gl_json \<Rightarrow> bytes \<Rightarrow> bytes res option \<Rightarrow> bytes \<Rightarrow> bytes \<Rightarrow> scm_webhook res" where
  "gitlab_webhook json secret body delivery tok =
     (if body = None \<or> delivery = [] \<or> secret = [] \<or> length tok \<noteq> length secret \<or> tok \<noteq> secret
      then Inl (Msg ''GitLab webhook token or delivery is invalid'')
      else case the body of
        Inl e \<Rightarrow> Inl (Msg ''GitLab webhook body is invalid or too large'')
      | Inr bs \<Rightarrow>
          let payload = limited (max_response_bytes + 1) bs in
          if length payload > max_response_bytes \<or> \<not> gj_valid json payload
          then Inl (Msg ''GitLab webhook body is invalid or too large'')
          else (case gj_kind json payload of
                  None \<Rightarrow> Inl (Msg ''GitLab webhook kind is required'')
                | Some kind \<Rightarrow>
                    if kind = [] then Inl (Msg ''GitLab webhook kind is required'')
                    else Inr \<lparr>sw_delivery = delivery, sw_event = kind, sw_body = payload\<rparr>))"

record diff_position =
  dn_old_path :: bytes
  dn_new_path :: bytes
  dn_old_line :: int
  dn_new_line :: int
  dn_line_code :: bytes

definition map_diff_position :: "(bytes \<Rightarrow> bytes) \<Rightarrow> bytes \<Rightarrow> bytes \<Rightarrow> int \<Rightarrow> int \<Rightarrow> diff_position res" where
  "map_diff_position sha1_hex old_path new_path old_line new_line =
     (if old_path = [] \<or> new_path = [] \<or> old_line < 0 \<or> new_line < 0 \<or> (old_line = 0 \<and> new_line = 0)
      then Inl (Msg ''paths and at least one positive line are required'')
      else Inr \<lparr>dn_old_path = old_path, dn_new_path = new_path, dn_old_line = old_line, dn_new_line = new_line,
             dn_line_code = sha1_hex new_path @ ''_'' @ dec_int old_line @ ''_'' @ dec_int new_line\<rparr>)"

definition gitlab_provider :: "(bytes \<Rightarrow> go_error option) \<Rightarrow> gl_json \<Rightarrow> 's gitlab \<Rightarrow> 's scm_operations" where
  "gitlab_provider url_error json g =
     \<lparr>op_diff = gitlab_diff url_error json g, op_files = gitlab_files url_error json g,
      op_upsert = gitlab_upsert url_error json g, op_threads = gitlab_threads url_error json g,
      op_status = gitlab_status url_error json g, op_webhook = gitlab_webhook json (gl_webhook_token g)\<rparr>"

lemma target_error_None: "target_error r p = None \<longleftrightarrow> target_ok r p"
  by (auto simp: target_error_def target_ok_def split: option.split)

lemma gitlab_refuses: "\<not> target_ok r p \<Longrightarrow> \<exists>e. target_error r p = Some e"
  using target_error_None [of r p] by (cases "target_error r p") simp_all

interpretation gl: scm_provider "gitlab_provider url_error json g"
proof
  fix r p and s :: 'a
  assume bad: "\<not> target_ok r p"
  obtain e where "target_error r p = Some e" using gitlab_refuses [OF bad] by blast
  then show "\<exists>e. op_diff (gitlab_provider url_error json g) s r p = (s, Inl e)"
    "\<exists>e. op_files (gitlab_provider url_error json g) s r p = (s, Inl e)"
    "\<exists>e. op_threads (gitlab_provider url_error json g) s r p = (s, Inl e)"
    by (simp_all add: gitlab_provider_def gitlab_diff_def gitlab_files_def gitlab_threads_def gitlab_changes_def)
next
  fix r p and marker body :: bytes and s :: 'a
  assume "\<not> target_ok r p \<or> marker = [] \<or> body = []"
  then have "target_error r p \<noteq> None \<or> marker = [] \<or> \<not> contains marker body"
    using gitlab_refuses [of r p] contains_length [of marker body] by auto
  then show "\<exists>e. op_upsert (gitlab_provider url_error json g) s r p marker body = (s, Inl e)"
    by (simp add: gitlab_provider_def gitlab_upsert_def del: not_None_eq)
next
  fix r p and c :: check_status and s :: 'a
  assume "\<not> target_ok r p \<or> ss_name c = [] \<or> ss_state c = []"
  then have "target_error r p \<noteq> None \<or> ss_name c = [] \<or> ss_state c = []" using gitlab_refuses [of r p] by auto
  then show "\<exists>e. op_status (gitlab_provider url_error json g) s r p c = (s, Some e)"
    by (simp add: gitlab_provider_def gitlab_status_def del: not_None_eq)
next
  fix body :: "bytes res option" and delivery credential :: bytes
  assume "body = None \<or> delivery = [] \<or> credential = []"
  then show "\<exists>e. op_webhook (gitlab_provider url_error json g) body delivery credential = Inl e"
    by (auto simp: gitlab_provider_def gitlab_webhook_def)
qed

text \<open>A pass of a review over either provider acts on nothing but a valid target.\<close>

lemma gitlab_effects_need_target:
  "op_diff (gitlab_provider url_error json g) s r p = (s1, x1) \<Longrightarrow> op_files (gitlab_provider url_error json g) s1 r p = (s2, x2)
   \<Longrightarrow> op_upsert (gitlab_provider url_error json g) s2 r p marker body = (s3, x3)
   \<Longrightarrow> op_threads (gitlab_provider url_error json g) s3 r p = (s4, x4)
   \<Longrightarrow> op_status (gitlab_provider url_error json g) s4 r p c = (s5, x5)
   \<Longrightarrow> s5 \<noteq> s \<or> is_ok x1 \<or> is_ok x2 \<or> is_ok x3 \<or> is_ok x4 \<or> x5 = None \<Longrightarrow> target_ok r p"
  by (rule gl.effects_need_target)

section \<open>What it reads and writes\<close>

text \<open>A GitLab that records the requests it gets; tokens and answers are arbitrary.\<close>

definition logged_gitlab ::
    "(nat \<Rightarrow> api_request \<Rightarrow> api_response res) \<Rightarrow> (nat \<Rightarrow> int \<Rightarrow> bytes res) \<Rightarrow> bytes \<Rightarrow> bytes \<Rightarrow> api_request list gitlab" where
  "logged_gitlab answers tokens base_url secret =
     \<lparr>gl_http = (\<lambda>l q. (l @ [q], answers (length l) q)), gl_tokens = Some (\<lambda>l i. (l, tokens (length l) i)),
      gl_base_url = base_url, gl_webhook_token = secret\<rparr>"

definition sent_ok :: "(nat \<Rightarrow> int \<Rightarrow> bytes res) \<Rightarrow> int \<Rightarrow> bytes \<Rightarrow> bytes \<Rightarrow> bytes \<Rightarrow> bytes option \<Rightarrow> api_request \<Rightarrow> bool" where
  "sent_ok tokens installation base_url method path payload q \<longleftrightarrow>
     aq_method q = method \<and> aq_url q = api_base ''https://gitlab.com/api/v4'' base_url @ path \<and> aq_body q = map_option Inr payload
     \<and> (\<exists>n tok. tokens n installation = Inr tok \<and> tok \<noteq> [] \<and> aq_headers q ''PRIVATE-TOKEN'' = Some tok)"

lemma logged_gitlab_sel [simp]:
  "gl_http (logged_gitlab answers tokens base_url secret) l q = (l @ [q], answers (length l) q)"
  "gl_tokens (logged_gitlab answers tokens base_url secret) = Some (\<lambda>l i. (l, tokens (length l) i))"
  "gl_base_url (logged_gitlab answers tokens base_url secret) = base_url"
  by (simp_all add: logged_gitlab_def)

text \<open>A request is sent once, with the token of its installation, or not at all.\<close>

lemma gitlab_request_logged:
  assumes "gitlab_request url_error (logged_gitlab answers tokens base_url secret) installation method path payload l = (l', x)"
  obtains e where "l' = l" "x = Inl e"
  | q where "l' = l @ [q]" "sent_ok tokens installation base_url method path payload q"
      "\<forall>body. x = Inr body \<longrightarrow> (\<exists>response. answers (length l) q = Inr response \<and> body = limited max_response_bytes (ar_body response))"
proof (cases "tokens (length l) installation")
  case (Inl e)
  then show ?thesis using assms that(1) by (auto simp: gitlab_request_def)
next
  case tok: (Inr tok)
  show ?thesis
  proof (cases "tok = [] \<or> (\<exists>e. new_request url_error method (api_base ''https://gitlab.com/api/v4'' base_url @ path) payload = Inl e)")
    case True
    then have "\<exists>e. (l', x) = (l, Inl e)" unfolding assms [symmetric] using tok by (cases "tok = []") (auto simp: gitlab_request_def)
    then show ?thesis using that(1) by blast
  next
    case False
    then obtain q where q: "new_request url_error method (api_base ''https://gitlab.com/api/v4'' base_url @ path) payload = Inr q"
      by (cases "new_request url_error method (api_base ''https://gitlab.com/api/v4'' base_url @ path) payload") auto
    let ?q1 = "set_header ''PRIVATE-TOKEN'' tok q"
    let ?q = "if payload \<noteq> None then set_header ''Content-Type'' ''application/json'' ?q1 else ?q1"
    have "sent_ok tokens installation base_url method path payload ?q"
      using tok False new_request_sel [OF q] by (auto simp: sent_ok_def)
    moreover have "l' = l @ [?q]"
      "\<forall>body. x = Inr body \<longrightarrow> (\<exists>response. answers (length l) ?q = Inr response \<and> body = limited max_response_bytes (ar_body response))"
      using assms tok False q
      by (cases "answers (length l) ?q"; auto simp: gitlab_request_def Let_def split: if_splits)+
    ultimately show ?thesis using that(2) by blast
  qed
qed

text \<open>The page of changes that the answer to the request number \<open>k\<close> holds.\<close>

definition page_of :: "gl_json \<Rightarrow> (nat \<Rightarrow> api_request \<Rightarrow> api_response res) \<Rightarrow> nat \<Rightarrow> api_request \<Rightarrow> gl_change list" where
  "page_of json answers k q =
     (case answers k q of
        Inl e \<Rightarrow> []
      | Inr response \<Rightarrow>
          (case gj_changes json (limited max_response_bytes (ar_body response)) of Inl e \<Rightarrow> [] | Inr cs \<Rightarrow> cs))"

definition pages_of :: "gl_json \<Rightarrow> (nat \<Rightarrow> api_request \<Rightarrow> api_response res) \<Rightarrow> nat \<Rightarrow> api_request list \<Rightarrow> gl_change list list" where
  "pages_of json answers n l = map (\<lambda>k. page_of json answers k (l ! k)) [n..<length l]"

definition whole :: "gl_change \<Rightarrow> bool" where
  "whole c \<longleftrightarrow> \<not> gc_collapsed c \<and> \<not> gc_too_large c"

text \<open>Full pages, then one that is not.\<close>

fun complete_pages :: "gl_change list list \<Rightarrow> bool" where
  "complete_pages [] = False"
| "complete_pages (b # bs) = (if bs = [] then length b < 100 else 100 \<le> length b \<and> complete_pages bs)"

lemma pages_of_step:
  "pages_of json answers (length l) ((l @ [q]) @ new) =
     page_of json answers (length l) q # pages_of json answers (length (l @ [q])) ((l @ [q]) @ new)"
proof -
  have "[length l..<length ((l @ [q]) @ new)] = length l # [length (l @ [q])..<length ((l @ [q]) @ new)]"
    by (simp add: upt_rec)
  then show ?thesis by (simp add: pages_of_def nth_append)
qed

lemma changes_loop_step:
  assumes "changes_loop url_error json g installation path acc (page # pages) l = (l', x)"
    and "gitlab_request url_error g installation ''GET'' (path @ ''?per_page=100&page='' @ dec_nat page) None l = (l1, x1)"
  obtains e where "(l', x) = (l1, Inl e)"
  | body batch where "x1 = Inr body" "gj_changes json body = Inr batch" "list_all whole batch" "length batch < 100"
      "(l', x) = (l1, Inr (acc @ batch))"
  | body batch where "x1 = Inr body" "gj_changes json body = Inr batch" "list_all whole batch" "100 \<le> length batch"
      "changes_loop url_error json g installation path (acc @ batch) pages l1 = (l', x)"
proof (cases x1)
  case (Inl e)
  then have "(l', x) = (l1, Inl e)" using assms by simp
  then show ?thesis by (rule that(1))
next
  case body: (Inr body)
  show ?thesis
  proof (cases "gj_changes json body")
    case (Inl e)
    then have "(l', x) = (l1, Inl e)" using assms body by simp
    then show ?thesis by (rule that(1))
  next
    case (Inr batch)
    show ?thesis
    proof (cases "list_ex (\<lambda>c. gc_collapsed c \<or> gc_too_large c) batch")
      case True
      then have "\<exists>e. (l', x) = (l1, Inl e)" using assms body Inr by auto
      then show ?thesis using that(1) by blast
    next
      case False
      then have "list_all whole batch" by (auto simp: list_ex_iff list_all_iff whole_def)
      then show ?thesis using assms body Inr False that(2) [OF body Inr] that(3) [OF body Inr]
        by (cases "length batch < 100") simp_all
    qed
  qed
qed

lemma changes_loop_logged:
  assumes "changes_loop url_error json (logged_gitlab answers tokens base_url secret) installation path acc pages l = (l', x)"
  shows "\<exists>new. l' = l @ new \<and> length new \<le> length pages
    \<and> list_all (\<lambda>q. \<exists>n. sent_ok tokens installation base_url ''GET'' (path @ ''?per_page=100&page='' @ dec_nat n) None q) new
    \<and> (\<forall>cs. x = Inr cs \<longrightarrow> cs = acc @ concat (pages_of json answers (length l) l')
         \<and> list_all whole (concat (pages_of json answers (length l) l'))
         \<and> complete_pages (pages_of json answers (length l) l'))"
  using assms
proof (induction pages arbitrary: acc l)
  case Nil
  then show ?case by auto
next
  case (Cons page pages)
  let ?g = "logged_gitlab answers tokens base_url secret"
  let ?path = "path @ ''?per_page=100&page='' @ dec_nat page"
  obtain l1 x1 where req: "gitlab_request url_error ?g installation ''GET'' ?path None l = (l1, x1)" by fastforce
  from req show ?case
  proof (cases rule: gitlab_request_logged)
    case (1 e)
    then have "(l', x) = (l, Inl e)" using Cons.prems req by simp
    then show ?thesis by (intro exI [of _ "[]"]) simp
  next
    case (2 q)
    have sent: "\<exists>n. sent_ok tokens installation base_url ''GET'' (path @ ''?per_page=100&page='' @ dec_nat n) None q" using 2(2) by blast
    from Cons.prems req show ?thesis
    proof (cases rule: changes_loop_step)
      case (1 e)
      then show ?thesis using 2(1) sent by (intro exI [of _ "[q]"]) simp
    next
      case (2 body batch)
      then have "page_of json answers (length l) q = batch"
        using \<open>\<forall>body. x1 = Inr body \<longrightarrow> (\<exists>response. answers (length l) q = Inr response \<and> body = limited max_response_bytes (ar_body response))\<close>
        by (auto simp: page_of_def)
      then have "pages_of json answers (length l) (l @ [q]) = [batch]" using pages_of_step [of json answers l q "[]"] by (simp add: pages_of_def)
      then show ?thesis using 2 \<open>l1 = l @ [q]\<close> sent by (intro exI [of _ "[q]"]) simp
    next
      case (3 body batch)
      then have batch: "page_of json answers (length l) q = batch"
        using \<open>\<forall>body. x1 = Inr body \<longrightarrow> (\<exists>response. answers (length l) q = Inr response \<and> body = limited max_response_bytes (ar_body response))\<close>
        by (auto simp: page_of_def)
      from Cons.IH [OF 3(5)] obtain new where new: "l' = l1 @ new" "length new \<le> length pages"
          "list_all (\<lambda>q. \<exists>n. sent_ok tokens installation base_url ''GET'' (path @ ''?per_page=100&page='' @ dec_nat n) None q) new"
          "\<forall>cs. x = Inr cs \<longrightarrow> cs = (acc @ batch) @ concat (pages_of json answers (length l1) l')
             \<and> list_all whole (concat (pages_of json answers (length l1) l'))
             \<and> complete_pages (pages_of json answers (length l1) l')"
        by blast
      have step: "pages_of json answers (length l) l' = batch # pages_of json answers (length l1) l'"
        unfolding new(1) \<open>l1 = l @ [q]\<close> pages_of_step batch by simp
      have more: "complete_pages (batch # ps)" if "complete_pages ps" for ps
        using that 3(4) by (cases ps) simp_all
      have "\<forall>cs. x = Inr cs \<longrightarrow> cs = acc @ concat (pages_of json answers (length l) l')
          \<and> list_all whole (concat (pages_of json answers (length l) l')) \<and> complete_pages (pages_of json answers (length l) l')"
        unfolding step using new(4) 3(3) more by (simp del: complete_pages.simps)
      moreover have "l' = l @ (q # new)" using new(1) \<open>l1 = l @ [q]\<close> by simp
      ultimately show ?thesis using new(2,3) sent by (intro exI [of _ "q # new"] conjI) simp_all
    qed
  qed
qed

text \<open>
  The changes of a merge request are read with at most ten requests, each with a token of its
  installation, and are returned only whole: every page up to the first that is not full, in order, and
  no file whose diff GitLab collapsed or left out.
\<close>

theorem gitlab_changes_complete:
  "case gitlab_changes url_error json (logged_gitlab answers tokens base_url secret) [] r p of
     (l, x) \<Rightarrow> length l \<le> 10
       \<and> list_all (\<lambda>q. \<exists>n. sent_ok tokens (sr_installation r) base_url ''GET''
            ((pull_path r p @ ''/diffs'') @ ''?per_page=100&page='' @ dec_nat n) None q) l
       \<and> (case x of
            Inl e \<Rightarrow> True
          | Inr cs \<Rightarrow> target_ok r p \<and> cs = concat (pages_of json answers 0 l) \<and> list_all whole cs
              \<and> complete_pages (pages_of json answers 0 l))"
proof (cases "target_error r p")
  case None
  obtain l x where run: "changes_loop url_error json (logged_gitlab answers tokens base_url secret) (sr_installation r)
      (pull_path r p @ ''/diffs'') [] [1..<11] [] = (l, x)" by fastforce
  have "length [1..<11] = 10" by simp
  then show ?thesis
    using changes_loop_logged [OF run] None run target_error_None [of r p]
    by (cases x) (auto simp: gitlab_changes_def simp del: upt_Suc append_assoc)
qed (simp add: gitlab_changes_def)

text \<open>A merge request of exactly a thousand files is refused, though all of them have been read.\<close>

lemma thousand_files_refused:
  assumes "\<And>s path. \<exists>s'. gitlab_request url_error g installation ''GET'' path None s = (s', Inr body)"
    and "gj_changes json body = Inr batch" "length batch = 100" "list_all whole batch"
  shows "\<exists>e. snd (changes_loop url_error json g installation path acc pages s) = Inl e"
proof (induction pages arbitrary: acc s)
  case (Cons page pages)
  obtain s' where "gitlab_request url_error g installation ''GET'' (path @ ''?per_page=100&page='' @ dec_nat page) None s = (s', Inr body)"
    using assms(1) by blast
  moreover have "\<not> list_ex (\<lambda>c. gc_collapsed c \<or> gc_too_large c) batch"
    using assms(4) by (auto simp: list_ex_iff list_all_iff whole_def)
  ultimately show ?case using Cons.IH [of "acc @ batch" s'] assms(2,3) by simp
qed simp

text \<open>The notes that the first answer lists.\<close>

definition notes_of :: "gl_json \<Rightarrow> (nat \<Rightarrow> api_request \<Rightarrow> api_response res) \<Rightarrow> api_request \<Rightarrow> gl_note list" where
  "notes_of json answers q =
     (case answers 0 q of
        Inl e \<Rightarrow> []
      | Inr response \<Rightarrow>
          (case gj_notes json (limited max_response_bytes (ar_body response)) of Inl e \<Rightarrow> [] | Inr ns \<Rightarrow> ns))"

lemma note_target_cases:
  "(\<exists>n \<in> set ns. contains marker (gn_body n) \<and> note_target marker path ns = (''PUT'', path @ ''/'' @ dec_int (gn_id n)))
   \<or> \<not> (\<exists>n \<in> set ns. contains marker (gn_body n)) \<and> note_target marker path ns = (''POST'', path)"
proof (cases "find (\<lambda>n. contains marker (gn_body n)) ns")
  case None
  moreover from None have "\<not> (\<exists>n \<in> set ns. contains marker (gn_body n))" by (simp add: find_None_iff)
  ultimately show ?thesis by (simp add: note_target_def)
next
  case (Some n)
  then have "n \<in> set ns \<and> contains marker (gn_body n)" by (auto simp: find_Some_iff)
  then show ?thesis using Some unfolding note_target_def by (intro disjI1 bexI [of _ n]) simp_all
qed

text \<open>
  The summary of a merge request is written by at most one request, after one that lists notes: an
  edit of a listed note that carries the marker, or a new note when none does. The listing is a single
  page, and the author of a note plays no part.
\<close>

theorem gitlab_summary_one_page:
  "case gitlab_upsert url_error json (logged_gitlab answers tokens base_url secret) [] r p marker body of
     (l, x) \<Rightarrow>
       (let sent = sent_ok tokens (sr_installation r) base_url; path = pull_path r p @ ''/notes'';
            payload = Some (gj_object json [(''body'', body)]) in
        l = []
        \<or> (\<exists>g. l = [g] \<and> sent ''GET'' path None g \<and> (\<exists>e. x = Inl e))
        \<or> (\<exists>g w. l = [g, w] \<and> sent ''GET'' path None g
             \<and> ((\<exists>n \<in> set (notes_of json answers g). contains marker (gn_body n) \<and> sent ''PUT'' (path @ ''/'' @ dec_int (gn_id n)) payload w)
                \<or> \<not> (\<exists>n \<in> set (notes_of json answers g). contains marker (gn_body n)) \<and> sent ''POST'' path payload w)))"
proof -
  let ?g = "logged_gitlab answers tokens base_url secret" and ?i = "sr_installation r"
  let ?path = "pull_path r p @ ''/notes''" and ?payload = "Some (gj_object json [(''body'', body)])"
  obtain l x where run: "gitlab_upsert url_error json ?g [] r p marker body = (l, x)" by fastforce
  show ?thesis
  proof (cases "target_error r p \<noteq> None \<or> marker = [] \<or> \<not> contains marker body")
    case True
    then have "l = []" using run by (auto simp: gitlab_upsert_def)
    then show ?thesis using run by simp
  next
    case valid: False
    obtain l1 x1 where get: "gitlab_request url_error ?g ?i ''GET'' ?path None [] = (l1, x1)" by fastforce
    from get show ?thesis
    proof (cases rule: gitlab_request_logged)
      case (1 e)
      then have "l = []" using run valid get by (auto simp: gitlab_upsert_def)
      then show ?thesis using run by simp
    next
      case (2 g)
      show ?thesis
      proof (cases "\<exists>listing notes. x1 = Inr listing \<and> gj_notes json listing = Inr notes")
        case False
        then have "l = [g] \<and> (\<exists>e. x = Inl e)" using run valid get 2(1)
          by (cases x1; cases "gj_notes json (projr x1)") (auto simp: gitlab_upsert_def Let_def)
        then show ?thesis using run 2(2) by simp
      next
        case True
        then obtain listing ns where heard_notes: "x1 = Inr listing" "gj_notes json listing = Inr ns" by blast
        then have heard: "notes_of json answers g = ns" using 2(3) by (auto simp: notes_of_def)
        let ?target = "note_target marker ?path ns"
        obtain l2 x2 where send: "gitlab_request url_error ?g ?i (fst ?target) (snd ?target) ?payload l1 = (l2, x2)" by fastforce
        have "(l, x) = (case x2 of Inl e \<Rightarrow> (l2, Inl e)
            | Inr saved \<Rightarrow> (case gj_note json saved of Inl e \<Rightarrow> (l2, Inl e) | Inr n \<Rightarrow> (l2, Inr (note_comment n))))"
          unfolding run [symmetric] using valid get heard_notes send
          by (simp add: gitlab_upsert_def Let_def case_prod_beta del: not_None_eq split: sum.split)
        then have l: "l = l2" "x2 = Inl e \<Longrightarrow> x = Inl e" for e by (auto split: sum.splits)
        from send show ?thesis
        proof (cases rule: gitlab_request_logged)
          case (1 e)
          then show ?thesis using run l 2 by simp
        next
          case (2 w)
          have "(\<exists>n \<in> set ns. contains marker (gn_body n) \<and> ?target = (''PUT'', ?path @ ''/'' @ dec_int (gn_id n)))
              \<or> \<not> (\<exists>n \<in> set ns. contains marker (gn_body n)) \<and> ?target = (''POST'', ?path)"
            by (rule note_target_cases)
          moreover have "l = [g, w]" using l(1) 2(1) \<open>l1 = [] @ [g]\<close> by simp
          ultimately show ?thesis using run 2(2) \<open>sent_ok tokens ?i base_url ''GET'' ?path None g\<close> by (auto simp: Let_def heard)
        qed
      qed
    qed
  qed
qed

text \<open>The whole project is one segment of a path, so no owner or name can reach another endpoint.\<close>

lemma project_path_one_segment:
  "\<exists>segment. project_path r = ''/projects/'' @ segment \<and> CHR ''/'' \<notin> set segment"
  unfolding project_path_def using path_escape_no_slash by blast

lemma gitlab_webhook_authentic:
  "gitlab_webhook json secret (Some (Inr bs)) delivery tok = Inr w \<Longrightarrow>
     secret \<noteq> [] \<and> tok = secret \<and> length bs \<le> max_response_bytes \<and> sw_body w = bs \<and> gj_valid json bs \<and> gj_kind json bs = Some (sw_event w)"
  by (auto simp: gitlab_webhook_def Let_def limited_def min_def split: if_splits option.splits)

end
