(* ===== verification/Issues.thy ===== *)
theory Issues
  imports GoRegex Ranking GoHttp
begin

text \<open>
  Work items of issue trackers: \<open>internal/hosted/integrations/issues/issues.go\<close>. The token source, HTTP, the
  OAuth exchange, the store, JSON and the Unicode tables are parameters.
\<close>

definition max_issue_response :: nat where "max_issue_response = 2097152"

section \<open>Keys\<close>

definition upper_rx :: rx where "upper_rx = Rx_Char ascii_upper"
definition digit_rx :: rx where "digit_rx = Rx_Char ascii_digit"

text \<open>\<open>\b[A-Z][A-Z0-9]{1,9}-[1-9][0-9]*\b\<close>\<close>

definition issue_key_pattern :: rx where
  "issue_key_pattern =
     rx_all ([Rx_Boundary, upper_rx, Rx_Char (\<lambda>c. ascii_upper c \<or> ascii_digit c)]
       @ replicate 8 (rx_opt (Rx_Char (\<lambda>c. ascii_upper c \<or> ascii_digit c)))
       @ [Rx_Char (\<lambda>c. c = CHR ''-''), Rx_Char (\<lambda>c. ascii_digit c \<and> c \<noteq> CHR ''0''), Rx_Star digit_rx, Rx_Boundary])"

text \<open>
  \<open>FindAllString\<close>, from a position on. A match of the pattern has one end: the hyphen ends the letters and
  the boundary ends the digits.
\<close>

function find_all :: "rx \<Rightarrow> bytes \<Rightarrow> nat \<Rightarrow> bytes list" where
  "find_all r s i =
     (if length s < i then []
      else case rx_ends r s i of
        [] \<Rightarrow> find_all r s (Suc i)
      | e # _ \<Rightarrow> if e \<le> i then find_all r s (Suc i) else take (e - i) (drop i s) # find_all r s e)"
  by pat_completeness auto
termination by (relation "measure (\<lambda>(r, s, i). Suc (length s) - i)") auto

declare find_all.simps [simp del]

text \<open>\<open>strings.ToUpper\<close> over a table of upper cases.\<close>

definition to_upper :: "(nat \<Rightarrow> nat) \<Rightarrow> bytes \<Rightarrow> bytes" where
  "to_upper upper s = concat (map (\<lambda>r. encode_rune (upper r)) (runes s))"

fun collect_keys :: "bytes list \<Rightarrow> bytes list \<Rightarrow> bytes list" where
  "collect_keys [] keys = keys"
| "collect_keys (k # ks) keys =
     collect_keys ks (if k \<notin> set keys \<and> length keys < 10 then keys @ [k] else keys)"

definition detect_issue_keys :: "(nat \<Rightarrow> nat) \<Rightarrow> bytes \<Rightarrow> bytes \<Rightarrow> bytes list" where
  "detect_issue_keys upper branch pull_body =
     sort (collect_keys (find_all issue_key_pattern (to_upper upper branch) 0
       @ find_all issue_key_pattern (to_upper upper pull_body) 0) [])"

lemma collect_keys_inv:
  "distinct keys \<Longrightarrow> length keys \<le> 10 \<Longrightarrow>
     distinct (collect_keys ks keys) \<and> length (collect_keys ks keys) \<le> 10 \<and> set (collect_keys ks keys) \<subseteq> set keys \<union> set ks"
proof (induction ks arbitrary: keys)
  case (Cons k ks)
  show ?case
  proof (cases "k \<notin> set keys \<and> length keys < 10")
    case True
    then show ?thesis using Cons.IH [of "keys @ [k]"] Cons.prems by auto
  next
    case False
    then have "collect_keys (k # ks) keys = collect_keys ks keys" by auto
    then show ?thesis using Cons.IH [of keys] Cons.prems by auto
  qed
qed simp

lemma find_all_matches:
  "k \<in> set (find_all r s i) \<Longrightarrow> \<exists>a b. i \<le> a \<and> a < b \<and> b \<le> length s \<and> rx_match s r a b \<and> k = take (b - a) (drop a s)"
proof (induction r s i rule: find_all.induct)
  case (1 r s i)
  show ?case
  proof (cases "length s < i")
    case True
    then show ?thesis using "1.prems" by (simp add: find_all.simps [of r s i])
  next
    case inside: False
    show ?thesis
    proof (cases "rx_ends r s i")
      case Nil
      then have "k \<in> set (find_all r s (Suc i))" using "1.prems" inside by (simp add: find_all.simps [of r s i])
      then show ?thesis using "1.IH"(1) [OF inside Nil] by (meson Suc_leD)
    next
      case (Cons e es)
      show ?thesis
      proof (cases "e \<le> i")
        case True
        then have "k \<in> set (find_all r s (Suc i))" using "1.prems" inside Cons by (simp add: find_all.simps [of r s i])
        then show ?thesis using "1.IH"(2) [OF inside Cons True] by (meson Suc_leD)
      next
        case False
        have "rx_match s r i e" using rx_ends_iff [of i s e r] inside Cons by simp
        moreover from this have "e \<le> length s" using rx_match_mono inside by (meson not_less)
        moreover have "k = take (e - i) (drop i s) \<or> k \<in> set (find_all r s e)"
          using "1.prems" inside Cons False by (simp add: find_all.simps [of r s i])
        ultimately show ?thesis
          using "1.IH"(3) [OF inside Cons False] False by (metis not_le_imp_less less_imp_le_nat order_trans le_refl)
      qed
    qed
  qed
qed

text \<open>
  Keys come sorted, without repetition and at most ten; each is a whole match of the pattern in the
  upper-cased branch or description.
\<close>

theorem detect_issue_keys_spec:
  "sorted (detect_issue_keys upper branch body) \<and> distinct (detect_issue_keys upper branch body)
   \<and> length (detect_issue_keys upper branch body) \<le> 10
   \<and> list_all (\<lambda>k. \<exists>s a b. s \<in> {to_upper upper branch, to_upper upper body} \<and> a < b \<and> b \<le> length s
        \<and> rx_match s issue_key_pattern a b \<and> k = take (b - a) (drop a s)) (detect_issue_keys upper branch body)"
proof -
  let ?b = "to_upper upper branch" and ?p = "to_upper upper body"
  let ?all = "find_all issue_key_pattern ?b 0 @ find_all issue_key_pattern ?p 0"
  have inv: "distinct (collect_keys ?all [])" "length (collect_keys ?all []) \<le> 10" "set (collect_keys ?all []) \<subseteq> set ?all"
    using collect_keys_inv [of "[]" ?all] by auto
  have "\<exists>s a b. s \<in> {?b, ?p} \<and> a < b \<and> b \<le> length s \<and> rx_match s issue_key_pattern a b \<and> k = take (b - a) (drop a s)"
    if "k \<in> set ?all" for k
    using that find_all_matches [of k issue_key_pattern] by (metis Un_iff insertCI set_append)
  then show ?thesis using inv by (auto simp: detect_issue_keys_def list_all_iff)
qed

text \<open>Lower-case text is searched too, so the name of an encoding is a key.\<close>

lemma encoding_is_a_key:
  "detect_issue_keys (\<lambda>r. if 97 \<le> r \<and> r \<le> 122 then r - 32 else r) ''decode utf-8'' [] = [''UTF-8'']"
proof -
  have "to_upper (\<lambda>r. if 97 \<le> r \<and> r \<le> 122 then r - 32 else r) ''decode utf-8'' = ''DECODE UTF-8''"
    by (simp add: to_upper_def runes_ascii encode_rune_def char_of_def bit_0)
  moreover have "to_upper (\<lambda>r. if 97 \<le> r \<and> r \<le> 122 then r - 32 else r) [] = []" by (simp add: to_upper_def runes_ascii)
  moreover have "find_all issue_key_pattern ''DECODE UTF-8'' 0 = [''UTF-8'']" by code_simp
  moreover have "find_all issue_key_pattern [] 0 = []" by code_simp
  ultimately show ?thesis by (simp add: detect_issue_keys_def)
qed

section \<open>Acceptance criteria\<close>

text \<open>\<open>strings.Trim\<close> with a set of ASCII characters.\<close>

definition trim_chars :: "bytes \<Rightarrow> bytes \<Rightarrow> bytes" where
  "trim_chars chars s = rev (dropWhile (\<lambda>c. c \<in> set chars) (rev (dropWhile (\<lambda>c. c \<in> set chars) s)))"

definition checkbox :: "bytes \<Rightarrow> bool" where
  "checkbox line \<longleftrightarrow> has_prefix ''- [ ] '' line \<or> has_prefix ''- [x] '' line \<or> has_prefix ''- [X] '' line"

definition criteria_heading :: "unicode \<Rightarrow> bytes \<Rightarrow> bool" where
  "criteria_heading u line \<longleftrightarrow>
     (let lower = to_lower u (trim_chars ''#*: '' line) in lower = ''acceptance criteria'' \<or> lower = ''acceptance criterion'')"

fun criteria_loop :: "unicode \<Rightarrow> bool \<Rightarrow> bytes list \<Rightarrow> bytes list \<Rightarrow> bytes list" where
  "criteria_loop u in_section [] criteria = criteria"
| "criteria_loop u in_section (raw # raws) criteria =
     (let line = trim_space raw in
      if criteria_heading u line then criteria_loop u True raws criteria
      else if in_section \<and> has_prefix ''#'' line then criteria
      else if checkbox line then criteria_loop u in_section raws (criteria @ [trim_space (drop 6 line)])
      else let criteria = (if in_section \<and> (has_prefix ''- '' line \<or> has_prefix ''* '' line)
                           then criteria @ [trim_space (drop 2 line)] else criteria) in
        if length criteria = 20 then criteria else criteria_loop u in_section raws criteria)"

definition extract_acceptance_criteria :: "unicode \<Rightarrow> bytes \<Rightarrow> bytes list" where
  "extract_acceptance_criteria u description = criteria_loop u False (split_on (CHR 0x0A) description) []"

text \<open>
  The limit of twenty stands behind the \<open>continue\<close> of checkboxes: a list of checkboxes is taken whole,
  however long, while bullets stop at twenty.
\<close>

lemma checkboxes_unbounded:
  assumes "\<not> criteria_heading u line" "trim_space line = line" "checkbox line"
  shows "length (criteria_loop u False (replicate n line) criteria) = length criteria + n"
  using assms by (induction n arbitrary: criteria) (simp_all add: Let_def)

lemma criteria_loop_bullets:
  "list_all (\<lambda>raw. \<not> checkbox (trim_space raw)) raws \<Longrightarrow> length criteria < 20 \<Longrightarrow> length (criteria_loop u in_section raws criteria) \<le> 20"
proof (induction raws arbitrary: in_section criteria)
  case (Cons raw raws)
  show ?case
    using Cons.IH [of criteria] Cons.IH [of "criteria @ [trim_space (drop 2 (trim_space raw))]"] Cons.prems
    by (auto simp: Let_def)
qed simp

section \<open>Descriptions\<close>

datatype json =
    J_Null
  | J_Bool bool
  | J_Number rat
  | J_String bytes
  | J_List "json list"
  | J_Object "(bytes \<times> json) list"

text \<open>An object's fields are unique by the time they are a map.\<close>

fun field :: "bytes \<Rightarrow> (bytes \<times> json) list \<Rightarrow> json option" where
  "field k [] = None"
| "field k ((k', v) # fs) = (if k' = k then Some v else field k fs)"

lemma field_size: "field k fs = Some v \<Longrightarrow> size v < Suc (size_list (size_prod (\<lambda>_. 0) size) fs)"
  by (induction fs rule: field.induct) (auto split: if_splits)

function walk :: "json \<Rightarrow> bytes list" where
  "walk J_Null = []"
| "walk (J_Bool b) = []"
| "walk (J_Number n) = []"
| "walk (J_String s) = (if blank s then [] else [s])"
| "walk (J_List vs) = concat (map walk vs)"
| "walk (J_Object fs) =
     (case field ''text'' fs of
        Some v \<Rightarrow> walk v
      | None \<Rightarrow> (case field ''content'' fs of Some v \<Rightarrow> walk v | None \<Rightarrow> []))"
  by pat_completeness auto
termination
  by (relation "measure size") (auto dest: field_size simp: size_list_estimation' less_Suc_eq_le)

definition flatten_text :: "json \<Rightarrow> bytes" where
  "flatten_text v = join_with newline (walk v)"

lemma walk_nonblank: "p \<in> set (walk v) \<Longrightarrow> \<not> blank p"
  by (induction v rule: walk.induct) (auto split: if_splits option.splits dest: sym)

section \<open>Fetching\<close>

type_synonym tracker = bytes

definition linear :: tracker where "linear = ''linear''"

definition jira :: tracker where "jira = ''jira''"

record issue =
  is_provider :: tracker
  is_key :: bytes
  is_title :: bytes
  is_description :: bytes
  is_criteria :: "bytes list"
  is_url :: bytes

record 's issue_client =
  ki_http :: "'s \<Rightarrow> api_request \<Rightarrow> 's \<times> api_response res"
  ki_tokens :: "('s \<Rightarrow> int \<Rightarrow> tracker \<Rightarrow> 's \<times> bytes res) option"
  ki_base_url :: bytes

text \<open>The answer is what is left to decode.\<close>

definition tracker_request ::
    "(bytes \<Rightarrow> go_error option) \<Rightarrow> 's issue_client \<Rightarrow> int \<Rightarrow> tracker \<Rightarrow> bytes \<Rightarrow> bytes \<Rightarrow> bytes option \<Rightarrow> 's \<Rightarrow> 's \<times> bytes res" where
  "tracker_request url_error c installation provider endpoint method payload s =
     (case ki_tokens c of
        None \<Rightarrow> (s, Inl (Msg ''OAuth token source and tenant are required''))
      | Some tokens \<Rightarrow>
          if installation \<le> 0 then (s, Inl (Msg ''OAuth token source and tenant are required''))
          else (case tokens s installation provider of
             (s1, Inl e) \<Rightarrow> (s1, Inl (Msg ''OAuth token is unavailable''))
           | (s1, Inr tok) \<Rightarrow>
               if tok = [] then (s1, Inl (Msg ''OAuth token is unavailable''))
               else (case new_request url_error method endpoint payload of
                  Inl e \<Rightarrow> (s1, Inl e)
                | Inr q \<Rightarrow>
                    let q1 = set_header ''Accept'' ''application/json'' (set_header ''Authorization'' (''Bearer '' @ tok) q);
                        q2 = (if payload \<noteq> None then set_header ''Content-Type'' ''application/json'' q1 else q1) in
                    (case ki_http c s1 q2 of
                       (s2, Inl e) \<Rightarrow> (s2, Inl e)
                     | (s2, Inr response) \<Rightarrow>
                         if \<not> ok_status (ar_status response)
                         then (s2, Inl (MsgNum (provider @ '' returned status %d'') [ar_status response]))
                         else (s2, Inr (limited max_issue_response (ar_body response)))))))"

text \<open>The JSON of a tracker: the number of errors and the issue of Linear, the key and fields of Jira.\<close>

record linear_issue =
  ln_errors :: nat
  ln_identifier :: bytes
  ln_title :: bytes
  ln_description :: bytes
  ln_url :: bytes

record jira_issue =
  jr_key :: bytes
  jr_summary :: bytes
  jr_description :: json

fun first_value :: "bytes list \<Rightarrow> bytes" where
  "first_value [] = []"
| "first_value (v # vs) = (if v \<noteq> [] then v else first_value vs)"

text \<open>\<open>encode\<close> is JSON of the query with the key as its variable.\<close>

definition linear_query :: bytes where
  "linear_query = ''query Px1Issue($id: String!) { issue(id: $id) { identifier title description url } }''"

definition fetch_linear ::
    "unicode \<Rightarrow> (bytes \<Rightarrow> go_error option) \<Rightarrow> (bytes \<Rightarrow> bytes \<Rightarrow> bytes) \<Rightarrow> (bytes \<Rightarrow> linear_issue res) \<Rightarrow> 's issue_client \<Rightarrow> int
     \<Rightarrow> bytes \<Rightarrow> 's \<Rightarrow> 's \<times> issue res" where
  "fetch_linear u url_error encode decode c installation key s =
     (if \<not> rx_matches issue_key_pattern key then (s, Inl (Msg ''valid Linear issue key is required''))
      else case tracker_request url_error c installation linear
             (first_value [ki_base_url c, ''https://api.linear.app/graphql'']) ''POST'' (Some (encode linear_query key)) s of
        (s', Inl e) \<Rightarrow> (s', Inl e)
      | (s', Inr body) \<Rightarrow>
     (case decode body of
        Inl e \<Rightarrow> (s', Inl e)
      | Inr r \<Rightarrow>
          if ln_errors r > 0 \<or> ln_identifier r = [] then (s', Inl (Msg ''Linear issue was not found''))
          else (s', Inr \<lparr>is_provider = linear, is_key = ln_identifier r, is_title = ln_title r, is_description = ln_description r,
                  is_criteria = extract_acceptance_criteria u (ln_description r), is_url = ln_url r\<rparr>)))"

definition jira_base :: "'s issue_client \<Rightarrow> bytes" where
  "jira_base c = trim_right CHR ''/'' (ki_base_url c)"

definition fetch_jira ::
    "unicode \<Rightarrow> (bytes \<Rightarrow> go_error option) \<Rightarrow> (bytes \<Rightarrow> jira_issue res) \<Rightarrow> 's issue_client \<Rightarrow> int \<Rightarrow> bytes \<Rightarrow> 's \<Rightarrow> 's \<times> issue res" where
  "fetch_jira u url_error decode c installation key s =
     (if \<not> rx_matches issue_key_pattern key \<or> \<not> has_prefix ''https://'' (ki_base_url c)
      then (s, Inl (Msg ''valid Jira URL and issue key are required''))
      else case tracker_request url_error c installation jira
             (jira_base c @ ''/rest/api/3/issue/'' @ path_escape key @ ''?fields=summary,description'') ''GET'' None s of
        (s', Inl e) \<Rightarrow> (s', Inl e)
      | (s', Inr body) \<Rightarrow>
     (case decode body of
        Inl e \<Rightarrow> (s', Inl e)
      | Inr r \<Rightarrow>
          let description = flatten_text (jr_description r) in
          (s', Inr \<lparr>is_provider = jira, is_key = jr_key r, is_title = jr_summary r, is_description = description,
             is_criteria = extract_acceptance_criteria u description,
             is_url = jira_base c @ ''/browse/'' @ path_escape (jr_key r)\<rparr>)))"

section \<open>Connecting a tracker\<close>

record oauth_grant =
  og_provider :: tracker
  og_account :: bytes
  og_base_url :: bytes
  og_access_token :: bytes
  og_refresh_token :: bytes
  og_expires :: int

text \<open>The exchanger and the store act on the state.\<close>

definition complete_tracker_oauth ::
    "('s \<Rightarrow> tracker \<Rightarrow> bytes \<Rightarrow> bytes \<Rightarrow> 's \<times> oauth_grant res) option \<Rightarrow> ('s \<Rightarrow> int \<Rightarrow> oauth_grant \<Rightarrow> 's \<times> go_error option) option
     \<Rightarrow> int \<Rightarrow> tracker \<Rightarrow> bytes \<Rightarrow> bytes \<Rightarrow> 's \<Rightarrow> 's \<times> go_error option" where
  "complete_tracker_oauth exchanger store installation provider code redirect s =
     (case (exchanger, store) of
        (Some exchange, Some save) \<Rightarrow>
          if installation \<le> 0 \<or> (provider \<noteq> linear \<and> provider \<noteq> jira) \<or> code = [] \<or> \<not> has_prefix ''https://'' redirect
          then (s, Some (Msg ''OAuth exchanger, store, tenant, provider, code, and HTTPS redirect are required''))
          else (case exchange s provider code redirect of
             (s', Inl e) \<Rightarrow> (s', Some e)
           | (s', Inr grant) \<Rightarrow>
               if og_provider grant \<noteq> provider \<or> og_account grant = [] \<or> og_access_token grant = []
               then (s', Some (Msg ''issue tracker OAuth grant is incomplete or for the wrong provider''))
               else save s' installation grant)
      | _ \<Rightarrow> (s, Some (Msg ''OAuth exchanger, store, tenant, provider, code, and HTTPS redirect are required'')))"

text \<open>A store that records what it is asked to save.\<close>

definition recording_grants :: "((int \<times> oauth_grant) list \<Rightarrow> go_error option) \<Rightarrow> (int \<times> oauth_grant) list \<Rightarrow> int \<Rightarrow> oauth_grant \<Rightarrow> (int \<times> oauth_grant) list \<times> go_error option" where
  "recording_grants answer l i g = (l @ [(i, g)], answer l)"

lemma tracker_grant_bound:
  "fst (complete_tracker_oauth (Some (\<lambda>l p code redirect. (l, exchange p code redirect))) (Some (recording_grants answer))
     installation provider code redirect []) \<in>
   {[]} \<union> {[(installation, g)] | g. 0 < installation \<and> provider \<in> {linear, jira} \<and> exchange provider code redirect = Inr g \<and> og_provider g = provider
              \<and> og_account g \<noteq> [] \<and> og_access_token g \<noteq> []}"
  by (cases "exchange provider code redirect") (auto simp: complete_tracker_oauth_def recording_grants_def)

text \<open>The pattern is not anchored: any text around a key passes for one.\<close>

lemma issue_key_unanchored: "rx_matches issue_key_pattern ''not a key: ABC-1!''"
  by code_simp

lemma twenty_one_criteria:
  "length (criteria_loop ascii_tables False (replicate 21 ''- [ ] a'') []) = 21"
proof -
  have "trim_chars ''#*: '' ''- [ ] a'' = ''- [ ] a''" by code_simp
  moreover have "to_lower ascii_tables ''- [ ] a'' = ''- [ ] a''"
    by (simp add: to_lower_def runes_ascii ascii_tables_def encode_rune_def char_of_def bit_0)
  ultimately have a: "\<not> criteria_heading ascii_tables ''- [ ] a''" by (simp add: criteria_heading_def)
  have b: "trim_space ''- [ ] a'' = ''- [ ] a''" by (simp add: trim_space_visible visible_def)
  have c: "checkbox ''- [ ] a''" by code_simp
  show ?thesis using checkboxes_unbounded [OF a b c, of 21 "[]"] by simp
qed

end
