(* ===== verification/Slack.thy ===== *)
theory Slack
  imports Access Webhooks Commands
begin

text \<open>
  Slack: \<open>internal/hosted/integrations/slack/slack.go\<close>. HMAC-SHA256, JSON, the exchange of a code and the store
  of installations are parameters; \<open>url.ParseQuery\<close> is modelled.
\<close>

definition max_slack_body_bytes :: nat where "max_slack_body_bytes = 1048576"

section \<open>Requests\<close>

definition slack_message :: "bytes \<Rightarrow> bytes \<Rightarrow> bytes" where
  "slack_message timestamp body = ''v0:'' @ timestamp @ '':'' @ body"

definition verify_request :: "(bytes \<Rightarrow> bytes \<Rightarrow> bytes) \<Rightarrow> bytes \<Rightarrow> bytes \<Rightarrow> bytes \<Rightarrow> bytes \<Rightarrow> int \<Rightarrow> go_error option" where
  "verify_request hmac secret timestamp given_sig body now =
     (if secret = [] \<or> length body > max_slack_body_bytes \<or> \<not> has_prefix ''v0='' given_sig
      then Some (Msg ''Slack request signature is invalid'')
      else if (case parse_int64 timestamp of
                 None \<Rightarrow> True
               | Some sec \<Rightarrow> time_sub now (unix_time sec) > 300 * second_ns \<or> time_sub (unix_time sec) now > 300 * second_ns)
      then Some (Msg ''Slack request timestamp is outside tolerance'')
      else if hex_decode (trim_prefix ''v0='' given_sig) \<noteq> Some (hmac secret (slack_message timestamp body))
      then Some (Msg ''Slack request signature is invalid'')
      else None)"

text \<open>
  A request passes exactly when a secret is configured, its body is within the limit, its timestamp
  is a number of seconds at most five minutes from now in either direction, and its signature is the
  hexadecimal HMAC of that timestamp and body.
\<close>

theorem slack_request_authentic:
  "verify_request hmac secret timestamp given_sig body now = None \<longleftrightarrow>
     secret \<noteq> [] \<and> length body \<le> 1048576
     \<and> (\<exists>sec digest. parse_int64 timestamp = Some sec \<and> \<bar>unix_time sec - now\<bar> \<le> 300 * second_ns
          \<and> given_sig = ''v0='' @ digest \<and> hex_decode digest = Some (hmac secret (''v0:'' @ timestamp @ '':'' @ body)))"
proof -
  have near: "\<not> (time_sub now t > 300 * second_ns \<or> time_sub t now > 300 * second_ns) \<longleftrightarrow> \<bar>t - now\<bar> \<le> 300 * second_ns" for t
    by (auto simp: time_sub_def second_ns_def min_def max_def)
  have prefix: "has_prefix ''v0='' given_sig \<Longrightarrow> given_sig = ''v0='' @ trim_prefix ''v0='' given_sig"
    by (auto simp: trim_prefix_def has_prefix_iff)
  have trim: "trim_prefix ''v0='' (''v0='' @ digest) = digest" for digest
    by (simp add: trim_prefix_def has_prefix_def)
  show ?thesis
  proof (cases "secret = [] \<or> length body > max_slack_body_bytes \<or> \<not> has_prefix ''v0='' given_sig")
    case True
    then show ?thesis by (auto simp: verify_request_def max_slack_body_bytes_def has_prefix_iff)
  next
    case False
    then obtain digest where digest: "given_sig = ''v0='' @ digest" using prefix by blast
    show ?thesis
    proof (cases "parse_int64 timestamp")
      case None
      then show ?thesis by (simp add: verify_request_def)
    next
      case (Some sec)
      then show ?thesis using False near [of "unix_time sec"]
        by (auto simp: verify_request_def digest trim slack_message_def max_slack_body_bytes_def simp del: append.simps)
    qed
  qed
qed

lemma cut_at_Some:
  assumes "cut_at c s = Some (a, b)"
  shows "s = a @ c # b"
proof -
  have "c \<in> set s" and ab: "a = takeWhile (\<lambda>x. x \<noteq> c) s" "b = tl (dropWhile (\<lambda>x. x \<noteq> c) s)"
    using assms by (auto simp: cut_at_def split: if_splits)
  then have "dropWhile (\<lambda>x. x \<noteq> c) s \<noteq> []" "hd (dropWhile (\<lambda>x. x \<noteq> c) s) = c"
    using hd_dropWhile [of "\<lambda>x. x \<noteq> c" s] by (auto simp: dropWhile_eq_Nil_conv)
  then have "dropWhile (\<lambda>x. x \<noteq> c) s = c # b" using ab(2) by (metis list.collapse)
  then show ?thesis using takeWhile_dropWhile_id [of "\<lambda>x. x \<noteq> c" s] ab(1) by simp
qed

lemma cut_at_append: "c \<notin> set a \<Longrightarrow> cut_at c (a @ c # b) = Some (a, b)"
  by (induction a) (auto simp: cut_at_def)

section \<open>OAuth\<close>

record slack_state =
  st_installation :: int
  st_nonce :: bytes
  st_expires :: int

record slack_library =
  sl_hmac :: "bytes \<Rightarrow> bytes \<Rightarrow> bytes"
  sl_marshal :: "slack_state \<Rightarrow> bytes"
  sl_unmarshal :: "bytes \<Rightarrow> slack_state option"

definition sign_slack_state :: "slack_library \<Rightarrow> slack_state \<Rightarrow> bytes \<Rightarrow> bytes res" where
  "sign_slack_state lib st secret =
     (if st_installation st \<le> 0 \<or> st_nonce st = [] \<or> st_expires st \<le> 0 \<or> secret = []
      then Inl (Msg ''tenant, nonce, expiry, and state secret are required'')
      else let encoded = b64_encode (sl_marshal lib st) in
        Inr (encoded @ ''.'' @ b64_encode (sl_hmac lib secret encoded)))"

definition verify_slack_state :: "slack_library \<Rightarrow> bytes \<Rightarrow> bytes \<Rightarrow> int \<Rightarrow> slack_state res" where
  "verify_slack_state lib given secret now =
     (case cut_at CHR ''.'' given of
        None \<Rightarrow> Inl (Msg ''Slack OAuth state is malformed'')
      | Some (encoded, given_sig) \<Rightarrow>
          if secret = [] then Inl (Msg ''Slack OAuth state is malformed'')
          else (case b64_decode given_sig of
             None \<Rightarrow> Inl (Msg ''Slack OAuth state signature is malformed'')
           | Some want \<Rightarrow>
               if want \<noteq> sl_hmac lib secret encoded then Inl (Msg ''Slack OAuth state signature is invalid'')
               else (case b64_decode encoded of
                  None \<Rightarrow> Inl (Msg ''Slack OAuth state payload is malformed'')
                | Some payload \<Rightarrow>
                    (case sl_unmarshal lib payload of
                       None \<Rightarrow> Inl (Msg ''Slack OAuth state is invalid or expired'')
                     | Some st \<Rightarrow>
                         if st_installation st \<le> 0 \<or> st_nonce st = [] \<or> unix_seconds now > st_expires st
                         then Inl (Msg ''Slack OAuth state is invalid or expired'')
                         else Inr st))))"

record slack_grant =
  sn_team_id :: bytes
  sn_team_name :: bytes
  sn_bot_token :: bytes
  sn_scopes :: "bytes list"

definition complete_slack_oauth ::
    "slack_library \<Rightarrow> ('s \<Rightarrow> bytes \<Rightarrow> 's \<times> slack_grant res) option
     \<Rightarrow> ('s \<Rightarrow> int \<Rightarrow> slack_grant \<Rightarrow> bytes \<Rightarrow> 's \<times> go_error option) option \<Rightarrow> bytes \<Rightarrow> bytes \<Rightarrow> bytes \<Rightarrow> int \<Rightarrow> 's
     \<Rightarrow> 's \<times> go_error option" where
  "complete_slack_oauth lib client store code signed secret now s =
     (case (client, store) of
        (Some exchange, Some save) \<Rightarrow>
          if code = [] then (s, Some (Msg ''Slack OAuth client, store, and code are required''))
          else (case verify_slack_state lib signed secret now of
             Inl e \<Rightarrow> (s, Some e)
           | Inr st \<Rightarrow>
          (case exchange s code of
             (s', Inl e) \<Rightarrow> (s', Some e)
           | (s', Inr grant) \<Rightarrow>
               if sn_team_id grant = [] \<or> sn_bot_token grant = [] then (s', Some (Msg ''Slack OAuth grant is incomplete''))
               else if ''chat:write'' \<notin> set (sn_scopes grant) \<or> ''commands'' \<notin> set (sn_scopes grant)
               then (s', Some (Msg ''Slack OAuth grant is missing chat:write or commands''))
               else save s' (st_installation st) grant (st_nonce st)))
      | _ \<Rightarrow> (s, Some (Msg ''Slack OAuth client, store, and code are required'')))"

text \<open>A store that records what it is asked to save.\<close>

type_synonym slack_saves = "(int \<times> slack_grant \<times> bytes) list"

definition recording_slack :: "(slack_saves \<Rightarrow> go_error option) \<Rightarrow> slack_saves \<Rightarrow> int \<Rightarrow> slack_grant \<Rightarrow> bytes \<Rightarrow> slack_saves \<times> go_error option" where
  "recording_slack answer l i g nonce = (l @ [(i, g, nonce)], answer l)"

lemma verify_slack_state_ok:
  assumes "verify_slack_state lib given secret now = Inr st"
  shows "\<exists>encoded given_sig payload. given = encoded @ ''.'' @ given_sig \<and> secret \<noteq> []
    \<and> b64_decode given_sig = Some (sl_hmac lib secret encoded) \<and> b64_decode encoded = Some payload
    \<and> sl_unmarshal lib payload = Some st \<and> 0 < st_installation st \<and> st_nonce st \<noteq> [] \<and> unix_seconds now \<le> st_expires st"
proof -
  obtain encoded given_sig payload where parts: "cut_at CHR ''.'' given = Some (encoded, given_sig)"
      and ok: "secret \<noteq> []" "b64_decode given_sig = Some (sl_hmac lib secret encoded)" "b64_decode encoded = Some payload"
        "sl_unmarshal lib payload = Some st" "0 < st_installation st" "st_nonce st \<noteq> []" "unix_seconds now \<le> st_expires st"
    using assms by (auto simp: verify_slack_state_def split: option.splits if_splits)
  have "given = encoded @ ''.'' @ given_sig" using cut_at_Some [OF parts] by simp
  then show ?thesis using ok by blast
qed

text \<open>
  An installation is saved at most once, and only for the tenant and the nonce of a state that is
  signed with the server's secret and has not expired, with a grant that has a team, a bot token and
  the two scopes the service needs.
\<close>

theorem slack_install_bound_to_state:
  "case complete_slack_oauth lib (Some (\<lambda>l c. (l, exchange c))) (Some (recording_slack answer)) code signed secret now [] of
     (l, e) \<Rightarrow> (l = [] \<and> e \<noteq> None)
       \<or> (\<exists>st grant encoded given_sig payload. l = [(st_installation st, grant, st_nonce st)] \<and> e = answer []
           \<and> exchange code = Inr grant \<and> sn_team_id grant \<noteq> [] \<and> sn_bot_token grant \<noteq> []
           \<and> {''chat:write'', ''commands''} \<subseteq> set (sn_scopes grant)
           \<and> signed = encoded @ ''.'' @ given_sig \<and> b64_decode given_sig = Some (sl_hmac lib secret encoded)
           \<and> b64_decode encoded = Some payload \<and> sl_unmarshal lib payload = Some st \<and> 0 < st_installation st
           \<and> unix_seconds now \<le> st_expires st)"
proof (cases "code = []")
  case False
  show ?thesis
  proof (cases "verify_slack_state lib signed secret now")
    case (Inl e)
    then show ?thesis using False by (simp add: complete_slack_oauth_def)
  next
    case st: (Inr st)
    show ?thesis
    proof (cases "exchange code")
      case (Inl e)
      then show ?thesis using False st by (simp add: complete_slack_oauth_def)
    next
      case (Inr grant)
      show ?thesis
      proof (cases "sn_team_id grant = [] \<or> sn_bot_token grant = [] \<or> ''chat:write'' \<notin> set (sn_scopes grant) \<or> ''commands'' \<notin> set (sn_scopes grant)")
        case True
        then show ?thesis using False st Inr by (auto simp: complete_slack_oauth_def)
      next
        case ok: False
        then have "complete_slack_oauth lib (Some (\<lambda>l c. (l, exchange c))) (Some (recording_slack answer)) code signed secret now []
            = ([(st_installation st, grant, st_nonce st)], answer [])"
          using False st Inr by (simp add: complete_slack_oauth_def recording_slack_def)
        then show ?thesis using verify_slack_state_ok [OF st] ok Inr by auto
      qed
    qed
  qed
qed (simp add: complete_slack_oauth_def)

text \<open>What is signed is accepted until it expires, and yields the state it was made of.\<close>

lemma signed_slack_state_verifies:
  assumes "sign_slack_state lib st secret = Inr signed" "sl_unmarshal lib (sl_marshal lib st) = Some st"
  shows "verify_slack_state lib signed secret now =
    (if unix_seconds now \<le> st_expires st then Inr st else Inl (Msg ''Slack OAuth state is invalid or expired''))"
proof -
  let ?encoded = "b64_encode (sl_marshal lib st)"
  have "CHR ''.'' \<notin> set ?encoded" using b64_alphabet b64_char_not(1) by fastforce
  then have "cut_at CHR ''.'' (?encoded @ CHR ''.'' # rest) = Some (?encoded, rest)" for rest by (rule cut_at_append)
  then show ?thesis using assms
    by (auto simp: sign_slack_state_def verify_slack_state_def Let_def b64_decode_encode split: if_splits)
qed

section \<open>Messages\<close>

record slack_text =
  tx_type :: bytes
  tx_text :: bytes

record slack_block =
  bk_type :: bytes
  bk_text :: "slack_text option"
  bk_fields :: "slack_text list"

record slack_post =
  sm_text :: bytes
  sm_blocks :: "slack_block list"

definition siren :: bytes where "siren = [CHR 0xF0, CHR 0x9F, CHR 0x9A, CHR 0xA8]"

definition review_heading :: "bytes \<Rightarrow> int \<Rightarrow> int \<Rightarrow> bytes" where
  "review_heading repository pull p0 =
     (if p0 > 0 then siren @ '' '' @ dec_int p0 @ '' P0 finding(s): '' @ repository @ '' !'' @ dec_int pull
      else ''px1 review: '' @ repository @ '' !'' @ dec_int pull)"

definition text_block :: "bytes \<Rightarrow> bytes \<Rightarrow> bytes \<Rightarrow> slack_block" where
  "text_block kind text_type v = \<lparr>bk_type = kind, bk_text = Some \<lparr>tx_type = text_type, tx_text = v\<rparr>, bk_fields = []\<rparr>"

definition review_message :: "bytes \<Rightarrow> int \<Rightarrow> int \<Rightarrow> bytes \<Rightarrow> bytes \<Rightarrow> slack_post res" where
  "review_message repository pull p0 summary review_url =
     (if repository = [] \<or> length repository > 200 \<or> pull \<le> 0 \<or> p0 < 0 \<or> summary = [] \<or> length summary > 2800
        \<or> \<not> has_prefix ''https://'' review_url
      then Inl (Msg ''repository, pull request, summary, and HTTPS review URL are required'')
      else Inr \<lparr>sm_text = review_heading repository pull p0,
             sm_blocks = [text_block ''header'' ''plain_text'' (review_heading repository pull p0),
               text_block ''section'' ''mrkdwn'' summary,
               text_block ''section'' ''mrkdwn'' (''<'' @ review_url @ ''|Open commit-pinned review>'')]\<rparr>)"

text \<open>
  Slack refuses a header block of more than 150 characters; a repository name of 200 is let through, so
  the message made of it cannot be posted.
\<close>

lemma long_header_accepted:
  "\<exists>m. review_message (replicate 200 CHR ''r'') 1 0 ''ok'' ''https://h'' = Inr m
     \<and> list_ex (\<lambda>b. bk_type b = ''header'' \<and> (case bk_text b of None \<Rightarrow> False | Some t \<Rightarrow> 150 < length (tx_text t))) (sm_blocks m)"
  by (simp add: review_message_def text_block_def review_heading_def has_prefix_def)

section \<open>Commands\<close>

text \<open>\<open>url.QueryUnescape\<close>\<close>

fun query_unescape :: "bytes \<Rightarrow> bytes option" where
  "query_unescape [] = Some []"
| "query_unescape (c # s) =
     (if c = CHR ''%''
      then (case s of
              a # b # t \<Rightarrow>
                (case (hex_value a, hex_value b, query_unescape t) of
                   (Some x, Some y, Some r) \<Rightarrow> Some (char_of (16 * x + y) # r)
                 | _ \<Rightarrow> None)
            | _ \<Rightarrow> None)
      else map_option (Cons (if c = CHR ''+'' then CHR '' '' else c)) (query_unescape s))"

text \<open>
  \<open>url.ParseQuery\<close>: the pairs in the order of the text, nothing when any piece is in error. Empty pieces
  are skipped, a piece with a semicolon is an error.
\<close>

fun parse_pieces :: "bytes list \<Rightarrow> (bytes \<times> bytes) list option" where
  "parse_pieces [] = Some []"
| "parse_pieces (piece # pieces) =
     (if CHR '';'' \<in> set piece then None
      else if piece = [] then parse_pieces pieces
      else let (k, v) = (case cut_at CHR ''='' piece of None \<Rightarrow> (piece, []) | Some kv \<Rightarrow> kv) in
        (case (query_unescape k, query_unescape v, parse_pieces pieces) of
           (Some k', Some v', Some rest) \<Rightarrow> Some ((k', v') # rest)
         | _ \<Rightarrow> None))"

definition parse_query :: "bytes \<Rightarrow> (bytes \<times> bytes) list option" where
  "parse_query s = (if s = [] then Some [] else parse_pieces (split_on CHR ''&'' s))"

definition query_get :: "bytes \<Rightarrow> (bytes \<times> bytes) list \<Rightarrow> bytes" where
  "query_get k kvs = (case map_of kvs k of None \<Rightarrow> [] | Some v \<Rightarrow> v)"

record status_command =
  su_response_url :: bytes
  su_repository :: bytes
  su_pull :: int

definition parse_status_command :: "bytes \<Rightarrow> status_command res" where
  "parse_status_command body =
     (if body = [] \<or> length body > max_slack_body_bytes then Inl (Msg ''Slack command body is empty or too large'')
      else case parse_query body of
        None \<Rightarrow> Inl (Msg ''unsupported Slack command'')
      | Some values \<Rightarrow>
          if query_get ''command'' values \<noteq> ''/px1'' then Inl (Msg ''unsupported Slack command'')
          else let parts = space_fields (query_get ''text'' values) in
            if length parts \<noteq> 3 \<or> parts ! 0 \<noteq> ''status'' then Inl (Msg ''usage: /px1 status owner/repo PR'')
            else (case parse_int64 (trim_prefix ''#'' (parts ! 2)) of
               None \<Rightarrow> Inl (Msg ''usage: /px1 status owner/repo PR'')
             | Some pull \<Rightarrow>
                 if pull \<le> 0 \<or> CHR ''/'' \<notin> set (parts ! 1) then Inl (Msg ''usage: /px1 status owner/repo PR'')
                 else let response_url = query_get ''response_url'' values in
                   if \<not> has_prefix ''https://hooks.slack.com/'' response_url then Inl (Msg ''Slack response URL is invalid'')
                   else Inr \<lparr>su_response_url = response_url, su_repository = parts ! 1, su_pull = pull\<rparr>))"

lemma parse_status_command_ok:
  assumes "parse_status_command body = Inr c"
  shows "has_prefix ''https://hooks.slack.com/'' (su_response_url c) \<and> 0 < su_pull c \<and> CHR ''/'' \<in> set (su_repository c)
    \<and> (\<exists>kvs. parse_query body = Some kvs \<and> query_get ''command'' kvs = ''/px1'')"
  using assms by (auto simp: parse_status_command_def Let_def split: if_splits option.splits)

text \<open>What \<open>url.Values.Encode\<close> writes, \<open>url.ParseQuery\<close> reads back.\<close>

lemma upper_hex_value: "n < 16 \<Longrightarrow> hex_value (upper_hex n) = Some n"
  by (auto simp: hex_value_def upper_hex_def Let_def)

lemma query_plain_char: "alnum_char c \<or> c \<in> set ''-_.~'' \<Longrightarrow> c \<noteq> CHR ''%'' \<and> c \<noteq> CHR ''+'' \<and> c \<noteq> CHR ''&'' \<and> c \<noteq> CHR ''='' \<and> c \<noteq> CHR '';''"
  by (auto simp: alnum_char_def ascii_upper_def ascii_lower_def ascii_digit_def less_eq_char_def)

definition query_plain :: "char \<Rightarrow> bool" where
  "query_plain c = (alnum_char c \<or> c \<in> set ''-_.~'')"

lemma query_escape_Cons:
  "query_escape (c # s) = (if query_plain c then [c] else if c = CHR '' '' then ''+''
     else [CHR ''%'', upper_hex (of_char c div 16), upper_hex (of_char c mod 16)]) @ query_escape s"
  by (simp only: query_escape_def query_plain_def list.map concat.simps)

lemma query_unescape_other: "c \<noteq> CHR ''%'' \<Longrightarrow> c \<noteq> CHR ''+'' \<Longrightarrow> query_unescape (c # s) = map_option (Cons c) (query_unescape s)"
  by simp

lemma query_unescape_hex: "x < 16 \<Longrightarrow> y < 16 \<Longrightarrow>
    query_unescape (CHR ''%'' # upper_hex x # upper_hex y # s) = map_option (Cons (char_of (16 * x + y))) (query_unescape s)"
  by (cases "query_unescape s") (simp_all add: upper_hex_value)

lemma query_unescape_escape: "query_unescape (query_escape s) = Some s"
proof (induction s)
  case Nil
  then show ?case by (simp add: query_escape_def)
next
  case (Cons c s)
  consider (plain) "query_plain c" | (space) "\<not> query_plain c" "c = CHR '' ''" | (other) "\<not> query_plain c" "c \<noteq> CHR '' ''" by blast
  then show ?case
  proof cases
    case plain
    then have "c \<noteq> CHR ''%''" "c \<noteq> CHR ''+''" using query_plain_char [of c, folded query_plain_def] by blast+
    then show ?thesis using plain Cons by (simp add: query_escape_Cons query_unescape_other del: query_unescape.simps)
  next
    case space
    then show ?thesis using Cons by (simp add: query_escape_Cons)
  next
    case other
    have "of_char c < (256 :: nat)" by simp
    then have "(of_char c :: nat) div 16 < 16" "(of_char c :: nat) mod 16 < 16" by simp_all
    then show ?thesis
      using other Cons query_unescape_hex [of "of_char c div 16" "of_char c mod 16" "query_escape s"]
      by (simp only: query_escape_Cons if_False append.simps option.map mult_div_mod_eq char_of_char)
  qed
qed

end
