(* ===== verification/Providers.thy ===== *)
theory Providers
  imports Llm GoHttp
begin

text \<open>
  \<open>internal/hosted/llm/providers.go\<close>: the OpenAI, Anthropic and Bedrock adapters behind the gateway.
  JSON, \<open>url.Parse\<close> and the HTTP client are parameters. An error carries what \<open>errors.As\<close> finds of
  a \<open>Temporary\<close> method in it, which is how the gateway reads it.
\<close>

section \<open>What is sent and what is decoded\<close>

record llm_message =
  lm_role :: bytes
  lm_content :: bytes

datatype llm_payload =
    Responses_payload bytes "llm_message list" int
  | Messages_payload bytes bytes "llm_message list" int rat

record openai_reply =
  oa_id :: bytes
  oa_output :: "bytes list list"
  oa_input_tokens :: int
  oa_output_tokens :: int
  oa_cached_tokens :: int

record anthropic_reply =
  an_id :: bytes
  an_content :: "bytes list"
  an_input_tokens :: int
  an_output_tokens :: int
  an_cache_read_input_tokens :: int

type_synonym failure = "go_error \<times> bool"

type_synonym http_client = "nat \<Rightarrow> api_request \<Rightarrow> failure + api_response"

record llm_library =
  lb_marshal :: "llm_payload \<Rightarrow> bytes res"
  lb_url_error :: "bytes \<Rightarrow> go_error option"
  lb_default_client :: http_client
  lb_openai :: "bytes \<Rightarrow> failure + openai_reply"
  lb_anthropic :: "bytes \<Rightarrow> failure + anthropic_reply"

section \<open>One request\<close>

text \<open>\<open>ProviderError\<close>: the status is retried when the provider is overloaded or failing.\<close>

definition provider_error :: "bytes \<Rightarrow> int \<Rightarrow> failure" where
  "provider_error provider status =
     (MsgNum (provider @ '' LLM request failed with status %d'') [status], status = 429 \<or> status \<ge> 500)"

definition post_request :: "llm_library \<Rightarrow> bytes \<Rightarrow> (bytes \<times> bytes) list \<Rightarrow> llm_payload \<Rightarrow> api_request res" where
  "post_request lib endpoint headers payload =
     (case lb_marshal lib payload of
        Inl e \<Rightarrow> Inl e
      | Inr body \<Rightarrow>
          map_sum id (\<lambda>r. foldl (\<lambda>r (name, v). set_header name v r) (set_header ''Content-Type'' ''application/json'' r) headers)
            (new_request (lb_url_error lib) ''POST'' endpoint (Some body)))"

definition post_json ::
    "llm_library \<Rightarrow> http_client option \<Rightarrow> bytes \<Rightarrow> (bytes \<times> bytes) list \<Rightarrow> llm_payload
     \<Rightarrow> (bytes \<Rightarrow> failure + 'a) \<Rightarrow> bytes \<Rightarrow> nat \<Rightarrow> failure + 'a" where
  "post_json lib client endpoint headers payload decode provider k =
     (case post_request lib endpoint headers payload of
        Inl e \<Rightarrow> Inl (e, False)
      | Inr request \<Rightarrow>
          (case (case client of None \<Rightarrow> lb_default_client lib | Some c \<Rightarrow> c) k request of
             Inl failed \<Rightarrow> Inl failed
           | Inr response \<Rightarrow>
               if \<not> ok_status (ar_status response) then Inl (provider_error provider (ar_status response))
               else (case decode (limited 8388608 (ar_body response)) of
                  Inl (e, temporary) \<Rightarrow> Inl (Wrapped (''decode '' @ provider @ '' LLM response: %w'') [] e, temporary)
                | Inr v \<Rightarrow> Inr v)))"

section \<open>The adapters\<close>

record openai_provider =
  op_api_key :: bytes
  op_endpoint :: bytes
  op_http :: "http_client option"

definition openai_payload :: "request \<Rightarrow> llm_payload" where
  "openai_payload r =
     Responses_payload (rq_model r)
       [\<lparr>lm_role = ''system'', lm_content = rq_system r\<rparr>, \<lparr>lm_role = ''user'', lm_content = rq_prompt r\<rparr>]
       (rq_max_output_tokens r)"

definition openai_response :: "openai_reply \<Rightarrow> response" where
  "openai_response d =
     \<lparr>rs_text = concat (concat (oa_output d)),
      rs_usage = \<lparr>us_input_tokens = oa_input_tokens d, us_output_tokens = oa_output_tokens d,
        us_cache_read_tokens = oa_cached_tokens d\<rparr>,
      rs_request_id = oa_id d, rs_cached = False\<rparr>"

definition openai_complete :: "llm_library \<Rightarrow> openai_provider \<Rightarrow> nat \<Rightarrow> request \<Rightarrow> attempt_outcome" where
  "openai_complete lib p k r =
     map_sum id openai_response
       (post_json lib (op_http p) (if op_endpoint p = [] then ''https://api.openai.com/v1/responses'' else op_endpoint p)
         [(''Authorization'', ''Bearer '' @ op_api_key p)] (openai_payload r) (lb_openai lib) ''openai'' k)"

record anthropic_provider =
  ap_api_key :: bytes
  ap_endpoint :: bytes
  ap_version :: bytes
  ap_http :: "http_client option"

definition anthropic_payload :: "request \<Rightarrow> llm_payload" where
  "anthropic_payload r =
     Messages_payload (rq_model r) (rq_system r) [\<lparr>lm_role = ''user'', lm_content = rq_prompt r\<rparr>]
       (rq_max_output_tokens r) (rq_temperature r)"

definition anthropic_response :: "anthropic_reply \<Rightarrow> response" where
  "anthropic_response d =
     \<lparr>rs_text = concat (an_content d),
      rs_usage = \<lparr>us_input_tokens = an_input_tokens d, us_output_tokens = an_output_tokens d,
        us_cache_read_tokens = an_cache_read_input_tokens d\<rparr>,
      rs_request_id = an_id d, rs_cached = False\<rparr>"

definition anthropic_complete :: "llm_library \<Rightarrow> anthropic_provider \<Rightarrow> nat \<Rightarrow> request \<Rightarrow> attempt_outcome" where
  "anthropic_complete lib p k r =
     map_sum id anthropic_response
       (post_json lib (ap_http p) (if ap_endpoint p = [] then ''https://api.anthropic.com/v1/messages'' else ap_endpoint p)
         [(''x-api-key'', ap_api_key p), (''anthropic-version'', if ap_version p = [] then ''2023-06-01'' else ap_version p)]
         (anthropic_payload r) (lb_anthropic lib) ''anthropic'' k)"

definition bedrock_complete :: "(nat \<Rightarrow> bytes \<Rightarrow> request \<Rightarrow> attempt_outcome) option \<Rightarrow> nat \<Rightarrow> request \<Rightarrow> attempt_outcome" where
  "bedrock_complete invoker k r =
     (case invoker of
        None \<Rightarrow> Inl (Msg ''bedrock invoker is required'', False)
      | Some invoke \<Rightarrow> invoke k (rq_model r) r)"

section \<open>What leaves the process\<close>

lemma set_headers_keep:
  "aq_method (foldl (\<lambda>r (name, v). set_header name v r) rq h) = aq_method rq"
  "aq_url (foldl (\<lambda>r (name, v). set_header name v r) rq h) = aq_url rq"
  "aq_body (foldl (\<lambda>r (name, v). set_header name v r) rq h) = aq_body rq"
  by (induction h arbitrary: rq) auto

text \<open>
  The key of a provider travels in a header only: method, endpoint and body of the request are the same
  under any other headers.
\<close>

lemma post_request_shape:
  assumes "post_request lib endpoint headers payload = Inr rq"
  shows "aq_method rq = ''POST'' \<and> aq_url rq = endpoint
    \<and> (\<exists>body. lb_marshal lib payload = Inr body \<and> aq_body rq = Some (Inr body))"
  using assms
  by (auto simp: post_request_def new_request_def set_headers_keep split: sum.splits option.splits)

lemma api_key_only_in_header:
  assumes "post_request lib endpoint headers payload = Inr rq" "post_request lib endpoint headers' payload = Inr rq'"
  shows "aq_method rq = aq_method rq' \<and> aq_url rq = aq_url rq' \<and> aq_body rq = aq_body rq'"
  using post_request_shape [OF assms(1)] post_request_shape [OF assms(2)] by auto

section \<open>Which failures are tried again\<close>

definition worth_retrying :: "(bytes \<Rightarrow> failure + 'a) \<Rightarrow> failure + api_response \<Rightarrow> bool" where
  "worth_retrying decode answer =
     (case answer of
        Inl (e, temporary) \<Rightarrow> temporary
      | Inr response \<Rightarrow>
          if ok_status (ar_status response)
          then (case decode (limited 8388608 (ar_body response)) of Inl (e, temporary) \<Rightarrow> temporary | Inr _ \<Rightarrow> False)
          else ar_status response = 429 \<or> ar_status response \<ge> 500)"

lemma post_json_temporary:
  assumes "post_json lib (Some client) endpoint headers payload decode provider k = Inl (e, True)"
  shows "case post_request lib endpoint headers payload of Inl _ \<Rightarrow> False | Inr rq \<Rightarrow> worth_retrying decode (client k rq)"
  using assms
  by (auto simp: post_json_def worth_retrying_def provider_error_def split: sum.splits prod.splits if_splits)

lemma post_json_ok:
  assumes "post_json lib (Some client) endpoint headers payload decode provider k = Inr v"
  shows "\<exists>rq response. post_request lib endpoint headers payload = Inr rq \<and> client k rq = Inr response
    \<and> ok_status (ar_status response) \<and> decode (limited 8388608 (ar_body response)) = Inr v"
  using assms by (auto simp: post_json_def split: sum.splits prod.splits if_splits)

lemma post_json_refused:
  assumes "post_request lib endpoint headers payload = Inr rq" "client k rq = Inr response"
    "\<not> ok_status (ar_status response)" "ar_status response \<noteq> 429" "ar_status response < 500"
  shows "post_json lib (Some client) endpoint headers payload decode provider k =
    Inl (fst (provider_error provider (ar_status response)), False)"
  using assms by (simp add: post_json_def provider_error_def)

lemma map_sum_Inl_iff: "map_sum id f x = Inl e \<longleftrightarrow> x = Inl e"
  by (cases x) auto

lemma map_sum_Inr_iff: "map_sum id f x = Inr y \<longleftrightarrow> (\<exists>v. x = Inr v \<and> y = f v)"
  by (cases x) auto

text \<open>
  The attempts of the gateway over any adapter built on \<open>postJSON\<close>: what \<open>retry_loop_stops\<close> says of the
  loop, told of the answers on the wire.
\<close>

lemma wire_attempts:
  assumes "retry_loop (\<lambda>k. map_sum id f (post_json lib (Some client) endpoint headers payload decode provider k)) sleep m 0 = (n, res)"
  shows "1 \<le> n \<and> n \<le> m + 1
    \<and> list_all (\<lambda>k. case post_request lib endpoint headers payload of Inl _ \<Rightarrow> False
         | Inr rq \<Rightarrow> worth_retrying decode (client k rq)) [0..<n - 1]
    \<and> (case res of Inl _ \<Rightarrow> True | Inr r \<Rightarrow>
         (\<exists>rq response v. post_request lib endpoint headers payload = Inr rq \<and> client (n - 1) rq = Inr response
            \<and> ok_status (ar_status response) \<and> decode (limited 8388608 (ar_body response)) = Inr v \<and> r = f v))"
proof -
  let ?call = "\<lambda>k. map_sum id f (post_json lib (Some client) endpoint headers payload decode provider k)"
  note stops = retry_loop_stops [OF assms le0]
  have before: "case post_request lib endpoint headers payload of Inl _ \<Rightarrow> False | Inr rq \<Rightarrow> worth_retrying decode (client k rq)"
    if "k < n - 1" for k
  proof -
    obtain e where "?call k = Inl (e, True)" using stops \<open>k < n - 1\<close> le0 [of k] by blast
    then show ?thesis by (intro post_json_temporary) (simp only: map_sum_Inl_iff)
  qed
  have last: "\<exists>rq response v. post_request lib endpoint headers payload = Inr rq \<and> client (n - 1) rq = Inr response
      \<and> ok_status (ar_status response) \<and> decode (limited 8388608 (ar_body response)) = Inr v \<and> r = f v" if res: "res = Inr r" for r
  proof -
    have final: "case ?call (n - 1) of Inr r' \<Rightarrow> res = Inr r' | Inl (e, temporary) \<Rightarrow>
        if n = m + 1 \<or> \<not> temporary then res = Inl e else (\<exists>e'. sleep (backoff (n - 1)) = Some e' \<and> res = Inl e')"
      using stops by blast
    obtain v where v: "post_json lib (Some client) endpoint headers payload decode provider (n - 1) = Inr v" "r = f v"
    proof (cases "post_json lib (Some client) endpoint headers payload decode provider (n - 1)")
      case (Inl failed)
      then show ?thesis using final res by (cases failed) (auto split: if_splits)
    next
      case (Inr v)
      then show ?thesis using final res that [of v] by simp
    qed
    then show ?thesis using post_json_ok [OF v(1)] by blast
  qed
  have n: "1 \<le> n" "n \<le> m + 1" using stops by linarith+
  show ?thesis
  proof (intro conjI)
    show "list_all (\<lambda>k. case post_request lib endpoint headers payload of Inl _ \<Rightarrow> False
         | Inr rq \<Rightarrow> worth_retrying decode (client k rq)) [0..<n - 1]"
      using before by (simp add: list_all_iff)
    show "case res of Inl _ \<Rightarrow> True | Inr r \<Rightarrow>
         (\<exists>rq response v. post_request lib endpoint headers payload = Inr rq \<and> client (n - 1) rq = Inr response
            \<and> ok_status (ar_status response) \<and> decode (limited 8388608 (ar_body response)) = Inr v \<and> r = f v)"
      using last by (cases res) (simp, simp only: sum.case)
  qed (fact n)+
qed

text \<open>
  The gateway over the OpenAI adapter sends at most one request more than the retries allowed, sends
  another only after an answer worth it (429, a server error, or a failure marked temporary, never a
  refused key or a bad request), and returns nothing but what the last answer, a success, decodes to.
\<close>

theorem openai_retries_are_justified:
  "case retry_loop (\<lambda>k. openai_complete lib \<lparr>op_api_key = key, op_endpoint = endpoint, op_http = Some client\<rparr> k r) sleep m 0 of
     (n, res) \<Rightarrow>
       let request = post_request lib (if endpoint = [] then ''https://api.openai.com/v1/responses'' else endpoint)
                       [(''Authorization'', ''Bearer '' @ key)] (openai_payload r) in
       1 \<le> n \<and> n \<le> m + 1
       \<and> list_all (\<lambda>k. case request of Inl _ \<Rightarrow> False | Inr rq \<Rightarrow> worth_retrying (lb_openai lib) (client k rq)) [0..<n - 1]
       \<and> (case res of Inl _ \<Rightarrow> True | Inr answer \<Rightarrow>
            (\<exists>rq response d. request = Inr rq \<and> client (n - 1) rq = Inr response \<and> ok_status (ar_status response)
               \<and> lb_openai lib (limited 8388608 (ar_body response)) = Inr d \<and> answer = openai_response d))"
  unfolding openai_complete_def openai_provider.simps Let_def
  using wire_attempts [of openai_response lib client _ _ _ "lb_openai lib" "''openai''" sleep m] by (auto split: prod.split)

text \<open>The same for Anthropic: only the endpoint, the headers and the decoder differ.\<close>

lemma anthropic_retries_are_justified:
  assumes "retry_loop (\<lambda>k. anthropic_complete lib \<lparr>ap_api_key = key, ap_endpoint = endpoint, ap_version = version, ap_http = Some client\<rparr> k r)
    sleep m 0 = (n, res)"
  shows "n \<le> m + 1 \<and> (\<exists>request. list_all (\<lambda>k. worth_retrying (lb_anthropic lib) (client k request)) [0..<n - 1])"
proof -
  let ?request = "post_request lib (if endpoint = [] then ''https://api.anthropic.com/v1/messages'' else endpoint)
      [(''x-api-key'', key), (''anthropic-version'', if version = [] then ''2023-06-01'' else version)] (anthropic_payload r)"
  have "n \<le> m + 1 \<and> list_all (\<lambda>k. case ?request of Inl _ \<Rightarrow> False | Inr rq \<Rightarrow> worth_retrying (lb_anthropic lib) (client k rq)) [0..<n - 1]"
    using wire_attempts [OF assms [unfolded anthropic_complete_def anthropic_provider.simps]] by blast
  then show ?thesis by (cases ?request) (auto simp: list_all_iff)
qed

section \<open>Differences between the adapters\<close>

text \<open>
  The temperature the gateway checks and hashes into the cache key reaches Anthropic only: for OpenAI
  requests that differ in nothing else are the same request.
\<close>

lemma openai_ignores_temperature: "openai_complete lib p k (r\<lparr>rq_temperature := t\<rparr>) = openai_complete lib p k r"
  by (simp add: openai_complete_def openai_payload_def)

lemma anthropic_sends_temperature: "anthropic_payload (r\<lparr>rq_temperature := t\<rparr>) = anthropic_payload r \<longleftrightarrow> rq_temperature r = t"
  by (auto simp: anthropic_payload_def)

text \<open>
  OpenAI counts cached tokens among the input tokens, Anthropic beside them; the adapters copy both, and
  the gateway's cost adds the cached tokens on top. A prompt of a million tokens, all of them cached, is
  charged at the full price and at the cached price.
\<close>

lemma openai_cached_tokens_charged_twice:
  "cost p (rs_usage (openai_response \<lparr>oa_id = [], oa_output = [], oa_input_tokens = 1000000, oa_output_tokens = 0, oa_cached_tokens = 1000000\<rparr>))
     = input_microusd_per_million p + cache_read_microusd_per_million p"
  if "p = \<lparr>input_microusd_per_million = 2500000, output_microusd_per_million = 10000000, cache_read_microusd_per_million = 1250000\<rparr>"
  unfolding that by code_simp

text \<open>A missing Bedrock invoker is an error that is not tried again.\<close>

lemma bedrock_without_invoker: "retry_loop (bedrock_complete_of_request) sleep m 0 = (1, Inl (Msg ''bedrock invoker is required''))"
  if "bedrock_complete_of_request = (\<lambda>k. bedrock_complete None k r)"
  using that by (simp add: bedrock_complete_def retry_loop.simps)

end
