(* ===== verification/CommandLine.thy ===== *)
theory CommandLine
  imports ReportOutput Config Bundle
begin

text \<open>
  The command line: \<open>main.go\<close>, the commands' flags (\<open>export.go\<close>, \<open>explanation_generate.go\<close>, \<open>validate_config.go\<close>,
  \<open>validate_rules.go\<close>, \<open>privacy.go\<close>, \<open>summary_comment.go\<close>) and the exporter that runs it as a subprocess
  (\<open>report/publish.go\<close>). Package \<open>flag\<close> is modelled. Git, the file system, JSON and HTTP are the fields of an
  environment; printing to standard output does not fail, standard error is not kept, and a file of the report
  that cannot be written is as it was.
\<close>

section \<open>Package flag\<close>

record 'a go_flag =
  fl_name :: bytes
  fl_bool :: bool
  fl_set :: "bytes \<Rightarrow> 'a \<Rightarrow> 'a res"

definition string_flag :: "bytes \<Rightarrow> (bytes \<Rightarrow> 'a \<Rightarrow> 'a) \<Rightarrow> 'a go_flag" where
  "string_flag name put = \<lparr>fl_name = name, fl_bool = False, fl_set = (\<lambda>v x. Inr (put v x))\<rparr>"

definition parse_bool :: "bytes \<Rightarrow> bool option" where
  "parse_bool s =
     (if s \<in> {''1'', ''t'', ''T'', ''true'', ''TRUE'', ''True''} then Some True
      else if s \<in> {''0'', ''f'', ''F'', ''false'', ''FALSE'', ''False''} then Some False else None)"

definition bool_flag :: "bytes \<Rightarrow> (bool \<Rightarrow> 'a \<Rightarrow> 'a) \<Rightarrow> 'a go_flag" where
  "bool_flag name put =
     \<lparr>fl_name = name, fl_bool = True,
      fl_set = (\<lambda>v x. case parse_bool v of None \<Rightarrow> Inl (Msg ''parse error'') | Some b \<Rightarrow> Inr (put b x))\<rparr>"

datatype argument = Positional | Terminator | Bad_Syntax | Flagged bytes "bytes option"

definition read_argument :: "bytes \<Rightarrow> argument" where
  "read_argument s =
     (if length s < 2 \<or> s ! 0 \<noteq> CHR ''-'' then Positional
      else if s = ''--'' then Terminator
      else let name = drop (if s ! 1 = CHR ''-'' then 2 else 1) s in
        if name = [] \<or> name ! 0 = CHR ''-'' \<or> name ! 0 = CHR ''='' then Bad_Syntax
        else (case cut_at CHR ''='' name of None \<Rightarrow> Flagged name None | Some (n, v) \<Rightarrow> Flagged n (Some v)))"

text \<open>\<open>FlagSet.Parse\<close>: what the flags are set to, and the arguments that are left.\<close>

fun parse_flags :: "'a go_flag list \<Rightarrow> bytes list \<Rightarrow> 'a \<Rightarrow> ('a \<times> bytes list) res" where
  "parse_flags flags [] x = Inr (x, [])"
| "parse_flags flags (s # rest) x =
     (case read_argument s of
        Positional \<Rightarrow> Inr (x, s # rest)
      | Terminator \<Rightarrow> Inr (x, rest)
      | Bad_Syntax \<Rightarrow> Inl (MsgStr ''bad flag syntax: %s'' s)
      | Flagged name given \<Rightarrow>
     (case find (\<lambda>f. fl_name f = name) flags of
        None \<Rightarrow>
          if name = ''help'' \<or> name = ''h'' then Inl (Msg ''flag: help requested'')
          else Inl (MsgStr ''flag provided but not defined: -%s'' name)
      | Some f \<Rightarrow>
          if fl_bool f
          then (case fl_set f (case given of None \<Rightarrow> ''true'' | Some v \<Rightarrow> v) x of
                  Inl e \<Rightarrow> Inl (Wrapped (''invalid boolean value for -'' @ name @ '': %v'') [] e)
                | Inr x' \<Rightarrow> parse_flags flags rest x')
          else (case given of
                  Some v \<Rightarrow>
                    (case fl_set f v x of
                       Inl e \<Rightarrow> Inl (Wrapped (''invalid value for flag -'' @ name @ '': %v'') [] e)
                     | Inr x' \<Rightarrow> parse_flags flags rest x')
                | None \<Rightarrow>
                    (case rest of
                       [] \<Rightarrow> Inl (MsgStr ''flag needs an argument: -%s'' name)
                     | v # rest' \<Rightarrow>
                         (case fl_set f v x of
                            Inl e \<Rightarrow> Inl (Wrapped (''invalid value for flag -'' @ name @ '': %v'') [] e)
                          | Inr x' \<Rightarrow> parse_flags flags rest' x')))))"

lemma read_argument_flag:
  assumes "name \<noteq> []" "name ! 0 \<noteq> CHR ''-''" "CHR ''='' \<notin> set name"
  shows "read_argument (''--'' @ name) = Flagged name None"
    and "read_argument (''--'' @ name @ ''='' @ v) = Flagged name (Some v)"
proof -
  obtain c cs where name: "name = c # cs" using assms(1) by (cases name) auto
  have cut: "cut_at CHR ''='' (name @ CHR ''='' # v) = Some (name, v)"
    using assms(3) by (induction name) (auto simp: cut_at_def)
  have "cut_at CHR ''='' name = None" using assms(3) by (simp add: cut_at_def)
  then show "read_argument (''--'' @ name) = Flagged name None"
    using assms(2,3) by (auto simp: read_argument_def name Let_def)
  show "read_argument (''--'' @ name @ ''='' @ v) = Flagged name (Some v)"
    using assms(2,3) cut by (auto simp: read_argument_def name Let_def)
qed

text \<open>A flag whose value is the next argument takes it whatever it looks like.\<close>

lemma parse_flag_value:
  assumes "read_argument s = Flagged name None" "find (\<lambda>f. fl_name f = name) flags = Some f" "\<not> fl_bool f" "fl_set f v x = Inr x'"
  shows "parse_flags flags (s # v # rest) x = parse_flags flags rest x'"
  using assms by simp

text \<open>Parsing stops at the first argument that is not a flag: what comes after is not looked at.\<close>

lemma parse_flags_positional:
  assumes "parse_flags flags args x = Inr (y, [])" and "read_argument s = Positional"
  shows "parse_flags flags (args @ s # rest) x = Inr (y, s # rest) \<or> (\<exists>pre. args = pre @ [''--''])"
  using assms
proof (induction flags args x rule: parse_flags.induct)
  case (1 flags x)
  then show ?case by simp
next
  case (2 flags a as x)
  show ?case
  proof (cases "read_argument a")
    case Terminator
    then have "a = ''--''" by (auto simp: read_argument_def Let_def split: if_splits option.splits)
    moreover have "as = []" using "2.prems"(1) Terminator by simp
    ultimately show ?thesis by simp
  next
    case (Flagged name given)
    obtain f where f: "find (\<lambda>f. fl_name f = name) flags = Some f"
      using "2.prems"(1) Flagged by (auto split: option.splits if_splits)
    show ?thesis
    proof (cases "fl_bool f")
      case True
      then obtain x' where set: "fl_set f (case given of None \<Rightarrow> ''true'' | Some v \<Rightarrow> v) x = Inr x'"
          and "parse_flags flags as x' = Inr (y, [])"
        using "2.prems"(1) Flagged f by (auto split: sum.splits)
      then have "parse_flags flags (as @ s # rest) x' = Inr (y, s # rest) \<or> (\<exists>pre. as = pre @ [''--''])"
        using "2.IH"(1) [OF Flagged f True set] "2.prems"(2) by blast
      then show ?thesis using Flagged f True set by auto
    next
      case False
      show ?thesis
      proof (cases given)
        case (Some v)
        then obtain x' where set: "fl_set f v x = Inr x'" and "parse_flags flags as x' = Inr (y, [])"
          using "2.prems"(1) Flagged f False by (auto split: sum.splits)
        then have "parse_flags flags (as @ s # rest) x' = Inr (y, s # rest) \<or> (\<exists>pre. as = pre @ [''--''])"
          using "2.IH"(3) [OF Flagged f False Some set] "2.prems"(2) by blast
        then show ?thesis using Flagged f False Some set by auto
      next
        case None
        then obtain v as' x' where as: "as = v # as'" and set: "fl_set f v x = Inr x'" and "parse_flags flags as' x' = Inr (y, [])"
          using "2.prems"(1) Flagged f False by (auto split: sum.splits list.splits)
        then have "parse_flags flags (as' @ s # rest) x' = Inr (y, s # rest) \<or> (\<exists>pre. as' = pre @ [''--''])"
          using "2.IH"(2) [OF Flagged f False None as set] "2.prems"(2) by blast
        then show ?thesis using Flagged f False None as set by auto
      qed
    qed
  qed (use "2.prems"(1) in simp_all)
qed

section \<open>The world of a command\<close>

record 's world =
  wd_files :: disk
  wd_out :: bytes
  wd_model :: 's

record 's environment =
  en_absolute :: "bytes \<Rightarrow> bytes res"
  en_git :: "bytes \<Rightarrow> git"
  en_library :: report_library
  en_page :: page_text
  en_base64 :: "bytes \<Rightarrow> bytes"
  en_asset :: "bytes \<Rightarrow> bytes res"
  en_encode :: "static_report \<Rightarrow> bytes res"
  en_encode_indent :: "static_report \<Rightarrow> bytes res"
  en_decode_report :: "bytes \<Rightarrow> static_report res"
  en_mkdir :: "bytes \<Rightarrow> go_error option"
  en_write :: "bytes \<Rightarrow> go_error option"
  en_read_optional :: "bytes \<Rightarrow> bytes option res"
  en_decode_config :: "bytes \<Rightarrow> (config_input \<times> bytes) res"
  en_encode_config :: "resolved_config \<Rightarrow> bytes res"
  en_encode_rules :: "rule_validation \<Rightarrow> bytes res"
  en_api_key :: bytes
  en_send :: "'s \<Rightarrow> api_request \<Rightarrow> 's \<times> (int \<times> bytes res) res"
  en_encode_request :: "bytes \<Rightarrow> bytes \<Rightarrow> bytes res"
  en_url_error :: "bytes \<Rightarrow> go_error option"
  en_answer :: "bytes \<Rightarrow> responses_answer res"
  en_explanations :: "bytes \<Rightarrow> static_explanation list res"
  en_encode_explanations :: "explanation_file \<Rightarrow> bytes res"
  en_faults :: write_faults
  en_temp :: bytes
  en_version :: bytes
  en_platform :: bytes

definition store :: "(bytes \<times> bytes) list \<Rightarrow> 's world \<Rightarrow> 's world" where
  "store files w = w\<lparr>wd_files := foldl (\<lambda>d (path, b). d(path \<mapsto> b)) (wd_files w) files\<rparr>"

definition say :: "bytes \<Rightarrow> 's world \<Rightarrow> 's world" where
  "say s w = w\<lparr>wd_out := wd_out w @ s\<rparr>"

text \<open>A command that prints its result.\<close>

definition printed :: "bytes res \<Rightarrow> 's world \<Rightarrow> 's world \<times> go_error option" where
  "printed r w = (case r of Inl e \<Rightarrow> (w, Some e) | Inr s \<Rightarrow> (say s w, None))"

section \<open>export-review\<close>

record export_flags =
  xf_base :: bytes
  xf_head :: bytes
  xf_root :: bytes
  xf_out :: bytes
  xf_snapshot :: bytes
  xf_verification :: bytes
  xf_explanations :: bytes
  xf_findings :: bytes

definition export_defaults :: export_flags where
  "export_defaults =
     \<lparr>xf_base = [], xf_head = ''HEAD'', xf_root = ''.'', xf_out = ''.px1-review'', xf_snapshot = [], xf_verification = [],
      xf_explanations = [], xf_findings = []\<rparr>"

definition export_flag_set :: "export_flags go_flag list" where
  "export_flag_set =
     [string_flag ''base'' (\<lambda>v x. x\<lparr>xf_base := v\<rparr>), string_flag ''head'' (\<lambda>v x. x\<lparr>xf_head := v\<rparr>),
      string_flag ''root'' (\<lambda>v x. x\<lparr>xf_root := v\<rparr>), string_flag ''out'' (\<lambda>v x. x\<lparr>xf_out := v\<rparr>),
      string_flag ''snapshot-out'' (\<lambda>v x. x\<lparr>xf_snapshot := v\<rparr>),
      string_flag ''verification-file'' (\<lambda>v x. x\<lparr>xf_verification := v\<rparr>),
      string_flag ''explanations-file'' (\<lambda>v x. x\<lparr>xf_explanations := v\<rparr>),
      string_flag ''findings-file'' (\<lambda>v x. x\<lparr>xf_findings := v\<rparr>)]"

definition write_report :: "'s environment \<Rightarrow> bytes \<Rightarrow> static_report \<Rightarrow> written" where
  "write_report env out r =
     write_static_review_report (render_static_review_html (en_page env) (en_base64 env) (en_asset env) (en_encode env))
       (en_encode_indent env) (lb_sha (en_library env)) (en_mkdir env out) (en_write env) out r"

definition export_review :: "'s environment \<Rightarrow> export_flags \<Rightarrow> 's world \<Rightarrow> 's world \<times> go_error option" where
  "export_review env x w =
     (if blank (xf_base x) then (w, Some (Msg ''export-review requires --base''))
      else (case en_absolute env (xf_root x) of
        Inl e \<Rightarrow> (w, Some (Wrapped ''resolve root: %w'' [] e))
      | Inr folder \<Rightarrow>
     (case en_absolute env (xf_out x) of
        Inl e \<Rightarrow> (w, Some (Wrapped ''resolve output: %w'' [] e))
      | Inr out \<Rightarrow>
     (case generate_static_review (en_library env) (en_git env folder) folder (xf_base x) (xf_head x)
             \<lparr>op_verification_file = xf_verification x, op_explanations_file = xf_explanations x, op_findings_file = xf_findings x\<rparr> of
        Inl e \<Rightarrow> (w, Some e)
      | Inr r \<Rightarrow>
     (case write_report env out r of
        (files, Some e) \<Rightarrow> (store files w, Some e)
      | (files, None) \<Rightarrow>
     (case (if xf_snapshot x = [] then ([], None)
            else write_static_review_snapshot (en_encode_indent env) (en_mkdir env (dir (xf_snapshot x))) (en_write env) (xf_snapshot x) r) of
        (extra, Some e) \<Rightarrow> (store (files @ extra) w, Some e)
      | (extra, None) \<Rightarrow>
          (say (''static review report written to '' @ path_join out ''index.html'' @ newline) (store (files @ extra) w), None)))))))"

definition run_export_review :: "'s environment \<Rightarrow> bytes list \<Rightarrow> 's world \<Rightarrow> 's world \<times> go_error option" where
  "run_export_review env args w =
     (case parse_flags export_flag_set args export_defaults of
        Inl e \<Rightarrow> (w, Some e)
      | Inr (x, left) \<Rightarrow> export_review env x w)"

section \<open>generate-explanations\<close>

record explain_flags =
  gx_base :: bytes
  gx_head :: bytes
  gx_root :: bytes
  gx_out :: bytes
  gx_model :: bytes
  gx_endpoint :: bytes
  gx_exclude :: "bytes list"

definition default_responses_endpoint :: bytes where
  "default_responses_endpoint = ''https://api.openai.com/v1/responses''"

definition explain_defaults :: explain_flags where
  "explain_defaults =
     \<lparr>gx_base = [], gx_head = ''HEAD'', gx_root = ''.'', gx_out = ''px1-explanations.json'', gx_model = [],
      gx_endpoint = default_responses_endpoint, gx_exclude = []\<rparr>"

definition explain_flag_set :: "explain_flags go_flag list" where
  "explain_flag_set =
     [string_flag ''base'' (\<lambda>v x. x\<lparr>gx_base := v\<rparr>), string_flag ''head'' (\<lambda>v x. x\<lparr>gx_head := v\<rparr>),
      string_flag ''root'' (\<lambda>v x. x\<lparr>gx_root := v\<rparr>), string_flag ''out'' (\<lambda>v x. x\<lparr>gx_out := v\<rparr>),
      string_flag ''model'' (\<lambda>v x. x\<lparr>gx_model := v\<rparr>), string_flag ''endpoint'' (\<lambda>v x. x\<lparr>gx_endpoint := v\<rparr>),
      \<lparr>fl_name = ''exclude-glob'', fl_bool = False,
       fl_set = (\<lambda>v x. map_sum id (\<lambda>gs. x\<lparr>gx_exclude := gs\<rparr>) (add_exclude_glob (gx_exclude x) v))\<rparr>]"

definition run_generate_explanations :: "'s environment \<Rightarrow> bytes list \<Rightarrow> 's world \<Rightarrow> 's world \<times> go_error option" where
  "run_generate_explanations env args w =
     (case parse_flags explain_flag_set args explain_defaults of
        Inl e \<Rightarrow> (w, Some e)
      | Inr (x, left) \<Rightarrow>
          if blank (gx_base x) \<or> blank (gx_model x) then (w, Some (Msg ''generate-explanations requires --base and --model''))
          else let api_key = trim_space (en_api_key env) in
            if api_key = [] then (w, Some (Msg ''generate-explanations requires OPENAI_API_KEY''))
            else (case en_absolute env (gx_root x) of
               Inl e \<Rightarrow> (w, Some (Wrapped ''resolve root: %w'' [] e))
             | Inr folder \<Rightarrow>
            (case generate_explanations
                    (request_explanations (en_encode_request env) (en_url_error env) (en_answer env) (en_explanations env)
                       \<lparr>eg_client = Some (en_send env), eg_endpoint = trim_space (gx_endpoint x), eg_api_key = api_key,
                        eg_model = trim_space (gx_model x)\<rparr>)
                    (en_git env folder) (gx_base x) (gx_head x) (gx_exclude x) (wd_model w) of
               (s, Inl e) \<Rightarrow> (w\<lparr>wd_model := s\<rparr>, Some e)
             | (s, Inr f) \<Rightarrow>
            (case write_explanation_file (en_encode_explanations env) (en_faults env) (en_temp env) (gx_out x) f (wd_files w) of
               (d, Some e) \<Rightarrow> (w\<lparr>wd_model := s, wd_files := d\<rparr>, Some e)
             | (d, None) \<Rightarrow>
                 (say (''commit-pinned explanations written to '' @ gx_out x @ newline) (w\<lparr>wd_model := s, wd_files := d\<rparr>), None)))))"

section \<open>The other commands\<close>

definition run_validate_config :: "'s environment \<Rightarrow> bytes list \<Rightarrow> 's world \<Rightarrow> 's world \<times> go_error option" where
  "run_validate_config env args w =
     (case parse_flags [string_flag ''root'' (\<lambda>v x. (v, snd x)), string_flag ''path'' (\<lambda>v x. (fst x, v))] args (''.'', ''README.md'') of
        Inl e \<Rightarrow> (w, Some e)
      | Inr ((folder, target), left) \<Rightarrow>
          if left \<noteq> [] then (w, Some (Msg ''validate-config does not accept positional arguments''))
          else (case validate_config (en_decode_config env) (\<lambda>k. en_read_optional env (path_join folder k)) target of
             Inl e \<Rightarrow> (w, Some e)
           | Inr resolved \<Rightarrow> printed (map_sum id (\<lambda>b. b @ newline) (en_encode_config env resolved)) w))"

definition run_validate_rules :: "'s environment \<Rightarrow> bytes list \<Rightarrow> 's world \<Rightarrow> 's world \<times> go_error option" where
  "run_validate_rules env args w =
     (case parse_flags [string_flag ''file'' (\<lambda>v x. (v, snd x)), bool_flag ''json'' (\<lambda>b x. (fst x, b))] args (rule_team_file, False) of
        Inl e \<Rightarrow> (w, Some e)
      | Inr ((path, json), left) \<Rightarrow>
          if left \<noteq> [] then (w, Some (Msg ''validate-rules does not accept positional arguments''))
          else let lib = en_library env in
            (case validate_rules_path (lb_unicode lib) (lb_compile lib) (lb_rules lib) (en_absolute env) (lb_read_file lib) path of
               Inl e \<Rightarrow> (w, Some e)
             | Inr v \<Rightarrow> printed (validate_rules_output (en_encode_rules env) json v) w))"

definition run_privacy_check :: "'s environment \<Rightarrow> bytes list \<Rightarrow> 's world \<Rightarrow> 's world \<times> go_error option" where
  "run_privacy_check env args w =
     (case parse_flags [string_flag ''review-file'' (\<lambda>v x. v)] args [] of
        Inl e \<Rightarrow> (w, Some e)
      | Inr (review_file, left) \<Rightarrow>
          printed (privacy_check (lb_unicode (en_library env)) (lb_read_file (en_library env))
            (\<lambda>b. map_sum id sr_files (en_decode_report env b)) review_file) w)"

record comment_flags =
  kf_review_file :: bytes
  kf_artifact_url :: bytes
  kf_out :: bytes

definition run_summary_comment :: "'s environment \<Rightarrow> bytes list \<Rightarrow> 's world \<Rightarrow> 's world \<times> go_error option" where
  "run_summary_comment env args w =
     (case parse_flags
             [string_flag ''review-file'' (\<lambda>v x. x\<lparr>kf_review_file := v\<rparr>), string_flag ''artifact-url'' (\<lambda>v x. x\<lparr>kf_artifact_url := v\<rparr>),
              string_flag ''out'' (\<lambda>v x. x\<lparr>kf_out := v\<rparr>)]
             args \<lparr>kf_review_file = [], kf_artifact_url = [], kf_out = []\<rparr> of
        Inl e \<Rightarrow> (w, Some e)
      | Inr (x, left) \<Rightarrow>
          (case summary_comment (lb_parse_url (en_library env)) (lb_read_file (en_library env)) (en_decode_report env)
                  (kf_review_file x) (kf_artifact_url x) of
             Inl e \<Rightarrow> (w, Some e)
           | Inr body \<Rightarrow>
               if kf_out x = [] then (say body w, None)
               else (case en_write env (kf_out x) of
                  Some e \<Rightarrow> (w, Some (Wrapped ''write summary comment: %w'' [] e))
                | None \<Rightarrow> (store [(kf_out x, body)] w, None))))"

section \<open>The program\<close>

text \<open>The exit status, and what \<open>fatal\<close> reports.\<close>

definition px1_commands :: "'s environment \<Rightarrow> (bytes \<times> (bytes list \<Rightarrow> 's world \<Rightarrow> 's world \<times> go_error option)) list" where
  "px1_commands env =
     [(''validate-config'', run_validate_config env), (''privacy-check'', run_privacy_check env),
      (''summary-comment'', run_summary_comment env), (''validate-rules'', run_validate_rules env),
      (''generate-explanations'', run_generate_explanations env), (''export-review'', run_export_review env)]"

definition px1_main :: "'s environment \<Rightarrow> bytes list \<Rightarrow> 's world \<Rightarrow> 's world \<times> int \<times> go_error option" where
  "px1_main env args w =
     (case args of
        program # name # rest \<Rightarrow>
          (case map_of (px1_commands env) name of
             Some run \<Rightarrow> (case run rest w of (w', None) \<Rightarrow> (w', 0, None) | (w', Some e) \<Rightarrow> (w', 1, Some e))
           | None \<Rightarrow>
               if rest = [] \<and> name \<in> {''version'', ''--version'', ''-v''}
               then (say (''px1 '' @ en_version env @ '' ('' @ en_platform env @ '')'' @ newline) w, 0, None)
               else (w, 2, None))
      | _ \<Rightarrow> (w, 2, None))"

section \<open>The exporter\<close>

definition export_args :: "export_request \<Rightarrow> bytes \<Rightarrow> bytes list" where
  "export_args r out =
     [''export-review'', ''--root'', er_root r, ''--base'', er_base_sha r, ''--head'', er_head_sha r, ''--out'', out]"

definition cli_export ::
    "('s \<Rightarrow> bytes \<Rightarrow> bytes list \<Rightarrow> 's \<times> go_error option) \<Rightarrow> bytes res \<Rightarrow> bytes \<Rightarrow> 's \<Rightarrow> export_request \<Rightarrow> bytes
     \<Rightarrow> 's \<times> go_error option" where
  "cli_export process executable binary s r out =
     (case (if binary = [] then executable else Inr binary) of
        Inl e \<Rightarrow> (s, Some e)
      | Inr program \<Rightarrow>
          (case process s program (export_args r out) of
             (s', Some e) \<Rightarrow> (s', Some (Wrapped ''export static report: %w'' [] e))
           | (s', None) \<Rightarrow> (s', None)))"

text \<open>A process that is this program: it fails when its exit status is not zero.\<close>

definition px1_process :: "'s environment \<Rightarrow> 's world \<Rightarrow> bytes \<Rightarrow> bytes list \<Rightarrow> 's world \<times> go_error option" where
  "px1_process env w program args =
     (case px1_main env (program # args) w of (w', code, _) \<Rightarrow> (w', if code = 0 then None else Some (MsgNum ''exit status %d'' [code])))"

definition requested_flags :: "export_request \<Rightarrow> bytes \<Rightarrow> export_flags" where
  "requested_flags r out =
     export_defaults\<lparr>xf_root := er_root r, xf_base := er_base_sha r, xf_head := er_head_sha r, xf_out := out\<rparr>"

lemma export_flag_known:
  "read_argument ''--base'' = Flagged ''base'' None" "read_argument ''--head'' = Flagged ''head'' None"
  "read_argument ''--root'' = Flagged ''root'' None" "read_argument ''--out'' = Flagged ''out'' None"
  by code_simp+

lemma export_args_parse: "parse_flags export_flag_set (tl (export_args r out)) export_defaults = Inr (requested_flags r out, [])"
  by (simp add: export_args_def export_flag_known export_flag_set_def string_flag_def requested_flags_def)

lemma px1_export: "px1_main env (program # ''export-review'' # args) w =
    (case run_export_review env args w of (w', None) \<Rightarrow> (w', 0, None) | (w', Some e) \<Rightarrow> (w', 1, Some e))"
  by (simp add: px1_main_def px1_commands_def)

lemma px1_status: "px1_main env args w = (w', code, e) \<Longrightarrow> code \<in> {0, 1, 2} \<and> (code = 1 \<longleftrightarrow> e \<noteq> None)"
  by (auto simp: px1_main_def split: list.splits option.splits prod.splits if_splits)

text \<open>
  The exporter has exactly the request carried out, whatever the values look like: each one stands
  after its own flag and none is read as a flag. A failure of the command is the exit status 1.
\<close>

theorem exporter_runs_request:
  assumes "(if binary = [] then executable else Inr binary) = Inr program"
    and "export_review env (requested_flags r out) w = (w', e)"
  shows "cli_export (px1_process env) executable binary w r out =
    (w', map_option (\<lambda>_. Wrapped ''export static report: %w'' [] (MsgNum ''exit status %d'' [1])) e)"
proof -
  have "run_export_review env (tl (export_args r out)) w = (w', e)"
    using assms(2) by (simp only: run_export_review_def export_args_parse sum.case prod.case)
  then have "px1_main env (program # export_args r out) w = (w', if e = None then 0 else 1, e)"
    using px1_export [of env program "tl (export_args r out)" w] by (cases e) (simp_all add: export_args_def)
  then have "px1_process env w program (export_args r out) = (w', map_option (\<lambda>_. MsgNum ''exit status %d'' [1]) e)"
    by (cases e) (simp_all add: px1_process_def)
  then show ?thesis using assms(1) by (cases e) (simp_all add: cli_export_def)
qed

text \<open>
  From the request to the store: when publishing with this exporter returns keys, the temporary
  directory holds the report that was generated for the root, base and head of the request, with no
  attached file, and all of it was written.
\<close>

theorem published_bundle_is_requested_export:
  assumes "publish_bundle digest fs \<lparr>rb_exporter = Some (cli_export (px1_process env) executable binary), rb_store = Some put,
      rb_max_bundle_bytes = limit\<rparr> owner repo request w = (w', Inr keys)"
  shows "\<exists>w1 d folder out report files. fy_mkdir_temp fs w = (w1, Inr d)
    \<and> en_absolute env (er_root request) = Inr folder \<and> en_absolute env d = Inr out
    \<and> generate_static_review (en_library env) (en_git env folder) folder (er_base_sha request) (er_head_sha request)
         \<lparr>op_verification_file = [], op_explanations_file = [], op_findings_file = []\<rparr> = Inr report
    \<and> write_report env out report = (files, None)"
proof -
  obtain w1 d where made: "fy_mkdir_temp fs w = (w1, Inr d)"
    using assms by (auto simp: publish_bundle_def split: if_splits prod.splits sum.splits)
  obtain w2 where exported: "cli_export (px1_process env) executable binary w1 request d = (w2, None)"
    using assms made by (auto simp: publish_bundle_def split: if_splits prod.splits sum.splits option.splits)
  then obtain program where program: "(if binary = [] then executable else Inr binary) = Inr program"
    by (auto simp: cli_export_def split: sum.splits)
  obtain w3 e where run: "export_review env (requested_flags request d) w1 = (w3, e)" by fastforce
  have "e = None" using exporter_runs_request [OF program run] exported by simp
  then show ?thesis using run made
    by (auto simp: export_review_def requested_flags_def export_defaults_def split: if_splits sum.splits prod.splits option.splits)
qed

text \<open>
  An argument that is not a flag ends them: \<open>export-review\<close> takes the head named after it for no flag at
  all, reviews \<open>HEAD\<close> and succeeds, where \<open>validate-config\<close> refuses.
\<close>

lemma export_review_drops_late_flags:
  "run_export_review env [''--base'', b, ''extra'', ''--head'', h] w = export_review env (export_defaults\<lparr>xf_base := b\<rparr>) w"
proof -
  have "read_argument ''extra'' = Positional" by code_simp
  then have "parse_flags export_flag_set [''--base'', b, ''extra'', ''--head'', h] export_defaults
      = Inr (export_defaults\<lparr>xf_base := b\<rparr>, [''extra'', ''--head'', h])"
    by (simp add: export_flag_known export_flag_set_def string_flag_def)
  then show ?thesis by (simp only: run_export_review_def sum.case prod.case)
qed

lemma validate_config_refuses_positional:
  "run_validate_config env [''extra''] w = (w, Some (Msg ''validate-config does not accept positional arguments''))"
proof -
  have "read_argument ''extra'' = Positional" by code_simp
  then show ?thesis by (simp add: run_validate_config_def)
qed

end
