(* ===== verification/Spec2Isabelle.thy ===== *)
theory Spec2Isabelle
  imports Findings Ranking Delivery Addressed Confidence Llm Verifier Blocks Indexing Incremental
    Chunker Overlay Tools Billing Margin Webhooks Learning Proposals GoGlob
    Queue Resolve Diagram Context RefFiles Evidence Summary
    Language Embedding Config
    GithubClient Commands Access Bundle
    ReportOutput
    Eval Settings Hosting
    Sticky Gitlab Issues Slack Providers CommandLine
begin

text \<open>
  A verification development for px1, a code reviewer in Go: a command that exports a static
  report of a change and a hosted service (\<open>internal/hosted\<close>) that indexes repositories, asks
  language models to review pull requests, verifies, ranks and delivers their findings, learns
  from the reaction, and bills for the work. The development models both, from the command line and
  the webhooks to the requests sent to GitHub, GitLab, Slack, the trackers and the model providers;
  each theory below is one or a few Go files, with a definition per type, constant, function or
  loop, in the order of the file.

  \<^bold>\<open>Parts and theories.\<close>

  \<^item> Foundations: \<open>Prelude\<close> (errors, 64-bit wrap-around, the contract of Go's comparison
    functions as the locale \<open>weak_order\<close>, sorting and first-occurrence loops), \<open>GoStd\<close> (package
    \<open>strings\<close>, decimal printing and parsing), \<open>GoPath\<close> (\<open>path.Clean\<close> and its kin), \<open>GoGlob\<close>
    (\<open>path.Match\<close>), \<open>GoTime\<close>, \<open>Utf8\<close> (package \<open>utf8\<close>),
    \<open>GoHttp\<close> (requests, \<open>url.PathEscape\<close>, base64). They model the parts of Go's library the source calls.
  \<^item> \<open>indexer\<close>: \<open>Indexing\<close> (\<open>limits.go\<close>, \<open>reindex.go\<close>) decides what is indexed and what changed;
    \<open>Chunker\<close> (\<open>chunk.go\<close>) splits files into chunks; \<open>Language\<close> (\<open>language.go\<close>) detects languages and falls back to windows of lines;
    \<open>Embedding\<close> (\<open>embed.go\<close>, \<open>summary.go\<close>) embeds chunks in batches and summarises files.
  \<^item> \<open>graph\<close>: \<open>Resolve\<close> (\<open>resolve.go\<close>) links references to symbols; \<open>Incremental\<close> (\<open>incremental.go\<close>,
    which calls \<open>Indexing.plan_reindex\<close>) and \<open>Overlay\<close> (\<open>overlay.go\<close>) keep the symbol graph up to date
    with a branch and a pull request; \<open>Tools\<close> (\<open>tools.go\<close>) traverses it; \<open>Diagram\<close> (\<open>diagram.go\<close>)
    draws a slice of it.
  \<^item> \<open>llm\<close>: \<open>Llm\<close> (\<open>gateway.go\<close>) is the gateway every model call passes: cache, retries, cost records;
    \<open>Providers\<close> (\<open>providers.go\<close>) builds the requests of OpenAI, Anthropic and Bedrock and reads their answers.
  \<^item> \<open>review\<close>: \<open>Context\<close> (\<open>context.go\<close>, \<open>cross_repo.go\<close>, \<open>blast_radius.go\<close>, over \<open>Tools\<close>), \<open>RefFiles\<close>
    (\<open>reference_files.go\<close>) and \<open>Evidence\<close> (\<open>requirements.go\<close>, \<open>provenance.go\<close>) gather and check what
    backs a review; \<open>Findings\<close> (\<open>finding.go\<close>) decodes model output, \<open>Verifier\<close> (\<open>verifier.go\<close>, over \<open>Llm\<close>)
    filters it, \<open>Ranking\<close> (\<open>rank.go\<close>) orders and caps it, \<open>Delivery\<close> (\<open>line_map.go\<close>, \<open>rereview.go\<close>) maps it
    to the diff and to earlier reviews, \<open>Addressed\<close> (\<open>addressed.go\<close>) sees what a merge settled,
    \<open>Blocks\<close> (\<open>blocks.go\<close>) groups changed files, \<open>Confidence\<close> (\<open>confidence.go\<close>) scores the review and
    \<open>Summary\<close> (\<open>summary.go\<close>) renders it.
  \<^item> \<open>learning\<close>: \<open>Learning\<close> (\<open>suppression.go\<close>, \<open>memory.go\<close>, \<open>catalog.go\<close>, \<open>metrics.go\<close>), \<open>Proposals\<close>
    (\<open>inference.go\<close>) and \<open>Queue\<close> (\<open>proposal_queue.go\<close>, \<open>replies.go\<close>).
  \<^item> \<open>githubapp\<close>: \<open>Tokens\<close> (\<open>client.go\<close>) is the cache of installation tokens as a step relation over
    any interleaving of its callers, \<open>GithubClient\<close> (\<open>client.go\<close>) the retrying client and the minter,
    \<open>Commands\<close> (\<open>commands.go\<close>, \<open>remember.go\<close>, \<open>forget.go\<close>, \<open>reactions.go\<close>) what users say to the bot,
    \<open>Publishers\<close> (\<open>checks.go\<close>, \<open>review.go\<close>) and \<open>Sticky\<close> (\<open>summary.go\<close>) the check runs, reviews and the summary it posts.
  \<^item> \<open>scm\<close>, \<open>gitlab\<close> and \<open>integrations\<close>: \<open>Scm\<close> (\<open>scm/provider.go\<close>) is the interface of a code host with GitHub as one
    provider, \<open>Gitlab\<close> (\<open>gitlab/provider.go\<close>) the other; \<open>Issues\<close> (\<open>issues.go\<close>) reads the issues a change names and
    \<open>Slack\<close> (\<open>slack.go\<close>) talks to a workspace.
  \<^item> \<open>report\<close>: \<open>Access\<close> (\<open>access.go\<close>) decides who reads a report, \<open>Bundle\<close> (\<open>publish.go\<close>) uploads it.
  \<^item> The static report: \<open>Config\<close> (\<open>config_cascade.go\<close>, \<open>validate_config.go\<close>) resolves the configuration
    files from the root of a repository to a file; \<open>Rules\<close> (\<open>artifact_rules.go\<close>, \<open>validate_rules.go\<close>)
    validates team rules and their globs; \<open>ReportGit\<close> (\<open>artifact_git.go\<close>) runs git; \<open>Diffs\<close>, \<open>RuleHits\<close> and
    \<open>ReportFiles\<close> (\<open>export.go\<close>) read its diff into hunks, added lines, contexts, hits and files;
    \<open>Attention\<close> (\<open>attention.go\<close>, \<open>export_render.go\<close>) and \<open>Inspection\<close> (\<open>inspection_questions.go\<close>,
    \<open>privacy.go\<close>) raise signals, questions and privacy risks with the regular expressions of \<open>GoRegex\<close>;
    \<open>Explanations\<close> (\<open>explanations.go\<close>, \<open>explanation_generate.go\<close>) asks a model for notes and checks them;
    \<open>Report\<close> (\<open>export.go\<close>, \<open>verification.go\<close>) composes the report and \<open>ReportOutput\<close> (\<open>export_render.go\<close>,
    \<open>summary_comment.go\<close>) writes it. \<open>CommandLine\<close> (\<open>main.go\<close> and the \<open>run\<close> functions) is the program with its six
    commands and their flags, and the exporter that \<open>Bundle\<close> runs as a subprocess.
  \<^item> \<open>billing\<close> and \<open>webhook\<close>: \<open>Billing\<close> (\<open>ledger.go\<close>, \<open>gate.go\<close>), \<open>Margin\<close> (\<open>margin.go\<close>, \<open>oss.go\<close>),
    \<open>Webhooks\<close> (\<open>handler.go\<close>, \<open>stripe.go\<close>).
  \<^item> \<open>analytics\<close> and \<open>eval\<close>: \<open>Analytics\<close> (\<open>events.go\<close>) rolls events up by day and dimension; \<open>Eval\<close>
    (\<open>dataset.go\<close>, \<open>harness.go\<close>, \<open>dogfood.go\<close>) validates benchmarks, scores runs and gates releases.
  \<^item> \<open>dashboard\<close>: \<open>Settings\<close> (\<open>auth.go\<close>, \<open>routes.go\<close>, \<open>settings.go\<close>), with what the cascade of \<open>Config\<close> makes of the
    file it writes. Around the service: \<open>Hosting\<close> (\<open>onboarding/demo.go\<close>, \<open>runtime/config.go\<close>, \<open>graph/scip.go\<close>,
    \<open>repository/clone.go\<close>).

  \<^bold>\<open>How the model corresponds to the code.\<close> A Go struct is a record, an enumeration a datatype. A
  function that returns \<open>(T, error)\<close> returns \<open>go_error + T\<close>; a method whose receiver or store acts on
  the outside world takes that state and returns it. Strings are lists of bytes. A Go map that is
  only read is a function, one that is ranged over is an association list or, where the code sorts
  the result, a set. Loops are structural recursion; \<open>Chunker.bisect\<close>, which can loop for ever, is a
  partial function with \<open>None\<close> for that; \<open>Llm.retry_loop\<close>, \<open>Summary.grow_fence\<close> and the loops of
  \<open>Utf8\<close> come with a measure. No other fuel is used. Integers are mathematical where the code's
  values are bounded by lengths or ids; where overflow matters they are wrapped explicitly
  (\<open>wrap64\<close>, in \<open>Indexing\<close>, \<open>Llm\<close>, \<open>Context\<close>) or are \<open>64 word\<close> (\<open>Billing\<close>). Floats are rationals: rounding is
  not modelled. Times are nanoseconds since the Unix epoch.

  \<^bold>\<open>Parameters.\<close> Code outside the repository is an argument: JSON decoding and encoding, SHA-256 and
  HMAC, \<open>url.Parse\<close>, Unicode tables, model providers, parsers, clocks, stores and publishers. The
  interfaces that several operations share are locales, interpreted on the repository's own
  instances: \<open>prompt_cache\<close> on \<open>MemoryCache\<close>, \<open>subadditive_counter\<close> on \<open>approximateCounter\<close>, \<open>scm_provider\<close> on
  both code hosts. The stores of the ledger and of the proposals are outside the repository; their contracts
  (\<open>ledger_contract\<close>, \<open>proposal_contract\<close>) say what an operation records when it works and let each call
  fail, with or without effect, and have a journal and a table of rows as instances.

  \<^bold>\<open>What is proved.\<close> Chunks concatenate to the file and, for ASCII text, chunking ends and every
  chunk respects its bound. Incremental planning refines a full re-index; resolution, grouping and traversal
  equal set-based references (unique candidate, connected component, bounded reachability).
  Under any sequence of ledger calls over any ledger that keeps the contract, each balance is what it was
  plus the signed credits of the calls that worked, each counted once; a rule proposal is published only
  through one claim, and is completed with the pull request that was opened or stays claimed. A bundle's
  uploads are the exported files in order, up to the first the store refuses. Nothing unverified,
  unauthentic or outside the repository gets through the
  decoders, the verifier and the webhooks. A static report is pinned to its head commit, its hunks give
  back the diff with the right line numbers, and its rule hits are exactly those of the active rules. Ranking, capping, mapping, suppression, coverage and
  context assembly are characterised by what they keep and drop. The lemmas also record where the
  code does not do what it means to: \<open>Chunker.chunk_file_hangs\<close>, \<open>Indexing.repository_limit_overflow\<close>,
  \<open>Overlay.overlay_keeps_deleted_call\<close>, \<open>Overlay.overlay_twin_symbols\<close>, \<open>Incremental.relink_can_name_deleted_path\<close>,
  \<open>Resolve.resolve_local_needs_extension\<close>, \<open>RefFiles.glob_prefix_is_literal\<close>, \<open>Llm.prompt_key_collision\<close>,
  \<open>Billing.settle_and_refund_pay_twice\<close>, \<open>Context.blast_radius_accepts_parent\<close>, \<open>Ranking.wordless_title_not_same\<close>,
  \<open>Tokens.leader_error_reaches_waiters\<close>, \<open>GithubClient.retry_after_overflow\<close>, \<open>Access.safe_redirect_backslash\<close>,
  \<open>Language.shebang_order_matters\<close>, \<open>Language.line_windows_phantom\<close>, \<open>Rules.non_ascii_glob_misses_its_file\<close>,
  \<open>Diffs.plus_plus_line_shifts_numbers\<close>, \<open>Explanations.excluded_content_leaks\<close>, \<open>Inspection.root_companion_missed\<close>,
  \<open>Attention.submodule_fails_analysis\<close>, \<open>Queue.failed_completion_left_publishing\<close>, \<open>Settings.saved_auto_review_breaks_cascade\<close>,
  \<open>Settings.cascade_strictness_floor\<close>, \<open>Hosting.blank_database_accepted\<close>, \<open>Eval.same_commit_other_case\<close>,
  \<open>Publishers.review_over_limit_refused\<close>, \<open>Gitlab.thousand_files_refused\<close>, \<open>Gitlab.gitlab_summary_one_page\<close>,
  \<open>Issues.checkboxes_unbounded\<close>, \<open>Issues.encoding_is_a_key\<close>, \<open>Issues.issue_key_unanchored\<close>, \<open>Slack.long_header_accepted\<close>,
  \<open>Providers.openai_ignores_temperature\<close>, \<open>Providers.openai_cached_tokens_charged_twice\<close>,
  \<open>CommandLine.export_review_drops_late_flags\<close>.

  \<^bold>\<open>Not modelled.\<close> The tree-sitter parsers and the queries of \<open>graph\<close>, telemetry, the start of the
  daemon (\<open>cmd/px1d/main.go\<close>), the text of the report's page and standard error: they are calls into
  libraries and the operating system, or text, with little logic of their own. Deadlines and cancellation
  are modelled only where the code acts on them, as for the callers that wait for a token.
\<close>

section \<open>Components together\<close>

text \<open>Billing and learning cut weeks at the same instant, by two different computations.\<close>

lemma weeks_agree: "start_of_utc_week t = utc_week t"
  by (simp only: start_of_utc_week_def utc_day_minus utc_week_eq weekday_shift)

end
